(* ===== verification/Prelude.thy ===== *)
theory Prelude
  imports Main "HOL-Library.Word" "HOL-Library.AList"
begin

text \<open>
  Shared vocabulary of the development: machine integers, byte order, fallible results,
  hash maps and time.

  \<^item> \<open>u8\<close> to \<open>u64\<close> are words of the code's width; an array \<open>[u8; N]\<close> is a byte list of
    that length, obtained with \<open>decode_fixed\<close>.
  \<^item> A Rust \<open>Result\<close> is \<open>'e + 'a\<close> with the error on the left; \<open>res_bind\<close> is the \<open>?\<close> operator.
  \<^item> A \<open>HashMap\<close> is an association list with distinct keys (\<open>hm_ok\<close>); the order of the
    list stands for the arbitrary iteration order of the map.
  \<^item> A monotonic \<open>Instant\<close> is a natural number of nanoseconds; the clock's reading is an
    argument of each operation that reads it. \<open>elapsed\<close> saturates, as the library's does.
\<close>

unbundle bit_operations_syntax

subsection \<open>Machine integers and byte order\<close>

type_synonym u8 = "8 word"
type_synonym u16 = "16 word"
type_synonym u32 = "32 word"
type_synonym u64 = "64 word"

type_synonym bytes = "u8 list"

text \<open>A Bluetooth address is the six bytes of \<open>bluer::Address\<close>.\<close>

type_synonym address = "u8 list"

named_theorems byte_order

definition be16_bytes :: "u16 \<Rightarrow> bytes" where
  "be16_bytes w = [ucast (drop_bit 8 w), ucast w]"

definition be16 :: "u8 \<Rightarrow> u8 \<Rightarrow> u16" where
  "be16 a b = push_bit 8 (ucast a) OR ucast b"

definition le16_bytes :: "u16 \<Rightarrow> bytes" where
  "le16_bytes w = [ucast w, ucast (drop_bit 8 w)]"

definition le16 :: "u8 \<Rightarrow> u8 \<Rightarrow> u16" where
  "le16 a b = be16 b a"

definition be32_bytes :: "u32 \<Rightarrow> bytes" where
  "be32_bytes w = [ucast (drop_bit 24 w), ucast (drop_bit 16 w), ucast (drop_bit 8 w), ucast w]"

definition be32 :: "u8 \<Rightarrow> u8 \<Rightarrow> u8 \<Rightarrow> u8 \<Rightarrow> u32" where
  "be32 a b c d =
     push_bit 24 (ucast a) OR push_bit 16 (ucast b) OR push_bit 8 (ucast c) OR ucast d"

definition le32_bytes :: "u32 \<Rightarrow> bytes" where
  "le32_bytes w = [ucast w, ucast (drop_bit 8 w), ucast (drop_bit 16 w), ucast (drop_bit 24 w)]"

definition le32 :: "u8 \<Rightarrow> u8 \<Rightarrow> u8 \<Rightarrow> u8 \<Rightarrow> u32" where
  "le32 a b c d = be32 d c b a"

lemma be16_round [byte_order]: "be16 (ucast (drop_bit 8 w)) (ucast w) = w"
  unfolding be16_def by (rule bit_word_eqI) (auto simp: bit_simps)

lemma be32_round [byte_order]:
  "be32 (ucast (drop_bit 24 w)) (ucast (drop_bit 16 w)) (ucast (drop_bit 8 w)) (ucast w) = w"
  unfolding be32_def
proof (rule bit_word_eqI)
  fix n
  assume "n < LENGTH(32)"
  then consider "n < 8" | "8 \<le> n \<and> n < 16" | "16 \<le> n \<and> n < 24" | "24 \<le> n \<and> n < 32"
    by fastforce
  then show "bit (push_bit 24 (ucast (ucast (drop_bit 24 w) :: u8)) OR
      push_bit 16 (ucast (ucast (drop_bit 16 w) :: u8)) OR
      push_bit 8 (ucast (ucast (drop_bit 8 w) :: u8)) OR ucast (ucast w :: u8) :: u32) n = bit w n"
    by cases (auto simp: bit_simps)
qed

lemma le16_round [byte_order]: "le16 (ucast w) (ucast (drop_bit 8 w)) = w"
  by (simp add: le16_def be16_round)

lemma le32_round [byte_order]:
  "le32 (ucast w) (ucast (drop_bit 8 w)) (ucast (drop_bit 16 w)) (ucast (drop_bit 24 w)) = w"
  by (simp add: le32_def be32_round)

lemma be32_bytes_be32 [byte_order]: "be32_bytes (be32 a b c d) = [a, b, c, d]"
proof -
  have "ucast (drop_bit 24 (be32 a b c d)) = a"
    unfolding be32_def by (rule bit_word_eqI) (auto simp: bit_simps dest: bit_imp_le_length)
  moreover have "ucast (drop_bit 16 (be32 a b c d)) = b"
    unfolding be32_def by (rule bit_word_eqI) (auto simp: bit_simps dest: bit_imp_le_length)
  moreover have "ucast (drop_bit 8 (be32 a b c d)) = c"
    unfolding be32_def by (rule bit_word_eqI) (auto simp: bit_simps dest: bit_imp_le_length)
  moreover have "ucast (be32 a b c d) = d"
    unfolding be32_def by (rule bit_word_eqI) (auto simp: bit_simps dest: bit_imp_le_length)
  ultimately show ?thesis by (simp add: be32_bytes_def)
qed

lemma length_byte_order [simp]:
  "length (be16_bytes w) = 2" "length (le16_bytes w) = 2"
  "length (be32_bytes v) = 4" "length (le32_bytes v) = 4"
  by (simp_all add: be16_bytes_def le16_bytes_def be32_bytes_def le32_bytes_def)

text \<open>\<open>try_from\<close> and \<open>saturating_add\<close>, \<open>checked_add\<close> on unsigned words.\<close>

definition word_try_from :: "nat \<Rightarrow> ('w::len) word option" where
  "word_try_from n = (if n < 2 ^ LENGTH('w) then Some (word_of_nat n) else None)"

definition saturating_inc :: "('w::len) word \<Rightarrow> 'w word" where
  "saturating_inc w = (if w = - 1 then w else w + 1)"

definition checked_inc :: "('w::len) word \<Rightarrow> 'w word option" where
  "checked_inc w = (if w = - 1 then None else Some (w + 1))"

lemma word_of_nat_unat [simp]: "word_of_nat (unat w) = w"
  by (simp add: word_eq_iff_unsigned unat_of_nat)

lemma unat_drop_bit_div: "unat (drop_bit n w) = unat w div 2 ^ n"
  by (subst unat_drop_bit_eq) (rule drop_bit_eq_div)

lemma unat_less_2_cases: "unat (w :: ('w::len) word) < 2 \<Longrightarrow> w = 0 \<or> w = 1"
proof -
  assume "unat w < 2"
  then consider "unat w = 0" | "unat w = 1" by linarith
  moreover have "w = word_of_nat (unat w)" by simp
  ultimately show ?thesis by cases auto
qed

lemma bit_less_exp:
  assumes "unat (w :: ('w::len) word) < 2 ^ n" and "bit w k"
  shows "k < n"
proof -
  from assms(2) have "bit (unat w) k" by (simp add: bit_unsigned_iff)
  then have "odd (unat w div 2 ^ k)" by (simp add: bit_iff_odd)
  then have "unat w div 2 ^ k \<noteq> 0" by (intro notI) simp
  then have "(2 :: nat) ^ k \<le> unat w" by (simp add: div_eq_0_iff)
  with assms(1) have "(2 :: nat) ^ k < 2 ^ n" by linarith
  then show ?thesis by simp
qed

lemma unat_less_width: "unat (w :: ('w::len) word) < 2 ^ LENGTH('w)"
  by (rule unsigned_less)

lemma word_try_from_code [code]:
  "word_try_from n = (let w = word_of_nat n :: ('w::len) word in if unat w = n then Some w else None)"
proof -
  have "unat (word_of_nat n :: 'w word) = n \<longleftrightarrow> n < 2 ^ LENGTH('w)"
    by (simp add: unsigned_of_nat take_bit_nat_eq_self_iff)
  then show ?thesis by (simp add: word_try_from_def Let_def)
qed

lemma word_try_from_Some: "word_try_from n = Some w \<Longrightarrow> unat w = n"
  by (auto simp: word_try_from_def unat_of_nat split: if_splits)

lemma unat_not_max_inc:
  fixes w :: "('w::len) word"
  assumes "w \<noteq> - 1"
  shows "unat (w + 1) = Suc (unat w)"
proof -
  from assms have "w + 1 \<noteq> 0"
    by (metis add_eq_0_iff add.commute)
  then show ?thesis by (metis add.commute unatSuc)
qed

lemma unat_inc_below:
  fixes w :: "('w::len) word"
  assumes "unat w + 1 < 2 ^ LENGTH('w)"
  shows "unat (w + 1) = Suc (unat w)"
proof (rule unat_not_max_inc)
  show "w \<noteq> - 1"
  proof
    assume "w = - 1"
    then have "unat w = 2 ^ LENGTH('w) - 1" by (simp only: unsigned_minus_1_eq_mask) (simp add: mask_eq_exp_minus_1)
    with assms show False by simp
  qed
qed

lemma unat_saturating_inc_le: "unat (saturating_inc w) \<le> Suc (unat w)"
  by (simp add: saturating_inc_def unat_not_max_inc)

lemma saturating_inc_ge: "unat w \<le> unat (saturating_inc w)"
  by (simp add: saturating_inc_def unat_not_max_inc)

lemma checked_inc_Some: "checked_inc w = Some v \<Longrightarrow> unat v = Suc (unat w)"
  by (auto simp: checked_inc_def unat_not_max_inc split: if_splits)

subsection \<open>Fallible results\<close>

fun res_bind :: "'e + 'a \<Rightarrow> ('a \<Rightarrow> 'e + 'b) \<Rightarrow> 'e + 'b" where
  "res_bind (Inl e) f = Inl e"
| "res_bind (Inr a) f = f a"

fun res_ok :: "'e + 'a \<Rightarrow> bool" where
  "res_ok (Inl e) = False"
| "res_ok (Inr a) = True"

fun option_err :: "'e \<Rightarrow> 'a option \<Rightarrow> 'e + 'a" where
  "option_err e None = Inl e"
| "option_err e (Some a) = Inr a"

text \<open>\<open>iter().collect::<Result<..>>\<close> over a list: the first error wins.\<close>

fun res_mapM :: "('a \<Rightarrow> 'e + 'b) \<Rightarrow> 'a list \<Rightarrow> 'e + 'b list" where
  "res_mapM f [] = Inr []"
| "res_mapM f (x # xs) = res_bind (f x) (\<lambda>y. res_bind (res_mapM f xs) (\<lambda>ys. Inr (y # ys)))"

lemma res_bind_Inr [simp]: "res_bind m f = Inr b \<longleftrightarrow> (\<exists>a. m = Inr a \<and> f a = Inr b)"
  by (cases m) auto

lemma res_bind_Inl: "res_bind m f = Inl e \<longleftrightarrow> m = Inl e \<or> (\<exists>a. m = Inr a \<and> f a = Inl e)"
  by (cases m) auto

lemma option_err_Inr [simp]: "option_err e x = Inr a \<longleftrightarrow> x = Some a"
  by (cases x) auto

lemma option_err_Inl [simp]: "option_err e x = Inl e' \<longleftrightarrow> x = None \<and> e' = e"
  by (cases x) auto

lemma res_mapM_Inr: "res_mapM f xs = Inr ys \<Longrightarrow> list_all2 (\<lambda>x y. f x = Inr y) xs ys"
  by (induction xs arbitrary: ys) auto

subsection \<open>Hash maps\<close>

type_synonym ('k, 'v) hmap = "('k \<times> 'v) list"

definition hm_ok :: "('k, 'v) hmap \<Rightarrow> bool" where
  "hm_ok m \<longleftrightarrow> distinct (map fst m)"

definition hm_get :: "('k, 'v) hmap \<Rightarrow> 'k \<Rightarrow> 'v option" where
  "hm_get m k = map_of m k"

definition hm_insert :: "'k \<Rightarrow> 'v \<Rightarrow> ('k, 'v) hmap \<Rightarrow> ('k, 'v) hmap" where
  "hm_insert k v m = AList.update k v m"

definition hm_remove :: "'k \<Rightarrow> ('k, 'v) hmap \<Rightarrow> ('k, 'v) hmap" where
  "hm_remove k m = AList.delete k m"

definition hm_retain :: "('k \<Rightarrow> 'v \<Rightarrow> bool) \<Rightarrow> ('k, 'v) hmap \<Rightarrow> ('k, 'v) hmap" where
  "hm_retain p m = filter (\<lambda>(k, v). p k v) m"

definition hm_map_values :: "('k \<Rightarrow> 'v \<Rightarrow> 'v) \<Rightarrow> ('k, 'v) hmap \<Rightarrow> ('k, 'v) hmap" where
  "hm_map_values f m = map (\<lambda>(k, v). (k, f k v)) m"

lemmas hm_defs = hm_get_def hm_insert_def hm_remove_def hm_retain_def hm_map_values_def hm_ok_def

lemma hm_get_insert [simp]: "hm_get (hm_insert k v m) k' = (if k' = k then Some v else hm_get m k')"
  by (simp add: hm_defs update_conv')

lemma hm_get_remove [simp]: "hm_get (hm_remove k m) k' = (if k' = k then None else hm_get m k')"
  by (simp add: hm_defs delete_conv')

lemma hm_get_empty [simp]: "hm_get [] k = None"
  by (simp add: hm_get_def)

lemma hm_ok_empty [simp, intro]: "hm_ok []"
  by (simp add: hm_ok_def)

lemma hm_ok_insert [simp, intro]: "hm_ok m \<Longrightarrow> hm_ok (hm_insert k v m)"
  by (simp add: hm_defs distinct_update)

lemma hm_ok_remove [simp, intro]: "hm_ok m \<Longrightarrow> hm_ok (hm_remove k m)"
  by (simp add: hm_defs distinct_delete)

lemma hm_ok_retain [simp, intro]: "hm_ok m \<Longrightarrow> hm_ok (hm_retain p m)"
  unfolding hm_defs by (induction m) auto

lemma map_fst_hm_map_values [simp]: "map fst (hm_map_values f m) = map fst m"
  by (induction m) (auto simp: hm_map_values_def)

lemma hm_ok_map_values [simp]: "hm_ok (hm_map_values f m) \<longleftrightarrow> hm_ok m"
  by (simp only: hm_ok_def map_fst_hm_map_values)

lemma hm_get_map_values [simp]: "hm_get (hm_map_values f m) k = map_option (f k) (hm_get m k)"
  by (induction m) (auto simp: hm_get_def hm_map_values_def)

lemma hm_get_None_notin: "hm_get m k = None \<longleftrightarrow> k \<notin> fst ` set m"
  by (simp add: hm_get_def map_of_eq_None_iff)

lemma hm_get_retain [simp]:
  assumes "hm_ok m"
  shows "hm_get (hm_retain p m) k =
    (case hm_get m k of None \<Rightarrow> None | Some v \<Rightarrow> if p k v then Some v else None)"
  using assms
proof (induction m)
  case Nil
  then show ?case by (simp add: hm_retain_def)
next
  case (Cons a m)
  then have "k = fst a \<Longrightarrow> hm_get m k = None"
    by (simp add: hm_ok_def hm_get_None_notin)
  with Cons show ?case
    by (cases a) (auto simp: hm_retain_def hm_get_def hm_ok_def split: option.splits)
qed

lemma hm_in_set: "hm_ok m \<Longrightarrow> (k, v) \<in> set m \<longleftrightarrow> hm_get m k = Some v"
  by (simp add: hm_defs)

lemma hm_length_insert: "length (hm_insert k v m) = (if hm_get m k = None then Suc (length m) else length m)"
  by (induction m) (auto simp: hm_defs)

lemma hm_length_remove: "hm_ok m \<Longrightarrow> hm_get m k \<noteq> None \<Longrightarrow> Suc (length (hm_remove k m)) = length m"
proof (induction m)
  case Nil
  then show ?case by (simp add: hm_get_def)
next
  case (Cons a m)
  show ?case
  proof (cases "k = fst a")
    case True
    with Cons.prems have "k \<notin> fst ` set m" by (auto simp: hm_ok_def)
    then have "AList.delete k m = m" by (simp add: delete_idem)
    with True show ?thesis by (cases a) (simp add: hm_remove_def)
  next
    case False
    with Cons show ?thesis by (cases a) (auto simp: hm_defs)
  qed
qed

lemma hm_length_remove_le: "length (hm_remove k m) \<le> length m"
  by (simp add: hm_remove_def length_delete_le)

lemma hm_length_retain_le: "length (hm_retain p m) \<le> length m"
  by (simp add: hm_retain_def)

lemma hm_insert_set: "set (hm_insert k v m) \<subseteq> insert (k, v) (set m)"
  by (induction m) (auto simp: hm_insert_def)

lemma hm_retain_set: "set (hm_retain p m) \<subseteq> set m"
  by (auto simp: hm_retain_def)

lemma hm_remove_set: "set (hm_remove k m) \<subseteq> set m"
  by (auto simp: hm_remove_def AList.delete_eq)

subsection \<open>Time\<close>

type_synonym instant = nat

definition millis :: "nat \<Rightarrow> nat" where "millis n = n * 1000000"

definition secs :: "nat \<Rightarrow> nat" where "secs n = millis (n * 1000)"

definition elapsed :: "instant \<Rightarrow> instant \<Rightarrow> nat" where
  "elapsed now start = now - start"

lemma secs_mono [simp]: "secs a \<le> secs b \<longleftrightarrow> a \<le> b"
  by (simp add: secs_def millis_def)

lemma secs_strict_mono [simp]: "secs a < secs b \<longleftrightarrow> a < b"
  by (simp add: secs_def millis_def)

subsection \<open>Decimal numbers\<close>

text \<open>Digits as \<open>format!("{n}")\<close> prints them, and their value as \<open>str::parse\<close> reads it.\<close>

fun decimal :: "nat \<Rightarrow> string" where
  "decimal n = (if n < 10 then [char_of (48 + n)] else decimal (n div 10) @ [char_of (48 + n mod 10)])"

declare decimal.simps [simp del]

fun undecimal :: "nat \<Rightarrow> string \<Rightarrow> nat" where
  "undecimal acc [] = acc"
| "undecimal acc (d # ds) = undecimal (10 * acc + (of_char d - 48)) ds"

definition is_digit :: "char \<Rightarrow> bool" where
  "is_digit c \<longleftrightarrow> 48 \<le> (of_char c :: nat) \<and> (of_char c :: nat) \<le> 57"

lemma of_char_digit: "k < 10 \<Longrightarrow> of_char (char_of (48 + k) :: char) = (48 + k :: nat)"
  by (simp add: take_bit_nat_eq_self)

lemma undecimal_append: "undecimal acc (xs @ ys) = undecimal (undecimal acc xs) ys"
  by (induction xs arbitrary: acc) auto

lemma undecimal_decimal [simp]: "undecimal 0 (decimal n) = n"
proof (induction n rule: decimal.induct)
  case (1 n)
  show ?case
  proof (cases "n < 10")
    case True
    then show ?thesis using of_char_digit by (simp add: decimal.simps [of n])
  next
    case False
    then show ?thesis using 1 of_char_digit [of "n mod 10"] by (simp add: decimal.simps [of n] undecimal_append)
  qed
qed

lemma decimal_digits: "decimal n \<noteq> [] \<and> list_all is_digit (decimal n)"
proof (induction n rule: decimal.induct)
  case (1 n)
  have d: "is_digit (char_of (48 + k))" if "k < 10" for k :: nat
    using that of_char_digit [OF that] by (simp add: is_digit_def)
  show ?case using 1 d by (cases "n < 10") (simp_all add: decimal.simps [of n])
qed

lemma decimal_inj: "decimal m = decimal n \<longleftrightarrow> m = n"
  by (metis undecimal_decimal)

lemma decimal_unat_inj: "decimal (unat m) = decimal (unat n) \<longleftrightarrow> m = n"
  by (metis decimal_inj word_of_nat_unat)

lemma undecimal_bound:
  assumes "list_all is_digit ds"
  shows "undecimal acc ds < (acc + 1) * 10 ^ length ds"
  using assms
proof (induction ds arbitrary: acc)
  case (Cons d ds)
  have "of_char d \<le> (57 :: nat)" using Cons.prems by (simp add: is_digit_def)
  then have "10 * acc + (of_char d - 48) + 1 \<le> (acc + 1) * 10" by arith
  then have "(10 * acc + (of_char d - 48) + 1) * 10 ^ length ds \<le> (acc + 1) * 10 * 10 ^ length ds"
    by (rule mult_le_mono1)
  with Cons show ?case using Cons.IH [of "10 * acc + (of_char d - 48)"] by (simp add: algebra_simps)
qed simp

subsection \<open>Paths\<close>

text \<open>\<open>split('/')\<close>\<close>

fun split_slash :: "string \<Rightarrow> string list" where
  "split_slash [] = [[]]"
| "split_slash (c # cs) =
     (if c = CHR ''/'' then [] # split_slash cs
      else case split_slash cs of [] \<Rightarrow> [[c]] | w # ws \<Rightarrow> (c # w) # ws)"

lemma split_slash_plain: "CHR ''/'' \<notin> set v \<Longrightarrow> split_slash v = [v]"
  by (induction v) auto

lemma split_slash_parts: "w \<in> set (split_slash v) \<Longrightarrow> CHR ''/'' \<notin> set w"
proof (induction v arbitrary: w)
  case (Cons c v)
  then show ?case by (cases "split_slash v") (auto split: if_splits)
qed simp

subsection \<open>Step relations\<close>

text \<open>What a component whose tasks interleave has to show of its invariant, and what follows for its runs.\<close>

locale step_system =
  fixes start :: "'s \<Rightarrow> bool" and step :: "'s \<Rightarrow> 's \<Rightarrow> bool" and inv :: "'s \<Rightarrow> bool"
  assumes start_inv: "start s \<Longrightarrow> inv s"
    and step_inv: "step s t \<Longrightarrow> inv s \<Longrightarrow> inv t"
begin

lemma run_inv: "step\<^sup>*\<^sup>* s t \<Longrightarrow> inv s \<Longrightarrow> inv t"
  by (induction rule: rtranclp_induct) (auto intro: step_inv)

lemma reachable_inv: "step\<^sup>*\<^sup>* s t \<Longrightarrow> start s \<Longrightarrow> inv t"
  using run_inv start_inv by blast

end

end
