(* ===== verification/Backend.thy ===== *)
theory Backend
  imports Prelude
begin

text \<open>
  \<open>src/backend.rs\<close>: failure categories, parameter extraction from JSON values, and the names of
  adapter and device operations.

  JSON values are those of the serializer crate; an integer number is kept as an integer and any
  other number as \<open>JFloat\<close>. The keys of an object are distinct.
\<close>

datatype json = JNull | JBool bool | JInt int | JFloat | JString string | JArray "json list"
  | JObject "(string \<times> json) list"

fun json_get :: "json \<Rightarrow> string \<Rightarrow> json option" where
  "json_get (JObject fs) name = map_of fs name"
| "json_get _ name = None"

fun as_u64 :: "json \<Rightarrow> nat option" where
  "as_u64 (JInt i) = (if 0 \<le> i \<and> i < 2 ^ 64 then Some (nat i) else None)"
| "as_u64 _ = None"

subsection \<open>Failure categories\<close>

datatype backend_kind = KTimeout | KDeviceUnavailable | KRejected | KUnavailable | KInvalidInput
  | KOperationFailed

fun kind_code :: "backend_kind \<Rightarrow> string" where
  "kind_code KTimeout = ''timeout''"
| "kind_code KDeviceUnavailable = ''device-unavailable''"
| "kind_code KRejected = ''rejected''"
| "kind_code KUnavailable = ''bluez-unavailable''"
| "kind_code KInvalidInput = ''validation-error''"
| "kind_code KOperationFailed = ''operation-failed''"

definition kind_retryable :: "backend_kind \<Rightarrow> bool" where
  "kind_retryable k = (k \<in> {KTimeout, KDeviceUnavailable, KUnavailable})"

subsection \<open>Parameters\<close>

datatype param_error = InvalidParameter string string bool

definition optional_bool :: "json \<Rightarrow> string \<Rightarrow> param_error + bool option" where
  "optional_bool params name =
     (case json_get params name of
        None \<Rightarrow> Inr None
      | Some JNull \<Rightarrow> Inr None
      | Some (JBool v) \<Rightarrow> Inr (Some v)
      | _ \<Rightarrow> Inl (InvalidParameter name ''boolean'' True))"

definition optional_string :: "json \<Rightarrow> string \<Rightarrow> param_error + string option" where
  "optional_string params name =
     (case json_get params name of
        None \<Rightarrow> Inr None
      | Some JNull \<Rightarrow> Inr None
      | Some (JString v) \<Rightarrow> if v \<noteq> [] then Inr (Some v) else Inl (InvalidParameter name ''string'' True)
      | _ \<Rightarrow> Inl (InvalidParameter name ''string'' True))"

definition require_bool :: "json \<Rightarrow> string \<Rightarrow> param_error + bool" where
  "require_bool params name =
     (case json_get params name of
        Some (JBool v) \<Rightarrow> Inr v
      | _ \<Rightarrow> Inl (InvalidParameter name ''boolean'' False))"

definition require_string :: "json \<Rightarrow> string \<Rightarrow> param_error + string" where
  "require_string params name =
     (case json_get params name of
        Some (JString v) \<Rightarrow> if v \<noteq> [] then Inr v else Inl (InvalidParameter name ''string'' False)
      | _ \<Rightarrow> Inl (InvalidParameter name ''string'' False))"

definition require_u32 :: "json \<Rightarrow> string \<Rightarrow> param_error + u32" where
  "require_u32 params name =
     option_err (InvalidParameter name ''unsigned integer'' False)
       (Option.bind (Option.bind (json_get params name) as_u64) word_try_from)"

definition require_strings :: "json \<Rightarrow> string \<Rightarrow> string \<Rightarrow> param_error + string \<times> string" where
  "require_strings params first second =
     res_bind (require_string params first) (\<lambda>a.
     res_bind (require_string params second) (\<lambda>b. Inr (a, b)))"

lemma require_u32_ok: "require_u32 params name = Inr w \<Longrightarrow> json_get params name = Some (JInt (int (unat w)))"
proof -
  assume "require_u32 params name = Inr w"
  then obtain v n where "json_get params name = Some v" "as_u64 v = Some n" "word_try_from n = Some w"
    by (auto simp: require_u32_def bind_eq_Some_conv)
  then show ?thesis using word_try_from_Some [of n w] by (cases v) (auto split: if_splits)
qed

subsection \<open>Operation names\<close>

datatype adapter_operation = ASetAlias | ASetDiscoverable | ASetPairable | ASetDiscoverableTimeout
  | ASetPairableTimeout

datatype device_operation = DPair | Connect | Disconnect | Remove | SetTrusted | SetBlocked
  | SetWakeAllowed | DSetAlias | ResetAlias | ProvisionFastPair | SetMultipoint | SetNoiseControl

definition adapter_operations :: "(adapter_operation \<times> string) list" where
  "adapter_operations = [(ASetAlias, ''set-alias''), (ASetDiscoverable, ''set-discoverable''),
     (ASetPairable, ''set-pairable''), (ASetDiscoverableTimeout, ''set-discoverable-timeout''),
     (ASetPairableTimeout, ''set-pairable-timeout'')]"

definition device_operations :: "(device_operation \<times> string) list" where
  "device_operations = [(DPair, ''pair''), (Connect, ''connect''), (Disconnect, ''disconnect''),
     (Remove, ''remove''), (SetTrusted, ''set-trusted''), (SetBlocked, ''set-blocked''),
     (SetWakeAllowed, ''set-wake-allowed''), (DSetAlias, ''set-alias''),
     (ResetAlias, ''reset-alias''), (ProvisionFastPair, ''provision-fast-pair''),
     (SetMultipoint, ''set-multipoint''), (SetNoiseControl, ''set-noise-control'')]"

definition op_as_str :: "('o \<times> string) list \<Rightarrow> 'o \<Rightarrow> string" where
  "op_as_str table op = the (map_of table op)"

definition op_try_from :: "('o \<times> string) list \<Rightarrow> string \<Rightarrow> backend_kind + 'o" where
  "op_try_from table v = option_err KInvalidInput (map_of (map prod.swap table) v)"

lemma op_names_round:
  assumes "distinct (map fst table)" and "distinct (map snd table)" and "(op, name) \<in> set table"
  shows "op_try_from table (op_as_str table op) = Inr op \<and> op_as_str table op = name"
proof -
  have "map_of table op = Some name" using assms(1,3) by simp
  moreover have "map_of (map prod.swap table) name = Some op"
    using assms(2,3) by (intro map_of_is_SomeI) (force simp: comp_def prod.swap_def image_iff)+
  ultimately show ?thesis by (simp add: op_try_from_def op_as_str_def)
qed

lemma device_operation_round: "op_try_from device_operations (op_as_str device_operations op) = Inr op"
proof -
  have "op \<in> fst ` set device_operations" by (cases op) (simp_all add: device_operations_def)
  then obtain name where "(op, name) \<in> set device_operations" by auto
  moreover have "distinct (map fst device_operations)" "distinct (map snd device_operations)" by code_simp+
  ultimately show ?thesis using op_names_round [of device_operations op name] by blast
qed

lemma adapter_operation_round: "op_try_from adapter_operations (op_as_str adapter_operations op) = Inr op"
proof -
  have "op \<in> fst ` set adapter_operations" by (cases op) (simp_all add: adapter_operations_def)
  then obtain name where "(op, name) \<in> set adapter_operations" by auto
  moreover have "distinct (map fst adapter_operations)" "distinct (map snd adapter_operations)" by code_simp+
  ultimately show ?thesis using op_names_round [of adapter_operations op name] by blast
qed

end
