(* ===== verification/Recovery.thy ===== *)
theory Recovery
  imports Backend
begin

text \<open>
  \<open>src/bluez/recovery.rs\<close> with \<open>BluezBackend::with_state\<close> and \<open>shutdown\<close> of \<open>src/bluez.rs\<close>: how the backend is
  rebuilt when BlueZ comes, goes or is replaced.

  A backend is a numbered generation, of which the state knows the workers that run and the pairing agent that BlueZ
  has registered. The work on one owner is a future that waits at the points listed as its phases; dropping it there,
  which a new owner does, runs the destructors of what it holds. Which replacements are started is \<open>drive\<close> of
  \<open>Daemon\<close>. What the task group, the D-Bus calls and the providers answer is the argument \<open>ok\<close>. A call that holds a
  generation when it retires is not followed further.
\<close>

subsection \<open>Generations\<close>

datatype worker = Monitors | DiscoveryTasks | FastPairWorkers | SonyWorkers | MaestroWorkers

text \<open>The order in which \<open>shutdown\<close> waits for them, and what \<open>Candidate::drop\<close> aborts.\<close>

definition SHUTDOWN :: "worker list" where
  "SHUTDOWN = [Monitors, DiscoveryTasks, FastPairWorkers, SonyWorkers, MaestroWorkers]"

definition ABORTED :: "worker set" where
  "ABORTED = {Monitors, FastPairWorkers, SonyWorkers, MaestroWorkers}"

text \<open>What follows once the old generation is gone: a new one, waiting for an owner, or a new monitor.\<close>

datatype purpose = Recover | AwaitOwner | Restart

datatype phase =
    Watching  \<comment> \<open>the monitor runs and no replacement is in flight\<close>
  | ShuttingDown purpose "worker list"
  | TakingAgent purpose
  | Opening  \<comment> \<open>\<open>with_state\<close> up to the providers\<close>
  | StartingFastPair nat
  | StartingSony nat
  | StartingMaestro nat
  | Registering nat  \<comment> \<open>the candidate exists from here on\<close>
  | Applying nat
  | Installing nat
  | RetryWait
  | Reconnecting  \<comment> \<open>the monitor failed; it starts again after a pause\<close>

record recovery =
  rv_current :: "nat option"
  rv_agent :: "nat option"
  rv_available :: bool
  rv_phase :: phase
  rv_next :: nat
  rv_workers :: "(nat \<times> worker) set"
  rv_registered :: "nat set"
  rv_changes :: nat
  rv_prompts_cancelled :: nat

definition recovery_new :: recovery where
  "recovery_new = \<lparr>rv_current = None, rv_agent = None, rv_available = False, rv_phase = Reconnecting, rv_next = 0,
     rv_workers = {}, rv_registered = {}, rv_changes = 0, rv_prompts_cancelled = 0\<rparr>"

text \<open>\<open>current\<close>: the generation that a call is forwarded to.\<close>

definition current_backend :: "recovery \<Rightarrow> (backend_kind \<times> string) + nat" where
  "current_backend s =
     (case rv_current s of
        Some g \<Rightarrow> if rv_available s then Inr g else Inl (KUnavailable, ''BlueZ is recovering'')
      | None \<Rightarrow> Inl (KUnavailable, ''BlueZ is recovering''))"

text \<open>Every method of the trait is forwarded to it.\<close>

definition forwarded :: "(nat \<Rightarrow> (backend_kind \<times> string) + 'a) \<Rightarrow> recovery \<Rightarrow> (backend_kind \<times> string) + 'a" where
  "forwarded call s = res_bind (current_backend s) call"

definition invalidate :: "recovery \<Rightarrow> recovery" where
  "invalidate s = s\<lparr>rv_available := False, rv_prompts_cancelled := Suc (rv_prompts_cancelled s), rv_changes := Suc (rv_changes s)\<rparr>"

definition begin_stop :: "purpose \<Rightarrow> recovery \<Rightarrow> recovery" where
  "begin_stop after s =
     (case rv_current s of
        Some _ \<Rightarrow> s\<lparr>rv_phase := ShuttingDown after SHUTDOWN\<rparr>
      | None \<Rightarrow> s\<lparr>rv_phase := TakingAgent after\<rparr>)"

definition drop_candidate :: "nat \<Rightarrow> recovery \<Rightarrow> recovery" where
  "drop_candidate g s = s\<lparr>rv_workers := rv_workers s - {g} \<times> ABORTED\<rparr>"

definition unregister :: "nat \<Rightarrow> recovery \<Rightarrow> recovery" where
  "unregister g s = s\<lparr>rv_registered := rv_registered s - {g}\<rparr>"

text \<open>Dropping the future in each of its phases.\<close>

definition drop_action :: "recovery \<Rightarrow> recovery" where
  "drop_action s =
     (case rv_phase s of
        Registering g \<Rightarrow> drop_candidate g s
      | Applying g \<Rightarrow> drop_candidate g (unregister g s)
      | Installing g \<Rightarrow> drop_candidate g (unregister g s)
      | _ \<Rightarrow> s)"

subsection \<open>The steps of a replacement\<close>

definition after_stop :: "purpose \<Rightarrow> phase" where
  "after_stop after = (case after of Recover \<Rightarrow> Opening | AwaitOwner \<Rightarrow> Watching | Restart \<Rightarrow> Reconnecting)"

definition shut :: "worker \<Rightarrow> recovery \<Rightarrow> recovery" where
  "shut w s = (case rv_current s of None \<Rightarrow> s | Some g \<Rightarrow> s\<lparr>rv_workers := rv_workers s - {(g, w)}\<rparr>)"

definition started :: "bool \<Rightarrow> nat \<Rightarrow> worker \<Rightarrow> recovery \<Rightarrow> recovery" where
  "started ok g w s = (if ok then s\<lparr>rv_workers := insert (g, w) (rv_workers s)\<rparr> else s)"

definition take_agent :: "recovery \<Rightarrow> recovery" where
  "take_agent s = (case rv_agent s of None \<Rightarrow> s | Some a \<Rightarrow> (unregister a s)\<lparr>rv_agent := None\<rparr>)"

definition install :: "nat \<Rightarrow> recovery \<Rightarrow> recovery" where
  "install g s = (take_agent s)\<lparr>rv_agent := Some g, rv_current := Some g, rv_available := True,
     rv_changes := Suc (rv_changes s), rv_phase := Watching\<rparr>"

definition advance :: "bool \<Rightarrow> recovery \<Rightarrow> recovery" where
  "advance ok s =
     (case rv_phase s of
        Watching \<Rightarrow> s
      | ShuttingDown after [] \<Rightarrow> s\<lparr>rv_current := None, rv_phase := TakingAgent after\<rparr>
      | ShuttingDown after (w # ws) \<Rightarrow> (shut w s)\<lparr>rv_phase := ShuttingDown after ws\<rparr>
      | TakingAgent after \<Rightarrow> (take_agent s)\<lparr>rv_phase := after_stop after\<rparr>
      | Opening \<Rightarrow>
          if ok then s\<lparr>rv_phase := StartingFastPair (rv_next s), rv_next := Suc (rv_next s)\<rparr>
          else s\<lparr>rv_phase := RetryWait\<rparr>
      | StartingFastPair g \<Rightarrow> (started ok g FastPairWorkers s)\<lparr>rv_phase := StartingSony g\<rparr>
      | StartingSony g \<Rightarrow> (started ok g SonyWorkers s)\<lparr>rv_phase := StartingMaestro g\<rparr>
      | StartingMaestro g \<Rightarrow> (started ok g MaestroWorkers s)\<lparr>rv_phase := Registering g\<rparr>
      | Registering g \<Rightarrow>
          if ok then s\<lparr>rv_registered := insert g (rv_registered s), rv_phase := Applying g\<rparr>
          else (drop_candidate g s)\<lparr>rv_phase := RetryWait\<rparr>
      | Applying g \<Rightarrow> (started True g Monitors s)\<lparr>rv_phase := Installing g\<rparr>
      | Installing g \<Rightarrow> install g s
      | RetryWait \<Rightarrow> s\<lparr>rv_phase := Opening\<rparr>
      | Reconnecting \<Rightarrow> s)"

text \<open>The owner that the monitor finds at its start, or a new one; an empty owner says that BlueZ is gone.\<close>

definition owner_seen :: "bool \<Rightarrow> recovery \<Rightarrow> recovery" where
  "owner_seen present s = begin_stop (if present then Recover else AwaitOwner) (invalidate (drop_action s))"

text \<open>\<open>start_recovery\<close>: the monitor could not be set up, or its stream ended.\<close>

definition monitor_failed :: "recovery \<Rightarrow> recovery" where
  "monitor_failed s = begin_stop Restart (invalidate (drop_action s))"

text \<open>A call that starts discovery on the generation it is forwarded to.\<close>

definition discovery_started :: "recovery \<Rightarrow> recovery" where
  "discovery_started s = (case current_backend s of Inl _ \<Rightarrow> s | Inr g \<Rightarrow> started True g DiscoveryTasks s)"

definition monitored :: "phase \<Rightarrow> bool" where
  "monitored p \<longleftrightarrow> (case p of ShuttingDown after _ \<Rightarrow> after \<noteq> Restart | TakingAgent after \<Rightarrow> after \<noteq> Restart | _ \<Rightarrow> True)"

definition between_providers :: "phase \<Rightarrow> bool" where
  "between_providers p \<longleftrightarrow> (case p of StartingSony _ \<Rightarrow> True | StartingMaestro _ \<Rightarrow> True | _ \<Rightarrow> False)"

text \<open>
  \<open>interrupting\<close> says whether an owner change or a failure may come while \<open>with_state\<close> starts its second and third
  provider.
\<close>

inductive rv_step :: "bool \<Rightarrow> recovery \<Rightarrow> recovery \<Rightarrow> bool" for interrupting where
  advance: "rv_step interrupting s (advance ok s)"
| owner: "monitored (rv_phase s) \<Longrightarrow> (between_providers (rv_phase s) \<Longrightarrow> interrupting) \<Longrightarrow> rv_step interrupting s (owner_seen present s)"
| failed: "monitored (rv_phase s) \<Longrightarrow> (between_providers (rv_phase s) \<Longrightarrow> interrupting) \<Longrightarrow> rv_step interrupting s (monitor_failed s)"
| discovery: "rv_step interrupting s (discovery_started s)"

definition rv_reachable :: "bool \<Rightarrow> recovery \<Rightarrow> bool" where
  "rv_reachable interrupting s \<longleftrightarrow> (rv_step interrupting)\<^sup>*\<^sup>* recovery_new s"

subsection \<open>One generation at a time\<close>

fun candidate_of :: "phase \<Rightarrow> nat option" where
  "candidate_of (StartingFastPair g) = Some g"
| "candidate_of (StartingSony g) = Some g"
| "candidate_of (StartingMaestro g) = Some g"
| "candidate_of (Registering g) = Some g"
| "candidate_of (Applying g) = Some g"
| "candidate_of (Installing g) = Some g"
| "candidate_of _ = None"

text \<open>What holds in each phase: the workers that may run, the agents that may be registered, the current generation.\<close>

definition phase_ok :: "recovery \<Rightarrow> bool" where
  "phase_ok s =
     (case rv_phase s of
        Watching \<Rightarrow>
          (case rv_current s of
             None \<Rightarrow> \<not> rv_available s \<and> rv_agent s = None \<and> rv_workers s = {} \<and> rv_registered s = {}
           | Some g \<Rightarrow> rv_available s \<and> rv_agent s = Some g \<and> rv_registered s = {g}
               \<and> rv_workers s \<subseteq> {g} \<times> UNIV \<and> (g, Monitors) \<in> rv_workers s)
      | ShuttingDown after ws \<Rightarrow>
          \<not> rv_available s \<and> (\<exists>g. rv_current s = Some g \<and> rv_agent s = Some g \<and> rv_registered s = {g}
            \<and> rv_workers s \<subseteq> {g} \<times> set ws)
      | TakingAgent after \<Rightarrow>
          \<not> rv_available s \<and> rv_current s = None \<and> rv_workers s = {} \<and> rv_registered s = set_option (rv_agent s)
      | StartingFastPair g \<Rightarrow> \<not> rv_available s \<and> rv_current s = None \<and> rv_agent s = None \<and> rv_registered s = {} \<and> rv_workers s = {}
      | StartingSony g \<Rightarrow> \<not> rv_available s \<and> rv_current s = None \<and> rv_agent s = None \<and> rv_registered s = {}
          \<and> rv_workers s \<subseteq> {g} \<times> {FastPairWorkers}
      | StartingMaestro g \<Rightarrow> \<not> rv_available s \<and> rv_current s = None \<and> rv_agent s = None \<and> rv_registered s = {}
          \<and> rv_workers s \<subseteq> {g} \<times> {FastPairWorkers, SonyWorkers}
      | Registering g \<Rightarrow> \<not> rv_available s \<and> rv_current s = None \<and> rv_agent s = None \<and> rv_registered s = {}
          \<and> rv_workers s \<subseteq> {g} \<times> ABORTED
      | Applying g \<Rightarrow> \<not> rv_available s \<and> rv_current s = None \<and> rv_agent s = None \<and> rv_registered s = {g}
          \<and> rv_workers s \<subseteq> {g} \<times> ABORTED
      | Installing g \<Rightarrow> \<not> rv_available s \<and> rv_current s = None \<and> rv_agent s = None \<and> rv_registered s = {g}
          \<and> rv_workers s \<subseteq> {g} \<times> ABORTED \<and> (g, Monitors) \<in> rv_workers s
      | _ \<Rightarrow> \<not> rv_available s \<and> rv_current s = None \<and> rv_agent s = None \<and> rv_workers s = {} \<and> rv_registered s = {})"

lemma set_SHUTDOWN: "set SHUTDOWN = UNIV"
  using worker.exhaust by (auto simp: SHUTDOWN_def)

lemma phase_ok_new: "phase_ok recovery_new"
  by (simp add: phase_ok_def recovery_new_def)

lemma advance_ok:
  assumes "phase_ok s"
  shows "phase_ok (advance ok s)"
proof (cases "rv_phase s")
  case (ShuttingDown after ws)
  then show ?thesis using assms by (cases ws) (auto simp: phase_ok_def advance_def shut_def)
next
  case (TakingAgent after)
  then show ?thesis using assms
    by (cases "rv_agent s"; cases after) (auto simp: phase_ok_def advance_def take_agent_def unregister_def after_stop_def)
next
  case (Registering g)
  then show ?thesis using assms by (cases ok) (auto simp: phase_ok_def advance_def drop_candidate_def)
qed (use assms in \<open>auto simp: phase_ok_def advance_def started_def install_def take_agent_def ABORTED_def split: option.splits\<close>)

text \<open>What dropping a replacement leaves behind, when no provider is being started.\<close>

lemma drop_action_ok:
  assumes "phase_ok s" and "\<not> between_providers (rv_phase s)"
  shows "rv_workers (drop_action s) = (case rv_current s of None \<Rightarrow> {} | Some g \<Rightarrow> rv_workers s)
    \<and> rv_registered (drop_action s) = set_option (rv_agent s)
    \<and> rv_current (drop_action s) = rv_current s \<and> rv_agent (drop_action s) = rv_agent s"
  using assms
  by (cases "rv_phase s")
    (auto simp: phase_ok_def drop_action_def drop_candidate_def unregister_def between_providers_def split: option.splits)

lemma current_workers:
  assumes "phase_ok s" and "rv_current s = Some g"
  shows "rv_workers s \<subseteq> {g} \<times> UNIV \<and> rv_agent s = Some g"
  using assms by (cases "rv_phase s") (auto simp: phase_ok_def)

lemma begin_stop_ok:
  assumes "phase_ok s" and "\<not> between_providers (rv_phase s)"
  shows "phase_ok (begin_stop after (invalidate (drop_action s)))"
  using drop_action_ok [OF assms] current_workers [OF assms(1)]
  by (auto simp: begin_stop_def invalidate_def phase_ok_def set_SHUTDOWN split: option.splits)

lemma discovery_started_ok: "phase_ok s \<Longrightarrow> phase_ok (discovery_started s)"
  by (cases "rv_phase s")
    (auto simp: discovery_started_def current_backend_def started_def phase_ok_def split: option.splits)

lemma rv_step_ok: "rv_step False s t \<Longrightarrow> phase_ok s \<Longrightarrow> phase_ok t"
  by (cases rule: rv_step.cases)
    (auto simp: advance_ok discovery_started_ok owner_seen_def monitor_failed_def intro: begin_stop_ok)

interpretation recovery_run: step_system "\<lambda>s. s = recovery_new" "rv_step False" phase_ok
  by unfold_locales (simp add: phase_ok_new, rule rv_step_ok)

lemma rv_reachable_ok: "rv_reachable False s \<Longrightarrow> phase_ok s"
  unfolding rv_reachable_def by (rule recovery_run.reachable_inv [OF _ refl])

lemma workers_owned:
  "phase_ok s \<Longrightarrow> x \<in> rv_workers s \<Longrightarrow> rv_current s = Some (fst x) \<or> candidate_of (rv_phase s) = Some (fst x)"
  by (cases "rv_phase s") (auto simp: phase_ok_def split: option.splits)

lemma one_owner: "phase_ok s \<Longrightarrow> rv_current s = None \<or> candidate_of (rv_phase s) = None"
  by (cases "rv_phase s") (auto simp: phase_ok_def)

lemma one_agent: "phase_ok s \<Longrightarrow> g \<in> rv_registered s \<Longrightarrow> h \<in> rv_registered s \<Longrightarrow> g = h"
  by (cases "rv_phase s") (auto simp: phase_ok_def split: option.splits)

lemma serving:
  "phase_ok s \<Longrightarrow> current_backend s = Inr g \<Longrightarrow>
    rv_phase s = Watching \<and> (g, Monitors) \<in> rv_workers s \<and> rv_agent s = Some g \<and> rv_registered s = {g}"
  by (cases "rv_phase s") (auto simp: phase_ok_def current_backend_def split: option.splits if_splits)

text \<open>
  C5. However BlueZ's owner changes, its answers fail and the monitor ends, two generations of the backend never run at
  once: all workers belong to one generation, which is the current one or the candidate being built, and at most one
  pairing agent is registered. A call is only ever forwarded to a generation that is monitored and whose agent is
  the registered one. (No provider is interrupted while it starts; what happens otherwise is shown below.)
\<close>
theorem one_backend_at_a_time:
  assumes "rv_reachable False s"
  shows "(\<forall>(g, w) \<in> rv_workers s. rv_current s = Some g \<or> candidate_of (rv_phase s) = Some g)
    \<and> (\<forall>x \<in> rv_workers s. \<forall>y \<in> rv_workers s. fst x = fst y)
    \<and> (\<forall>g \<in> rv_registered s. \<forall>h \<in> rv_registered s. g = h)
    \<and> (\<forall>g. current_backend s = Inr g \<longrightarrow>
         rv_phase s = Watching \<and> (g, Monitors) \<in> rv_workers s \<and> rv_agent s = Some g \<and> rv_registered s = {g})"
proof (intro conjI ballI allI impI)
  note ok = rv_reachable_ok [OF assms]
  show "case x of (g, w) \<Rightarrow> rv_current s = Some g \<or> candidate_of (rv_phase s) = Some g" if "x \<in> rv_workers s" for x
    using workers_owned [OF ok that] by (cases x) simp
  show "fst x = fst y" if "x \<in> rv_workers s" "y \<in> rv_workers s" for x y
    using workers_owned [OF ok that(1)] workers_owned [OF ok that(2)] one_owner [OF ok]
    by (cases "rv_current s"; cases "candidate_of (rv_phase s)") simp_all
  show "g = h" if "g \<in> rv_registered s" "h \<in> rv_registered s" for g h by (rule one_agent [OF ok that])
  show "rv_phase s = Watching" and "(g, Monitors) \<in> rv_workers s" and "rv_agent s = Some g" and "rv_registered s = {g}"
    if "current_backend s = Inr g" for g
    using serving [OF ok that] by simp_all
qed

subsection \<open>Recovery is resumed\<close>

fun remaining :: "phase \<Rightarrow> nat" where
  "remaining Watching = 0"
| "remaining (Installing g) = 1"
| "remaining (Applying g) = 2"
| "remaining (Registering g) = 3"
| "remaining (StartingMaestro g) = 4"
| "remaining (StartingSony g) = 5"
| "remaining (StartingFastPair g) = 6"
| "remaining Opening = 7"
| "remaining RetryWait = 8"
| "remaining (TakingAgent after) = 8"
| "remaining (ShuttingDown after ws) = 9 + length ws"
| "remaining Reconnecting = 0"

definition recovering :: "nat \<Rightarrow> recovery \<Rightarrow> bool" where
  "recovering k s \<longleftrightarrow> k \<le> rv_next s \<and> remaining (rv_phase s) \<le> 14
     \<and> (\<forall>g. candidate_of (rv_phase s) = Some g \<longrightarrow> k \<le> g)
     \<and> (case rv_phase s of ShuttingDown after _ \<Rightarrow> after = Recover | TakingAgent after \<Rightarrow> after = Recover
        | Watching \<Rightarrow> \<exists>g \<ge> k. current_backend s = Inr g | Reconnecting \<Rightarrow> False | _ \<Rightarrow> True)"

lemma take_agent_simps [simp]:
  "rv_next (take_agent s) = rv_next s" "rv_phase (take_agent s) = rv_phase s" "rv_current (take_agent s) = rv_current s"
  "rv_available (take_agent s) = rv_available s"
  by (auto simp: take_agent_def unregister_def split: option.split)

lemma shut_started_simps [simp]:
  "rv_next (shut w s) = rv_next s" "rv_phase (shut w s) = rv_phase s"
  "rv_next (started ok g w s) = rv_next s" "rv_phase (started ok g w s) = rv_phase s"
  by (auto simp: shut_def started_def split: option.split)

lemma recovering_advance: "recovering k s \<Longrightarrow> recovering k (advance ok s)"
  by (cases "rv_phase s" rule: phase.exhaust)
    (auto simp: recovering_def advance_def after_stop_def drop_candidate_def install_def current_backend_def
      split: list.splits if_splits)

lemma recovering_advances:
  "recovering k s \<Longrightarrow> remaining (rv_phase (advance True s)) \<le> remaining (rv_phase s) - 1"
  by (cases "rv_phase s" rule: phase.exhaust)
    (auto simp: recovering_def advance_def after_stop_def install_def split: list.splits)

lemma recovering_owner_seen: "recovering (rv_next s) (owner_seen True s)"
  by (auto simp: recovering_def owner_seen_def begin_stop_def invalidate_def drop_action_def drop_candidate_def
      unregister_def SHUTDOWN_def split: phase.split option.split)

fun run :: "bool list \<Rightarrow> recovery \<Rightarrow> recovery" where
  "run [] s = s"
| "run (ok # oks) s = run oks (advance ok s)"

lemma run_recovering: "recovering k s \<Longrightarrow> recovering k (run oks s)"
  by (induction oks arbitrary: s) (simp_all add: recovering_advance)

lemma run_append: "run (xs @ ys) s = run ys (run xs s)"
  by (induction xs arbitrary: s) simp_all

lemma run_remaining:
  "recovering k s \<Longrightarrow> remaining (rv_phase (run (replicate n True) s)) \<le> remaining (rv_phase s) - n"
proof (induction n arbitrary: s)
  case (Suc n)
  then show ?case using Suc.IH [OF recovering_advance [OF Suc.prems, of True]] recovering_advances [OF Suc.prems] by simp
qed simp

text \<open>
  C38. Once BlueZ has an owner, whatever state the daemon was in and however often BlueZ refuses, calls are served again by a
  new generation as soon as BlueZ has answered fourteen times in a row: no attempt is the last.
\<close>
theorem recovery_resumes:
  "\<exists>g \<ge> rv_next s. current_backend (run (answers @ replicate 14 True) (owner_seen True s)) = Inr g"
proof -
  have start: "recovering (rv_next s) (run answers (owner_seen True s))"
    by (rule run_recovering [OF recovering_owner_seen])
  let ?t = "run (replicate 14 True) (run answers (owner_seen True s))"
  have "remaining (rv_phase ?t) \<le> 0"
    using run_remaining [OF start, of 14] start by (simp add: recovering_def)
  then have "rv_phase ?t = Watching \<or> rv_phase ?t = Reconnecting"
    by (cases "rv_phase ?t") simp_all
  moreover have "recovering (rv_next s) ?t" by (rule run_recovering [OF start])
  ultimately show ?thesis by (auto simp: recovering_def run_append)
qed

text \<open>Until then, and whenever BlueZ is gone, every call is refused.\<close>

lemma refused_until_installed:
  assumes "\<not> rv_available s" and "\<And>g. rv_phase s \<noteq> Installing g"
  shows "current_backend (advance ok s) = Inl (KUnavailable, ''BlueZ is recovering'')"
  using assms
  by (cases "rv_phase s" rule: phase.exhaust)
    (auto simp: advance_def current_backend_def shut_def take_agent_def unregister_def started_def drop_candidate_def
      split: list.split option.split)

subsection \<open>A recovery, and an interrupted one\<close>

definition demo_recovered :: recovery where
  "demo_recovered = run (replicate 8 True) (owner_seen True recovery_new)"

lemma run_reachable: "rv_reachable i s \<Longrightarrow> rv_reachable i (run oks s)"
proof (induction oks arbitrary: s)
  case (Cons ok oks)
  have "rv_reachable i (advance ok s)"
    using Cons.prems rv_step.advance [of i s ok] unfolding rv_reachable_def by (rule rtranclp.rtrancl_into_rtrancl)
  then show ?case using Cons.IH by simp
qed simp

lemma demo_recovered_reachable: "rv_reachable False demo_recovered"
proof -
  have "rv_step False recovery_new (owner_seen True recovery_new)"
    by (rule rv_step.owner) (simp_all add: recovery_new_def monitored_def between_providers_def)
  then have "rv_reachable False (owner_seen True recovery_new)" by (simp add: rv_reachable_def)
  then show ?thesis unfolding demo_recovered_def by (rule run_reachable)
qed

theorem one_backend_at_a_time_witness:
  "current_backend demo_recovered = Inr 0 \<and> (0, Monitors) \<in> rv_workers demo_recovered \<and> rv_registered demo_recovered = {0}"
proof -
  have "current_backend demo_recovered = Inr 0" by code_simp
  then show ?thesis using one_backend_at_a_time [OF demo_recovered_reachable] by blast
qed

text \<open>
  \<open>with_state\<close> starts the Fast Pair provider, whose workers own it, and then waits for the Sony and the Maestro
  provider; the candidate that would abort it does not exist yet. If BlueZ changes its owner in between, the
  workers are left behind: they belong to no generation the daemon knows.
\<close>
theorem interrupted_start_leaves_workers:
  "\<exists>s. rv_reachable True s \<and> rv_phase s = Watching \<and> rv_current s = None \<and> rv_agent s = None
    \<and> (0, FastPairWorkers) \<in> rv_workers s"
proof -
  define s1 where "s1 = run (replicate 3 True) (owner_seen True recovery_new)"
  define s2 where "s2 = run [True] (owner_seen False s1)"
  have "rv_step True recovery_new (owner_seen True recovery_new)"
    by (rule rv_step.owner) (simp_all add: recovery_new_def monitored_def)
  then have "rv_reachable True (owner_seen True recovery_new)" by (simp add: rv_reachable_def)
  then have r: "rv_reachable True s1" unfolding s1_def by (rule run_reachable)
  have s1: "s1 = recovery_new\<lparr>rv_phase := StartingSony 0, rv_next := 1, rv_workers := {(0, FastPairWorkers)},
      rv_changes := 1, rv_prompts_cancelled := 1\<rparr>"
    by (simp add: s1_def numeral_3_eq_3 owner_seen_def begin_stop_def invalidate_def drop_action_def recovery_new_def
        advance_def take_agent_def after_stop_def started_def)
  have "rv_step True s1 (owner_seen False s1)" by (rule rv_step.owner) (simp_all add: s1 monitored_def)
  then have "rv_reachable True (owner_seen False s1)"
    using r unfolding rv_reachable_def by (rule rtranclp.rtrancl_into_rtrancl [rotated])
  then have "rv_reachable True s2" unfolding s2_def by (rule run_reachable)
  moreover have "rv_phase s2 = Watching \<and> rv_current s2 = None \<and> rv_agent s2 = None \<and> (0, FastPairWorkers) \<in> rv_workers s2"
    by (simp add: s2_def s1 owner_seen_def begin_stop_def invalidate_def drop_action_def recovery_new_def
        advance_def take_agent_def after_stop_def)
  ultimately show ?thesis by blast
qed

end
