(* ===== verification/Stores.thy ===== *)
theory Stores
  imports Backend
begin

text \<open>
  Durable state: the account keys of \<open>src/fast_pair/keys.rs\<close> and the policies of
  \<open>src/management.rs\<close>.

  Files are written by an atomic replacement of the daemon's core crate: it either replaces the
  contents or fails and leaves them. Whether it succeeds is the argument \<open>saved\<close>; the contents of
  a file are the decoded value. The locale \<open>durable_store\<close> is the contract both stores keep: memory
  and disk never disagree, and a failed change leaves both as they were.
\<close>

subsection \<open>The contract\<close>

locale durable_store =
  fixes change :: "'r \<Rightarrow> bool \<Rightarrow> 'st \<Rightarrow> 'st \<times> ('e + 'a)"
    and mem :: "'st \<Rightarrow> 'v"
    and disk :: "'st \<Rightarrow> 'v"
    and good :: "'st \<Rightarrow> bool"
  assumes in_sync: "good s \<Longrightarrow> mem s = disk s \<Longrightarrow> change r saved s = (s', res) \<Longrightarrow> mem s' = disk s'"
    and failure: "good s \<Longrightarrow> change r saved s = (s', Inl e) \<Longrightarrow> mem s' = mem s \<and> disk s' = disk s"
    and good_kept: "good s \<Longrightarrow> change r saved s = (s', res) \<Longrightarrow> good s'"
begin

fun history :: "('r \<times> bool) list \<Rightarrow> 'st \<Rightarrow> 'st" where
  "history [] s = s"
| "history ((r, saved) # rs) s = history rs (fst (change r saved s))"

lemma history_in_sync:
  assumes "good s" and "mem s = disk s"
  shows "mem (history rs s) = disk (history rs s) \<and> good (history rs s)"
  using assms
proof (induction rs arbitrary: s)
  case Nil
  then show ?case by simp
next
  case (Cons x rs)
  obtain r saved where x: "x = (r, saved)" by force
  obtain s' res where c: "change r saved s = (s', res)" by force
  show ?case
    using Cons.IH [of s'] in_sync [OF Cons.prems c] good_kept [OF Cons.prems(1) c] x c by simp
qed

text \<open>Dropping the requests that fail from a history does not change what it leaves.\<close>

lemma failed_request_invisible:
  assumes "good s" and "change r saved s = (s', Inl e)"
  shows "mem (fst (change r saved s)) = mem s \<and> disk (fst (change r saved s)) = disk s"
  using failure [OF assms] assms(2) by simp

end

subsection \<open>Account keys\<close>

record account_keys =
  ak_keys :: "(string, bytes) hmap"
  ak_file :: "(string, bytes) hmap"

datatype store_error = InvalidKeyType | NotSaved | UnsupportedVersion nat | BadSetting string
  | NotAnObject | BadHex string | BadKeyLength string nat

definition validate_key :: "bytes \<Rightarrow> store_error + unit" where
  "validate_key key = (if key ! 0 \<noteq> 0x04 then Inl InvalidKeyType else Inr ())"

text \<open>\<open>load\<close>: the decoded hexadecimal of each entry (or None) of a file of the given version.\<close>

fun load_keys :: "(string \<times> bytes option) list \<Rightarrow> (string, bytes) hmap \<Rightarrow> store_error + (string, bytes) hmap" where
  "load_keys [] keys = Inr keys"
| "load_keys ((device, decoded) # es) keys =
     (case decoded of
        None \<Rightarrow> Inl (BadHex device)
      | Some key \<Rightarrow>
          if length key \<noteq> 16 then Inl (BadKeyLength device (length key))
          else res_bind (validate_key key) (\<lambda>_. load_keys es (hm_insert device key keys)))"

definition account_keys_load :: "(nat \<times> (string \<times> bytes option) list) option \<Rightarrow> store_error + (string, bytes) hmap" where
  "account_keys_load file =
     (case file of
        None \<Rightarrow> Inr []
      | Some (version, entries) \<Rightarrow>
          if version \<noteq> 1 then Inl (UnsupportedVersion version) else load_keys entries [])"

definition account_key_get :: "string \<Rightarrow> account_keys \<Rightarrow> bytes option" where
  "account_key_get device s = hm_get (ak_keys s) device"

definition account_key_generate :: "bytes \<Rightarrow> bytes" where
  "account_key_generate random = 0x04 # drop 1 random"

definition account_key_persist :: "bool \<Rightarrow> (string, bytes) hmap \<Rightarrow> account_keys \<Rightarrow> account_keys \<times> (store_error + unit)" where
  "account_key_persist saved keys s =
     (if saved then (s\<lparr>ak_file := keys\<rparr>, Inr ()) else (s, Inl NotSaved))"

definition account_key_remove :: "string \<Rightarrow> bool \<Rightarrow> account_keys \<Rightarrow> account_keys \<times> (store_error + unit)" where
  "account_key_remove device saved s =
     (if hm_get (ak_keys s) device = None then (s, Inr ())
      else case account_key_persist saved (filter (\<lambda>(d, _). d \<noteq> device) (ak_keys s)) s of
          (s', Inl e) \<Rightarrow> (s', Inl e)
        | (s', Inr _) \<Rightarrow> (s'\<lparr>ak_keys := hm_remove device (ak_keys s')\<rparr>, Inr ()))"

definition account_key_insert :: "string \<Rightarrow> bytes \<Rightarrow> bool \<Rightarrow> account_keys \<Rightarrow> account_keys \<times> (store_error + unit)" where
  "account_key_insert device key saved s =
     (case validate_key key of
        Inl e \<Rightarrow> (s, Inl e)
      | Inr _ \<Rightarrow>
          (case account_key_persist saved (filter (\<lambda>(d, _). d \<noteq> device) (ak_keys s) @ [(device, key)]) s of
             (s', Inl e) \<Rightarrow> (s', Inl e)
           | (s', Inr _) \<Rightarrow> (s'\<lparr>ak_keys := hm_insert device key (ak_keys s')\<rparr>, Inr ())))"

datatype key_request = InsertKey string bytes | RemoveKey string

fun key_change :: "key_request \<Rightarrow> bool \<Rightarrow> account_keys \<Rightarrow> account_keys \<times> (store_error + unit)" where
  "key_change (InsertKey d k) saved s = account_key_insert d k saved s"
| "key_change (RemoveKey d) saved s = account_key_remove d saved s"

definition keys_good :: "account_keys \<Rightarrow> bool" where
  "keys_good s \<longleftrightarrow> hm_ok (ak_keys s)"

lemma filter_other: "filter (\<lambda>(d, _). d \<noteq> device) m = hm_remove device m"
  by (auto simp: hm_remove_def AList.delete_eq intro: filter_cong)

lemma hm_get_append: "hm_get (m @ m') k = (case hm_get m k of None \<Rightarrow> hm_get m' k | Some v \<Rightarrow> Some v)"
  by (simp add: hm_get_def map_add_def split: option.split)

interpretation account: durable_store key_change "\<lambda>s. hm_get (ak_keys s)" "\<lambda>s. hm_get (ak_file s)" keys_good
proof
  fix s r saved s' and res :: "store_error + unit" and e
  assume g: "keys_good s"
  show "hm_get (ak_keys s') = hm_get (ak_file s')"
    if "hm_get (ak_keys s) = hm_get (ak_file s)" "key_change r saved s = (s', res)"
  proof (rule ext)
    fix k
    show "hm_get (ak_keys s') k = hm_get (ak_file s') k"
      using that g by (cases r) (auto simp: account_key_insert_def account_key_remove_def
          account_key_persist_def filter_other hm_get_append hm_get_def [of "[(_, _)]"]
          split: if_splits sum.splits option.splits)
  qed
  show "hm_get (ak_keys s') = hm_get (ak_keys s) \<and> hm_get (ak_file s') = hm_get (ak_file s)"
    if "key_change r saved s = (s', Inl e)"
    using that by (cases r) (auto simp: account_key_insert_def account_key_remove_def
        account_key_persist_def split: if_splits sum.splits)
  show "keys_good s'" if "key_change r saved s = (s', res)"
    using that g by (cases r) (auto simp: account_key_insert_def account_key_remove_def keys_good_def
        account_key_persist_def split: if_splits sum.splits)
qed

subsection \<open>Management policy\<close>

record policy =
  po_version :: u8
  po_launch_state :: string
  po_reconnect_on_resume :: bool
  po_trust_after_pair :: bool
  po_preferred_adapter_key :: string
  po_show_blocked_devices :: bool
  po_show_recent_devices :: bool

definition policy_default :: policy where
  "policy_default = \<lparr>po_version = 1, po_launch_state = ''remember'', po_reconnect_on_resume = True,
     po_trust_after_pair = True, po_preferred_adapter_key = [], po_show_blocked_devices = False,
     po_show_recent_devices = False\<rparr>"

definition validate_launch_state :: "string \<Rightarrow> store_error + unit" where
  "validate_launch_state v =
     (if v \<in> {''remember'', ''enable'', ''disable''} then Inr () else Inl (BadSetting ''launch_state''))"

definition bool_setting :: "string \<Rightarrow> json \<Rightarrow> store_error + bool" where
  "bool_setting name v = (case v of JBool b \<Rightarrow> Inr b | _ \<Rightarrow> Inl (BadSetting name))"

definition apply_setting :: "string \<Rightarrow> json \<Rightarrow> policy \<Rightarrow> store_error + policy" where
  "apply_setting name v p =
     (if name = ''launch_state'' then
        (case v of
           JString t \<Rightarrow> res_bind (validate_launch_state t) (\<lambda>_. Inr (p\<lparr>po_launch_state := t\<rparr>))
         | _ \<Rightarrow> Inl (BadSetting name))
      else if name = ''preferred_adapter_key'' then
        (case v of JString t \<Rightarrow> Inr (p\<lparr>po_preferred_adapter_key := t\<rparr>) | _ \<Rightarrow> Inl (BadSetting name))
      else if name = ''reconnect_on_resume'' then
        res_bind (bool_setting name v) (\<lambda>b. Inr (p\<lparr>po_reconnect_on_resume := b\<rparr>))
      else if name = ''trust_after_pair'' then
        res_bind (bool_setting name v) (\<lambda>b. Inr (p\<lparr>po_trust_after_pair := b\<rparr>))
      else if name = ''show_blocked_devices'' then
        res_bind (bool_setting name v) (\<lambda>b. Inr (p\<lparr>po_show_blocked_devices := b\<rparr>))
      else if name = ''show_recent_devices'' then
        res_bind (bool_setting name v) (\<lambda>b. Inr (p\<lparr>po_show_recent_devices := b\<rparr>))
      else Inl (BadSetting name))"

fun apply_settings :: "(string \<times> json) list \<Rightarrow> policy \<Rightarrow> store_error + policy" where
  "apply_settings [] p = Inr p"
| "apply_settings ((name, v) # fs) p = res_bind (apply_setting name v p) (apply_settings fs)"

subsection \<open>Per-device policy\<close>

record overrides =
  ov_reconnect_on_resume :: "bool option"
  ov_trust_after_pair :: "bool option"
  ov_power_on_connect :: "bool option"
  ov_wait_for_services :: "bool option"
  ov_fast_pair_controls_enabled :: "bool option"
  ov_audio_route_on_connect :: "string option"
  ov_preferred_audio_profile_key :: "string option"

definition overrides_default :: overrides where
  "overrides_default = \<lparr>ov_reconnect_on_resume = None, ov_trust_after_pair = None,
     ov_power_on_connect = None, ov_wait_for_services = None, ov_fast_pair_controls_enabled = None,
     ov_audio_route_on_connect = None, ov_preferred_audio_profile_key = None\<rparr>"

record device_policy =
  dp_reconnect_on_resume :: bool
  dp_trust_after_pair :: bool
  dp_power_on_connect :: bool
  dp_wait_for_services :: bool
  dp_fast_pair_controls_enabled :: bool
  dp_audio_route_on_connect :: string
  dp_preferred_audio_profile_key :: "string option"

definition unwrap_or :: "'a \<Rightarrow> 'a option \<Rightarrow> 'a" where
  "unwrap_or d x = (case x of None \<Rightarrow> d | Some a \<Rightarrow> a)"

definition effective :: "overrides \<Rightarrow> policy \<Rightarrow> device_policy" where
  "effective o' g =
     \<lparr>dp_reconnect_on_resume = unwrap_or (po_reconnect_on_resume g) (ov_reconnect_on_resume o'),
      dp_trust_after_pair = unwrap_or (po_trust_after_pair g) (ov_trust_after_pair o'),
      dp_power_on_connect = unwrap_or True (ov_power_on_connect o'),
      dp_wait_for_services = unwrap_or True (ov_wait_for_services o'),
      dp_fast_pair_controls_enabled = unwrap_or True (ov_fast_pair_controls_enabled o'),
      dp_audio_route_on_connect = unwrap_or ''keep'' (ov_audio_route_on_connect o'),
      dp_preferred_audio_profile_key = ov_preferred_audio_profile_key o'\<rparr>"

definition optional_value :: "(json \<Rightarrow> 'a option) \<Rightarrow> string \<Rightarrow> json \<Rightarrow> store_error + 'a option" where
  "optional_value parse name v =
     (case v of JNull \<Rightarrow> Inr None
      | _ \<Rightarrow> (case parse v of None \<Rightarrow> Inl (BadSetting name) | Some a \<Rightarrow> Inr (Some a)))"

fun json_bool :: "json \<Rightarrow> bool option" where
  "json_bool (JBool b) = Some b"
| "json_bool _ = None"

fun json_route :: "json \<Rightarrow> string option" where
  "json_route (JString t) = (if t = ''keep'' \<or> t = ''switch'' then Some t else None)"
| "json_route _ = None"

fun json_nonempty :: "json \<Rightarrow> string option" where
  "json_nonempty (JString t) = (if t \<noteq> [] then Some t else None)"
| "json_nonempty _ = None"

definition apply_override :: "string \<Rightarrow> json \<Rightarrow> overrides \<Rightarrow> store_error + overrides" where
  "apply_override name v o' =
     (if name = ''audio_route_on_connect'' then
        res_bind (optional_value json_route name v) (\<lambda>x. Inr (o'\<lparr>ov_audio_route_on_connect := x\<rparr>))
      else if name = ''preferred_audio_profile_key'' then
        res_bind (optional_value json_nonempty name v) (\<lambda>x. Inr (o'\<lparr>ov_preferred_audio_profile_key := x\<rparr>))
      else if name = ''reconnect_on_resume'' then
        res_bind (optional_value json_bool name v) (\<lambda>x. Inr (o'\<lparr>ov_reconnect_on_resume := x\<rparr>))
      else if name = ''trust_after_pair'' then
        res_bind (optional_value json_bool name v) (\<lambda>x. Inr (o'\<lparr>ov_trust_after_pair := x\<rparr>))
      else if name = ''power_on_connect'' then
        res_bind (optional_value json_bool name v) (\<lambda>x. Inr (o'\<lparr>ov_power_on_connect := x\<rparr>))
      else if name = ''wait_for_services'' then
        res_bind (optional_value json_bool name v) (\<lambda>x. Inr (o'\<lparr>ov_wait_for_services := x\<rparr>))
      else if name = ''fast_pair_controls_enabled'' then
        res_bind (optional_value json_bool name v) (\<lambda>x. Inr (o'\<lparr>ov_fast_pair_controls_enabled := x\<rparr>))
      else Inl (BadSetting name))"

fun apply_overrides :: "(string \<times> json) list \<Rightarrow> overrides \<Rightarrow> store_error + overrides" where
  "apply_overrides [] o' = Inr o'"
| "apply_overrides ((name, v) # fs) o' = res_bind (apply_override name v o') (apply_overrides fs)"

subsection \<open>The store\<close>

record runtime_state =
  ru_adapter_power :: "(string, bool) hmap"
  ru_connected_device_keys :: "string list"

record management =
  mg_policy :: policy
  mg_policy_file :: policy
  mg_runtime :: runtime_state
  mg_runtime_file :: runtime_state
  mg_devices :: "(string, overrides) hmap"
  mg_devices_file :: "(string, overrides) hmap"

definition persist_device_change ::
    "bool \<Rightarrow> string \<Rightarrow> overrides option \<Rightarrow> management \<Rightarrow> management \<times> (store_error + unit)" where
  "persist_device_change saved key updated s =
     (let previous = hm_get (mg_devices s) key;
          removed = hm_remove key (mg_devices s);
          candidate = (case updated of None \<Rightarrow> removed | Some u \<Rightarrow> hm_insert key u removed) in
      if saved then (s\<lparr>mg_devices := candidate, mg_devices_file := candidate\<rparr>, Inr ())
      else
        (s\<lparr>mg_devices := (let rolled = hm_remove key candidate in
             case previous of None \<Rightarrow> rolled | Some u \<Rightarrow> hm_insert key u rolled)\<rparr>, Inl NotSaved))"

definition management_update :: "json \<Rightarrow> bool \<Rightarrow> management \<Rightarrow> management \<times> (store_error + policy)" where
  "management_update values saved s =
     (case values of
        JObject fs \<Rightarrow>
          (case apply_settings fs (mg_policy s) of
             Inl e \<Rightarrow> (s, Inl e)
           | Inr updated \<Rightarrow>
               if saved then (s\<lparr>mg_policy := updated, mg_policy_file := updated\<rparr>, Inr updated)
               else (s, Inl NotSaved))
      | _ \<Rightarrow> (s, Inl NotAnObject))"

definition effective_policy :: "string \<Rightarrow> management \<Rightarrow> device_policy" where
  "effective_policy key s = effective (unwrap_or overrides_default (hm_get (mg_devices s) key)) (mg_policy s)"

definition update_device_policy ::
    "string \<Rightarrow> json \<Rightarrow> bool \<Rightarrow> management \<Rightarrow> management \<times> (store_error + device_policy)" where
  "update_device_policy key values saved s =
     (case values of
        JObject fs \<Rightarrow>
          (case apply_overrides fs (unwrap_or overrides_default (hm_get (mg_devices s) key)) of
             Inl e \<Rightarrow> (s, Inl e)
           | Inr updated \<Rightarrow>
               (case persist_device_change saved key
                   (if updated \<noteq> overrides_default then Some updated else None) s of
                  (s', Inl e) \<Rightarrow> (s', Inl e)
                | (s', Inr _) \<Rightarrow> (s', Inr (effective_policy key s'))))
      | _ \<Rightarrow> (s, Inl NotAnObject))"

definition forget_device_policy :: "string \<Rightarrow> bool \<Rightarrow> management \<Rightarrow> management" where
  "forget_device_policy key saved s =
     (if hm_get (mg_devices s) key = None then s else fst (persist_device_change saved key None s))"

definition remember_snapshot :: "runtime_state \<Rightarrow> bool \<Rightarrow> management \<Rightarrow> management" where
  "remember_snapshot runtime saved s =
     (if saved then s\<lparr>mg_runtime := runtime, mg_runtime_file := runtime\<rparr> else s)"

datatype management_request =
    UpdatePolicy json
  | UpdateDevice string json
  | ForgetDevice string
  | RememberSnapshot runtime_state

text \<open>The four changes with one result type; the two that only log report success.\<close>

fun management_change :: "management_request \<Rightarrow> bool \<Rightarrow> management \<Rightarrow> management \<times> (store_error + unit)" where
  "management_change (UpdatePolicy v) saved s =
     (case management_update v saved s of (s', r) \<Rightarrow> (s', res_bind r (\<lambda>_. Inr ())))"
| "management_change (UpdateDevice k v) saved s =
     (case update_device_policy k v saved s of (s', r) \<Rightarrow> (s', res_bind r (\<lambda>_. Inr ())))"
| "management_change (ForgetDevice k) saved s = (forget_device_policy k saved s, Inr ())"
| "management_change (RememberSnapshot r) saved s = (remember_snapshot r saved s, Inr ())"

type_synonym durable_view = "policy \<times> runtime_state \<times> (string \<Rightarrow> overrides option)"

definition management_mem :: "management \<Rightarrow> durable_view" where
  "management_mem s = (mg_policy s, mg_runtime s, hm_get (mg_devices s))"

definition management_disk :: "management \<Rightarrow> durable_view" where
  "management_disk s = (mg_policy_file s, mg_runtime_file s, hm_get (mg_devices_file s))"

lemma persist_device_change_failed:
  "persist_device_change saved key updated s = (s', Inl e) \<Longrightarrow>
   management_mem s' = management_mem s \<and> management_disk s' = management_disk s"
  by (auto simp: persist_device_change_def Let_def management_mem_def management_disk_def fun_eq_iff
      split: if_splits option.splits)

lemma persist_device_change_sync:
  "management_mem s = management_disk s \<Longrightarrow> persist_device_change saved key updated s = (s', r) \<Longrightarrow>
   management_mem s' = management_disk s'"
proof (cases r)
  case (Inl e)
  assume "management_mem s = management_disk s" "persist_device_change saved key updated s = (s', r)"
  then show ?thesis using Inl persist_device_change_failed [of saved key updated s s' e] by simp
next
  case (Inr u)
  assume "management_mem s = management_disk s" "persist_device_change saved key updated s = (s', r)"
  then show ?thesis using Inr
    by (auto simp: persist_device_change_def Let_def management_mem_def management_disk_def split: if_splits)
qed

lemma persist_forget_sync:
  "management_mem s = management_disk s \<Longrightarrow>
   management_mem (fst (persist_device_change saved key None s)) = management_disk (fst (persist_device_change saved key None s))"
  using persist_device_change_sync [of s saved key None] by (metis prod.collapse)

interpretation management: durable_store management_change management_mem management_disk "\<lambda>_. True"
proof
  fix s r saved s' and res :: "store_error + unit" and e
  show "management_mem s' = management_disk s'"
    if "management_mem s = management_disk s" "management_change r saved s = (s', res)"
    using that persist_device_change_sync [of s] persist_forget_sync [of s]
    by (cases r) (auto simp: management_update_def update_device_policy_def forget_device_policy_def
        remember_snapshot_def management_mem_def management_disk_def
        split: if_splits sum.splits prod.splits json.splits)
  show "management_mem s' = management_mem s \<and> management_disk s' = management_disk s"
    if "management_change r saved s = (s', Inl e)"
    using that persist_device_change_failed [of saved]
    by (cases r) (auto simp: management_update_def update_device_policy_def
        split: if_splits sum.splits prod.splits json.splits)
qed simp

subsection \<open>Properties\<close>

text \<open>
  Whatever sequence of key insertions and removals happens, and whichever of their saves
  fail, the account keys in memory are those of the key file, so a restart loses no key and
  revives none.
\<close>

theorem account_keys_durable:
  assumes "hm_ok (ak_keys s)" and "hm_get (ak_keys s) = hm_get (ak_file s)"
  shows "hm_get (ak_keys (account.history rs s)) = hm_get (ak_file (account.history rs s))"
  using account.history_in_sync [of s rs] assms by (simp add: keys_good_def)

theorem account_keys_durable_witness:
  "hm_get (ak_keys (account.history [(InsertKey ''a'' (4 # replicate 15 0), True), (RemoveKey ''a'', False)]
       \<lparr>ak_keys = [], ak_file = []\<rparr>))
   = hm_get (ak_file (account.history [(InsertKey ''a'' (4 # replicate 15 0), True), (RemoveKey ''a'', False)]
       \<lparr>ak_keys = [], ak_file = []\<rparr>))"
  using account_keys_durable [of "\<lparr>ak_keys = [], ak_file = []\<rparr>"
      "[(InsertKey ''a'' (4 # replicate 15 0), True), (RemoveKey ''a'', False)]"] by simp

text \<open>
  A key change that reports success is in memory and on disk; one that reports an error leaves
  both as they were; the key of another device never changes; and only keys with the type
  byte of an account key are stored.
\<close>

theorem account_key_insert_outcome:
  assumes "hm_ok (ak_keys s)"
  shows "(case account_key_insert device key saved s of
      (s', Inl e) \<Rightarrow> s' = s
    | (s', Inr _) \<Rightarrow> saved \<and> key ! 0 = 4 \<and> account_key_get device s' = Some key
        \<and> hm_get (ak_file s') device = Some key
        \<and> (\<forall>d. d = device \<or> account_key_get d s' = account_key_get d s \<and> hm_get (ak_file s') d = account_key_get d s))"
  using assms
  by (auto simp: account_key_insert_def account_key_persist_def validate_key_def account_key_get_def
      filter_other hm_get_append hm_get_def [of "[(_, _)]"] split: option.split)

theorem account_key_insert_outcome_witness:
  "case account_key_insert ''a'' (4 # replicate 15 0) True \<lparr>ak_keys = [], ak_file = []\<rparr> of
     (s', Inl e) \<Rightarrow> False | (s', Inr _) \<Rightarrow> hm_get (ak_file s') ''a'' = Some (4 # replicate 15 0)"
  using account_key_insert_outcome [where s = "\<lparr>ak_keys = [], ak_file = []\<rparr>" and device = "''a''"
      and key = "4 # replicate 15 0" and saved = True]
  by (simp add: account_key_insert_def account_key_persist_def validate_key_def)

text \<open>
  Policy updates, per-device updates, forgotten devices and remembered snapshots, in any
  order and with any saves failing: the policies in memory are those on disk, and a change that
  reports an error has changed nothing.
\<close>

theorem management_durable:
  assumes "management_mem s = management_disk s"
  shows "management_mem (management.history rs s) = management_disk (management.history rs s)
    \<and> (\<forall>r saved s' e. management_change r saved (management.history rs s) = (s', Inl e) \<longrightarrow>
         management_mem s' = management_mem (management.history rs s)
         \<and> management_disk s' = management_disk (management.history rs s))"
  using management.history_in_sync [of s rs] management.failure assms by blast

definition management_new :: management where
  "management_new = \<lparr>mg_policy = policy_default, mg_policy_file = policy_default,
     mg_runtime = \<lparr>ru_adapter_power = [], ru_connected_device_keys = []\<rparr>,
     mg_runtime_file = \<lparr>ru_adapter_power = [], ru_connected_device_keys = []\<rparr>,
     mg_devices = [], mg_devices_file = []\<rparr>"

theorem management_durable_witness:
  "management_mem (management.history [(UpdateDevice ''k'' (JObject [(''trust_after_pair'', JBool False)]), False)]
     management_new)
   = management_disk (management.history [(UpdateDevice ''k'' (JObject [(''trust_after_pair'', JBool False)]), False)]
     management_new)"
  using management_durable [of management_new
      "[(UpdateDevice ''k'' (JObject [(''trust_after_pair'', JBool False)]), False)]"]
  by (simp add: management_mem_def management_disk_def management_new_def)

text \<open>
  A setting of a device is its override, or the global default where there is none; setting it to
  null gives the default back, and a device whose overrides are all gone has no stored entry.
\<close>

theorem device_override_resets:
  assumes "hm_get (mg_devices s) key = Some (overrides_default\<lparr>ov_trust_after_pair := Some b\<rparr>)"
  shows "dp_trust_after_pair (effective_policy key s) = b
    \<and> (case update_device_policy key (JObject [(''trust_after_pair'', JNull)]) True s of (s', r) \<Rightarrow>
        hm_get (mg_devices s') key = None \<and> hm_get (mg_devices_file s') key = None
        \<and> dp_trust_after_pair (effective_policy key s') = po_trust_after_pair (mg_policy s))"
  using assms
  by (simp add: effective_policy_def effective_def update_device_policy_def apply_override_def
      optional_value_def unwrap_or_def overrides_default_def persist_device_change_def Let_def)

theorem device_override_resets_witness:
  "dp_trust_after_pair (effective_policy ''k'' (management_new\<lparr>mg_devices :=
     [(''k'', overrides_default\<lparr>ov_trust_after_pair := Some False\<rparr>)]\<rparr>)) = False"
  using device_override_resets [of "management_new\<lparr>mg_devices :=
     [(''k'', overrides_default\<lparr>ov_trust_after_pair := Some False\<rparr>)]\<rparr>" "''k''" False]
  by (simp add: hm_get_def)

end
