(* ===== verification/StateFiles.thy ===== *)
theory StateFiles
  imports Stores
begin

text \<open>
  The files of \<open>src/management.rs\<close> and \<open>src/fast_pair/keys.rs\<close>: what is written for a state, and how a start reads it
  back. The fields have the names, defaults and types of the \<open>serde\<close> attributes; the derived code also accepts the
  fields by position from an array, ignores names it does not know, and keeps the last of equal keys, which objects
  do not have. Reading and replacing a file is the daemon's core crate: a file is the JSON value it holds.
\<close>

subsection \<open>Fields\<close>

text \<open>The values a struct with these fields is read from.\<close>

fun fields_of :: "string list \<Rightarrow> json \<Rightarrow> (string \<Rightarrow> json option) option" where
  "fields_of names (JObject fs) = Some (map_of fs)"
| "fields_of names (JArray vs) = (if length vs \<le> length names then Some (map_of (zip names vs)) else None)"
| "fields_of names _ = None"

definition field_or :: "'a \<Rightarrow> (json \<Rightarrow> 'a option) \<Rightarrow> json option \<Rightarrow> 'a option" where
  "field_or missing decode v = (case v of None \<Rightarrow> Some missing | Some j \<Rightarrow> decode j)"

fun u8_of :: "json \<Rightarrow> u8 option" where
  "u8_of (JInt i) = (if 0 \<le> i \<and> i < 256 then Some (word_of_int i) else None)"
| "u8_of _ = None"

fun string_of :: "json \<Rightarrow> string option" where
  "string_of (JString t) = Some t"
| "string_of _ = None"

definition option_of :: "(json \<Rightarrow> 'a option) \<Rightarrow> json \<Rightarrow> 'a option option" where
  "option_of decode j = (if j = JNull then Some None else map_option Some (decode j))"

fun list_of :: "(json \<Rightarrow> 'a option) \<Rightarrow> json \<Rightarrow> 'a list option" where
  "list_of decode (JArray vs) = those (map decode vs)"
| "list_of decode _ = None"

fun map_from :: "(json \<Rightarrow> 'a option) \<Rightarrow> json \<Rightarrow> (string, 'a) hmap option" where
  "map_from decode (JObject fs) = those (map (\<lambda>(k, v). map_option (Pair k) (decode v)) fs)"
| "map_from decode _ = None"

definition u8_json :: "u8 \<Rightarrow> json" where "u8_json v = JInt (uint v)"

definition map_json :: "('a \<Rightarrow> json) \<Rightarrow> (string, 'a) hmap \<Rightarrow> json" where
  "map_json encode m = JObject (map (\<lambda>(k, v). (k, encode v)) m)"

text \<open>\<open>skip_serializing_if = Option::is_none\<close>\<close>

definition some_field :: "string \<Rightarrow> ('a \<Rightarrow> json) \<Rightarrow> 'a option \<Rightarrow> (string \<times> json) list" where
  "some_field name encode v = (case v of None \<Rightarrow> [] | Some x \<Rightarrow> [(name, encode x)])"

subsection \<open>The three files\<close>

definition POLICY_FIELDS :: "string list" where
  "POLICY_FIELDS = [''version'', ''launch_state'', ''reconnect_on_resume'', ''trust_after_pair'', ''preferred_adapter_key'',
     ''show_blocked_devices'', ''show_recent_devices'']"

definition policy_json :: "policy \<Rightarrow> json" where
  "policy_json p = JObject
     [(''version'', u8_json (po_version p)), (''launch_state'', JString (po_launch_state p)),
      (''reconnect_on_resume'', JBool (po_reconnect_on_resume p)), (''trust_after_pair'', JBool (po_trust_after_pair p)),
      (''preferred_adapter_key'', JString (po_preferred_adapter_key p)),
      (''show_blocked_devices'', JBool (po_show_blocked_devices p)), (''show_recent_devices'', JBool (po_show_recent_devices p))]"

definition policy_of :: "json \<Rightarrow> policy option" where
  "policy_of j =
     Option.bind (fields_of POLICY_FIELDS j) (\<lambda>f.
     Option.bind (field_or 1 u8_of (f ''version'')) (\<lambda>version.
     Option.bind (field_or ''remember'' string_of (f ''launch_state'')) (\<lambda>launch.
     Option.bind (field_or True json_bool (f ''reconnect_on_resume'')) (\<lambda>reconnect.
     Option.bind (field_or True json_bool (f ''trust_after_pair'')) (\<lambda>trust.
     Option.bind (field_or [] string_of (f ''preferred_adapter_key'')) (\<lambda>preferred.
     Option.bind (field_or False json_bool (f ''show_blocked_devices'')) (\<lambda>blocked.
     Option.bind (field_or False json_bool (f ''show_recent_devices'')) (\<lambda>recent.
       Some \<lparr>po_version = version, po_launch_state = launch, po_reconnect_on_resume = reconnect, po_trust_after_pair = trust,
         po_preferred_adapter_key = preferred, po_show_blocked_devices = blocked, po_show_recent_devices = recent\<rparr>))))))))"

definition OVERRIDE_FIELDS :: "string list" where
  "OVERRIDE_FIELDS = [''reconnect_on_resume'', ''trust_after_pair'', ''power_on_connect'', ''wait_for_services'',
     ''fast_pair_controls_enabled'', ''audio_route_on_connect'', ''preferred_audio_profile_key'']"

definition overrides_json :: "overrides \<Rightarrow> json" where
  "overrides_json r = JObject
     (some_field ''reconnect_on_resume'' JBool (ov_reconnect_on_resume r) @ some_field ''trust_after_pair'' JBool (ov_trust_after_pair r)
      @ some_field ''power_on_connect'' JBool (ov_power_on_connect r) @ some_field ''wait_for_services'' JBool (ov_wait_for_services r)
      @ some_field ''fast_pair_controls_enabled'' JBool (ov_fast_pair_controls_enabled r)
      @ some_field ''audio_route_on_connect'' JString (ov_audio_route_on_connect r)
      @ some_field ''preferred_audio_profile_key'' JString (ov_preferred_audio_profile_key r))"

definition overrides_of :: "json \<Rightarrow> overrides option" where
  "overrides_of j =
     Option.bind (fields_of OVERRIDE_FIELDS j) (\<lambda>f.
     Option.bind (field_or None (option_of json_bool) (f ''reconnect_on_resume'')) (\<lambda>reconnect.
     Option.bind (field_or None (option_of json_bool) (f ''trust_after_pair'')) (\<lambda>trust.
     Option.bind (field_or None (option_of json_bool) (f ''power_on_connect'')) (\<lambda>power_on.
     Option.bind (field_or None (option_of json_bool) (f ''wait_for_services'')) (\<lambda>wait.
     Option.bind (field_or None (option_of json_bool) (f ''fast_pair_controls_enabled'')) (\<lambda>controls.
     Option.bind (field_or None (option_of string_of) (f ''audio_route_on_connect'')) (\<lambda>route.
     Option.bind (field_or None (option_of string_of) (f ''preferred_audio_profile_key'')) (\<lambda>profile.
       Some \<lparr>ov_reconnect_on_resume = reconnect, ov_trust_after_pair = trust, ov_power_on_connect = power_on,
         ov_wait_for_services = wait, ov_fast_pair_controls_enabled = controls, ov_audio_route_on_connect = route,
         ov_preferred_audio_profile_key = profile\<rparr>))))))))"

definition devices_json :: "(string, overrides) hmap \<Rightarrow> json" where
  "devices_json m = JObject [(''version'', u8_json 1), (''devices'', map_json overrides_json m)]"

definition devices_of :: "json \<Rightarrow> (u8 \<times> (string, overrides) hmap) option" where
  "devices_of j =
     Option.bind (fields_of [''version'', ''devices''] j) (\<lambda>f.
     Option.bind (field_or 1 u8_of (f ''version'')) (\<lambda>version.
     Option.bind (field_or [] (map_from overrides_of) (f ''devices'')) (\<lambda>devices. Some (version, devices))))"

definition runtime_json :: "runtime_state \<Rightarrow> json" where
  "runtime_json r = JObject [(''version'', u8_json 1), (''adapter_power'', map_json JBool (ru_adapter_power r)),
     (''connected_device_keys'', JArray (map JString (ru_connected_device_keys r)))]"

definition runtime_of :: "json \<Rightarrow> (u8 \<times> runtime_state) option" where
  "runtime_of j =
     Option.bind (fields_of [''version'', ''adapter_power'', ''connected_device_keys''] j) (\<lambda>f.
     Option.bind (field_or 1 u8_of (f ''version'')) (\<lambda>version.
     Option.bind (field_or [] (map_from json_bool) (f ''adapter_power'')) (\<lambda>adapters.
     Option.bind (field_or [] (list_of string_of) (f ''connected_device_keys'')) (\<lambda>keys.
       Some (version, \<lparr>ru_adapter_power = adapters, ru_connected_device_keys = keys\<rparr>)))))"

subsection \<open>Loading\<close>

datatype load_error = Undecodable string | Unsupported string nat | InvalidPolicy store_error

text \<open>\<open>load_state\<close>: a file that does not exist is the default.\<close>

definition load_state :: "string \<Rightarrow> 'a \<Rightarrow> (json \<Rightarrow> 'a option) \<Rightarrow> json option \<Rightarrow> load_error + 'a" where
  "load_state description missing decode file =
     (case file of None \<Rightarrow> Inr missing | Some j \<Rightarrow> option_err (Undecodable description) (decode j))"

definition runtime_default :: runtime_state where
  "runtime_default = \<lparr>ru_adapter_power = [], ru_connected_device_keys = []\<rparr>"

definition check_version :: "string \<Rightarrow> u8 \<Rightarrow> load_error + unit" where
  "check_version description version = (if version \<noteq> 1 then Inl (Unsupported description (unat version)) else Inr ())"

definition management_load :: "json option \<Rightarrow> json option \<Rightarrow> json option \<Rightarrow> load_error + management" where
  "management_load policy_file runtime_file devices_file =
     res_bind (load_state ''Bluetooth management policy'' policy_default policy_of policy_file) (\<lambda>policy.
     res_bind (check_version ''management policy'' (po_version policy)) (\<lambda>_.
     res_bind (case validate_launch_state (po_launch_state policy) of Inl e \<Rightarrow> Inl (InvalidPolicy e) | Inr _ \<Rightarrow> Inr ()) (\<lambda>_.
     res_bind (load_state ''Bluetooth runtime state'' (1, runtime_default) runtime_of runtime_file) (\<lambda>(runtime_version, runtime).
     res_bind (check_version ''runtime state'' runtime_version) (\<lambda>_.
     res_bind (load_state ''Bluetooth per-device policy'' (1, []) devices_of devices_file) (\<lambda>(devices_version, devices).
     res_bind (check_version ''per-device policy'' devices_version) (\<lambda>_.
       Inr \<lparr>mg_policy = policy, mg_policy_file = policy, mg_runtime = runtime, mg_runtime_file = runtime,
         mg_devices = devices, mg_devices_file = devices\<rparr>)))))))"

subsection \<open>Round trips\<close>

lemma u8_round [simp]: "u8_of (u8_json v) = Some v"
  using uint_lt2p [of v] by (simp add: u8_json_def)

lemma field_or_simps [simp]: "field_or d f None = Some d" "field_or d f (Some v) = f v"
  by (simp_all add: field_or_def)

lemma map_from_round:
  assumes "\<And>v. decode (encode v) = Some v"
  shows "map_from decode (map_json encode m) = Some m"
proof -
  have "those (map (\<lambda>(k, v). map_option (Pair k) (decode v)) (map (\<lambda>(k, v). (k, encode v)) m)) = Some m"
    by (induction m) (auto simp: assms)
  then show ?thesis by (simp only: map_json_def map_from.simps)
qed

lemma policy_round: "policy_of (policy_json p) = Some p"
  by (simp add: policy_of_def policy_json_def)

lemma map_of_some_field [simp]:
  "map_of (some_field name encode v @ fs) name' = (if name = name' \<and> v \<noteq> None then map_option encode v else map_of fs name')"
  by (cases v) (auto simp: some_field_def)

lemma map_of_some_field_last [simp]:
  "map_of (some_field name encode v) name' = (if name = name' then map_option encode v else None)"
  by (cases v) (auto simp: some_field_def)

lemma field_or_option [simp]:
  "field_or None (option_of json_bool) (map_option JBool v) = Some v"
  "field_or None (option_of string_of) (map_option JString w) = Some w"
  by (cases v; simp add: option_of_def) (cases w; simp add: option_of_def)

lemma overrides_round: "overrides_of (overrides_json r) = Some r"
proof -
  define f where "f = map_of (some_field ''reconnect_on_resume'' JBool (ov_reconnect_on_resume r)
      @ some_field ''trust_after_pair'' JBool (ov_trust_after_pair r)
      @ some_field ''power_on_connect'' JBool (ov_power_on_connect r) @ some_field ''wait_for_services'' JBool (ov_wait_for_services r)
      @ some_field ''fast_pair_controls_enabled'' JBool (ov_fast_pair_controls_enabled r)
      @ some_field ''audio_route_on_connect'' JString (ov_audio_route_on_connect r)
      @ some_field ''preferred_audio_profile_key'' JString (ov_preferred_audio_profile_key r))"
  have "f ''reconnect_on_resume'' = map_option JBool (ov_reconnect_on_resume r)"
      "f ''trust_after_pair'' = map_option JBool (ov_trust_after_pair r)"
      "f ''power_on_connect'' = map_option JBool (ov_power_on_connect r)"
      "f ''wait_for_services'' = map_option JBool (ov_wait_for_services r)"
      "f ''fast_pair_controls_enabled'' = map_option JBool (ov_fast_pair_controls_enabled r)"
      "f ''audio_route_on_connect'' = map_option JString (ov_audio_route_on_connect r)"
      "f ''preferred_audio_profile_key'' = map_option JString (ov_preferred_audio_profile_key r)"
    by (simp_all add: f_def del: map_of_append)
  moreover have "fields_of OVERRIDE_FIELDS (overrides_json r) = Some f" by (simp only: overrides_json_def f_def fields_of.simps)
  ultimately show ?thesis by (simp add: overrides_of_def)
qed

lemma devices_round: "devices_of (devices_json m) = Some (1, m)"
  by (simp add: devices_of_def devices_json_def map_from_round [OF overrides_round])

lemma runtime_round: "runtime_of (runtime_json r) = Some (1, r)"
proof -
  have "map_from json_bool (map_json JBool m) = Some m" for m by (rule map_from_round) simp
  moreover have "those (map (string_of \<circ> JString) ks) = Some ks" for ks by (induction ks) simp_all
  ultimately show ?thesis by (simp add: runtime_of_def runtime_json_def)
qed

subsection \<open>Restarts\<close>

definition policy_valid :: "policy \<Rightarrow> bool" where
  "policy_valid p \<longleftrightarrow> po_version p = 1 \<and> validate_launch_state (po_launch_state p) = Inr ()"

lemma apply_setting_valid: "apply_setting name v p = Inr p' \<Longrightarrow> policy_valid p \<Longrightarrow> policy_valid p'"
  by (cases v) (auto simp: apply_setting_def bool_setting_def policy_valid_def res_bind_Inr split: if_splits)

lemma apply_settings_valid: "apply_settings fs p = Inr p' \<Longrightarrow> policy_valid p \<Longrightarrow> policy_valid p'"
proof (induction fs arbitrary: p)
  case (Cons f fs)
  obtain name v where f: "f = (name, v)" by force
  then obtain p1 where "apply_setting name v p = Inr p1" "apply_settings fs p1 = Inr p'"
    using Cons.prems(1) by (auto simp: res_bind_Inr)
  then show ?case using Cons.IH apply_setting_valid Cons.prems(2) by blast
qed simp

lemma persist_device_policy_file [simp]:
  "mg_policy (fst (persist_device_change saved key u s)) = mg_policy s"
  "mg_policy_file (fst (persist_device_change saved key u s)) = mg_policy_file s"
  by (simp_all add: persist_device_change_def Let_def)

lemma update_device_policy_file:
  "mg_policy (fst (update_device_policy k v saved s)) = mg_policy s
    \<and> mg_policy_file (fst (update_device_policy k v saved s)) = mg_policy_file s"
proof (cases v)
  case (JObject fs)
  show ?thesis
  proof (cases "apply_overrides fs (unwrap_or overrides_default (hm_get (mg_devices s) k))")
    case (Inr u)
    let ?u = "if u \<noteq> overrides_default then Some u else None"
    obtain s' r where p: "persist_device_change saved k ?u s = (s', r)" by force
    then have "mg_policy s' = mg_policy s \<and> mg_policy_file s' = mg_policy_file s"
      using persist_device_policy_file [of saved k ?u s] by simp
    then show ?thesis using JObject Inr p by (simp add: update_device_policy_def split: sum.split)
  qed (simp add: update_device_policy_def JObject)
qed (simp_all add: update_device_policy_def)

lemma management_update_valid:
  assumes "policy_valid (mg_policy s)" and "policy_valid (mg_policy_file s)"
  shows "policy_valid (mg_policy (fst (management_update v saved s))) \<and> policy_valid (mg_policy_file (fst (management_update v saved s)))"
proof (cases v)
  case (JObject fs)
  show ?thesis
  proof (cases "apply_settings fs (mg_policy s)")
    case (Inr p)
    then show ?thesis using assms apply_settings_valid [OF Inr assms(1)] by (simp add: management_update_def JObject)
  qed (use assms in \<open>simp add: management_update_def JObject\<close>)
qed (use assms in \<open>simp_all add: management_update_def\<close>)

lemma management_change_valid:
  assumes "policy_valid (mg_policy s)" and "policy_valid (mg_policy_file s)"
  shows "policy_valid (mg_policy (fst (management_change r saved s))) \<and> policy_valid (mg_policy_file (fst (management_change r saved s)))"
  using assms management_update_valid [OF assms] update_device_policy_file
  by (cases r) (simp_all add: forget_device_policy_def remember_snapshot_def case_prod_unfold)

lemma management_history_valid:
  "policy_valid (mg_policy s) \<Longrightarrow> policy_valid (mg_policy_file s) \<Longrightarrow> policy_valid (mg_policy_file (management.history rs s))"
proof (induction rs arbitrary: s)
  case (Cons x rs)
  obtain r saved where x: "x = (r, saved)" by force
  then show ?case using Cons.IH management_change_valid [OF Cons.prems, of r saved] by simp
qed simp

text \<open>
  C24. A restart loses no policy: whatever was updated, forgotten and remembered, and whichever of the saves failed, a
  start that reads the three files back has the global policy, the state of the adapters and connections, and the
  overrides of every device that the daemon had before it stopped. A store that was loaded is such a start.
\<close>
theorem restart_restores_policies:
  assumes "management_load policy_file runtime_file devices_file = Inr s0" and "s = management.history rs s0"
  shows "\<exists>s1. management_load (Some (policy_json (mg_policy_file s))) (Some (runtime_json (mg_runtime_file s)))
      (Some (devices_json (mg_devices_file s))) = Inr s1 \<and> management_mem s1 = management_mem s"
proof -
  have loaded: "policy_valid (mg_policy s0)" "mg_policy_file s0 = mg_policy s0" "management_mem s0 = management_disk s0"
    using assms(1)
    by (auto simp: management_load_def res_bind_Inr check_version_def policy_valid_def management_mem_def management_disk_def
        split: if_splits sum.splits)
  then have valid: "policy_valid (mg_policy_file s)" using management_history_valid assms(2) by simp
  have sync: "management_mem s = management_disk s"
    using management.history_in_sync [of s0 rs] loaded(3) assms(2) by simp
  let ?s1 = "\<lparr>mg_policy = mg_policy_file s, mg_policy_file = mg_policy_file s, mg_runtime = mg_runtime_file s,
      mg_runtime_file = mg_runtime_file s, mg_devices = mg_devices_file s, mg_devices_file = mg_devices_file s\<rparr>"
  have "management_load (Some (policy_json (mg_policy_file s))) (Some (runtime_json (mg_runtime_file s)))
      (Some (devices_json (mg_devices_file s))) = Inr ?s1"
    using valid by (simp add: management_load_def load_state_def policy_round runtime_round devices_round
        check_version_def policy_valid_def)
  moreover have "management_mem ?s1 = management_mem s" using sync by (simp add: management_mem_def management_disk_def)
  ultimately show ?thesis by blast
qed

theorem restart_restores_policies_witness:
  "\<exists>s1. management_load
      (Some (policy_json (mg_policy_file (management.history [(UpdateDevice ''k'' (JObject [(''trust_after_pair'', JBool False)]), True)] management_new))))
      (Some (runtime_json runtime_default))
      (Some (devices_json [(''k'', overrides_default\<lparr>ov_trust_after_pair := Some False\<rparr>)])) = Inr s1
    \<and> \<not> dp_trust_after_pair (effective_policy ''k'' s1)"
proof -
  let ?s = "management.history [(UpdateDevice ''k'' (JObject [(''trust_after_pair'', JBool False)]), True)] management_new"
  have start: "management_load None None None = Inr management_new"
    by (simp add: management_load_def load_state_def check_version_def policy_default_def validate_launch_state_def
        runtime_default_def management_new_def)
  have s: "?s = management_new\<lparr>mg_devices := [(''k'', overrides_default\<lparr>ov_trust_after_pair := Some False\<rparr>)],
      mg_devices_file := [(''k'', overrides_default\<lparr>ov_trust_after_pair := Some False\<rparr>)]\<rparr>"
  proof -
    have "?s = fst (management_change (UpdateDevice ''k'' (JObject [(''trust_after_pair'', JBool False)])) True management_new)" by simp
    also have "\<dots> = management_new\<lparr>mg_devices := [(''k'', overrides_default\<lparr>ov_trust_after_pair := Some False\<rparr>)],
        mg_devices_file := [(''k'', overrides_default\<lparr>ov_trust_after_pair := Some False\<rparr>)]\<rparr>"
      by code_simp
    finally show ?thesis .
  qed
  have files: "mg_runtime_file ?s = runtime_default"
      "mg_devices_file ?s = [(''k'', overrides_default\<lparr>ov_trust_after_pair := Some False\<rparr>)]"
    unfolding s by (simp_all add: management_new_def runtime_default_def)
  obtain s1 where s1: "management_load (Some (policy_json (mg_policy_file ?s))) (Some (runtime_json runtime_default))
      (Some (devices_json [(''k'', overrides_default\<lparr>ov_trust_after_pair := Some False\<rparr>)])) = Inr s1"
      "management_mem s1 = management_mem ?s"
    using restart_restores_policies [OF start refl, of "[(UpdateDevice ''k'' (JObject [(''trust_after_pair'', JBool False)]), True)]"]
    unfolding files by blast
  have "effective_policy ''k'' s1 = effective_policy ''k'' ?s"
    using s1(2) by (simp add: management_mem_def effective_policy_def)
  moreover have "\<not> dp_trust_after_pair (effective_policy ''k'' ?s)"
    unfolding s by (simp add: effective_policy_def effective_def unwrap_or_def hm_get_def overrides_default_def)
  ultimately show ?thesis using s1(1) by auto
qed

text \<open>
  A start accepts only files of the known versions and a launch state it can act on; settings that a file does not
  have get their defaults, whatever other names it carries.
\<close>
theorem loaded_policy_is_valid:
  assumes "management_load policy_file runtime_file devices_file = Inr s"
  shows "po_version (mg_policy s) = 1 \<and> po_launch_state (mg_policy s) \<in> {''remember'', ''enable'', ''disable''}
    \<and> (\<forall>fs. policy_file = Some (JObject fs) \<and> map_of fs ''launch_state'' = None \<longrightarrow> po_launch_state (mg_policy s) = ''remember'')
    \<and> (\<forall>fs. policy_file = Some (JObject fs) \<and> map_of fs ''reconnect_on_resume'' = None \<longrightarrow> po_reconnect_on_resume (mg_policy s))
    \<and> (\<forall>fs. policy_file = Some (JObject fs) \<and> map_of fs ''trust_after_pair'' = None \<longrightarrow> po_trust_after_pair (mg_policy s))
    \<and> (devices_file = None \<longrightarrow> mg_devices s = []) \<and> (policy_file = None \<longrightarrow> mg_policy s = policy_default)"
proof -
  have p: "load_state ''Bluetooth management policy'' policy_default policy_of policy_file = Inr (mg_policy s)"
    and v: "po_version (mg_policy s) = 1" and l: "validate_launch_state (po_launch_state (mg_policy s)) = Inr ()"
    using assms by (auto simp: management_load_def res_bind_Inr check_version_def split: if_splits sum.splits)
  have d: "devices_file = None \<Longrightarrow> mg_devices s = []"
    using assms by (auto simp: management_load_def res_bind_Inr load_state_def)
  have parsed: "map_of fs ''launch_state'' = None \<Longrightarrow> po_launch_state q = ''remember''"
      "map_of fs ''reconnect_on_resume'' = None \<Longrightarrow> po_reconnect_on_resume q"
      "map_of fs ''trust_after_pair'' = None \<Longrightarrow> po_trust_after_pair q"
    if "policy_of (JObject fs) = Some q" for fs q
    using that by (auto simp: policy_of_def bind_eq_Some_conv)
  have fields: "map_of fs ''launch_state'' = None \<Longrightarrow> po_launch_state (mg_policy s) = ''remember''"
      "map_of fs ''reconnect_on_resume'' = None \<Longrightarrow> po_reconnect_on_resume (mg_policy s)"
      "map_of fs ''trust_after_pair'' = None \<Longrightarrow> po_trust_after_pair (mg_policy s)"
    if "policy_file = Some (JObject fs)" for fs
    using p that parsed [of fs "mg_policy s"] by (simp_all add: load_state_def)
  have "po_launch_state (mg_policy s) \<in> {''remember'', ''enable'', ''disable''}"
    using l by (simp add: validate_launch_state_def split: if_splits)
  moreover have "policy_file = None \<Longrightarrow> mg_policy s = policy_default" using p by (simp add: load_state_def)
  ultimately show ?thesis using v d fields by blast
qed

theorem loaded_policy_is_valid_witness:
  "\<exists>s. management_load (Some (JObject [(''theme'', JString ''dark''), (''launch_state'', JString ''enable'')])) None None = Inr s
    \<and> po_launch_state (mg_policy s) = ''enable'' \<and> po_trust_after_pair (mg_policy s)"
proof -
  let ?f = "Some (JObject [(''theme'', JString ''dark''), (''launch_state'', JString ''enable'')])"
  have "res_ok (management_load ?f None None)" by code_simp
  then obtain s where s: "management_load ?f None None = Inr s" by (cases "management_load ?f None None") simp_all
  moreover have "po_launch_state (mg_policy s) = ''enable''"
    using s by (auto simp: management_load_def res_bind_Inr load_state_def policy_of_def)
  ultimately show ?thesis using loaded_policy_is_valid [OF s] by simp
qed

subsection \<open>The key file\<close>

text \<open>The \<open>hex\<close> crate is an argument; a version is required here.\<close>

definition key_file_json :: "(bytes \<Rightarrow> string) \<Rightarrow> (string, bytes) hmap \<Rightarrow> json" where
  "key_file_json hex keys = JObject [(''version'', u8_json 1), (''account_keys'', map_json (\<lambda>k. JString (hex k)) keys)]"

definition key_file_of :: "json \<Rightarrow> (u8 \<times> (string, string) hmap) option" where
  "key_file_of j =
     Option.bind (fields_of [''version'', ''account_keys''] j) (\<lambda>f.
     Option.bind (Option.bind (f ''version'') u8_of) (\<lambda>version.
     Option.bind (field_or [] (map_from string_of) (f ''account_keys'')) (\<lambda>keys. Some (version, keys))))"

definition account_keys_start ::
    "(string \<Rightarrow> bytes option) \<Rightarrow> json option \<Rightarrow> (load_error + store_error) + (string, bytes) hmap" where
  "account_keys_start unhex file =
     (case file of
        None \<Rightarrow> Inr []
      | Some j \<Rightarrow>
          (case key_file_of j of
             None \<Rightarrow> Inl (Inl (Undecodable ''Fast Pair account key store''))
           | Some (version, entries) \<Rightarrow>
               (case account_keys_load (Some (unat version, map (\<lambda>(d, t). (d, unhex t)) entries)) of
                  Inl e \<Rightarrow> Inl (Inr e)
                | Inr keys \<Rightarrow> Inr keys)))"

definition key_ok :: "bytes \<Rightarrow> bool" where
  "key_ok k \<longleftrightarrow> length k = 16 \<and> k ! 0 = 0x04"

definition keys_valid :: "account_keys \<Rightarrow> bool" where
  "keys_valid s \<longleftrightarrow> hm_ok (ak_keys s) \<and> hm_ok (ak_file s) \<and> (\<forall>(d, k) \<in> set (ak_keys s) \<union> set (ak_file s). key_ok k)"

lemma load_keys_valid:
  assumes "hm_ok m" and "\<forall>(d, k) \<in> set m. key_ok k"
  shows "\<exists>keys. load_keys (map (\<lambda>(d, k). (d, Some k)) m) start = Inr keys
    \<and> (\<forall>d. hm_get keys d = (case hm_get m d of None \<Rightarrow> hm_get start d | Some k \<Rightarrow> Some k))"
  using assms
proof (induction m arbitrary: start)
  case (Cons x m)
  obtain d k where x: "x = (d, k)" by force
  have ok: "hm_ok m" "\<forall>(d, k) \<in> set m. key_ok k" "key_ok k" and new: "hm_get m d = None"
    using Cons.prems by (auto simp: x hm_ok_def hm_get_def map_of_eq_None_iff)
  obtain keys where keys: "load_keys (map (\<lambda>(d, k). (d, Some k)) m) (hm_insert d k start) = Inr keys"
      "\<forall>d'. hm_get keys d' = (case hm_get m d' of None \<Rightarrow> hm_get (hm_insert d k start) d' | Some k \<Rightarrow> Some k)"
    using Cons.IH [OF ok(1,2)] by blast
  have "hm_get (x # m) d' = (if d' = d then Some k else hm_get m d')" for d' by (simp add: x hm_get_def)
  then show ?case using keys ok(3) new by (auto simp: x key_ok_def validate_key_def hm_get_insert split: option.split)
qed simp

lemma key_change_valid:
  assumes "keys_valid s" and "case r of InsertKey d k \<Rightarrow> length k = 16 | RemoveKey d \<Rightarrow> True"
  shows "keys_valid (fst (key_change r saved s))"
proof (cases r)
  case (InsertKey d k)
  have "hm_ok (hm_remove d (ak_keys s) @ [(d, k)])" if "hm_ok (ak_keys s)"
    using hm_ok_remove [OF that, of d] by (auto simp: hm_ok_def hm_remove_def AList.delete_eq)
  then show ?thesis using assms InsertKey
    by (auto simp: keys_valid_def account_key_insert_def account_key_persist_def validate_key_def key_ok_def filter_other
        hm_ok_insert dest!: hm_insert_set [THEN subsetD] hm_remove_set [THEN subsetD] split: if_splits)
next
  case (RemoveKey d)
  then show ?thesis using assms
    by (auto simp: keys_valid_def account_key_remove_def account_key_persist_def filter_other hm_ok_remove
        dest!: hm_remove_set [THEN subsetD] split: if_splits)
qed

lemma key_history_valid:
  "keys_valid s \<Longrightarrow> list_all (\<lambda>(r, _). case r of InsertKey d k \<Rightarrow> length k = 16 | RemoveKey d \<Rightarrow> True) rs \<Longrightarrow>
    keys_valid (account.history rs s)"
proof (induction rs arbitrary: s)
  case (Cons x rs)
  obtain r saved where "x = (r, saved)" by force
  then show ?case using Cons.IH key_change_valid [OF Cons.prems(1), of r saved] Cons.prems(2) by simp
qed simp

text \<open>
  C21. A restart neither loses nor revives an account key: whatever keys of sixteen bytes were inserted and removed, and
  whichever saves failed, the key file is read back to exactly the keys the daemon had, given that decoding undoes
  the hexadecimal encoding.
\<close>
theorem restart_restores_account_keys:
  assumes "\<And>k. unhex (hex k) = Some k"
    and "list_all (\<lambda>(r, _). case r of InsertKey d k \<Rightarrow> length k = 16 | RemoveKey d \<Rightarrow> True) rs"
    and "s = account.history rs \<lparr>ak_keys = [], ak_file = []\<rparr>"
  shows "\<exists>keys. account_keys_start unhex (Some (key_file_json hex (ak_file s))) = Inr keys \<and> hm_get keys = hm_get (ak_keys s)"
proof -
  let ?s0 = "\<lparr>ak_keys = [], ak_file = []\<rparr>"
  have valid: "keys_valid s" using key_history_valid [of ?s0 rs] assms(2,3) by (simp add: keys_valid_def)
  have sync: "hm_get (ak_keys s) = hm_get (ak_file s)"
    using account.history_in_sync [of ?s0 rs] assms(3) by (simp add: keys_good_def)
  have entries: "map_from string_of (map_json (\<lambda>k. JString (hex k)) (ak_file s)) = Some (map (\<lambda>(d, k). (d, hex k)) (ak_file s))"
  proof -
    have "those (map (\<lambda>(d, v). map_option (Pair d) (string_of v)) (map (\<lambda>(d, k). (d, JString (hex k))) m))
        = Some (map (\<lambda>(d, k). (d, hex k)) m)" for m :: "(string, bytes) hmap"
      by (induction m) auto
    then show ?thesis by (simp only: map_json_def map_from.simps)
  qed
  have decoded: "map (\<lambda>(d, t). (d, unhex t)) (map (\<lambda>(d, k). (d, hex k)) (ak_file s)) = map (\<lambda>(d, k). (d, Some k)) (ak_file s)"
    using assms(1) by auto
  obtain keys where "load_keys (map (\<lambda>(d, k). (d, Some k)) (ak_file s)) [] = Inr keys"
      "\<forall>d. hm_get keys d = (case hm_get (ak_file s) d of None \<Rightarrow> hm_get [] d | Some k \<Rightarrow> Some k)"
    using load_keys_valid [of "ak_file s" "[]"] valid by (auto simp: keys_valid_def)
  moreover from this(2) have "hm_get keys = hm_get (ak_keys s)" unfolding sync by (simp add: fun_eq_iff split: option.split)
  moreover have "key_file_of (key_file_json hex (ak_file s)) = Some (1, map (\<lambda>(d, k). (d, hex k)) (ak_file s))"
    by (simp add: key_file_of_def key_file_json_def entries)
  ultimately show ?thesis by (simp add: account_keys_start_def account_keys_load_def decoded del: map_map)
qed

theorem restart_restores_account_keys_witness:
  "\<exists>keys. account_keys_start (\<lambda>t. Some (map (\<lambda>c. of_nat (of_char c)) t))
      (Some (key_file_json (map (\<lambda>b. char_of (unat b))) [(''d'', 4 # replicate 15 0)])) = Inr keys
    \<and> hm_get keys ''d'' = Some (4 # replicate 15 0)"
proof -
  let ?rs = "[(InsertKey ''e'' (4 # replicate 15 1), True), (RemoveKey ''e'', True), (InsertKey ''d'' (4 # replicate 15 0), True),
      (RemoveKey ''d'', False)]"
  let ?s = "account.history ?rs \<lparr>ak_keys = [], ak_file = []\<rparr>"
  have s: "?s = \<lparr>ak_keys = [(''d'', 4 # replicate 15 0)], ak_file = [(''d'', 4 # replicate 15 0)]\<rparr>"
    by (simp add: account_key_insert_def account_key_remove_def account_key_persist_def validate_key_def hm_get_def
        hm_insert_def hm_remove_def)
  have "(\<lambda>t. Some (map (\<lambda>c. of_nat (of_char c)) t)) (map (\<lambda>b :: u8. char_of (unat b)) k) = Some k" for k
  proof (induction k)
    case (Cons b k)
    have "unat b mod 256 = unat b" using unat_less_width [of b] by simp
    then show ?case using Cons by simp
  qed simp
  from restart_restores_account_keys [where rs = ?rs and s = ?s, OF this]
  obtain keys where keys: "account_keys_start (\<lambda>t. Some (map (\<lambda>c. of_nat (of_char c)) t))
      (Some (key_file_json (map (\<lambda>b. char_of (unat b))) [(''d'', 4 # replicate 15 0)])) = Inr keys"
      "hm_get keys = hm_get [(''d'', 4 # replicate 15 0)]"
    unfolding s by auto
  have "hm_get keys ''d'' = Some (4 # replicate 15 0)" unfolding keys(2) by (simp add: hm_get_def)
  then show ?thesis using keys(1) by blast
qed

end
