(* ===== verification/Model.thy ===== *)
theory Model
  imports Prelude
begin

text \<open>
  \<open>src/model.rs\<close> and \<open>src/model/icons.rs\<close>: the battery readings and presentation rules shared
  by the providers, the identity registry and the snapshots.

  Identifiers of the code are \<open>string\<close>; remote-controlled display text is a list of Unicode
  scalar values (\<open>ustring\<close>), which is what \<open>chars()\<close> iterates over.
\<close>

type_synonym ustring = "nat list"

record battery =
  b_id :: string
  b_label :: string
  b_component :: string
  b_percentage :: u8
  b_charging :: "bool option"
  b_source :: string
  b_confidence :: string

definition bluez_aggregate :: "u8 \<Rightarrow> battery" where
  "bluez_aggregate percentage =
     \<lparr>b_id = ''aggregate'', b_label = ''Battery'', b_component = ''main'',
      b_percentage = percentage, b_charging = None, b_source = ''bluez'',
      b_confidence = ''standard''\<rparr>"

subsection \<open>Remote display text\<close>

text \<open>\<open>char::is_control\<close> is general category Cc.\<close>

definition is_control :: "nat \<Rightarrow> bool" where
  "is_control c \<longleftrightarrow> c < 0x20 \<or> (0x7f \<le> c \<and> c < 0xa0)"

definition is_bidi_format :: "nat \<Rightarrow> bool" where
  "is_bidi_format c \<longleftrightarrow> (0x202a \<le> c \<and> c \<le> 0x202e) \<or> (0x2066 \<le> c \<and> c \<le> 0x2069)"

definition remote_text :: "ustring \<Rightarrow> nat \<Rightarrow> ustring" where
  "remote_text text limit = take limit (filter (\<lambda>c. \<not> is_control c \<and> \<not> is_bidi_format c) text)"

lemma remote_text_bounded: "length (remote_text t n) \<le> n"
  by (simp add: remote_text_def)

lemma remote_text_plain:
  "c \<in> set (remote_text t n) \<Longrightarrow> \<not> is_control c \<and> \<not> is_bidi_format c \<and> c \<in> set t"
  by (auto simp: remote_text_def dest!: in_set_takeD)

lemma remote_text_idem: "n \<le> m \<Longrightarrow> remote_text (remote_text t n) m = remote_text t n"
proof -
  assume "n \<le> m"
  have "filter (\<lambda>c. \<not> is_control c \<and> \<not> is_bidi_format c) (remote_text t n) = remote_text t n"
    by (rule filter_True) (blast dest: remote_text_plain)
  with \<open>n \<le> m\<close> remote_text_bounded [of t n] show ?thesis
    by (subst (1) remote_text_def) simp
qed

text \<open>
  \<open>std::str::from_utf8\<close>: shortest-form UTF-8 without surrogates; \<open>None\<close> is its error.
\<close>

definition utf8_cont :: "u8 \<Rightarrow> bool" where
  "utf8_cont b \<longleftrightarrow> 0x80 \<le> b \<and> b \<le> 0xbf"

definition utf8_bits :: "u8 \<Rightarrow> nat" where
  "utf8_bits b = unat b mod 64"

fun utf8_decode :: "bytes \<Rightarrow> ustring option" where
  "utf8_decode [] = Some []"
| "utf8_decode (a # r) =
     (if a < 0x80 then map_option (\<lambda>cs. unat a # cs) (utf8_decode r)
      else if a < 0xc2 then None
      else if a < 0xe0 then
        (case r of
           b # r1 \<Rightarrow>
             if utf8_cont b
             then map_option (\<lambda>cs. ((unat a - 0xc0) * 64 + utf8_bits b) # cs) (utf8_decode r1)
             else None
         | _ \<Rightarrow> None)
      else if a < 0xf0 then
        (case r of
           b # c # r2 \<Rightarrow>
             if utf8_cont b \<and> utf8_cont c \<and> (a = 0xe0 \<longrightarrow> 0xa0 \<le> b) \<and> (a = 0xed \<longrightarrow> b \<le> 0x9f)
             then map_option (\<lambda>cs. ((unat a - 0xe0) * 4096 + utf8_bits b * 64 + utf8_bits c) # cs)
                    (utf8_decode r2)
             else None
         | _ \<Rightarrow> None)
      else if a < 0xf5 then
        (case r of
           b # c # d # r3 \<Rightarrow>
             if utf8_cont b \<and> utf8_cont c \<and> utf8_cont d \<and> (a = 0xf0 \<longrightarrow> 0x90 \<le> b)
                \<and> (a = 0xf4 \<longrightarrow> b \<le> 0x8f)
             then map_option (\<lambda>cs. ((unat a - 0xf0) * 262144 + utf8_bits b * 4096
                      + utf8_bits c * 64 + utf8_bits d) # cs) (utf8_decode r3)
             else None
         | _ \<Rightarrow> None)
      else None)"

subsection \<open>ASCII case and search\<close>

definition ascii_lower :: "char \<Rightarrow> char" where
  "ascii_lower c = (if 65 \<le> (of_char c :: nat) \<and> (of_char c :: nat) \<le> 90 then char_of (of_char c + 32 :: nat) else c)"

definition to_lower :: "string \<Rightarrow> string" where
  "to_lower s = map ascii_lower s"

definition eq_ignore_case :: "string \<Rightarrow> string \<Rightarrow> bool" where
  "eq_ignore_case a b \<longleftrightarrow> to_lower a = to_lower b"

fun starts_with :: "'a list \<Rightarrow> 'a list \<Rightarrow> bool" where
  "starts_with [] s = True"
| "starts_with (p # ps) [] = False"
| "starts_with (p # ps) (c # cs) = (p = c \<and> starts_with ps cs)"

fun contains :: "string \<Rightarrow> string \<Rightarrow> bool" where
  "contains term [] = starts_with term []"
| "contains term (c # cs) = (starts_with term (c # cs) \<or> contains term cs)"

lemma starts_with_append: "starts_with p s \<longleftrightarrow> (\<exists>t. s = p @ t)"
  by (induction p s rule: starts_with.induct) auto

subsection \<open>Device type and components\<close>

definition is_earbud_component :: "battery \<Rightarrow> bool" where
  "is_earbud_component b \<longleftrightarrow>
     (\<exists>component \<in> set [''left'', ''right'']. eq_ignore_case (b_component b) component)"

definition TYPE_RULES :: "(string list \<times> string) list" where
  "TYPE_RULES =
     [([''headset''], ''Headset''), ([''headphone''], ''Headphones''), ([''speaker''], ''Speaker''),
      ([''audio''], ''Audio device''), ([''keyboard''], ''Keyboard''), ([''mouse''], ''Mouse''),
      ([''game'', ''joystick''], ''Game controller''), ([''tablet''], ''Tablet''),
      ([''phone''], ''Phone''), ([''computer'', ''laptop''], ''Computer''),
      ([''printer''], ''Printer''), ([''camera''], ''Camera''),
      ([''watch'', ''wearable''], ''Wearable'')]"

definition find_rule :: "string \<Rightarrow> (string list \<times> string) list \<Rightarrow> string \<Rightarrow> string" where
  "find_rule text rules fallback =
     (case find (\<lambda>(terms, _). \<exists>term \<in> set terms. contains term text) rules of
        None \<Rightarrow> fallback | Some (_, r) \<Rightarrow> r)"

definition presentation_type :: "string option \<Rightarrow> battery list \<Rightarrow> string" where
  "presentation_type icon battery =
     (if \<exists>b \<in> set battery. is_earbud_component b then ''Earbuds''
      else find_rule (to_lower (case icon of None \<Rightarrow> [] | Some i \<Rightarrow> i)) TYPE_RULES ''Bluetooth device'')"

definition presentation_components :: "battery list \<Rightarrow> string list" where
  "presentation_components battery =
     filter (\<lambda>component. \<exists>b \<in> set battery. eq_ignore_case (b_component b) component)
       [''left'', ''right'', ''case'']"

definition presentation_component_order :: "string \<Rightarrow> nat" where
  "presentation_component_order component =
     (if component = ''left'' then 0 else if component = ''right'' then 1
      else if component = ''case'' then 2 else 3)"

subsection \<open>Icons\<close>

record service =
  sv_uuid :: string
  sv_label :: string

definition classify :: "string \<Rightarrow> string \<Rightarrow> bool \<Rightarrow> string \<Rightarrow> string" where
  "classify kind icon earbuds services =
     (if earbuds then ''earbuds''
      else let kind = to_lower kind in
        if kind \<noteq> [] \<and> kind \<noteq> ''bluetooth device'' then
          find_rule kind
            [([''earbuds''], ''earbuds''), ([''headphones''], ''headphones''),
             ([''headset''], ''headset''), ([''speaker''], ''speaker''),
             ([''audio device''], ''bluetoothHeadphones''), ([''keyboard''], ''keyboard''),
             ([''mouse''], ''mouse''), ([''game controller''], ''controller''),
             ([''phone''], ''phone''), ([''computer''], ''computer''), ([''wearable''], ''watch'')]
            ''bluetooth''
        else let found = find_rule (to_lower icon)
            [([''headphones''], ''headphones''), ([''headset''], ''headset''),
             ([''speaker'', ''audio-card''], ''speaker''), ([''keyboard''], ''keyboard''),
             ([''mouse''], ''mouse''), ([''gaming'', ''gamepad'', ''joystick''], ''controller''),
             ([''phone''], ''phone''), ([''computer'', ''laptop''], ''computer''),
             ([''watch''], ''watch'')] []
          in if found \<noteq> [] then found
             else find_rule (to_lower services)
               [([''audio sink''], ''bluetoothHeadphones''),
                ([''handsfree'', ''headset''], ''headset'')] ''bluetooth'')"

fun join :: "string \<Rightarrow> string list \<Rightarrow> string" where
  "join sep [] = []"
| "join sep [s] = s"
| "join sep (s # ss) = s @ sep @ join sep ss"

definition icon_id :: "string \<Rightarrow> string option \<Rightarrow> battery list \<Rightarrow> service list \<Rightarrow> string" where
  "icon_id kind icon battery services =
     classify kind (case icon of None \<Rightarrow> [] | Some i \<Rightarrow> i)
       (\<exists>b \<in> set battery. to_lower (b_component b) \<in> {''left'', ''right''})
       (join '' '' (map (\<lambda>s. to_lower (sv_label s)) services))"

text \<open>A component report identifies earbuds for both the type and the icon.\<close>

lemma to_lower_left_right: "to_lower ''left'' = ''left''" "to_lower ''right'' = ''right''"
  "to_lower ''case'' = ''case''"
  by (simp_all add: to_lower_def ascii_lower_def)

lemma earbud_component_icon:
  assumes "b \<in> set battery" and "is_earbud_component b"
  shows "presentation_type icon battery = ''Earbuds''" and "icon_id kind i battery sv = ''earbuds''"
proof -
  from assms(2) have "to_lower (b_component b) \<in> {''left'', ''right''}"
    by (auto simp: is_earbud_component_def eq_ignore_case_def to_lower_left_right)
  with assms(1) have "\<exists>b \<in> set battery. to_lower (b_component b) \<in> {''left'', ''right''}" by blast
  then show "icon_id kind i battery sv = ''earbuds''"
    by (simp only: icon_id_def classify_def if_True)
  show "presentation_type icon battery = ''Earbuds''"
    using assms by (auto simp: presentation_type_def)
qed

end
