(* ===== verification/Catalog.thy ===== *)
theory Catalog
  imports Model
begin

text \<open>
  The trusted model metadata of \<open>src/fast_pair/metadata.rs\<close>, with the anti-spoofing keys of \<open>src/fast_pair.rs\<close>.
  Opening the file, decoding it into its version and named entries, the \<open>hex\<close> crate and the parser of curve points
  are arguments. A display name is the list of its Unicode code points.
\<close>

subsection \<open>Anti-spoofing keys\<close>

datatype key_error = KeyNotHex | KeyLength nat | NotAPoint

definition parse_anti_spoofing_public_key :: "(string \<Rightarrow> bytes option) \<Rightarrow> (bytes \<Rightarrow> 'k option) \<Rightarrow> string \<Rightarrow> key_error + 'k" where
  "parse_anti_spoofing_public_key unhex point encoded =
     (case unhex encoded of
        None \<Rightarrow> Inl KeyNotHex
      | Some bs \<Rightarrow>
          res_bind
            (if length bs = 64 then Inr (0x04 # bs)
             else if length bs = 65 \<and> bs ! 0 = 0x04 then Inr bs
             else Inl (KeyLength (length bs)))
            (\<lambda>sec1. option_err NotAPoint (point sec1)))"

subsection \<open>The catalog\<close>

record model =
  ml_name :: ustring
  ml_anti_spoofing_public_key :: string

record file_answer =
  fa_regular :: bool
  fa_mode :: "32 word"
  fa_contents :: bytes

datatype open_answer = NotFound | OpenFailed | Opened file_answer

datatype catalog_error = OpenError | NotRegular | Writable | TooLarge | NotDecoded | UnsupportedVersion nat
  | TooManyModels | BadModelId | BadModelName | BadModelKey key_error | DuplicateModel

definition CATALOG_LIMIT :: nat where "CATALOG_LIMIT = 1048576"

definition MODEL_LIMIT :: nat where "MODEL_LIMIT = 1024"

definition utf8_width :: "nat \<Rightarrow> nat" where
  "utf8_width c = (if c < 0x80 then 1 else if c < 0x800 then 2 else if c < 0x10000 then 3 else 4)"

definition name_ok :: "ustring \<Rightarrow> bool" where
  "name_ok name \<longleftrightarrow> name \<noteq> [] \<and> sum_list (map utf8_width name) \<le> 256 \<and> \<not> list_ex is_control name"

definition ensure_or :: "bool \<Rightarrow> 'e \<Rightarrow> 'e + unit" where
  "ensure_or b e = (if b then Inr () else Inl e)"

fun add_models ::
    "(string \<Rightarrow> bytes option) \<Rightarrow> (bytes \<Rightarrow> 'k option) \<Rightarrow> (string \<times> model) list \<Rightarrow> (bytes, model) hmap
      \<Rightarrow> catalog_error + (bytes, model) hmap" where
  "add_models unhex point [] models = Inr models"
| "add_models unhex point ((encoded, model) # rest) models =
     (case unhex encoded of
        None \<Rightarrow> Inl BadModelId
      | Some ident \<Rightarrow>
          if length ident \<noteq> 3 then Inl BadModelId
          else if \<not> name_ok (ml_name model) then Inl BadModelName
          else case parse_anti_spoofing_public_key unhex point (ml_anti_spoofing_public_key model) of
            Inl e \<Rightarrow> Inl (BadModelKey e)
          | Inr _ \<Rightarrow>
              if hm_get models ident \<noteq> None then Inl DuplicateModel
              else add_models unhex point rest (hm_insert ident model models))"

definition parse_catalog ::
    "(bytes \<Rightarrow> (u8 \<times> (string \<times> model) list) option) \<Rightarrow> (string \<Rightarrow> bytes option) \<Rightarrow> (bytes \<Rightarrow> 'k option) \<Rightarrow> bytes
      \<Rightarrow> catalog_error + (bytes, model) hmap" where
  "parse_catalog decode unhex point data =
     res_bind (option_err NotDecoded (decode data)) (\<lambda>(version, entries).
     res_bind (ensure_or (version = 1) (UnsupportedVersion (unat version))) (\<lambda>_.
     res_bind (ensure_or (length entries \<le> MODEL_LIMIT) TooManyModels) (\<lambda>_.
       add_models unhex point entries [])))"

definition load_catalog ::
    "(bytes \<Rightarrow> (u8 \<times> (string \<times> model) list) option) \<Rightarrow> (string \<Rightarrow> bytes option) \<Rightarrow> (bytes \<Rightarrow> 'k option) \<Rightarrow> open_answer
      \<Rightarrow> catalog_error + (bytes, model) hmap" where
  "load_catalog decode unhex point answer =
     (case answer of
        NotFound \<Rightarrow> Inr []
      | OpenFailed \<Rightarrow> Inl OpenError
      | Opened f \<Rightarrow>
          res_bind (ensure_or (fa_regular f) NotRegular) (\<lambda>_.
          res_bind (ensure_or (fa_mode f AND 18 = 0) Writable) (\<lambda>_.
          let data = take (Suc CATALOG_LIMIT) (fa_contents f) in
          res_bind (ensure_or (length data \<le> CATALOG_LIMIT) TooLarge) (\<lambda>_.
            parse_catalog decode unhex point data))))"

text \<open>\<open>start\<close>: the provider goes on without a catalog it cannot trust.\<close>

definition provider_catalog :: "catalog_error + (bytes, model) hmap \<Rightarrow> (bytes, model) hmap" where
  "provider_catalog r = (case r of Inl _ \<Rightarrow> [] | Inr models \<Rightarrow> models)"

subsection \<open>What is trusted\<close>

definition model_ok :: "(string \<Rightarrow> bytes option) \<Rightarrow> (bytes \<Rightarrow> 'k option) \<Rightarrow> model \<Rightarrow> bool" where
  "model_ok unhex point m \<longleftrightarrow> name_ok (ml_name m)
     \<and> (\<exists>xy k. length xy = 64 \<and> point (0x04 # xy) = Some k
          \<and> parse_anti_spoofing_public_key unhex point (ml_anti_spoofing_public_key m) = Inr k)"

lemma parsed_key_is_uncompressed:
  assumes "parse_anti_spoofing_public_key unhex point encoded = Inr k"
  shows "\<exists>xy. length xy = 64 \<and> point (0x04 # xy) = Some k"
proof -
  obtain bs where bs: "unhex encoded = Some bs"
    using assms by (auto simp: parse_anti_spoofing_public_key_def split: option.splits)
  show ?thesis
  proof (cases "length bs = 64")
    case True
    then show ?thesis using assms bs by (auto simp: parse_anti_spoofing_public_key_def)
  next
    case False
    then have "length bs = 65" "bs ! 0 = 0x04" "point bs = Some k"
      using assms bs by (auto simp: parse_anti_spoofing_public_key_def split: if_splits)
    then show ?thesis by (cases bs) auto
  qed
qed

lemma add_models_result:
  assumes "add_models unhex point entries models = Inr result" and "hm_ok models"
  shows "hm_ok result
    \<and> (\<forall>i m. hm_get result i = Some m \<longleftrightarrow>
         hm_get models i = Some m \<or> (\<exists>encoded. (encoded, m) \<in> set entries \<and> unhex encoded = Some i))
    \<and> (\<forall>(encoded, m) \<in> set entries. model_ok unhex point m \<and> (\<exists>i. unhex encoded = Some i \<and> length i = 3))"
  using assms
proof (induction entries arbitrary: models)
  case (Cons x entries)
  obtain encoded m where x: "x = (encoded, m)" by force
  obtain i where i: "unhex encoded = Some i" using Cons.prems(1) by (auto simp: x split: option.splits)
  obtain k where step: "length i = 3" "name_ok (ml_name m)" "hm_get models i = None"
      "parse_anti_spoofing_public_key unhex point (ml_anti_spoofing_public_key m) = Inr k"
      "add_models unhex point entries (hm_insert i m models) = Inr result"
    using Cons.prems(1) by (auto simp: x i split: if_splits sum.splits)
  have ok: "model_ok unhex point m"
    using parsed_key_is_uncompressed [OF step(4)] step(2,4) by (auto simp: model_ok_def)
  note rest = Cons.IH [OF step(5) hm_ok_insert [OF Cons.prems(2)]]
  have get: "hm_get result j = Some n \<longleftrightarrow>
      hm_get models j = Some n \<or> (\<exists>e. (e, n) \<in> set (x # entries) \<and> unhex e = Some j)" for j n
  proof -
    have "hm_get result j = Some n \<longleftrightarrow>
        hm_get (hm_insert i m models) j = Some n \<or> (\<exists>e. (e, n) \<in> set entries \<and> unhex e = Some j)"
      using rest by blast
    then show ?thesis using step(3) i by (auto simp: x hm_get_insert)
  qed
  show ?case using rest get ok i step(1) by (auto simp: x)
qed simp

text \<open>
  C36. The catalog is a trust root: what the provider uses of it comes from a regular file that only its owner may write, at
  most one mebibyte of version 1 with at most 1,024 entries, all of which are used; each model has a three-byte
  identifier, a plain name of at most 256 bytes and an uncompressed point of the curve as its key; and no
  identifier, however it is spelled, names two models. Anything else leaves the provider without a catalog.
\<close>
theorem catalog_is_trusted:
  assumes "models = provider_catalog (load_catalog decode unhex point answer)" and "models \<noteq> []"
  shows "\<exists>f entries. answer = Opened f \<and> fa_regular f \<and> fa_mode f AND 18 = 0 \<and> length (fa_contents f) \<le> CATALOG_LIMIT
    \<and> decode (fa_contents f) = Some (1, entries) \<and> length entries \<le> MODEL_LIMIT \<and> hm_ok models
    \<and> (\<forall>i m. hm_get models i = Some m \<longleftrightarrow> (\<exists>encoded. (encoded, m) \<in> set entries \<and> unhex encoded = Some i))
    \<and> (\<forall>(encoded, m) \<in> set entries. model_ok unhex point m \<and> (\<exists>i. unhex encoded = Some i \<and> length i = 3))"
proof -
  have load: "load_catalog decode unhex point answer = Inr models"
    using assms by (auto simp: provider_catalog_def split: sum.splits)
  then obtain f where f: "answer = Opened f"
    using assms(2) by (cases answer) (auto simp: load_catalog_def)
  have checks: "fa_regular f" "fa_mode f AND 18 = 0" "length (take (Suc CATALOG_LIMIT) (fa_contents f)) \<le> CATALOG_LIMIT"
      and parsed: "parse_catalog decode unhex point (take (Suc CATALOG_LIMIT) (fa_contents f)) = Inr models"
    using load f by (auto simp: load_catalog_def Let_def ensure_or_def res_bind_Inr split: if_splits)
  have size: "length (fa_contents f) \<le> CATALOG_LIMIT" using checks(3) by simp
  then have whole: "take (Suc CATALOG_LIMIT) (fa_contents f) = fa_contents f" by simp
  obtain entries where entries: "decode (fa_contents f) = Some (1, entries)" "length entries \<le> MODEL_LIMIT"
      "add_models unhex point entries [] = Inr models"
    using parsed unfolding whole by (auto simp: parse_catalog_def ensure_or_def res_bind_Inr split: if_splits)
  have "hm_get models i = Some m \<longleftrightarrow> (\<exists>encoded. (encoded, m) \<in> set entries \<and> unhex encoded = Some i)" for i m
    using add_models_result [OF entries(3)] by simp
  then show ?thesis using f checks(1,2) size entries(1,2) add_models_result [OF entries(3)] by auto
qed

definition demo_model :: model where
  "demo_model = \<lparr>ml_name = [0x42, 0x75, 0x64, 0x73], ml_anti_spoofing_public_key = ''key''\<rparr>"

definition demo_unhex :: "string \<Rightarrow> bytes option" where
  "demo_unhex t = (if t = ''key'' then Some (replicate 64 7) else if t = ''00aaff'' then Some [0, 0xaa, 0xff] else None)"

theorem catalog_is_trusted_witness:
  "hm_get (provider_catalog (load_catalog (\<lambda>_. Some (1, [(''00aaff'', demo_model)])) demo_unhex (\<lambda>_. Some ())
      (Opened \<lparr>fa_regular = True, fa_mode = 0x1a4, fa_contents = [1]\<rparr>))) [0, 0xaa, 0xff] = Some demo_model"
proof -
  let ?a = "Opened \<lparr>fa_regular = True, fa_mode = 0x1a4, fa_contents = [1]\<rparr>"
  let ?c = "provider_catalog (load_catalog (\<lambda>_. Some (1, [(''00aaff'', demo_model)])) demo_unhex (\<lambda>_. Some ()) ?a)"
  have "?c \<noteq> []"
    by (simp add: provider_catalog_def load_catalog_def ensure_or_def parse_catalog_def MODEL_LIMIT_def CATALOG_LIMIT_def
        demo_unhex_def demo_model_def name_ok_def utf8_width_def is_control_def parse_anti_spoofing_public_key_def
        hm_get_def hm_insert_def)
  from catalog_is_trusted [OF refl this] show ?thesis by (auto simp: demo_unhex_def)
qed

end
