(* ===== verification/Daemon.thy ===== *)
theory Daemon
  imports Backend
begin

text \<open>
  State machines of the daemon: the life of one device operation (\<open>src/daemon/operation.rs\<close>),
  watermarked publication (\<open>src/daemon/published.rs\<close>) and the replacement of the backend when
  BlueZ changes its owner (\<open>src/bluez/recovery/owner.rs\<close>).

  The table of active operations belongs to the daemon's core crate. One operation sees of it that
  its entry is there until it is claimed, once; this is the flag \<open>os_active\<close>.
\<close>

definition MAX_REVISION :: nat where "MAX_REVISION = 2 ^ 53 - 1"

subsection \<open>Operation events\<close>

record ('s, 'e) operation_event =
  oe_event :: string
  oe_request_id :: string
  oe_revision :: nat
  oe_owner :: "string option"
  oe_device_key :: string
  oe_operation :: string
  oe_state :: string
  oe_stage :: string
  oe_snapshot :: "'s option"
  oe_error :: "'e option"

definition queued :: "string \<Rightarrow> string \<Rightarrow> string \<Rightarrow> string option \<Rightarrow> ('s, 'e) operation_event" where
  "queued request_id device_key operation owner =
     \<lparr>oe_event = ''queued'', oe_request_id = request_id, oe_revision = 1, oe_owner = owner,
      oe_device_key = device_key, oe_operation = operation, oe_state = ''queued'',
      oe_stage = ''queued'', oe_snapshot = None, oe_error = None\<rparr>"

definition visible_to :: "string option \<Rightarrow> ('s, 'e) operation_event \<Rightarrow> bool" where
  "visible_to owner ev \<longleftrightarrow> oe_owner ev = owner"

definition set_state :: "string \<Rightarrow> string \<Rightarrow> ('s, 'e) operation_event \<Rightarrow> ('s, 'e) operation_event" where
  "set_state event state ev =
     ev\<lparr>oe_revision := oe_revision ev + 1, oe_event := event, oe_state := state, oe_stage := state\<rparr>"

definition progress :: "string \<Rightarrow> ('s, 'e) operation_event \<Rightarrow> ('s, 'e) operation_event" where
  "progress stage ev = (set_state ''progress'' ''running'' ev)\<lparr>oe_stage := stage\<rparr>"

definition finished :: "'e + 's \<Rightarrow> ('s, 'e) operation_event \<Rightarrow> ('s, 'e) operation_event" where
  "finished result ev =
     (let ev' = (case result of Inr s \<Rightarrow> ev\<lparr>oe_snapshot := Some s\<rparr> | Inl e \<Rightarrow> ev\<lparr>oe_error := Some e\<rparr>);
          terminal = (if oe_error ev' \<noteq> None then ''failed'' else ''completed'')
      in set_state terminal terminal ev')"

definition TERMINAL :: "string set" where
  "TERMINAL = {''completed'', ''failed'', ''cancelled''}"

subsection \<open>One operation\<close>

record ('s, 'e) operation_slot =
  os_event :: "('s, 'e) operation_event"
  os_handle :: bool
  os_active :: bool
  os_started :: bool
  os_published :: "('s, 'e) operation_event list"

definition slot_new :: "('s, 'e) operation_event \<Rightarrow> ('s, 'e) operation_slot" where
  "slot_new ev = \<lparr>os_event = ev, os_handle = True, os_active = True, os_started = False, os_published = []\<rparr>"

definition publish :: "('s, 'e) operation_event \<Rightarrow> ('s, 'e) operation_slot \<Rightarrow> ('s, 'e) operation_slot" where
  "publish ev s = s\<lparr>os_event := ev, os_published := os_published s @ [ev]\<rparr>"

text \<open>\<open>publish_started\<close>, with the worker's decision to go on.\<close>

definition op_start :: "('s, 'e) operation_slot \<Rightarrow> ('s, 'e) operation_slot \<times> bool" where
  "op_start s =
     (if \<not> os_active s then (s, False)
      else ((publish (set_state ''started'' ''running'' (os_event s)) s)\<lparr>os_started := True\<rparr>, True))"

text \<open>\<open>progress_reporter\<close>: \<open>locked\<close> says that the lock was free.\<close>

definition op_progress :: "bool \<Rightarrow> string \<Rightarrow> ('s, 'e) operation_slot \<Rightarrow> ('s, 'e) operation_slot" where
  "op_progress locked stage s =
     (if locked \<and> os_active s \<and> os_handle s \<and> oe_revision (os_event s) < MAX_REVISION - 1
      then publish (progress stage (os_event s)) s else s)"

text \<open>The end of \<open>run\<close>: claim the entry, retain and publish the terminal event.\<close>

definition op_finish :: "'e + 's \<Rightarrow> ('s, 'e) operation_slot \<Rightarrow> ('s, 'e) operation_slot" where
  "op_finish result s =
     (if os_active s then (publish (finished result (os_event s)) s)\<lparr>os_active := False\<rparr> else s)"

definition op_cancel :: "string option \<Rightarrow> ('s, 'e) operation_slot \<Rightarrow> ('s, 'e) operation_slot \<times> bool" where
  "op_cancel owner s =
     (if os_active s \<and> visible_to owner (os_event s) then (s\<lparr>os_handle := False\<rparr>, True)
      else (s, False))"

text \<open>The reaper that waits for the aborted worker.\<close>

definition op_reap :: "('s, 'e) operation_slot \<Rightarrow> ('s, 'e) operation_slot" where
  "op_reap s =
     (if os_active s
      then (publish (set_state ''cancelled'' ''cancelled'' (os_event s)) s)\<lparr>os_active := False\<rparr> else s)"

inductive op_step :: "('s, 'e) operation_slot \<Rightarrow> ('s, 'e) operation_slot \<Rightarrow> bool" where
  start: "\<not> os_started s \<Longrightarrow> op_start s = (s', going) \<Longrightarrow> op_step s s'"
| progress: "os_started s \<Longrightarrow> op_step s (op_progress locked stage s)"
| finish: "os_started s \<Longrightarrow> op_step s (op_finish result s)"
| cancel: "op_cancel owner s = (s', taken) \<Longrightarrow> op_step s s'"
| reap: "\<not> os_handle s \<Longrightarrow> op_step s (op_reap s)"

inductive op_reachable :: "('s, 'e) operation_event \<Rightarrow> ('s, 'e) operation_slot \<Rightarrow> bool" for ev where
  initial: "op_reachable ev (slot_new ev)"
| step: "op_reachable ev s \<Longrightarrow> op_step s s' \<Longrightarrow> op_reachable ev s'"

text \<open>
  The invariant: the published revisions count up from the queued event's, one by one; a terminal
  event is published exactly when the entry is claimed, and then it is the last.
\<close>

definition op_inv :: "('s, 'e) operation_event \<Rightarrow> ('s, 'e) operation_slot \<Rightarrow> bool" where
  "op_inv ev s \<longleftrightarrow>
     map oe_revision (os_published s) = [Suc (oe_revision ev)..<Suc (oe_revision (os_event s))]
     \<and> oe_revision ev \<le> oe_revision (os_event s)
     \<and> (os_published s \<noteq> [] \<longrightarrow> last (os_published s) = os_event s)
     \<and> (\<forall>e \<in> set (os_published s). oe_request_id e = oe_request_id ev \<and> oe_owner e = oe_owner ev)
     \<and> oe_request_id (os_event s) = oe_request_id ev \<and> oe_owner (os_event s) = oe_owner ev
     \<and> (if os_active s
        then (\<forall>e \<in> set (os_published s). oe_state e = ''running'') \<and> oe_revision (os_event s) \<le> MAX_REVISION - 1
          \<and> (\<not> os_started s \<longrightarrow> os_event s = ev)
        else os_published s \<noteq> [] \<and> oe_state (os_event s) \<in> TERMINAL
          \<and> (\<forall>e \<in> set (butlast (os_published s)). oe_state e = ''running'')
          \<and> oe_revision (os_event s) \<le> MAX_REVISION)"

lemma upt_snoc: "a \<le> b \<Longrightarrow> [a..<b] @ [b] = [a..<Suc b]"
  by simp

lemma op_inv_publish:
  assumes "op_inv ev s" and "oe_revision e = Suc (oe_revision (os_event s))"
    and "oe_request_id e = oe_request_id (os_event s)" and "oe_owner e = oe_owner (os_event s)"
  shows "map oe_revision (os_published (publish e s)) = [Suc (oe_revision ev)..<Suc (oe_revision e)]"
    and "oe_revision ev \<le> oe_revision e"
    and "last (os_published (publish e s)) = e"
    and "\<forall>x \<in> set (os_published (publish e s)). oe_request_id x = oe_request_id ev \<and> oe_owner x = oe_owner ev"
  using assms by (auto simp: op_inv_def publish_def)

lemma set_state_simps [simp]:
  "oe_revision (set_state a b ev) = Suc (oe_revision ev)" "oe_state (set_state a b ev) = b"
  "oe_request_id (set_state a b ev) = oe_request_id ev" "oe_owner (set_state a b ev) = oe_owner ev"
  by (simp_all add: set_state_def)

lemma progress_simps [simp]:
  "oe_revision (progress t ev) = Suc (oe_revision ev)" "oe_state (progress t ev) = ''running''"
  "oe_request_id (progress t ev) = oe_request_id ev" "oe_owner (progress t ev) = oe_owner ev"
  by (simp_all add: progress_def)

lemma finished_simps [simp]:
  "oe_revision (finished r ev) = Suc (oe_revision ev)" "oe_state (finished r ev) \<in> TERMINAL"
  "oe_request_id (finished r ev) = oe_request_id ev" "oe_owner (finished r ev) = oe_owner ev"
  by (cases r; simp add: finished_def Let_def TERMINAL_def)+

lemma op_inv_running:
  assumes "op_inv ev s" and "os_active s" and "oe_revision e = Suc (oe_revision (os_event s))"
    and "oe_request_id e = oe_request_id (os_event s)" and "oe_owner e = oe_owner (os_event s)"
    and "oe_state e = ''running''" and "oe_revision e \<le> MAX_REVISION - 1"
  shows "op_inv ev ((publish e s)\<lparr>os_started := True\<rparr>)"
  using op_inv_publish [OF assms(1,3,4,5)] assms by (auto simp: op_inv_def publish_def)

lemma op_inv_terminal:
  assumes "op_inv ev s" and "os_active s" and "oe_revision e = Suc (oe_revision (os_event s))"
    and "oe_request_id e = oe_request_id (os_event s)" and "oe_owner e = oe_owner (os_event s)"
    and "oe_state e \<in> TERMINAL"
  shows "op_inv ev ((publish e s)\<lparr>os_active := False\<rparr>)"
proof -
  have "oe_revision (os_event s) \<le> MAX_REVISION - 1" using assms(1,2) by (simp add: op_inv_def)
  then have "oe_revision e \<le> MAX_REVISION" using assms(3) by (simp add: MAX_REVISION_def)
  then show ?thesis
    using op_inv_publish [OF assms(1,3,4,5)] assms by (auto simp: op_inv_def publish_def)
qed

lemma op_inv_step:
  assumes "op_step s s'" and "op_inv ev s" and "oe_revision ev = 1"
  shows "op_inv ev s'"
  using assms(1)
proof cases
  case (start going)
  show ?thesis
  proof (cases "os_active s")
    case True
    then have "os_event s = ev" using assms(2) start(1) by (simp add: op_inv_def)
    then have "op_inv ev ((publish (set_state ''started'' ''running'' (os_event s)) s)\<lparr>os_started := True\<rparr>)"
      using assms(2,3) True by (intro op_inv_running) (simp_all add: MAX_REVISION_def)
    then show ?thesis using start True by (simp add: op_start_def)
  qed (use start assms(2) in \<open>simp add: op_start_def\<close>)
next
  case (progress locked stage)
  show ?thesis
  proof (cases "locked \<and> os_active s \<and> os_handle s \<and> oe_revision (os_event s) < MAX_REVISION - 1")
    case True
    then have "op_inv ev ((publish (progress stage (os_event s)) s)\<lparr>os_started := True\<rparr>)"
      using assms(2) by (intro op_inv_running) simp_all
    moreover have "(publish (progress stage (os_event s)) s)\<lparr>os_started := True\<rparr> = publish (progress stage (os_event s)) s"
      using progress(2) by (cases s) (simp only: publish_def operation_slot.simps)
    ultimately show ?thesis using progress True by (simp add: op_progress_def)
  qed (use progress assms(2) in \<open>auto simp: op_progress_def\<close>)
next
  case (finish result)
  then show ?thesis
    using op_inv_terminal [OF assms(2), of "finished result (os_event s)"] assms(2) by (simp add: op_finish_def)
next
  case (cancel owner taken)
  then have "s' = s \<or> s' = s\<lparr>os_handle := False\<rparr>" by (auto simp: op_cancel_def split: if_splits)
  then show ?thesis
  proof
    assume "s' = s\<lparr>os_handle := False\<rparr>"
    moreover have "op_inv ev (s\<lparr>os_handle := False\<rparr>) = op_inv ev s"
      by (cases s) (simp only: op_inv_def operation_slot.simps)
    ultimately show ?thesis using assms(2) by simp
  qed (use assms(2) in simp)
next
  case reap
  then show ?thesis
    using op_inv_terminal [OF assms(2), of "set_state ''cancelled'' ''cancelled'' (os_event s)"] assms(2)
    by (simp add: op_reap_def TERMINAL_def)
qed

lemma op_inv_reachable:
  assumes "op_reachable ev s" and "oe_revision ev = 1"
  shows "op_inv ev s"
  using assms(1)
proof induction
  case initial
  show ?case using assms(2) by (simp add: op_inv_def slot_new_def MAX_REVISION_def)
next
  case (step s s')
  then show ?case using op_inv_step assms(2) by blast
qed

subsection \<open>Publication\<close>

record watermark =
  wm_epoch :: string
  wm_revision :: nat
  wm_previous_epoch :: "string option"

record 'v published =
  pb_value :: 'v
  pb_watermark :: watermark

definition published_new :: "string \<Rightarrow> 'v \<Rightarrow> 'v published" where
  "published_new epoch v =
     \<lparr>pb_value = v, pb_watermark = \<lparr>wm_epoch = epoch, wm_revision = 1, wm_previous_epoch = None\<rparr>\<rparr>"

text \<open>\<open>update\<close>: \<open>fresh\<close> is the identifier a rollover draws; the flag says whether watchers wake.\<close>

definition published_update :: "string \<Rightarrow> 'v \<Rightarrow> 'v published \<Rightarrow> 'v published \<times> bool" where
  "published_update fresh v s =
     (if pb_value s = v then (s, False)
      else
        let w = pb_watermark s;
            w' = (if wm_revision w = MAX_REVISION
                  then \<lparr>wm_epoch = fresh, wm_revision = 1, wm_previous_epoch = Some (wm_epoch w)\<rparr>
                  else w\<lparr>wm_revision := wm_revision w + 1\<rparr>)
        in (\<lparr>pb_value = v, pb_watermark = w'\<rparr>, True))"

text \<open>The published states of a sequence of updates, in order, unchanged ones left out.\<close>

fun publications :: "('v \<times> string) list \<Rightarrow> 'v published \<Rightarrow> 'v published list" where
  "publications [] s = []"
| "publications ((v, fresh) # us) s =
     (case published_update fresh v s of
        (s', woken) \<Rightarrow> (if woken then s' # publications us s' else publications us s'))"

definition stamp_of :: "'v published \<Rightarrow> string \<times> nat" where
  "stamp_of s = (wm_epoch (pb_watermark s), wm_revision (pb_watermark s))"

text \<open>Stamps used so far never come again while fresh identifiers are fresh.\<close>

lemma published_update_cases:
  assumes "published_update fresh v s = (s', woken)"
  obtains (same) "\<not> woken" "s' = s" "pb_value s = v"
  | (bump) "woken" "pb_value s' = v" "pb_value s \<noteq> v"
      "wm_epoch (pb_watermark s') = wm_epoch (pb_watermark s)"
      "wm_revision (pb_watermark s') = Suc (wm_revision (pb_watermark s))"
      "wm_previous_epoch (pb_watermark s') = wm_previous_epoch (pb_watermark s)"
  | (rollover) "woken" "pb_value s' = v" "pb_value s \<noteq> v" "wm_revision (pb_watermark s) = MAX_REVISION"
      "wm_epoch (pb_watermark s') = fresh" "wm_revision (pb_watermark s') = 1"
      "wm_previous_epoch (pb_watermark s') = Some (wm_epoch (pb_watermark s))"
proof (cases "pb_value s = v")
  case True
  then show ?thesis using assms by (intro same) (simp_all add: published_update_def)
next
  case False
  show ?thesis
  proof (cases "wm_revision (pb_watermark s) = MAX_REVISION")
    case True
    then show ?thesis using assms False by (intro rollover) (auto simp: published_update_def Let_def)
  next
    case no: False
    then show ?thesis using assms False by (intro bump) (auto simp: published_update_def Let_def)
  qed
qed

definition stamps_covered :: "(string \<times> nat) set \<Rightarrow> 'v published \<Rightarrow> bool" where
  "stamps_covered used s \<longleftrightarrow>
     (\<forall>r. (wm_epoch (pb_watermark s), r) \<in> used \<longrightarrow> r \<le> wm_revision (pb_watermark s))"

lemma publications_fresh:
  assumes "stamps_covered used s" and "stamp_of s \<in> used"
    and "distinct (map snd us)" and "\<forall>e \<in> set (map snd us). e \<notin> fst ` used"
  shows "distinct (map stamp_of (publications us s)) \<and> set (map stamp_of (publications us s)) \<inter> used = {}"
  using assms
proof (induction us arbitrary: s used)
  case Nil
  then show ?case by simp
next
  case (Cons u us)
  obtain v fresh where u: "u = (v, fresh)" by force
  have unused: "(fresh, r) \<notin> used" for r using Cons.prems(4) u by force
  obtain s' woken where up: "published_update fresh v s = (s', woken)" by force
  let ?used = "insert (stamp_of s') used"
  have rest: "distinct (map snd us)" "fresh \<notin> set (map snd us)" "\<forall>e \<in> set (map snd us). e \<notin> fst ` used"
    using Cons.prems(3,4) u by auto
  have own: "wm_epoch (pb_watermark s) \<notin> set (map snd us)"
  proof
    assume "wm_epoch (pb_watermark s) \<in> set (map snd us)"
    then have "wm_epoch (pb_watermark s) \<notin> fst ` used" using rest(3) by blast
    then show False using imageI [OF Cons.prems(2), of fst] by (simp add: stamp_of_def)
  qed
  from up show ?case
  proof (cases rule: published_update_cases)
    case same
    then show ?thesis using Cons.IH [of used s] Cons.prems rest u up by simp
  next
    case bump
    have new: "stamp_of s' \<notin> used" using Cons.prems(1) bump by (auto simp: stamps_covered_def stamp_of_def)
    have "stamps_covered ?used s'" using Cons.prems(1) bump by (auto simp: stamps_covered_def stamp_of_def)
    moreover have "\<forall>e \<in> set (map snd us). e \<notin> fst ` ?used" using rest(3) own bump(4) by (simp add: stamp_of_def ball_conj_distrib) (metis imageI)
    ultimately have "distinct (map stamp_of (publications us s')) \<and> set (map stamp_of (publications us s')) \<inter> ?used = {}"
      using rest(1) by (intro Cons.IH) simp_all
    then show ?thesis using new u up bump(1) by simp
  next
    case rollover
    have new: "stamp_of s' \<notin> used" using unused rollover by (simp add: stamp_of_def)
    have "stamps_covered ?used s'" using unused rollover by (simp add: stamps_covered_def stamp_of_def)
    moreover have "\<forall>e \<in> set (map snd us). e \<notin> fst ` ?used" using rest(2,3) rollover(5) by (simp add: stamp_of_def) (metis imageI)
    ultimately have "distinct (map stamp_of (publications us s')) \<and> set (map stamp_of (publications us s')) \<inter> ?used = {}"
      using rest(1) by (intro Cons.IH) simp_all
    then show ?thesis using new u up rollover(1) by simp
  qed
qed

subsection \<open>Replacement of the backend on an owner change\<close>

datatype drive_event =
    OwnerChanged string string string
  | StreamFailed
  | StreamEnded
  | ReplacementDone

datatype drive_action = StartReplacement string | DropReplacement string | FinishReplacement string

definition start_initial :: "string option \<Rightarrow> drive_action list" where
  "start_initial initial_owner = (case initial_owner of None \<Rightarrow> [] | Some owner \<Rightarrow> [StartReplacement owner])"

definition drop_taken :: "string option \<Rightarrow> drive_action list" where
  "drop_taken replacement = (case replacement of None \<Rightarrow> [] | Some owner \<Rightarrow> [DropReplacement owner])"

definition effective_change :: "string \<Rightarrow> string \<Rightarrow> string \<Rightarrow> bool" where
  "effective_change name old new \<longleftrightarrow> \<not> (name \<noteq> ''org.bluez'' \<or> old = new)"

text \<open>
  One turn of the loop of \<open>drive\<close>. The state is the owner whose replacement is in flight; the result
  is the new state, or \<open>Inl\<close> when the loop leaves with an error, and what happened to replacements.
  A loop that leaves drops what is in flight. A completion can only come from a replacement in flight.
\<close>

definition drive_turn :: "string option \<Rightarrow> drive_event \<Rightarrow> (string + string option) \<times> drive_action list" where
  "drive_turn replacement event =
     (case event of
        StreamEnded \<Rightarrow> (Inl ''BlueZ recovery owner stream ended'', drop_taken replacement)
      | StreamFailed \<Rightarrow> (Inl ''stream error'', drop_taken replacement)
      | OwnerChanged name old new \<Rightarrow>
          (if effective_change name old new
           then (Inr (Some new), drop_taken replacement @ [StartReplacement new])
           else (Inr replacement, []))
      | ReplacementDone \<Rightarrow>
          (case replacement of
             None \<Rightarrow> (Inr None, [])
           | Some owner \<Rightarrow> (Inr None, [FinishReplacement owner])))"

fun drive_loop :: "string option \<Rightarrow> drive_event list \<Rightarrow> (string + string option) \<times> drive_action list" where
  "drive_loop replacement [] = (Inr replacement, [])"
| "drive_loop replacement (event # events) =
     (case drive_turn replacement event of
        (Inl error, log) \<Rightarrow> (Inl error, log)
      | (Inr replacement', log) \<Rightarrow>
          (case drive_loop replacement' events of (out, log') \<Rightarrow> (out, log @ log')))"

definition drive :: "string option \<Rightarrow> drive_event list \<Rightarrow> (string + string option) \<times> drive_action list" where
  "drive initial_owner events =
     (case drive_loop initial_owner events of (out, log) \<Rightarrow> (out, start_initial initial_owner @ log))"

text \<open>
  The specification is an observer that admits a start only when nothing is in flight, and a drop or
  a completion only of what is in flight; \<open>None\<close> is a violation.
\<close>

fun observe :: "string option \<Rightarrow> drive_action list \<Rightarrow> string option option" where
  "observe live [] = Some live"
| "observe live (StartReplacement owner # log) = (if live = None then observe (Some owner) log else None)"
| "observe live (DropReplacement owner # log) = (if live = Some owner then observe None log else None)"
| "observe live (FinishReplacement owner # log) = (if live = Some owner then observe None log else None)"

definition replacement_live :: "string + string option \<Rightarrow> string option" where
  "replacement_live out = (case out of Inl e \<Rightarrow> None | Inr replacement \<Rightarrow> replacement)"

lemma observe_append:
  "observe live (log @ log') = Option.bind (observe live log) (\<lambda>live'. observe live' log')"
  by (induction live log rule: observe.induct) auto

lemma drive_turn_observed:
  "drive_turn live event = (out, log) \<Longrightarrow> observe live log = Some (replacement_live out)"
  by (cases event; cases live)
     (auto simp: drive_turn_def drop_taken_def replacement_live_def split: if_splits)

lemma drive_loop_observed:
  "drive_loop live events = (out, log) \<Longrightarrow> observe live log = Some (replacement_live out)"
proof (induction events arbitrary: live out log)
  case Nil
  then show ?case by (auto simp: replacement_live_def)
next
  case (Cons event events)
  obtain turn_out turn_log where turn: "drive_turn live event = (turn_out, turn_log)" by force
  note seen = drive_turn_observed [OF turn]
  show ?case
  proof (cases turn_out)
    case (Inl e)
    then show ?thesis using Cons.prems turn seen by auto
  next
    case (Inr live')
    obtain rest log' where rest: "drive_loop live' events = (rest, log')" by force
    show ?thesis
      using Cons.prems turn seen Inr rest Cons.IH [OF rest] by (auto simp: observe_append replacement_live_def)
  qed
qed

fun effective_owners :: "drive_event list \<Rightarrow> string list" where
  "effective_owners [] = []"
| "effective_owners (StreamFailed # _) = []"
| "effective_owners (StreamEnded # _) = []"
| "effective_owners (ReplacementDone # events) = effective_owners events"
| "effective_owners (OwnerChanged name old new # events) =
     (if effective_change name old new then new # effective_owners events else effective_owners events)"

fun started_owners :: "drive_action list \<Rightarrow> string list" where
  "started_owners [] = []"
| "started_owners (StartReplacement owner # log) = owner # started_owners log"
| "started_owners (_ # log) = started_owners log"

lemma started_owners_append [simp]:
  "started_owners (log @ log') = started_owners log @ started_owners log'"
  by (induction log rule: started_owners.induct) auto

lemma started_owners_drop [simp]: "started_owners (drop_taken r) = []"
  by (simp add: drop_taken_def split: option.split)

lemma drive_loop_starts:
  "drive_loop live events = (out, log) \<Longrightarrow> started_owners log = effective_owners events"
  by (induction events arbitrary: live out log rule: effective_owners.induct)
     (auto simp: drive_turn_def split: prod.splits option.splits if_splits)

text \<open>
  Recovery keeps at most one backend replacement in flight: a new owner first drops the replacement
  of the old one, completions are of the replacement in flight, and when the loop leaves nothing is
  in flight. Exactly the initial owner and the new owners of real changes of \<open>org.bluez\<close> are
  replaced, in order.
\<close>

theorem recovery_one_replacement:
  "observe None (snd (drive initial_owner events)) = Some (replacement_live (fst (drive initial_owner events)))
   \<and> started_owners (snd (drive initial_owner events))
     = (case initial_owner of None \<Rightarrow> [] | Some owner \<Rightarrow> [owner]) @ effective_owners events"
proof -
  obtain out log where loop: "drive_loop initial_owner events = (out, log)" by force
  have "observe initial_owner log = Some (replacement_live out)" by (rule drive_loop_observed [OF loop])
  moreover have "started_owners log = effective_owners events"
    by (rule drive_loop_starts [OF loop])
  ultimately show ?thesis using loop by (cases initial_owner) (auto simp: drive_def start_initial_def)
qed

subsection \<open>Operations and publications\<close>

lemma op_invD:
  assumes "op_inv ev s"
  shows "map oe_revision (os_published s) = [Suc (oe_revision ev)..<Suc (oe_revision (os_event s))]"
    and "oe_revision ev \<le> oe_revision (os_event s)"
    and "\<forall>e \<in> set (os_published s). oe_request_id e = oe_request_id ev \<and> oe_owner e = oe_owner ev"
    and "os_active s \<Longrightarrow> \<forall>e \<in> set (os_published s). oe_state e = ''running''"
    and "\<not> os_active s \<Longrightarrow> os_published s \<noteq> [] \<and> oe_state (last (os_published s)) \<in> TERMINAL"
    and "\<forall>e \<in> set (butlast (os_published s)). oe_state e = ''running''"
    and "oe_revision (os_event s) \<le> MAX_REVISION"
proof -
  note parts = assms [unfolded op_inv_def]
  show "map oe_revision (os_published s) = [Suc (oe_revision ev)..<Suc (oe_revision (os_event s))]"
    and "oe_revision ev \<le> oe_revision (os_event s)"
    and "\<forall>e \<in> set (os_published s). oe_request_id e = oe_request_id ev \<and> oe_owner e = oe_owner ev"
    using parts by blast+
  show "os_active s \<Longrightarrow> \<forall>e \<in> set (os_published s). oe_state e = ''running''" using parts by presburger
  show "\<not> os_active s \<Longrightarrow> os_published s \<noteq> [] \<and> oe_state (last (os_published s)) \<in> TERMINAL"
    using parts by presburger
  show "\<forall>e \<in> set (butlast (os_published s)). oe_state e = ''running''"
    using parts by (cases "os_active s") (auto dest: in_set_butlastD)
  show "oe_revision (os_event s) \<le> MAX_REVISION"
    using parts by (cases "os_active s") (auto intro: order_trans [OF _ diff_le_self])
qed

lemma op_inv_events:
  assumes "op_inv ev s" and "oe_revision ev = 1"
  shows "map oe_revision (os_published s) = [2..<length (os_published s) + 2]"
    and "length (os_published s) + 1 \<le> MAX_REVISION"
    and "\<not> os_active s \<longleftrightarrow> os_published s \<noteq> [] \<and> oe_state (last (os_published s)) \<in> TERMINAL"
proof -
  let ?n = "oe_revision (os_event s)"
  have revs: "map oe_revision (os_published s) = [2..<Suc ?n]"
    using op_invD(1) [OF assms(1)] assms(2) by (simp only: Suc_1)
  have "length (os_published s) = length [2..<Suc ?n]" using arg_cong [OF revs, of length] by (simp only: length_map)
  then have len: "length (os_published s) + 1 = ?n" using op_invD(2) [OF assms(1)] assms(2) by (simp only: length_upt)
  then have "Suc ?n = length (os_published s) + 2" by simp
  then show "map oe_revision (os_published s) = [2..<length (os_published s) + 2]" using revs by simp
  show "length (os_published s) + 1 \<le> MAX_REVISION" using op_invD(7) [OF assms(1)] len by simp
  show "\<not> os_active s \<longleftrightarrow> os_published s \<noteq> [] \<and> oe_state (last (os_published s)) \<in> TERMINAL"
  proof (cases "os_active s")
    case True
    then have "os_published s \<noteq> [] \<Longrightarrow> oe_state (last (os_published s)) = ''running''"
      using op_invD(4) [OF assms(1)] last_in_set by blast
    with True show ?thesis by (auto simp: TERMINAL_def)
  next
    case False
    then show ?thesis using op_invD(5) [OF assms(1)] by blast
  qed
qed

text \<open>
  However start, progress, completion, cancellation and the reaper interleave, the events published
  for a queued operation carry the revisions 2, 3, ... without a gap, all for the same request and
  caller, never past \<open>MAX_REVISION\<close>; all but the last are running; and the entry is claimed exactly
  when the last event is terminal.
\<close>

theorem operation_events_well_ordered:
  assumes "op_reachable (queued request_id device_key operation owner) s"
  shows "map oe_revision (os_published s) = [2..<length (os_published s) + 2]
    \<and> length (os_published s) + 1 \<le> MAX_REVISION
    \<and> (\<forall>e \<in> set (os_published s). oe_request_id e = request_id \<and> oe_owner e = owner)
    \<and> (\<forall>e \<in> set (butlast (os_published s)). oe_state e = ''running'')
    \<and> (\<not> os_active s \<longleftrightarrow> os_published s \<noteq> [] \<and> oe_state (last (os_published s)) \<in> TERMINAL)"
proof -
  let ?ev = "queued request_id device_key operation owner :: ('a, 'b) operation_event"
  have first: "oe_revision ?ev = 1" by (simp add: queued_def)
  have inv: "op_inv ?ev s" using op_inv_reachable [OF assms first] .
  have ids: "oe_request_id ?ev = request_id" "oe_owner ?ev = owner" by (simp_all add: queued_def)
  show ?thesis
    using op_inv_events [OF inv first] op_invD(3) [OF inv, unfolded ids] op_invD(6) [OF inv] by blast
qed

definition demo_started :: "(nat, string) operation_slot" where
  "demo_started = fst (op_start (slot_new (queued ''r'' ''d'' ''connect'' None)))"

definition demo_cancelled :: "(nat, string) operation_slot" where
  "demo_cancelled = op_reap (fst (op_cancel None (op_progress True ''connecting'' demo_started)))"

lemma demo_cancelled_reachable: "op_reachable (queued ''r'' ''d'' ''connect'' None) demo_cancelled"
proof -
  let ?ev = "queued ''r'' ''d'' ''connect'' None :: (nat, string) operation_event"
  have "op_reachable ?ev demo_started"
    using op_reachable.step [OF op_reachable.initial op_step.start [of "slot_new ?ev" _ "snd (op_start (slot_new ?ev))"]]
    by (simp add: demo_started_def slot_new_def)
  then have "op_reachable ?ev (op_progress True ''connecting'' demo_started)"
    by (rule op_reachable.step [OF _ op_step.progress]) (simp add: demo_started_def op_start_def slot_new_def)
  then have "op_reachable ?ev (fst (op_cancel None (op_progress True ''connecting'' demo_started)))"
    by (rule op_reachable.step [OF _ op_step.cancel [where taken = "snd (op_cancel None (op_progress True ''connecting'' demo_started))"]])
       (rule prod.collapse [symmetric])
  then show ?thesis
    unfolding demo_cancelled_def
    by (rule op_reachable.step [OF _ op_step.reap])
       (simp add: op_cancel_def op_progress_def demo_started_def op_start_def slot_new_def publish_def
         visible_to_def progress_def set_state_def queued_def MAX_REVISION_def)
qed

theorem operation_events_well_ordered_witness:
  "map oe_revision (os_published demo_cancelled) = [2..<length (os_published demo_cancelled) + 2]
   \<and> oe_state (last (os_published demo_cancelled)) = ''cancelled''"
  using operation_events_well_ordered [OF demo_cancelled_reachable]
  by (simp add: demo_cancelled_def op_reap_def op_cancel_def op_progress_def demo_started_def op_start_def slot_new_def
      publish_def visible_to_def progress_def set_state_def queued_def MAX_REVISION_def)

text \<open>
  Watermarks identify published states: over any sequence of updates, with rollover identifiers that
  are fresh, no two publications of a stream carry the same epoch and revision, and none carries the
  initial one. An update that changes nothing publishes nothing.
\<close>

theorem watermarks_unique:
  assumes "distinct (epoch # map snd updates)"
  shows "distinct (map stamp_of (published_new epoch v # publications updates (published_new epoch v)))"
proof -
  let ?s = "published_new epoch v"
  have "stamps_covered {stamp_of ?s} ?s" by (simp add: stamps_covered_def stamp_of_def published_new_def)
  then have "distinct (map stamp_of (publications updates ?s))
    \<and> set (map stamp_of (publications updates ?s)) \<inter> {stamp_of ?s} = {}"
    using assms by (intro publications_fresh) (auto simp: stamp_of_def published_new_def)
  then show ?thesis by simp
qed

theorem watermarks_unique_witness:
  "distinct (map stamp_of (published_new ''a'' (0::nat) # publications [(1, ''b''), (1, ''c''), (0, ''d'')] (published_new ''a'' 0)))"
  by (rule watermarks_unique) simp

end
