(* ===== verification/Api.thy ===== *)
theory Api
  imports Backend
begin

text \<open>
  \<open>src/api.rs\<close>, \<open>src/api/adapter.rs\<close> and \<open>src/task.rs\<close>: validation and dispatch of backend requests, the
  submitted adapter patches, and the gates that serialise changes to one adapter or device.

  The backend behind the trait is a record of operations on a state of its own. An error is its chain of
  causes, the outermost first. The envelope that carries a response belongs to the daemon framework; a
  response is kept as the data handed to it. A worker that panics is not modelled.
\<close>

subsection \<open>Errors\<close>

datatype cause = Classified backend_kind string | Context string

type_synonym failure = "cause list"

fun cause_message :: "cause \<Rightarrow> string" where
  "cause_message (Classified _ m) = m"
| "cause_message (Context m) = m"

text \<open>\<open>error.to_string()\<close> and \<open>format!("{error:#}")\<close>\<close>

fun error_text :: "failure \<Rightarrow> string" where
  "error_text [] = []"
| "error_text (c # _) = cause_message c"

fun error_chain :: "failure \<Rightarrow> string" where
  "error_chain [] = []"
| "error_chain [c] = cause_message c"
| "error_chain (c # cs) = cause_message c @ '': '' @ error_chain cs"

fun error_kind :: "failure \<Rightarrow> backend_kind" where
  "error_kind [] = KOperationFailed"
| "error_kind (Classified k _ # _) = k"
| "error_kind (Context _ # cs) = error_kind cs"

record envelope_error =
  ee_code :: string
  ee_message :: string
  ee_retryable :: "bool option"  \<comment> \<open>\<open>None\<close>: as the framework's constructor leaves it\<close>

definition error_details :: "failure \<Rightarrow> envelope_error" where
  "error_details e =
     \<lparr>ee_code = kind_code (error_kind e), ee_message = error_chain e,
      ee_retryable = Some (kind_retryable (error_kind e))\<rparr>"

definition api_error :: "string \<Rightarrow> string \<Rightarrow> envelope_error" where
  "api_error code message = \<lparr>ee_code = code, ee_message = message, ee_retryable = None\<rparr>"

definition validation_error :: "failure \<Rightarrow> envelope_error" where
  "validation_error e = api_error ''validation-error'' (error_text e)"

fun invalid_parameter :: "param_error \<Rightarrow> failure" where
  "invalid_parameter (InvalidParameter name expected optional) =
     [Classified KInvalidInput ((if optional then ''invalid optional'' else ''missing or invalid'') @ '' ''
        @ expected @ '' parameter '' @ [CHR 0x27] @ name @ [CHR 0x27])]"

definition checked :: "param_error + 'a \<Rightarrow> failure + 'a" where
  "checked r = (case r of Inl e \<Rightarrow> Inl (invalid_parameter e) | Inr a \<Rightarrow> Inr a)"

definition ensure :: "bool \<Rightarrow> string \<Rightarrow> failure + unit" where
  "ensure b message = (if b then Inr () else Inl [Context message])"

definition with_context :: "string \<Rightarrow> 'a option \<Rightarrow> failure + 'a" where
  "with_context message r = option_err [Context message] r"

fun as_object :: "json \<Rightarrow> (string \<times> json) list option" where
  "as_object (JObject fs) = Some fs"
| "as_object _ = None"

subsection \<open>The backend\<close>

record ('b, 's) backend_ops =
  be_snapshot :: "'b \<Rightarrow> 'b \<times> (failure + 's)"
  be_set_powered :: "string option \<Rightarrow> bool \<Rightarrow> 'b \<Rightarrow> 'b \<times> (failure + 's)"
  be_adapter_operation :: "string \<Rightarrow> adapter_operation \<Rightarrow> json \<Rightarrow> 'b \<Rightarrow> 'b \<times> (failure + unit)"
  be_update_management :: "json \<Rightarrow> 'b \<Rightarrow> 'b \<times> (failure + 's)"
  be_update_device_policy :: "string \<Rightarrow> json \<Rightarrow> 'b \<Rightarrow> 'b \<times> (failure + 's)"

subsection \<open>Adapter patches\<close>

definition FIELDS :: "(string \<times> adapter_operation) list" where
  "FIELDS = [(''alias'', ASetAlias), (''discoverable_timeout'', ASetDiscoverableTimeout),
     (''pairable_timeout'', ASetPairableTimeout)]"

record setting =
  st_field :: string
  st_operation :: adapter_operation
  st_value :: json
  st_params :: json

record outcome =
  oc_field :: string
  oc_value :: json
  oc_state :: string
  oc_error :: "envelope_error option"

definition setting_outcome :: "string \<Rightarrow> setting \<Rightarrow> outcome" where
  "setting_outcome state s =
     \<lparr>oc_field = st_field s, oc_value = st_value s, oc_state = state, oc_error = None\<rparr>"

definition parse_setting :: "json \<Rightarrow> string \<times> adapter_operation \<Rightarrow> failure + setting" where
  "parse_setting changes fo =
     (case fo of (field, operation) \<Rightarrow>
        if operation = ASetAlias
        then res_bind (checked (require_string changes field)) (\<lambda>v. Inr
               \<lparr>st_field = field, st_operation = operation, st_value = JString v,
                st_params = JObject [(''alias'', JString v)]\<rparr>)
        else res_bind (checked (require_u32 changes field)) (\<lambda>v. Inr
               \<lparr>st_field = field, st_operation = operation, st_value = JInt (int (unat v)),
                st_params = JObject [(''timeout'', JInt (int (unat v)))]\<rparr>))"

definition parse_patch :: "json \<Rightarrow> failure + string \<times> setting list" where
  "parse_patch params =
     res_bind (checked (require_string params ''key'')) (\<lambda>key.
     res_bind (with_context ''expected adapter update object'' (as_object params)) (\<lambda>object.
     res_bind (ensure (\<forall>k \<in> fst ` set object. k = ''key'' \<or> k = ''changes'') ''unknown adapter update parameter'') (\<lambda>_.
     res_bind (with_context ''missing adapter changes'' (json_get params ''changes'')) (\<lambda>changes.
     res_bind (with_context ''expected adapter changes object'' (as_object changes)) (\<lambda>fields.
     res_bind (ensure (fields \<noteq> []) ''adapter changes must not be empty'') (\<lambda>_.
     res_bind (ensure (\<forall>k \<in> fst ` set fields. k \<in> fst ` set FIELDS) ''unknown adapter setting'') (\<lambda>_.
     res_bind (res_mapM (parse_setting changes) (filter (\<lambda>(f, _). f \<in> fst ` set fields) FIELDS)) (\<lambda>settings.
     Inr (key, settings)))))))))"

text \<open>The loop of \<open>submit\<close>: it stops at the first error, and what is left was not attempted.\<close>

fun apply_settings ::
    "('b, 's) backend_ops \<Rightarrow> string \<Rightarrow> setting list \<Rightarrow> 'b \<Rightarrow> 'b \<times> outcome list" where
  "apply_settings be key [] b = (b, [])"
| "apply_settings be key (s # ss) b =
     (case be_adapter_operation be key (st_operation s) (st_params s) b of
        (b', Inl e) \<Rightarrow>
          (b', (setting_outcome ''unknown'' s)\<lparr>oc_error := Some (error_details e)\<rparr>
               # map (setting_outcome ''not-attempted'') ss)
      | (b', Inr _) \<Rightarrow>
          (case apply_settings be key ss b' of (b'', os) \<Rightarrow> (b'', setting_outcome ''applied'' s # os)))"

record 's batch =
  ba_key :: string
  ba_outcomes :: "outcome list"
  ba_snapshot :: "envelope_error + 's"

datatype 's response = Snapshot 's | Batch "'s batch" | Failed envelope_error

definition submit :: "('b, 's) backend_ops \<Rightarrow> json \<Rightarrow> 'b \<Rightarrow> 'b \<times> 's response" where
  "submit be params b =
     (case parse_patch params of
        Inl e \<Rightarrow> (b, Failed (validation_error e))
      | Inr (key, settings) \<Rightarrow>
          (case apply_settings be key settings b of
             (b1, outcomes) \<Rightarrow>
               (case be_snapshot be b1 of
                  (b2, r) \<Rightarrow>
                    (b2, Batch \<lparr>ba_key = key, ba_outcomes = outcomes,
                       ba_snapshot = (case r of Inl e \<Rightarrow> Inl (error_details e) | Inr s \<Rightarrow> Inr s)\<rparr>))))"

definition single ::
    "('b, 's) backend_ops \<Rightarrow> string \<Rightarrow> adapter_operation \<Rightarrow> json \<Rightarrow> 'b \<Rightarrow> 'b \<times> (failure + 's)" where
  "single be key operation params b =
     (case be_adapter_operation be key operation params b of
        (b', Inl e) \<Rightarrow> (b', Inl e)
      | (b', Inr _) \<Rightarrow> be_snapshot be b')"

subsection \<open>Dispatch\<close>

datatype backend_request =
    RSnapshot
  | RSetPowered "string option" bool
  | RAdapterOperation string adapter_operation json
  | RUpdateManagement json
  | RUpdateDevicePolicy string json

fun execute_request :: "('b, 's) backend_ops \<Rightarrow> backend_request \<Rightarrow> 'b \<Rightarrow> 'b \<times> (failure + 's)" where
  "execute_request be RSnapshot b = be_snapshot be b"
| "execute_request be (RSetPowered key powered) b = be_set_powered be key powered b"
| "execute_request be (RAdapterOperation key operation params) b = single be key operation params b"
| "execute_request be (RUpdateManagement params) b = be_update_management be params b"
| "execute_request be (RUpdateDevicePolicy key params) b = be_update_device_policy be key params b"

fun policy_values :: "json \<Rightarrow> json" where
  "policy_values (JObject fs) = JObject (filter (\<lambda>(k, _). k \<noteq> ''key'') fs)"
| "policy_values v = v"

text \<open>\<open>typed_operation\<close> for an operation table and the word its error message uses.\<close>

definition typed_operation :: "('o \<times> string) list \<Rightarrow> string \<Rightarrow> json \<Rightarrow> failure + string \<times> 'o" where
  "typed_operation table target params =
     res_bind (checked (require_strings params ''key'' ''operation'')) (\<lambda>(key, operation).
     case op_try_from table operation of
       Inl k \<Rightarrow> Inl [Classified k (''unsupported Bluetooth '' @ target @ '' operation: '' @ operation)]
     | Inr op \<Rightarrow> Inr (key, op))"

definition parse_backend_request :: "string \<Rightarrow> json \<Rightarrow> envelope_error + backend_request" where
  "parse_backend_request m params =
     (let validated = (\<lambda>r :: failure + backend_request. case r of Inl e \<Rightarrow> Inl (validation_error e) | Inr a \<Rightarrow> Inr a) in
      if m = ''bluetooth.snapshot'' then Inr RSnapshot
      else if m = ''bluetooth.setPowered'' then validated
        (res_bind (checked (optional_string params ''adapter_key'')) (\<lambda>key.
         res_bind (checked (require_bool params ''powered'')) (\<lambda>powered. Inr (RSetPowered key powered))))
      else if m = ''bluetooth.adapter.operation'' then validated
        (res_bind (typed_operation adapter_operations ''adapter'' params) (\<lambda>(key, operation).
         Inr (RAdapterOperation key operation params)))
      else if m = ''bluetooth.management.update'' then Inr (RUpdateManagement params)
      else if m = ''bluetooth.device.policy.update'' then validated
        (res_bind (checked (require_string params ''key'')) (\<lambda>key. Inr (RUpdateDevicePolicy key (policy_values params))))
      else Inl (api_error ''unsupported-method'' (''Unsupported bt-api method: '' @ m)))"

definition dispatch :: "('b, 's) backend_ops \<Rightarrow> string \<Rightarrow> json \<Rightarrow> 'b \<Rightarrow> 'b \<times> 's response" where
  "dispatch be m params b =
     (if m = ''bluetooth.adapter.update'' then submit be params b
      else
        (case parse_backend_request m params of
           Inl e \<Rightarrow> (b, Failed e)
         | Inr request \<Rightarrow>
             (case execute_request be request b of
                (b', Inl e) \<Rightarrow> (b', Failed (error_details e))
              | (b', Inr s) \<Rightarrow> (b', Snapshot s))))"

subsection \<open>Gates\<close>

text \<open>
  \<open>mutation_gate\<close>: the table holds weak references; a gate lives while a handle to it does. A handle is
  the key it was asked for and the gate's number.
\<close>

record gates =
  gt_table :: "(string, nat) hmap"
  gt_handles :: "(string \<times> nat) list"
  gt_next :: nat

definition gates_new :: gates where
  "gates_new = \<lparr>gt_table = [], gt_handles = [], gt_next = 0\<rparr>"

definition mutation_gate :: "string \<Rightarrow> gates \<Rightarrow> gates \<times> nat" where
  "mutation_gate key s =
     (let table = hm_retain (\<lambda>_ g. g \<in> snd ` set (gt_handles s)) (gt_table s) in
      case hm_get table key of
        Some g \<Rightarrow> (s\<lparr>gt_table := table, gt_handles := (key, g) # gt_handles s\<rparr>, g)
      | None \<Rightarrow>
          (let g = gt_next s in
           (s\<lparr>gt_table := hm_insert key g table, gt_handles := (key, g) # gt_handles s, gt_next := Suc g\<rparr>, g)))"

definition device_gate :: "string \<Rightarrow> gates \<Rightarrow> gates \<times> nat" where
  "device_gate key = mutation_gate (''device:'' @ key)"

definition adapter_gate :: "string \<Rightarrow> gates \<Rightarrow> gates \<times> nat" where
  "adapter_gate key = mutation_gate (''adapter:'' @ key)"

definition drop_gate :: "string \<times> nat \<Rightarrow> gates \<Rightarrow> gates" where
  "drop_gate h s = s\<lparr>gt_handles := remove1 h (gt_handles s)\<rparr>"

inductive gate_step :: "gates \<Rightarrow> gates \<Rightarrow> bool" where
  device: "gate_step s (fst (device_gate key s))"
| adapter: "gate_step s (fst (adapter_gate key s))"
| drop: "gate_step s (drop_gate h s)"

definition gates_inv :: "gates \<Rightarrow> bool" where
  "gates_inv s \<longleftrightarrow> hm_ok (gt_table s) \<and> (\<forall>(k, g) \<in> set (gt_handles s). hm_get (gt_table s) k = Some g)
     \<and> (\<forall>k g. hm_get (gt_table s) k = Some g \<longrightarrow> g < gt_next s)
     \<and> (\<forall>k l g. hm_get (gt_table s) k = Some g \<longrightarrow> hm_get (gt_table s) l = Some g \<longrightarrow> k = l)"

lemma gates_invD:
  assumes "gates_inv s"
  shows "hm_ok (gt_table s)" and "(k, g) \<in> set (gt_handles s) \<Longrightarrow> hm_get (gt_table s) k = Some g"
    and "hm_get (gt_table s) k = Some g \<Longrightarrow> g < gt_next s"
    and "hm_get (gt_table s) k = Some g \<Longrightarrow> hm_get (gt_table s) l = Some g \<Longrightarrow> k = l"
  using assms by (auto simp: gates_inv_def)

lemma gates_invI:
  assumes "hm_ok t" and "\<And>k g. (k, g) \<in> set hs \<Longrightarrow> hm_get t k = Some g" and "\<And>k g. hm_get t k = Some g \<Longrightarrow> g < n"
    and "\<And>k l g. hm_get t k = Some g \<Longrightarrow> hm_get t l = Some g \<Longrightarrow> k = l"
  shows "gates_inv \<lparr>gt_table = t, gt_handles = hs, gt_next = n\<rparr>"
  using assms by (auto simp: gates_inv_def)

lemma mutation_gate_inv:
  assumes "gates_inv s"
  shows "gates_inv (fst (mutation_gate key s))"
proof -
  note inv = gates_invD [OF assms]
  define t where "t = hm_retain (\<lambda>_ g. g \<in> snd ` set (gt_handles s)) (gt_table s)"
  have ok: "hm_ok t" using inv(1) by (simp add: t_def)
  have t: "hm_get t k = Some g \<longleftrightarrow> hm_get (gt_table s) k = Some g \<and> g \<in> snd ` set (gt_handles s)" for k g
    using inv(1) by (auto simp: t_def split: option.splits)
  have old: "hm_get t k = Some g" if "(k, g) \<in> set (gt_handles s)" for k g
    using that inv(2) [OF that] t by force
  have below: "g < gt_next s" if "hm_get t k = Some g" for k g using that t inv(3) by blast
  have inj: "k = l" if "hm_get t k = Some g" "hm_get t l = Some g" for k l g using that t inv(4) by blast
  show ?thesis
  proof (cases "hm_get t key")
    case None
    let ?t = "hm_insert key (gt_next s) t"
    have "gates_inv \<lparr>gt_table = ?t, gt_handles = (key, gt_next s) # gt_handles s, gt_next = Suc (gt_next s)\<rparr>"
    proof (rule gates_invI)
      show "hm_get ?t k = Some g" if "(k, g) \<in> set ((key, gt_next s) # gt_handles s)" for k g
        using that old [of k g] None by (cases "k = key") auto
      show "g < Suc (gt_next s)" if "hm_get ?t k = Some g" for k g
        using that below [of k g] by (simp add: less_Suc_eq split: if_splits)
      show "k = l" if "hm_get ?t k = Some g" "hm_get ?t l = Some g" for k l g
        using that inj [of k g l] below [of k g] below [of l g] by (simp split: if_splits)
    qed (simp add: ok)
    moreover have "fst (mutation_gate key s)
        = \<lparr>gt_table = ?t, gt_handles = (key, gt_next s) # gt_handles s, gt_next = Suc (gt_next s)\<rparr>"
      using None unfolding mutation_gate_def Let_def t_def [symmetric] by (cases s) simp
    ultimately show ?thesis by (simp only:)
  next
    case (Some g)
    have "gates_inv \<lparr>gt_table = t, gt_handles = (key, g) # gt_handles s, gt_next = gt_next s\<rparr>"
      using ok old below inj Some by (intro gates_invI) auto
    moreover have "fst (mutation_gate key s) = \<lparr>gt_table = t, gt_handles = (key, g) # gt_handles s, gt_next = gt_next s\<rparr>"
      using Some unfolding mutation_gate_def Let_def t_def [symmetric] by (cases s) simp
    ultimately show ?thesis by (simp only:)
  qed
qed

lemma gate_step_inv: "gate_step s s' \<Longrightarrow> gates_inv s \<Longrightarrow> gates_inv s'"
proof (induction rule: gate_step.induct)
  case (drop s h)
  then show ?case using set_remove1_subset [of h "gt_handles s"] by (auto simp: gates_inv_def drop_gate_def)
qed (simp_all add: device_gate_def adapter_gate_def mutation_gate_inv)

subsection \<open>Patches\<close>

definition before :: "('b, 's) backend_ops \<Rightarrow> string \<Rightarrow> setting list \<Rightarrow> nat \<Rightarrow> 'b \<Rightarrow> 'b" where
  "before be key settings i b =
     foldl (\<lambda>b s. fst (be_adapter_operation be key (st_operation s) (st_params s) b)) b (take i settings)"

definition attempt :: "('b, 's) backend_ops \<Rightarrow> string \<Rightarrow> setting list \<Rightarrow> nat \<Rightarrow> 'b \<Rightarrow> failure + unit" where
  "attempt be key settings i b =
     snd (be_adapter_operation be key (st_operation (settings ! i)) (st_params (settings ! i)) (before be key settings i b))"

definition states :: "nat \<Rightarrow> nat \<Rightarrow> string list" where
  "states n k = replicate k ''applied''
     @ (if k < n then ''unknown'' # replicate (n - Suc k) ''not-attempted'' else [])"

lemma apply_settings_prefix:
  "\<exists>k \<le> length settings. (\<forall>i < k. attempt be key settings i b = Inr ()) \<and> (k < length settings \<longrightarrow> (\<exists>e. attempt be key settings k b = Inl e))
     \<and> fst (apply_settings be key settings b) = before be key settings (Suc k) b
     \<and> map oc_state (snd (apply_settings be key settings b)) = states (length settings) k"
proof (induction settings arbitrary: b)
  case Nil
  show ?case by (simp add: before_def states_def)
next
  case (Cons s ss)
  obtain b' r where op: "be_adapter_operation be key (st_operation s) (st_params s) b = (b', r)" by force
  have shift: "before be key (s # ss) (Suc i) b = before be key ss i b'" "attempt be key (s # ss) (Suc i) b = attempt be key ss i b'" for i
    using op by (simp_all add: before_def attempt_def)
  have first: "attempt be key (s # ss) 0 b = r" using op by (simp add: attempt_def before_def)
  show ?case
  proof (cases r)
    case (Inl e)
    show ?thesis
      by (rule exI [of _ 0]) (use op Inl first in \<open>simp add: before_def states_def setting_outcome_def comp_def map_replicate_const\<close>)
  next
    case (Inr u)
    from Cons.IH [of b'] obtain k where k: "k \<le> length ss" "\<forall>i < k. attempt be key ss i b' = Inr ()"
      "k < length ss \<longrightarrow> (\<exists>e. attempt be key ss k b' = Inl e)"
      "fst (apply_settings be key ss b') = before be key ss (Suc k) b'"
      "map oc_state (snd (apply_settings be key ss b')) = states (length ss) k" by blast
    have "\<forall>i < Suc k. attempt be key (s # ss) i b = Inr ()"
      using k(2) Inr first shift(2) by (auto simp: less_Suc_eq_0_disj)
    then show ?thesis
      using k Inr op shift(2) [of k] shift(1) [of "Suc k"]
      by (intro exI [of _ "Suc k"]) (auto simp: states_def setting_outcome_def split: prod.splits)
  qed
qed

lemma apply_settings_fields:
  "map (\<lambda>x. (oc_field x, oc_value x)) (snd (apply_settings be key settings b)) = map (\<lambda>s. (st_field s, st_value s)) settings"
proof (induction settings arbitrary: b)
  case (Cons s ss)
  then show ?case
    by (cases "be_adapter_operation be key (st_operation s) (st_params s) b"; cases "snd (be_adapter_operation be key (st_operation s) (st_params s) b)")
       (auto simp: setting_outcome_def comp_def case_prod_beta)
qed simp

definition requested :: "json \<Rightarrow> string \<Rightarrow> json option" where
  "requested params f = Option.bind (json_get params ''changes'') (\<lambda>changes. json_get changes f)"

lemma checked_Inr [simp]: "checked r = Inr a \<longleftrightarrow> r = Inr a"
  by (cases r) (simp_all add: checked_def)

lemma with_context_Inr [simp]: "with_context m r = Inr a \<longleftrightarrow> r = Some a"
  by (simp add: with_context_def)

lemma ensure_Inr [simp]: "ensure b m = Inr u \<longleftrightarrow> b"
  by (simp add: ensure_def)

lemma as_object_Some [simp]: "as_object v = Some fs \<longleftrightarrow> v = JObject fs"
  by (cases v) auto

lemma require_string_ok: "require_string params name = Inr v \<Longrightarrow> json_get params name = Some (JString v)"
  by (auto simp: require_string_def split: option.splits json.splits if_splits)

lemma parse_setting_ok:
  "parse_setting changes (f, op) = Inr s \<Longrightarrow> st_field s = f \<and> json_get changes f = Some (st_value s)"
  by (auto simp: parse_setting_def dest: require_string_ok require_u32_ok split: if_splits)

lemma parse_patch_fields:
  assumes "parse_patch params = Inr (key, settings)"
  shows "map (\<lambda>s. (st_field s, Some (st_value s))) settings
      = map (\<lambda>(f, _). (f, requested params f)) (filter (\<lambda>(f, _). requested params f \<noteq> None) FIELDS)"
    and "json_get params ''key'' = Some (JString key)"
    and "\<And>f. requested params f \<noteq> None \<Longrightarrow> f \<in> fst ` set FIELDS"
    and "settings \<noteq> []"
proof -
  from assms obtain fs where fs: "json_get params ''changes'' = Some (JObject fs)" "fs \<noteq> []" "\<forall>k \<in> fst ` set fs. k \<in> fst ` set FIELDS"
      "res_mapM (parse_setting (JObject fs)) (filter (\<lambda>(f, _). f \<in> fst ` set fs) FIELDS) = Inr settings"
      "require_string params ''key'' = Inr key"
    by (auto simp: parse_patch_def)
  have req: "requested params f = map_of fs f" for f using fs(1) by (simp add: requested_def)
  have some: "map_of fs f \<noteq> None \<longleftrightarrow> f \<in> fst ` set fs" for f by (simp add: map_of_eq_None_iff)
  have flt: "filter (\<lambda>(f, _). requested params f \<noteq> None) FIELDS = filter (\<lambda>(f, _). f \<in> fst ` set fs) FIELDS"
    using some by (intro filter_cong) (auto simp only: req)
  show "json_get params ''key'' = Some (JString key)" by (rule require_string_ok [OF fs(5)])
  show "f \<in> fst ` set FIELDS" if "requested params f \<noteq> None" for f using that fs(3) req some by auto
  have pairs: "list_all2 (\<lambda>x s. parse_setting (JObject fs) x = Inr s) (filter (\<lambda>(f, _). f \<in> fst ` set fs) FIELDS) settings"
    by (rule res_mapM_Inr [OF fs(4)])
  then have "map (\<lambda>(f, _). (f, requested params f)) (filter (\<lambda>(f, _). f \<in> fst ` set fs) FIELDS)
      = map (\<lambda>s. (st_field s, Some (st_value s))) settings"
    by (induction rule: list_all2_induct) (auto simp: req dest: parse_setting_ok)
  then show "map (\<lambda>s. (st_field s, Some (st_value s))) settings
      = map (\<lambda>(f, _). (f, requested params f)) (filter (\<lambda>(f, _). requested params f \<noteq> None) FIELDS)"
    by (simp only: flt)
  obtain k v where "(k, v) \<in> set fs" using fs(2) by (cases fs) auto
  then have "filter (\<lambda>(f, _). f \<in> fst ` set fs) FIELDS \<noteq> []" using fs(3) by (force simp: filter_empty_conv)
  then show "settings \<noteq> []" using pairs by auto
qed

subsection \<open>Properties\<close>

text \<open>
  An adapter patch that is valid is answered with one outcome per submitted setting, in a fixed order
  that does not depend on the request, with the submitted value. The backend sees the settings one after
  the other up to and including the first failure: those before it are reported applied, it is reported
  unknown, and the ones after it, which never reach the backend, not attempted.
\<close>

theorem adapter_patch_outcome:
  assumes "parse_patch params = Inr (key, settings)"
  shows "\<exists>k \<le> length settings. \<exists>outcomes snap.
      (\<forall>i < k. attempt be key settings i b = Inr ()) \<and> (k < length settings \<longrightarrow> (\<exists>e. attempt be key settings k b = Inl e))
    \<and> submit be params b = (fst (be_snapshot be (before be key settings (Suc k) b)),
        Batch \<lparr>ba_key = key, ba_outcomes = outcomes, ba_snapshot = snap\<rparr>)
    \<and> map oc_state outcomes = states (length settings) k
    \<and> map (\<lambda>x. (oc_field x, Some (oc_value x))) outcomes
        = map (\<lambda>(f, _). (f, requested params f)) (filter (\<lambda>(f, _). requested params f \<noteq> None) FIELDS)"
proof -
  let ?os = "snd (apply_settings be key settings b)"
  obtain k where k: "k \<le> length settings" "\<forall>i < k. attempt be key settings i b = Inr ()"
      "k < length settings \<longrightarrow> (\<exists>e. attempt be key settings k b = Inl e)"
      "fst (apply_settings be key settings b) = before be key settings (Suc k) b" "map oc_state ?os = states (length settings) k"
    using apply_settings_prefix by metis
  have "map (\<lambda>x. (oc_field x, Some (oc_value x))) ?os
      = map (\<lambda>p. (fst p, Some (snd p))) (map (\<lambda>x. (oc_field x, oc_value x)) ?os)" by simp
  also have "\<dots> = map (\<lambda>s. (st_field s, Some (st_value s))) settings" by (simp only: apply_settings_fields) simp
  finally have "map (\<lambda>x. (oc_field x, Some (oc_value x))) ?os
      = map (\<lambda>(f, _). (f, requested params f)) (filter (\<lambda>(f, _). requested params f \<noteq> None) FIELDS)"
    by (simp only: parse_patch_fields(1) [OF assms])
  moreover have "submit be params b = (fst (be_snapshot be (before be key settings (Suc k) b)),
      Batch \<lparr>ba_key = key, ba_outcomes = ?os, ba_snapshot = (case snd (be_snapshot be (before be key settings (Suc k) b)) of
        Inl e \<Rightarrow> Inl (error_details e) | Inr s \<Rightarrow> Inr s)\<rparr>)"
    using assms k(4) by (simp add: submit_def case_prod_beta)
  ultimately show ?thesis using k by blast
qed

text \<open>A backend that refuses the second setting it sees, and counts.\<close>

definition demo_ops :: "(nat, nat) backend_ops" where
  "demo_ops = \<lparr>be_snapshot = (\<lambda>n. (n, Inr n)), be_set_powered = (\<lambda>_ _ n. (n, Inr n)),
     be_adapter_operation = (\<lambda>_ _ _ n. (Suc n, if n = 1 then Inl [Context ''busy''] else Inr ())),
     be_update_management = (\<lambda>_ n. (n, Inr n)), be_update_device_policy = (\<lambda>_ _ n. (n, Inr n))\<rparr>"

definition demo_patch :: json where
  "demo_patch = JObject [(''key'', JString ''a''), (''changes'', JObject [(''pairable_timeout'', JInt 30),
     (''alias'', JString ''desk''), (''discoverable_timeout'', JInt 0)])]"

theorem adapter_patch_outcome_witness:
  "\<exists>k \<le> 3. \<exists>outcomes snap. map oc_state outcomes = states 3 k
     \<and> snd (submit demo_ops demo_patch 0) = Batch \<lparr>ba_key = ''a'', ba_outcomes = outcomes, ba_snapshot = snap\<rparr>
     \<and> map oc_field outcomes = [''alias'', ''discoverable_timeout'', ''pairable_timeout'']"
proof -
  let ?settings = "[\<lparr>st_field = ''alias'', st_operation = ASetAlias, st_value = JString ''desk'', st_params = JObject [(''alias'', JString ''desk'')]\<rparr>,
    \<lparr>st_field = ''discoverable_timeout'', st_operation = ASetDiscoverableTimeout, st_value = JInt 0, st_params = JObject [(''timeout'', JInt 0)]\<rparr>,
    \<lparr>st_field = ''pairable_timeout'', st_operation = ASetPairableTimeout, st_value = JInt 30, st_params = JObject [(''timeout'', JInt 30)]\<rparr>]"
  have p: "parse_patch demo_patch = Inr (''a'', ?settings)"
    by (simp add: parse_patch_def demo_patch_def FIELDS_def parse_setting_def checked_def require_string_def require_u32_def
        word_try_from_def with_context_def ensure_def)
  from adapter_patch_outcome [OF p, of demo_ops 0] obtain k outcomes snap where "k \<le> length ?settings"
      "submit demo_ops demo_patch 0 = (fst (be_snapshot demo_ops (before demo_ops ''a'' ?settings (Suc k) 0)),
         Batch \<lparr>ba_key = ''a'', ba_outcomes = outcomes, ba_snapshot = snap\<rparr>)"
      "map oc_state outcomes = states (length ?settings) k"
      "map (\<lambda>x. (oc_field x, Some (oc_value x))) outcomes
         = map (\<lambda>(f, _). (f, requested demo_patch f)) (filter (\<lambda>(f, _). requested demo_patch f \<noteq> None) FIELDS)" by blast
  note r = this
  from r(4) have "map fst (map (\<lambda>x. (oc_field x, Some (oc_value x))) outcomes) = [''alias'', ''discoverable_timeout'', ''pairable_timeout'']"
    by (simp only:) (simp add: requested_def demo_patch_def FIELDS_def)
  then have "map oc_field outcomes = [''alias'', ''discoverable_timeout'', ''pairable_timeout'']" by (simp only: map_map comp_def fst_conv)
  then show ?thesis using r(1-3) by (intro exI [of _ k] conjI exI [of _ outcomes] exI [of _ snap]) (simp_all add: numeral_3_eq_3)
qed

text \<open>
  Changes to one adapter or device are serialised: at any time, whatever gates were asked for and
  dropped before, two handles that are held lead to the same gate exactly when they were asked for under the
  same name, and an adapter never shares a gate with a device.
\<close>

theorem gates_serialise_per_key:
  assumes "gate_step\<^sup>*\<^sup>* gates_new s" and "(k, g) \<in> set (gt_handles s)" and "(l, h) \<in> set (gt_handles s)"
  shows "(g = h) = (k = l)"
    and "k = ''adapter:'' @ a \<Longrightarrow> l = ''device:'' @ d \<Longrightarrow> g \<noteq> h"
proof -
  have "gates_inv s"
    using assms(1) by (induction rule: rtranclp_induct) (simp add: gates_inv_def gates_new_def, rule gate_step_inv)
  note inv = gates_invD [OF this]
  show same: "(g = h) = (k = l)" using inv(2) [OF assms(2)] inv(2) [OF assms(3)] inv(4) [of k g l] by auto
  show "k = ''adapter:'' @ a \<Longrightarrow> l = ''device:'' @ d \<Longrightarrow> g \<noteq> h" using same by auto
qed

theorem gates_serialise_per_key_witness:
  "(let s = fst (adapter_gate ''x'' (fst (device_gate ''x'' (fst (adapter_gate ''x'' gates_new)))))
    in \<exists>g h d. gt_handles s = [(''adapter:x'', g), (''device:x'', d), (''adapter:x'', h)] \<and> g = h \<and> g \<noteq> d)"
proof -
  let ?s = "fst (adapter_gate ''x'' (fst (device_gate ''x'' (fst (adapter_gate ''x'' gates_new)))))"
  have run: "gate_step\<^sup>*\<^sup>* gates_new ?s"
    by (meson gate_step.intros(1,2) rtranclp.rtrancl_into_rtrancl rtranclp.rtrancl_refl)
  have h: "gt_handles ?s = [(''adapter:x'', 0), (''device:x'', 1), (''adapter:x'', 0)]" by code_simp
  have "(0 :: nat) \<noteq> 1"
    by (rule gates_serialise_per_key(2) [OF run, of "''adapter:x''" 0 "''device:x''" 1 "''x''" "''x''"]) (simp_all add: h)
  then show ?thesis using h by (simp add: Let_def)
qed

end
