(* ===== verification/Operations.thy ===== *)
theory Operations
  imports Daemon Api
begin

text \<open>
  The coordinator of device operations (\<open>src/daemon/operation.rs\<close>): admission, the table of active operations, the
  retained results, and what each caller sees of them. The life of a single operation is that of \<open>Daemon\<close>; here every
  operation of the table is shown to follow it.

  The table with its limits (\<open>OwnedOperations\<close>) and the retained results (\<open>RecentResults\<close>) belong to the daemon's core
  crate: they are the record \<open>op_lib\<close>, and what the coordinator relies on is \<open>op_lib_ok\<close>. Every method takes the
  coordinator's lock once and is one step; the reaper spawned by a cancellation is a step of its own.
\<close>

record ('s, 'e) op_task =
  ot_handle :: bool
  ot_event :: "('s, 'e) operation_event"

record ('t, 'r, 's, 'e) op_lib =
  ol_entries :: "'t \<Rightarrow> (string \<times> string option \<times> ('s, 'e) op_task) list"
  ol_admit :: "'t \<Rightarrow> string option \<Rightarrow> string + unit"
  ol_insert :: "string \<Rightarrow> string option \<Rightarrow> ('s, 'e) op_task \<Rightarrow> 't \<Rightarrow> string + 't"
  ol_update :: "string \<Rightarrow> ('s, 'e) op_task \<Rightarrow> 't \<Rightarrow> 't"
  ol_remove :: "string \<Rightarrow> 't \<Rightarrow> 't"
  ol_results :: "'r \<Rightarrow> (string option \<times> ('s, 'e) operation_event) list"
  ol_retain :: "string \<Rightarrow> string option \<Rightarrow> ('s, 'e) operation_event \<Rightarrow> 'r \<Rightarrow> 'r"
  ol_result :: "'r \<Rightarrow> string \<Rightarrow> string option \<Rightarrow> ('s, 'e) operation_event option"

definition op_lib_ok :: "('t, 'r, 's, 'e) op_lib \<Rightarrow> bool" where
  "op_lib_ok lib \<longleftrightarrow>
     (\<forall>t. distinct (map fst (ol_entries lib t)))
     \<and> (\<forall>key owner task t t'. ol_insert lib key owner task t = Inr t' \<longrightarrow>
          map_of (ol_entries lib t) key = None \<and> map_of (ol_entries lib t') = (map_of (ol_entries lib t))(key \<mapsto> (owner, task)))
     \<and> (\<forall>key task t. map_of (ol_entries lib (ol_update lib key task t)) =
          (\<lambda>k. if k = key then map_option (\<lambda>(owner, _). (owner, task)) (map_of (ol_entries lib t) key) else map_of (ol_entries lib t) k))
     \<and> (\<forall>key t. map_of (ol_entries lib (ol_remove lib key t)) = (map_of (ol_entries lib t))(key := None))
     \<and> (\<forall>key owner ev r. set (ol_results lib (ol_retain lib key owner ev r)) \<subseteq> insert (owner, ev) (set (ol_results lib r)))
     \<and> (\<forall>r key owner ev. ol_result lib r key owner = Some ev \<longrightarrow> (owner, ev) \<in> set (ol_results lib r))"

record ('t, 'r, 's, 'e) coordinator =
  oc_table :: 't
  oc_recent :: 'r
  oc_published :: "('s, 'e) operation_event list"

definition active_task ::
    "('t, 'r, 's, 'e) op_lib \<Rightarrow> ('t, 'r, 's, 'e) coordinator \<Rightarrow> string \<Rightarrow> (string option \<times> ('s, 'e) op_task) option" where
  "active_task lib st key = map_of (ol_entries lib (oc_table st)) key"

definition start_owned ::
    "('t, 'r, 's, 'e) op_lib \<Rightarrow> string \<Rightarrow> json \<Rightarrow> string option \<Rightarrow> ('t, 'r, 's, 'e) coordinator
      \<Rightarrow> ('t, 'r, 's, 'e) coordinator \<times> (envelope_error + ('s, 'e) operation_event)" where
  "start_owned lib uuid params owner st =
     (case typed_operation device_operations ''device'' params of
        Inl e \<Rightarrow> (st, Inl (validation_error e))
      | Inr (device, operation) \<Rightarrow>
          (case ol_admit lib (oc_table st) owner of
             Inl m \<Rightarrow> (st, Inl (api_error ''operation-unavailable'' m))
           | Inr _ \<Rightarrow>
               if \<exists>entry \<in> set (ol_entries lib (oc_table st)). oe_device_key (ot_event (snd (snd entry))) = device
               then (st, Inl (api_error ''device-busy'' ''Device already has an active operation''))
               else
                 let request = ''operation-'' @ uuid;
                     ev = queued request device (op_as_str device_operations operation) owner in
                 (case ol_insert lib request owner \<lparr>ot_handle = True, ot_event = ev\<rparr> (oc_table st) of
                    Inl m \<Rightarrow> (st, Inl (api_error ''operation-unavailable'' m))
                  | Inr t \<Rightarrow> (st\<lparr>oc_table := t\<rparr>, Inr ev))))"

definition publish_event ::
    "('t, 'r, 's, 'e) op_lib \<Rightarrow> string \<Rightarrow> ('s, 'e) op_task \<Rightarrow> ('t, 'r, 's, 'e) coordinator \<Rightarrow> ('t, 'r, 's, 'e) coordinator" where
  "publish_event lib key task st =
     st\<lparr>oc_table := ol_update lib key task (oc_table st), oc_published := oc_published st @ [ot_event task]\<rparr>"

definition publish_started ::
    "('t, 'r, 's, 'e) op_lib \<Rightarrow> string \<Rightarrow> ('t, 'r, 's, 'e) coordinator \<Rightarrow> ('t, 'r, 's, 'e) coordinator \<times> bool" where
  "publish_started lib key st =
     (case active_task lib st key of
        None \<Rightarrow> (st, False)
      | Some (_, task) \<Rightarrow>
          (publish_event lib key (task\<lparr>ot_event := set_state ''started'' ''running'' (ot_event task)\<rparr>) st, True))"

definition report_progress ::
    "('t, 'r, 's, 'e) op_lib \<Rightarrow> bool \<Rightarrow> string \<Rightarrow> string \<Rightarrow> ('t, 'r, 's, 'e) coordinator \<Rightarrow> ('t, 'r, 's, 'e) coordinator" where
  "report_progress lib locked stage key st =
     (if \<not> locked then st
      else case active_task lib st key of
        None \<Rightarrow> st
      | Some (_, task) \<Rightarrow>
          if ot_handle task \<and> oe_revision (ot_event task) < MAX_REVISION - 1
          then publish_event lib key (task\<lparr>ot_event := progress stage (ot_event task)\<rparr>) st else st)"

definition retain_terminal ::
    "('t, 'r, 's, 'e) op_lib \<Rightarrow> ('s, 'e) operation_event \<Rightarrow> ('t, 'r, 's, 'e) coordinator \<Rightarrow> ('t, 'r, 's, 'e) coordinator" where
  "retain_terminal lib ev st =
     st\<lparr>oc_recent := ol_retain lib (oe_request_id ev) (oe_owner ev) ev (oc_recent st), oc_published := oc_published st @ [ev]\<rparr>"

definition complete ::
    "('t, 'r, 's, 'e) op_lib \<Rightarrow> 'e + 's \<Rightarrow> string \<Rightarrow> ('t, 'r, 's, 'e) coordinator \<Rightarrow> ('t, 'r, 's, 'e) coordinator" where
  "complete lib result key st =
     (case active_task lib st key of
        None \<Rightarrow> st
      | Some (_, task) \<Rightarrow>
          retain_terminal lib (finished result (ot_event task)) (st\<lparr>oc_table := ol_remove lib key (oc_table st)\<rparr>))"

definition cancel_owned ::
    "('t, 'r, 's, 'e) op_lib \<Rightarrow> string \<Rightarrow> string option \<Rightarrow> ('t, 'r, 's, 'e) coordinator \<Rightarrow> ('t, 'r, 's, 'e) coordinator \<times> bool" where
  "cancel_owned lib key owner st =
     (case active_task lib st key of
        None \<Rightarrow> (st, False)
      | Some (_, task) \<Rightarrow>
          if \<not> visible_to owner (ot_event task) then (st, False)
          else if \<not> ot_handle task then (st, True)
          else (st\<lparr>oc_table := ol_update lib key (task\<lparr>ot_handle := False\<rparr>) (oc_table st)\<rparr>, True))"

definition reap ::
    "('t, 'r, 's, 'e) op_lib \<Rightarrow> string \<Rightarrow> ('t, 'r, 's, 'e) coordinator \<Rightarrow> ('t, 'r, 's, 'e) coordinator" where
  "reap lib key st =
     (case active_task lib st key of
        None \<Rightarrow> st
      | Some (_, task) \<Rightarrow>
          retain_terminal lib (set_state ''cancelled'' ''cancelled'' (ot_event task))
            (st\<lparr>oc_table := ol_remove lib key (oc_table st)\<rparr>))"

definition cancel_owner ::
    "('t, 'r, 's, 'e) op_lib \<Rightarrow> string \<Rightarrow> ('t, 'r, 's, 'e) coordinator \<Rightarrow> ('t, 'r, 's, 'e) coordinator" where
  "cancel_owner lib owner st =
     foldl (\<lambda>st key. fst (cancel_owned lib key (Some owner) st)) st
       (map fst (filter (\<lambda>entry. fst (snd entry) = Some owner) (ol_entries lib (oc_table st))))"

definition status ::
    "('t, 'r, 's, 'e) op_lib \<Rightarrow> json \<Rightarrow> string option \<Rightarrow> ('t, 'r, 's, 'e) coordinator \<Rightarrow> envelope_error + ('s, 'e) operation_event" where
  "status lib params owner st =
     (case checked (require_string params ''request_id'') of
        Inl e \<Rightarrow> Inl (validation_error e)
      | Inr key \<Rightarrow>
          (case (case active_task lib st key of
              Some (o1, task) \<Rightarrow> if o1 = owner then Some (ot_event task) else ol_result lib (oc_recent st) key owner
            | None \<Rightarrow> ol_result lib (oc_recent st) key owner) of
             Some ev \<Rightarrow> Inr ev
           | None \<Rightarrow> Inl (api_error ''request-not-found'' ''No retained operation for this caller'')))"

text \<open>The active and the retained events a caller may see.\<close>

definition operations_snapshot ::
    "('t, 'r, 's, 'e) op_lib \<Rightarrow> string option \<Rightarrow> ('t, 'r, 's, 'e) coordinator
      \<Rightarrow> ('s, 'e) operation_event list \<times> ('s, 'e) operation_event list" where
  "operations_snapshot lib owner st =
     (map (\<lambda>entry. ot_event (snd (snd entry))) (filter (\<lambda>entry. fst (snd entry) = owner) (ol_entries lib (oc_table st))),
      filter (visible_to owner) (map snd (ol_results lib (oc_recent st))))"

subsection \<open>Runs\<close>

definition started :: "string \<Rightarrow> ('t, 'r, 's, 'e) coordinator \<Rightarrow> bool" where
  "started key st \<longleftrightarrow> (\<exists>e \<in> set (oc_published st). oe_request_id e = key \<and> oe_event e = ''started'')"

text \<open>
  A worker announces itself once, before it reports anything; a reaper works for an operation whose handle was taken;
  an identifier is never drawn twice.
\<close>

inductive oc_step :: "('t, 'r, 's, 'e) op_lib \<Rightarrow> ('t, 'r, 's, 'e) coordinator \<Rightarrow> ('t, 'r, 's, 'e) coordinator \<Rightarrow> bool" for lib where
  start: "(\<forall>e \<in> set (oc_published st). oe_request_id e \<noteq> ''operation-'' @ uuid) \<Longrightarrow>
     start_owned lib uuid params owner st = (st', response) \<Longrightarrow> oc_step lib st st'"
| begun: "\<not> started key st \<Longrightarrow> publish_started lib key st = (st', going) \<Longrightarrow> oc_step lib st st'"
| progress: "started key st \<Longrightarrow> oc_step lib st (report_progress lib locked stage key st)"
| complete: "started key st \<Longrightarrow> oc_step lib st (complete lib result key st)"
| cancel: "cancel_owned lib key owner st = (st', taken) \<Longrightarrow> oc_step lib st st'"
| reap: "(\<And>o1 task. active_task lib st key = Some (o1, task) \<Longrightarrow> \<not> ot_handle task) \<Longrightarrow> oc_step lib st (reap lib key st)"

inductive oc_reachable :: "('t, 'r, 's, 'e) op_lib \<Rightarrow> ('t, 'r, 's, 'e) coordinator \<Rightarrow> bool" for lib where
  empty: "ol_entries lib t = [] \<Longrightarrow> ol_results lib r = [] \<Longrightarrow> oc_reachable lib \<lparr>oc_table = t, oc_recent = r, oc_published = []\<rparr>"
| step: "oc_reachable lib st \<Longrightarrow> oc_step lib st st' \<Longrightarrow> oc_reachable lib st'"

text \<open>The operation of the table as a slot of \<open>Daemon\<close>.\<close>

definition events_of :: "string \<Rightarrow> ('t, 'r, 's, 'e) coordinator \<Rightarrow> ('s, 'e) operation_event list" where
  "events_of key st = filter (\<lambda>e. oe_request_id e = key) (oc_published st)"

definition slot_matches ::
    "('t, 'r, 's, 'e) op_lib \<Rightarrow> ('t, 'r, 's, 'e) coordinator \<Rightarrow> string \<Rightarrow> ('s, 'e) operation_slot \<Rightarrow> bool" where
  "slot_matches lib st key s \<longleftrightarrow>
     os_published s = events_of key st \<and> os_started s = started key st
     \<and> (case active_task lib st key of
          None \<Rightarrow> \<not> os_active s
        | Some (owner, task) \<Rightarrow> os_active s \<and> os_event s = ot_event task \<and> os_handle s = ot_handle task
            \<and> owner = oe_owner (ot_event task) \<and> oe_request_id (ot_event task) = key)"

definition known :: "('t, 'r, 's, 'e) op_lib \<Rightarrow> ('t, 'r, 's, 'e) coordinator \<Rightarrow> string \<Rightarrow> bool" where
  "known lib st key \<longleftrightarrow> active_task lib st key \<noteq> None \<or> events_of key st \<noteq> []"

subsection \<open>Every operation follows its slot\<close>

definition oc_ok :: "('t, 'r, 's, 'e) op_lib \<Rightarrow> ('t, 'r, 's, 'e) coordinator \<Rightarrow> bool" where
  "oc_ok lib st \<longleftrightarrow>
     (\<forall>key. known lib st key \<longrightarrow> (\<exists>ev s. oe_revision ev = 1 \<and> op_reachable ev s \<and> slot_matches lib st key s))"

lemma started_iff: "started key st \<longleftrightarrow> (\<exists>e \<in> set (events_of key st). oe_event e = ''started'')"
  by (auto simp: started_def events_of_def)

lemma slot_matches_frame:
  assumes "active_task lib st' key = active_task lib st key" and "events_of key st' = events_of key st"
  shows "slot_matches lib st' key s = slot_matches lib st key s"
  using assms by (simp add: slot_matches_def started_iff)

lemma oc_ok_active:
  assumes "oc_ok lib st" and "active_task lib st key = Some (owner, task)"
  obtains ev s where "oe_revision ev = 1" "op_reachable ev s" "slot_matches lib st key s"
  using assms unfolding oc_ok_def known_def by (metis option.distinct(1))

lemma active_facts:
  assumes "oc_ok lib st" and "active_task lib st key = Some (owner, task)"
  shows "oe_request_id (ot_event task) = key" and "owner = oe_owner (ot_event task)"
proof -
  obtain ev s where "slot_matches lib st key s" using oc_ok_active [OF assms] by blast
  then show "oe_request_id (ot_event task) = key" and "owner = oe_owner (ot_event task)"
    using assms(2) by (simp_all add: slot_matches_def)
qed

text \<open>A step on one active operation that its slot can follow.\<close>

lemma oc_ok_local:
  assumes "oc_ok lib st" and "active_task lib st key = Some (owner, task)"
    and other: "\<And>k. k \<noteq> key \<Longrightarrow> active_task lib st' k = active_task lib st k \<and> events_of k st' = events_of k st"
    and own: "\<And>s. slot_matches lib st key s \<Longrightarrow> \<exists>s'. op_step s s' \<and> slot_matches lib st' key s'"
  shows "oc_ok lib st'"
  unfolding oc_ok_def
proof (intro allI impI)
  fix k
  assume known: "known lib st' k"
  show "\<exists>ev s. oe_revision ev = 1 \<and> op_reachable ev s \<and> slot_matches lib st' k s"
  proof (cases "k = key")
    case True
    obtain ev s where s: "oe_revision ev = 1" "op_reachable ev s" "slot_matches lib st key s"
      using oc_ok_active [OF assms(1,2)] by blast
    obtain s' where "op_step s s'" "slot_matches lib st' key s'" using own [OF s(3)] by blast
    then show ?thesis using s(1,2) True op_reachable.step by blast
  next
    case False
    then have "known lib st k" using known other [OF False] by (simp add: known_def)
    then obtain ev s where "oe_revision ev = 1" "op_reachable ev s" "slot_matches lib st k s"
      using assms(1) by (auto simp: oc_ok_def)
    then show ?thesis using slot_matches_frame other [OF False] by blast
  qed
qed

subsection \<open>The library's laws on the table\<close>

lemma op_lib_laws:
  assumes "op_lib_ok lib"
  shows lib_keys: "distinct (map fst (ol_entries lib t))"
    and lib_insert: "ol_insert lib key owner task t = Inr t' \<Longrightarrow>
      map_of (ol_entries lib t) key = None \<and> map_of (ol_entries lib t') = (map_of (ol_entries lib t))(key \<mapsto> (owner, task))"
    and lib_update: "map_of (ol_entries lib (ol_update lib key task t)) k =
      (if k = key then map_option (\<lambda>(owner, _). (owner, task)) (map_of (ol_entries lib t) key) else map_of (ol_entries lib t) k)"
    and lib_remove: "map_of (ol_entries lib (ol_remove lib key t)) = (map_of (ol_entries lib t))(key := None)"
    and lib_retain: "set (ol_results lib (ol_retain lib key owner ev r)) \<subseteq> insert (owner, ev) (set (ol_results lib r))"
    and lib_result: "ol_result lib r key owner = Some ev \<Longrightarrow> (owner, ev) \<in> set (ol_results lib r)"
  using assms unfolding op_lib_ok_def by (blast | simp)+

lemma publish_event_effect:
  assumes "op_lib_ok lib" and "active_task lib st key = Some (owner, old)" and "oe_request_id (ot_event task) = key"
  shows "active_task lib (publish_event lib key task st) k = (if k = key then Some (owner, task) else active_task lib st k)"
    and "events_of k (publish_event lib key task st) = events_of k st @ (if k = key then [ot_event task] else [])"
  using assms(2,3) by (auto simp: active_task_def publish_event_def events_of_def lib_update [OF assms(1)])

lemma retained_effect:
  assumes "op_lib_ok lib" and "oe_request_id ev = key"
  shows "active_task lib (retain_terminal lib ev (st\<lparr>oc_table := ol_remove lib key (oc_table st)\<rparr>)) k
      = (if k = key then None else active_task lib st k)"
    and "events_of k (retain_terminal lib ev (st\<lparr>oc_table := ol_remove lib key (oc_table st)\<rparr>))
      = events_of k st @ (if k = key then [ev] else [])"
  using assms(2) by (auto simp: active_task_def retain_terminal_def events_of_def lib_remove [OF assms(1)])

lemma finished_request_id [simp]: "oe_request_id (finished result ev) = oe_request_id ev"
  by (cases result) (simp_all add: finished_def Let_def set_state_def)

lemma finished_event_name: "oe_event (finished result ev) \<noteq> ''started''"
  by (cases result) (simp_all add: finished_def Let_def set_state_def)

lemma publish_started_ok:
  assumes "op_lib_ok lib" and "oc_ok lib st" and "\<not> started key st" and "publish_started lib key st = (st', going)"
  shows "oc_ok lib st'"
proof (cases "active_task lib st key")
  case None
  then show ?thesis using assms(2,4) by (simp add: publish_started_def)
next
  case (Some entry)
  obtain owner task where active: "active_task lib st key = Some (owner, task)" using Some by (cases entry) simp
  let ?task = "task\<lparr>ot_event := set_state ''started'' ''running'' (ot_event task)\<rparr>"
  have st': "st' = publish_event lib key ?task st" using active assms(4) by (simp add: publish_started_def)
  have id: "oe_request_id (ot_event ?task) = key" using active_facts [OF assms(2) active] by simp
  note effect = publish_event_effect [OF assms(1) active id]
  show ?thesis
  proof (rule oc_ok_local [OF assms(2) active])
    show "active_task lib st' k = active_task lib st k \<and> events_of k st' = events_of k st" if "k \<noteq> key" for k
      using that effect by (simp add: st')
    show "\<exists>s'. op_step s s' \<and> slot_matches lib st' key s'" if "slot_matches lib st key s" for s
    proof (intro exI conjI)
      show "op_step s (fst (op_start s))"
        by (rule op_step.start [where going = "snd (op_start s)"]) (use that assms(3) in \<open>simp_all add: slot_matches_def\<close>)
      show "slot_matches lib st' key (fst (op_start s))"
        using that active effect id
        by (simp add: slot_matches_def started_iff st' op_start_def publish_def set_state_def)
    qed
  qed
qed

lemma report_progress_ok:
  assumes "op_lib_ok lib" and "oc_ok lib st" and "started key st"
  shows "oc_ok lib (report_progress lib locked stage key st)"
proof (cases "locked \<and> (\<exists>owner task. active_task lib st key = Some (owner, task) \<and> ot_handle task
    \<and> oe_revision (ot_event task) < MAX_REVISION - 1)")
  case False
  then have "report_progress lib locked stage key st = st"
    by (auto simp: report_progress_def split: option.split)
  then show ?thesis using assms(2) by simp
next
  case True
  then obtain owner task where active: "active_task lib st key = Some (owner, task)"
      and ready: "locked" "ot_handle task" "oe_revision (ot_event task) < MAX_REVISION - 1" by blast
  let ?task = "task\<lparr>ot_event := progress stage (ot_event task)\<rparr>"
  let ?st = "report_progress lib locked stage key st"
  have st': "?st = publish_event lib key ?task st" using active ready by (simp add: report_progress_def)
  have id: "oe_request_id (ot_event ?task) = key" using active_facts [OF assms(2) active] by simp
  note effect = publish_event_effect [OF assms(1) active id]
  show ?thesis
  proof (rule oc_ok_local [OF assms(2) active])
    show "active_task lib ?st k = active_task lib st k \<and> events_of k ?st = events_of k st" if "k \<noteq> key" for k
      using that effect by (simp add: st')
    show "\<exists>s'. op_step s s' \<and> slot_matches lib ?st key s'" if "slot_matches lib st key s" for s
    proof (intro exI conjI)
      show "op_step s (op_progress locked stage s)"
        by (rule op_step.progress) (use that assms(3) in \<open>simp add: slot_matches_def\<close>)
      show "slot_matches lib ?st key (op_progress locked stage s)" unfolding st'
        using that active effect id ready assms(3)
        by (simp add: slot_matches_def started_iff op_progress_def publish_def)
    qed
  qed
qed

text \<open>The two ends of an operation: its result, or the reaper.\<close>

lemma retained_ok:
  assumes "op_lib_ok lib" and "oc_ok lib st" and active: "active_task lib st key = Some (owner, task)"
    and id: "oe_request_id ev = key" and "oe_event ev \<noteq> ''started''"
    and "\<And>s. slot_matches lib st key s \<Longrightarrow> op_step s ((publish ev s)\<lparr>os_active := False\<rparr>)"
  shows "oc_ok lib (retain_terminal lib ev (st\<lparr>oc_table := ol_remove lib key (oc_table st)\<rparr>))"
proof (rule oc_ok_local [OF assms(2) active])
  let ?st = "retain_terminal lib ev (st\<lparr>oc_table := ol_remove lib key (oc_table st)\<rparr>)"
  note effect = retained_effect [OF assms(1) id, where st = st]
  show "active_task lib ?st k = active_task lib st k \<and> events_of k ?st = events_of k st" if "k \<noteq> key" for k
    using that effect by simp
  show "\<exists>s'. op_step s s' \<and> slot_matches lib ?st key s'" if "slot_matches lib st key s" for s
    using assms(5,6) that effect by (intro exI [of _ "(publish ev s)\<lparr>os_active := False\<rparr>"])
      (auto simp: slot_matches_def started_iff publish_def)
qed

lemma complete_ok:
  assumes "op_lib_ok lib" and "oc_ok lib st" and "started key st"
  shows "oc_ok lib (complete lib result key st)"
proof (cases "active_task lib st key")
  case (Some entry)
  obtain owner task where active: "active_task lib st key = Some (owner, task)" using Some by (cases entry) simp
  have "op_step s ((publish (finished result (ot_event task)) s)\<lparr>os_active := False\<rparr>)" if "slot_matches lib st key s" for s
    using op_step.finish [of s result] that active assms(3) by (simp add: slot_matches_def op_finish_def)
  then have "oc_ok lib (retain_terminal lib (finished result (ot_event task)) (st\<lparr>oc_table := ol_remove lib key (oc_table st)\<rparr>))"
    using active_facts [OF assms(2) active] by (intro retained_ok [OF assms(1,2) active]) (simp_all add: finished_event_name)
  then show ?thesis using active by (simp add: complete_def)
qed (use assms(2) in \<open>simp add: complete_def\<close>)

lemma reap_ok:
  assumes "op_lib_ok lib" and "oc_ok lib st" and "\<And>o1 task. active_task lib st key = Some (o1, task) \<Longrightarrow> \<not> ot_handle task"
  shows "oc_ok lib (reap lib key st)"
proof (cases "active_task lib st key")
  case (Some entry)
  obtain owner task where active: "active_task lib st key = Some (owner, task)" using Some by (cases entry) simp
  have "op_step s ((publish (set_state ''cancelled'' ''cancelled'' (ot_event task)) s)\<lparr>os_active := False\<rparr>)"
    if "slot_matches lib st key s" for s
    using op_step.reap [of s] that active assms(3) by (auto simp: slot_matches_def op_reap_def)
  then have "oc_ok lib (retain_terminal lib (set_state ''cancelled'' ''cancelled'' (ot_event task))
      (st\<lparr>oc_table := ol_remove lib key (oc_table st)\<rparr>))"
    using active_facts [OF assms(2) active] by (intro retained_ok [OF assms(1,2) active]) (simp_all add: set_state_def)
  then show ?thesis using active by (simp add: reap_def)
qed (use assms(2) in \<open>simp add: reap_def\<close>)

lemma handle_taken: "\<not> ot_handle task \<Longrightarrow> task\<lparr>ot_handle := False\<rparr> = (task :: ('s, 'e) op_task)"
  by (cases task) simp

lemma cancel_effect:
  assumes "op_lib_ok lib" and "cancel_owned lib key owner st = (st', taken)"
  shows "events_of k st' = events_of k st" and "oc_recent st' = oc_recent st" and "oc_published st' = oc_published st"
    and "active_task lib st' k = map_option (\<lambda>(o1, task).
        if k = key \<and> visible_to owner (ot_event task) then (o1, task\<lparr>ot_handle := False\<rparr>) else (o1, task)) (active_task lib st k)"
proof -
  show "events_of k st' = events_of k st" and "oc_recent st' = oc_recent st" and "oc_published st' = oc_published st"
    using assms(2) by (auto simp: cancel_owned_def events_of_def split: option.splits if_splits)
  show "active_task lib st' k = map_option (\<lambda>(o1, task).
        if k = key \<and> visible_to owner (ot_event task) then (o1, task\<lparr>ot_handle := False\<rparr>) else (o1, task)) (active_task lib st k)"
    using assms(2)
    by (cases "map_of (ol_entries lib (oc_table st)) k")
      (auto simp: cancel_owned_def active_task_def handle_taken lib_update [OF assms(1)] split: option.splits if_splits)
qed

lemma cancel_ok:
  assumes "op_lib_ok lib" and "oc_ok lib st" and cancel: "cancel_owned lib key owner st = (st', taken)"
  shows "oc_ok lib st'"
proof (cases "active_task lib st key")
  case None
  then show ?thesis using assms(2,3) by (simp add: cancel_owned_def)
next
  case (Some entry)
  obtain o1 task where active: "active_task lib st key = Some (o1, task)" using Some by (cases entry) simp
  note effect = cancel_effect [OF assms(1) cancel]
  show ?thesis
  proof (rule oc_ok_local [OF assms(2) active])
    show "active_task lib st' k = active_task lib st k \<and> events_of k st' = events_of k st" if "k \<noteq> key" for k
      using that effect by (cases "active_task lib st k") auto
    show "\<exists>s'. op_step s s' \<and> slot_matches lib st' key s'" if "slot_matches lib st key s" for s
    proof (intro exI conjI)
      show "op_step s (fst (op_cancel owner s))"
        by (rule op_step.cancel [where owner = owner and taken = "snd (op_cancel owner s)"]) simp
      show "slot_matches lib st' key (fst (op_cancel owner s))"
        using that active effect(1,4) [of key] by (simp add: slot_matches_def started_iff op_cancel_def)
    qed
  qed
qed

lemma start_effect:
  assumes "op_lib_ok lib" and "start_owned lib uuid params owner st = (st', Inr ev)"
  obtains device operation where "typed_operation device_operations ''device'' params = Inr (device, operation)"
    and "ev = queued (''operation-'' @ uuid) device (op_as_str device_operations operation) owner"
    and "active_task lib st (''operation-'' @ uuid) = None"
    and "\<And>k. active_task lib st' k = (if k = ''operation-'' @ uuid then Some (owner, \<lparr>ot_handle = True, ot_event = ev\<rparr>) else active_task lib st k)"
    and "oc_published st' = oc_published st" and "oc_recent st' = oc_recent st"
    and "\<And>k o1 task. active_task lib st k = Some (o1, task) \<Longrightarrow> oe_device_key (ot_event task) \<noteq> device"
proof -
  obtain device operation where parsed: "typed_operation device_operations ''device'' params = Inr (device, operation)"
    using assms(2) by (auto simp: start_owned_def split: sum.splits prod.splits)
  let ?key = "''operation-'' @ uuid" and ?ev = "queued (''operation-'' @ uuid) device (op_as_str device_operations operation) owner"
  note run = assms(2) [unfolded start_owned_def parsed Let_def]
  obtain t where t: "ol_insert lib ?key owner \<lparr>ot_handle = True, ot_event = ?ev\<rparr> (oc_table st) = Inr t"
      and st': "st' = st\<lparr>oc_table := t\<rparr>" and ev: "ev = ?ev"
      and free: "\<forall>entry \<in> set (ol_entries lib (oc_table st)). oe_device_key (ot_event (snd (snd entry))) \<noteq> device"
    using run by (auto split: sum.splits if_splits)
  note inserted = lib_insert [OF assms(1) t]
  show ?thesis
  proof (rule that [OF parsed ev])
    show "active_task lib st ?key = None" using inserted by (simp add: active_task_def)
    show "active_task lib st' k = (if k = ?key then Some (owner, \<lparr>ot_handle = True, ot_event = ev\<rparr>) else active_task lib st k)" for k
      using inserted by (simp add: active_task_def st' ev)
    show "oc_published st' = oc_published st" "oc_recent st' = oc_recent st" by (simp_all add: st')
    show "oe_device_key (ot_event task) \<noteq> device" if "active_task lib st k = Some (o1, task)" for k o1 task
      using free map_of_SomeD [OF that [unfolded active_task_def]] by force
  qed
qed

lemma start_refused: "start_owned lib uuid params owner st = (st', Inl e) \<Longrightarrow> st' = st"
  by (auto simp: start_owned_def Let_def split: sum.splits prod.splits if_splits)

lemma start_ok:
  assumes "op_lib_ok lib" and "oc_ok lib st" and fresh: "\<forall>e \<in> set (oc_published st). oe_request_id e \<noteq> ''operation-'' @ uuid"
    and start: "start_owned lib uuid params owner st = (st', response)"
  shows "oc_ok lib st'"
proof (cases response)
  case (Inl e)
  then show ?thesis using start_refused start assms(2) by blast
next
  case (Inr ev)
  let ?key = "''operation-'' @ uuid"
  obtain device operation where ev: "ev = queued ?key device (op_as_str device_operations operation) owner"
      and active: "\<And>k. active_task lib st' k = (if k = ?key then Some (owner, \<lparr>ot_handle = True, ot_event = ev\<rparr>) else active_task lib st k)"
      and published: "oc_published st' = oc_published st"
    using start_effect [OF assms(1) start [unfolded Inr]] by metis
  have none: "events_of ?key st' = []" using fresh published by (simp add: events_of_def)
  show ?thesis unfolding oc_ok_def
  proof (intro allI impI)
    fix k
    assume known: "known lib st' k"
    show "\<exists>ev s. oe_revision ev = 1 \<and> op_reachable ev s \<and> slot_matches lib st' k s"
    proof (cases "k = ?key")
      case True
      have "slot_matches lib st' k (slot_new ev)"
        using True active none by (simp add: slot_matches_def slot_new_def started_iff ev queued_def)
      moreover have "oe_revision ev = 1" by (simp add: ev queued_def)
      ultimately show ?thesis using op_reachable.initial by blast
    next
      case False
      then have same: "active_task lib st' k = active_task lib st k" "events_of k st' = events_of k st"
        using active published by (simp_all add: events_of_def)
      then have "known lib st k" using known by (simp add: known_def)
      then show ?thesis using assms(2) slot_matches_frame [OF same] unfolding oc_ok_def by metis
    qed
  qed
qed

lemma oc_step_ok:
  assumes "op_lib_ok lib" and "oc_step lib st st'" and "oc_ok lib st"
  shows "oc_ok lib st'"
  using assms(2,3)
proof cases
  case (start uuid params owner response)
  then show ?thesis using start_ok [OF assms(1,3)] by blast
next
  case (begun key going)
  then show ?thesis using publish_started_ok [OF assms(1,3)] by blast
next
  case (progress key locked stage)
  then show ?thesis using report_progress_ok [OF assms(1,3)] by blast
next
  case (complete key result)
  then show ?thesis using complete_ok [OF assms(1,3)] by blast
next
  case (cancel key owner taken)
  then show ?thesis using cancel_ok [OF assms(1,3)] by blast
next
  case (reap key)
  then show ?thesis using reap_ok [OF assms(1,3)] by blast
qed

subsection \<open>Devices and owners\<close>

definition device_of :: "('t, 'r, 's, 'e) op_lib \<Rightarrow> ('t, 'r, 's, 'e) coordinator \<Rightarrow> string \<Rightarrow> string option" where
  "device_of lib st key = map_option (\<lambda>(_, task). oe_device_key (ot_event task)) (active_task lib st key)"

definition devices_ok :: "('t, 'r, 's, 'e) op_lib \<Rightarrow> ('t, 'r, 's, 'e) coordinator \<Rightarrow> bool" where
  "devices_ok lib st \<longleftrightarrow> (\<forall>k1 k2 d. device_of lib st k1 = Some d \<and> device_of lib st k2 = Some d \<longrightarrow> k1 = k2)"

definition owners_ok :: "('t, 'r, 's, 'e) op_lib \<Rightarrow> ('t, 'r, 's, 'e) coordinator \<Rightarrow> bool" where
  "owners_ok lib st \<longleftrightarrow> (\<forall>(owner, ev) \<in> set (ol_results lib (oc_recent st)). oe_owner ev = owner)"

lemma devices_ok_le:
  assumes "devices_ok lib st" and "\<And>k. device_of lib st' k = None \<or> device_of lib st' k = device_of lib st k"
  shows "devices_ok lib st'"
  using assms unfolding devices_ok_def by (metis option.distinct(1))

lemma device_key_kept [simp]:
  "oe_device_key (set_state a b ev) = oe_device_key ev" "oe_device_key (progress stage ev) = oe_device_key ev"
  by (simp_all add: set_state_def progress_def)

lemma device_published:
  assumes "op_lib_ok lib" and "oc_ok lib st" and active: "active_task lib st key = Some (owner, task)"
    and "oe_request_id ev = oe_request_id (ot_event task)" and "oe_device_key ev = oe_device_key (ot_event task)"
  shows "device_of lib (publish_event lib key (task\<lparr>ot_event := ev\<rparr>) st) k = device_of lib st k"
  using publish_event_effect(1) [OF assms(1) active, of "task\<lparr>ot_event := ev\<rparr>"] active_facts [OF assms(2) active] active assms(4,5)
  by (simp add: device_of_def)

lemma device_retained:
  assumes "op_lib_ok lib" and "oe_request_id ev = key"
  shows "device_of lib (retain_terminal lib ev (st\<lparr>oc_table := ol_remove lib key (oc_table st)\<rparr>)) k
      = (if k = key then None else device_of lib st k)"
  by (simp add: device_of_def retained_effect(1) [OF assms])

lemma owners_retained:
  assumes "op_lib_ok lib" and "owners_ok lib st"
  shows "owners_ok lib (retain_terminal lib ev (st\<lparr>oc_table := t\<rparr>))"
  using lib_retain [OF assms(1), of "oe_request_id ev" "oe_owner ev" ev "oc_recent st"] assms(2)
  by (force simp: owners_ok_def retain_terminal_def)

lemma start_devices_owners:
  assumes "op_lib_ok lib" and "start_owned lib uuid params owner st = (st', response)" and "devices_ok lib st" and "owners_ok lib st"
  shows "devices_ok lib st' \<and> owners_ok lib st'"
proof (cases response)
  case (Inl e)
  then have "st' = st" using start_refused assms(2) by blast
  then show ?thesis using assms(3,4) by simp
next
  case (Inr ev)
  obtain device operation where "typed_operation device_operations ''device'' params = Inr (device, operation)"
      and ev: "ev = queued (''operation-'' @ uuid) device (op_as_str device_operations operation) owner"
      and "active_task lib st (''operation-'' @ uuid) = None"
      and active: "\<And>k. active_task lib st' k = (if k = ''operation-'' @ uuid then Some (owner, \<lparr>ot_handle = True, ot_event = ev\<rparr>) else active_task lib st k)"
      and "oc_published st' = oc_published st" and recent: "oc_recent st' = oc_recent st"
      and free: "\<And>k o1 task. active_task lib st k = Some (o1, task) \<Longrightarrow> oe_device_key (ot_event task) \<noteq> device"
    by (rule start_effect [OF assms(1,2) [unfolded Inr]]) (rule that)
  have "device_of lib st' k = (if k = ''operation-'' @ uuid then Some device else device_of lib st k)" for k
    using active [of k] by (simp add: device_of_def ev queued_def)
  moreover have "device_of lib st k \<noteq> Some device" for k using free by (auto simp: device_of_def)
  ultimately have "devices_ok lib st'" using assms(3) by (simp add: devices_ok_def)
  then show ?thesis using recent assms(4) by (simp add: owners_ok_def)
qed

lemma published_devices_owners:
  assumes "op_lib_ok lib" and "oc_ok lib st" and "active_task lib st key = Some (owner, task)"
    and "oe_request_id ev = oe_request_id (ot_event task)" and "oe_device_key ev = oe_device_key (ot_event task)"
    and "devices_ok lib st" and "owners_ok lib st"
  shows "devices_ok lib (publish_event lib key (task\<lparr>ot_event := ev\<rparr>) st) \<and> owners_ok lib (publish_event lib key (task\<lparr>ot_event := ev\<rparr>) st)"
proof
  show "devices_ok lib (publish_event lib key (task\<lparr>ot_event := ev\<rparr>) st)"
    by (rule devices_ok_le [OF assms(6)]) (simp add: device_published [OF assms(1-5)])
  show "owners_ok lib (publish_event lib key (task\<lparr>ot_event := ev\<rparr>) st)"
    using assms(7) by (simp add: owners_ok_def publish_event_def)
qed

lemma retained_devices_owners:
  assumes "op_lib_ok lib" and "oe_request_id ev = key" and "devices_ok lib st" and "owners_ok lib st"
  shows "devices_ok lib (retain_terminal lib ev (st\<lparr>oc_table := ol_remove lib key (oc_table st)\<rparr>))
    \<and> owners_ok lib (retain_terminal lib ev (st\<lparr>oc_table := ol_remove lib key (oc_table st)\<rparr>))"
proof
  show "devices_ok lib (retain_terminal lib ev (st\<lparr>oc_table := ol_remove lib key (oc_table st)\<rparr>))"
    by (rule devices_ok_le [OF assms(3)]) (simp add: device_retained [OF assms(1,2)])
  show "owners_ok lib (retain_terminal lib ev (st\<lparr>oc_table := ol_remove lib key (oc_table st)\<rparr>))"
    by (rule owners_retained [OF assms(1,4)])
qed

lemma oc_step_devices_owners:
  assumes "op_lib_ok lib" and "oc_step lib st st'" and "oc_ok lib st" and "devices_ok lib st" and "owners_ok lib st"
  shows "devices_ok lib st' \<and> owners_ok lib st'"
  using assms(2)
proof cases
  case (start uuid params owner response)
  show ?thesis by (rule start_devices_owners [OF assms(1) start(2) assms(4,5)])
next
  case (begun key going)
  show ?thesis
  proof (cases "active_task lib st key")
    case (Some entry)
    with begun(2) published_devices_owners [OF assms(1,3) _ _ _ assms(4,5)] show ?thesis
      by (cases entry) (auto simp: publish_started_def)
  qed (use begun(2) assms(4,5) in \<open>simp add: publish_started_def\<close>)
next
  case (progress key locked stage)
  show ?thesis
  proof (cases "active_task lib st key")
    case (Some entry)
    with progress(1) published_devices_owners [OF assms(1,3) _ _ _ assms(4,5)] assms(4,5) show ?thesis
      by (cases entry) (simp add: report_progress_def)
  qed (use progress(1) assms(4,5) in \<open>simp add: report_progress_def\<close>)
next
  case (complete key result)
  show ?thesis
  proof (cases "active_task lib st key")
    case (Some entry)
    obtain owner task where active: "active_task lib st key = Some (owner, task)" using Some by (cases entry) simp
    have "oe_request_id (finished result (ot_event task)) = key" using active_facts(1) [OF assms(3) active] by simp
    from retained_devices_owners [OF assms(1) this assms(4,5)] show ?thesis using complete(1) active by (simp add: complete_def)
  qed (use complete(1) assms(4,5) in \<open>simp add: complete_def\<close>)
next
  case (cancel key owner taken)
  note effect = cancel_effect [OF assms(1) cancel]
  have "device_of lib st' k = device_of lib st k" for k
    using effect(4) [of k] by (cases "active_task lib st k") (auto simp: device_of_def)
  then have "devices_ok lib st'" by (intro devices_ok_le [OF assms(4)]) simp
  then show ?thesis using assms(5) effect(2) by (simp add: owners_ok_def)
next
  case (reap key)
  show ?thesis
  proof (cases "active_task lib st key")
    case (Some entry)
    obtain owner task where active: "active_task lib st key = Some (owner, task)" using Some by (cases entry) simp
    have "oe_request_id (set_state ''cancelled'' ''cancelled'' (ot_event task)) = key" using active_facts(1) [OF assms(3) active] by simp
    from retained_devices_owners [OF assms(1) this assms(4,5)] show ?thesis using reap(1) active by (simp add: reap_def)
  qed (use reap(1) assms(4,5) in \<open>simp add: reap_def\<close>)
qed

lemma oc_reachable_ok:
  assumes "op_lib_ok lib" and "oc_reachable lib st"
  shows "oc_ok lib st \<and> devices_ok lib st \<and> owners_ok lib st"
  using assms(2)
proof induction
  case (empty t r)
  then show ?case
    by (simp add: oc_ok_def known_def devices_ok_def owners_ok_def device_of_def active_task_def events_of_def)
next
  case (step st st')
  then show ?case using oc_step_devices_owners [OF assms(1)] oc_step_ok [OF assms(1)] by blast
qed

subsection \<open>A library\<close>

text \<open>A table and results kept in lists, and a run: two operations, one of which is under way and then cancelled.\<close>

type_synonym demo_table = "(string \<times> string option \<times> (nat, string) op_task) list"

type_synonym demo_results = "(string \<times> string option \<times> (nat, string) operation_event) list"

definition list_lib :: "(demo_table, demo_results, nat, string) op_lib" where
  "list_lib = \<lparr>ol_entries = AList.clearjunk,
     ol_admit = (\<lambda>t owner. if length t < 256 then Inr () else Inl ''too many operations''),
     ol_insert = (\<lambda>key owner task t. if map_of t key = None then Inr ((key, owner, task) # t) else Inl ''duplicate''),
     ol_update = (\<lambda>key task t. case map_of t key of None \<Rightarrow> t | Some (owner, _) \<Rightarrow> (key, owner, task) # t),
     ol_remove = AList.delete,
     ol_results = map snd,
     ol_retain = (\<lambda>key owner ev r. (key, owner, ev) # r),
     ol_result = (\<lambda>r key owner. case map_of r key of None \<Rightarrow> None | Some (o1, ev) \<Rightarrow> if o1 = owner then Some ev else None)\<rparr>"

lemma list_lib_ok: "op_lib_ok list_lib"
proof -
  have insert: "ol_insert list_lib key owner task t = Inr t' \<Longrightarrow>
      map_of t key = None \<and> map_of t' = (map_of t)(key \<mapsto> (owner, task))" for key owner task t t'
    by (auto simp: list_lib_def split: if_splits)
  have update: "map_of (ol_update list_lib key task t) =
      (\<lambda>k. if k = key then map_option (\<lambda>(owner, _). (owner, task)) (map_of t key) else map_of t k)" for key task t
    by (auto simp: list_lib_def split: option.split)
  have result: "ol_result list_lib r key owner = Some ev \<Longrightarrow> (owner, ev) \<in> set (ol_results list_lib r)" for r key owner ev
    by (force simp: list_lib_def dest: map_of_SomeD split: option.splits if_splits)
  have entries: "ol_entries list_lib = AList.clearjunk" by (simp add: list_lib_def)
  have remove: "map_of (ol_remove list_lib key t) = (map_of t)(key := None)" for key t
    by (simp add: list_lib_def delete_conv')
  have retain: "set (ol_results list_lib (ol_retain list_lib key owner ev r)) \<subseteq> insert (owner, ev) (set (ol_results list_lib r))"
    for key owner ev r
    by (simp add: list_lib_def)
  show ?thesis
    unfolding op_lib_ok_def entries map_of_clearjunk update remove
    using insert retain result distinct_clearjunk by (intro conjI allI impI) (blast | rule refl)+
qed

definition demo_params :: "string \<Rightarrow> json" where
  "demo_params device = JObject [(''key'', JString device), (''operation'', JString ''connect'')]"

definition demo_two :: "(demo_table, demo_results, nat, string) coordinator" where
  "demo_two = fst (start_owned list_lib ''2'' (demo_params ''e'') (Some ''b'')
     (fst (start_owned list_lib ''1'' (demo_params ''d'') (Some ''a'') \<lparr>oc_table = [], oc_recent = [], oc_published = []\<rparr>)))"

definition demo_run :: "(demo_table, demo_results, nat, string) coordinator" where
  "demo_run = fst (cancel_owned list_lib ''operation-1'' (Some ''a'') (fst (publish_started list_lib ''operation-1'' demo_two)))"

lemma demo_run_reachable: "oc_reachable list_lib demo_run"
proof -
  let ?st0 = "\<lparr>oc_table = [], oc_recent = [], oc_published = []\<rparr> :: (demo_table, demo_results, nat, string) coordinator"
  have "oc_reachable list_lib ?st0" by (rule oc_reachable.empty) (simp_all add: list_lib_def)
  then have one: "oc_reachable list_lib (fst (start_owned list_lib ''1'' (demo_params ''d'') (Some ''a'') ?st0))"
    by (rule oc_reachable.step [OF _ oc_step.start [OF _ prod.collapse [symmetric]]]) simp
  have "oc_published (fst (start_owned list_lib ''1'' (demo_params ''d'') (Some ''a'') ?st0)) = []" by code_simp
  with one have "oc_reachable list_lib demo_two" unfolding demo_two_def
    by (intro oc_reachable.step [OF one oc_step.start [OF _ prod.collapse [symmetric]]]) simp
  moreover have "\<not> started ''operation-1'' demo_two" by code_simp
  ultimately have "oc_reachable list_lib (fst (publish_started list_lib ''operation-1'' demo_two))"
    by (intro oc_reachable.step [OF _ oc_step.begun [OF _ prod.collapse [symmetric]]])
  then show ?thesis unfolding demo_run_def
    by (rule oc_reachable.step [OF _ oc_step.cancel [OF prod.collapse [symmetric]]])
qed

subsection \<open>What the coordinator promises\<close>

lemma operation_followed:
  assumes "op_lib_ok lib" and "oc_reachable lib st" and "known lib st key"
  obtains ev s where "oe_revision ev = 1" "op_inv ev s" "slot_matches lib st key s"
  using oc_reachable_ok [OF assms(1,2)] assms(3) op_inv_reachable unfolding oc_ok_def by metis

text \<open>
  C8. The coordinator implements the life of each operation, whatever the table, the callers and the workers do and in
  whatever order: the events published for an operation carry the revisions 2, 3, ... without a gap and never past
  \<open>MAX_REVISION\<close>; all but the last are running; its entry is in the table exactly as long as no terminal event was
  published, and it holds the event published last, or the queued one.
\<close>
theorem operations_follow_their_life:
  assumes "op_lib_ok lib" and "oc_reachable lib st" and "known lib st key"
  shows "map oe_revision (events_of key st) = [2..<length (events_of key st) + 2]
    \<and> length (events_of key st) + 1 \<le> MAX_REVISION
    \<and> (\<forall>e \<in> set (butlast (events_of key st)). oe_state e = ''running'')
    \<and> (active_task lib st key = None \<longleftrightarrow> events_of key st \<noteq> [] \<and> oe_state (last (events_of key st)) \<in> TERMINAL)
    \<and> (\<forall>owner task. active_task lib st key = Some (owner, task) \<longrightarrow> oe_owner (ot_event task) = owner
        \<and> oe_request_id (ot_event task) = key
        \<and> (if events_of key st = [] then oe_revision (ot_event task) = 1 else last (events_of key st) = ot_event task))"
proof -
  obtain ev s where first: "oe_revision ev = 1" and inv: "op_inv ev s" and s: "slot_matches lib st key s"
    using operation_followed [OF assms] .
  have events: "os_published s = events_of key st" using s by (simp add: slot_matches_def)
  have active: "os_active s \<longleftrightarrow> active_task lib st key \<noteq> None" using s by (auto simp: slot_matches_def split: option.splits)
  have held: "os_event s = ot_event task \<and> oe_owner (ot_event task) = owner \<and> oe_request_id (ot_event task) = key"
    if "active_task lib st key = Some (owner, task)" for owner task
    using s that by (simp add: slot_matches_def)
  have last: "if events_of key st = [] then oe_revision (os_event s) = 1 else last (events_of key st) = os_event s"
    using inv first unfolding op_inv_def events by (cases "events_of key st = []") (auto split: if_splits)
  note facts = op_inv_events [OF inv first, unfolded events] op_invD(6) [OF inv, unfolded events]
  show ?thesis using facts active held last by metis
qed

theorem operations_follow_their_life_witness:
  "map oe_revision (events_of ''operation-1'' demo_run) = [2]
    \<and> (\<exists>owner task. active_task list_lib demo_run ''operation-1'' = Some (owner, task) \<and> oe_revision (ot_event task) = 2)"
proof -
  have entry: "active_task list_lib demo_run ''operation-1'' \<noteq> None" by code_simp
  then have known: "known list_lib demo_run ''operation-1''" by (simp add: known_def)
  have "length (events_of ''operation-1'' demo_run) = 1" by code_simp
  then show ?thesis
    using operations_follow_their_life [OF list_lib_ok demo_run_reachable known] entry
    by (cases "events_of ''operation-1'' demo_run") auto
qed



text \<open>
  C35. Operations are private: the snapshot of a caller and the answer to its status query show only events of operations
  it owns, and cancelling another owner's operation is refused and changes nothing.
\<close>
theorem operations_are_private:
  assumes "op_lib_ok lib" and "oc_reachable lib st"
  shows "(\<forall>ev \<in> set (fst (operations_snapshot lib owner st)) \<union> set (snd (operations_snapshot lib owner st)). oe_owner ev = owner)
    \<and> (\<forall>params ev. status lib params owner st = Inr ev \<longrightarrow> oe_owner ev = owner)
    \<and> (\<forall>key o1 task. active_task lib st key = Some (o1, task) \<and> o1 \<noteq> owner \<longrightarrow> cancel_owned lib key owner st = (st, False))"
proof (intro conjI allI impI)
  have ok: "oc_ok lib st" "owners_ok lib st" using oc_reachable_ok [OF assms] by blast+
  have active: "oe_owner (ot_event task) = o1" if "active_task lib st key = Some (o1, task)" for key o1 task
    using active_facts(2) [OF ok(1) that] by simp
  have entry: "oe_owner (ot_event task) = o1" if "(key, o1, task) \<in> set (ol_entries lib (oc_table st))" for key o1 task
    using map_of_is_SomeI [OF lib_keys [OF assms(1)] that] active by (simp add: active_task_def)
  show "\<forall>ev \<in> set (fst (operations_snapshot lib owner st)) \<union> set (snd (operations_snapshot lib owner st)). oe_owner ev = owner"
    using entry by (auto simp: operations_snapshot_def visible_to_def)
  show "oe_owner ev = owner" if status: "status lib params owner st = Inr ev" for params ev
  proof -
    have retained: "oe_owner ev = owner" if "ol_result lib (oc_recent st) key owner = Some ev" for key
      using lib_result [OF assms(1) that] ok(2) by (auto simp: owners_ok_def)
    from status show ?thesis
      using active retained by (auto simp: status_def split: sum.splits option.splits prod.splits if_splits)
  qed
  show "cancel_owned lib key owner st = (st, False)" if "active_task lib st key = Some (o1, task) \<and> o1 \<noteq> owner" for key o1 task
    using that active by (auto simp: cancel_owned_def visible_to_def)
qed

theorem operations_are_private_witness:
  "cancel_owned list_lib ''operation-1'' (Some ''b'') demo_run = (demo_run, False)"
proof -
  have "map_option fst (active_task list_lib demo_run ''operation-1'') = Some (Some ''a'')" by code_simp
  then obtain task where "active_task list_lib demo_run ''operation-1'' = Some (Some ''a'', task)" by auto
  then show ?thesis using operations_are_private [OF list_lib_ok demo_run_reachable, of "Some ''b''"] by auto
qed

text \<open>
  When a client leaves, all of its operations are cancelled at once and no other is: afterwards the worker of each
  of its entries is told to stop, so that its reaper ends it, and everything else is as before.
\<close>
theorem departed_owner_is_cancelled:
  assumes "op_lib_ok lib" and "oc_reachable lib st"
  shows "active_task lib (cancel_owner lib owner st) key
      = map_option (\<lambda>(o1, task). if o1 = Some owner then (o1, task\<lparr>ot_handle := False\<rparr>) else (o1, task)) (active_task lib st key)
    \<and> oc_published (cancel_owner lib owner st) = oc_published st \<and> oc_recent (cancel_owner lib owner st) = oc_recent st"
proof -
  let ?mark = "\<lambda>b (o1, task). if b \<and> o1 = Some owner then (o1, task\<lparr>ot_handle := False\<rparr>) else (o1, task :: ('c, 'd) op_task)"
  have run: "active_task lib (foldl (\<lambda>st key. fst (cancel_owned lib key (Some owner) st)) st ks) key
        = map_option (?mark (key \<in> set ks)) (active_task lib st key)
      \<and> oc_published (foldl (\<lambda>st key. fst (cancel_owned lib key (Some owner) st)) st ks) = oc_published st
      \<and> oc_recent (foldl (\<lambda>st key. fst (cancel_owned lib key (Some owner) st)) st ks) = oc_recent st"
    if "\<forall>o1 task. active_task lib st key = Some (o1, task) \<longrightarrow> oe_owner (ot_event task) = o1" for ks st
    using that
  proof (induction ks arbitrary: st)
    case Nil
    then show ?case by (cases "active_task lib st key") auto
  next
    case (Cons k ks)
    obtain st1 taken where c: "cancel_owned lib k (Some owner) st = (st1, taken)" by force
    note effect = cancel_effect [OF assms(1) c]
    have "\<forall>o1 task. active_task lib st1 key = Some (o1, task) \<longrightarrow> oe_owner (ot_event task) = o1"
      using effect(4) [of key] Cons.prems by (cases "active_task lib st key") (auto split: if_splits)
    note rest = Cons.IH [OF this]
    show ?case using rest c effect(2,3) effect(4) [of key] Cons.prems
      by (cases "active_task lib st key") (auto simp: visible_to_def)
  qed
  have ok: "oc_ok lib st" using oc_reachable_ok [OF assms] by blast
  have owners: "\<forall>o1 task. active_task lib st key = Some (o1, task) \<longrightarrow> oe_owner (ot_event task) = o1"
    using active_facts(2) [OF ok] by auto
  have listed: "key \<in> set (map fst (filter (\<lambda>entry. fst (snd entry) = Some owner) (ol_entries lib (oc_table st))))"
    if "active_task lib st key = Some (Some owner, task)" for task
    using map_of_SomeD [OF that [unfolded active_task_def]] by force
  show ?thesis unfolding cancel_owner_def using run [OF owners] listed
    by (cases "active_task lib st key") auto
qed

theorem departed_owner_is_cancelled_witness:
  "\<exists>task. active_task list_lib (cancel_owner list_lib ''b'' demo_run) ''operation-2'' = Some (Some ''b'', task) \<and> \<not> ot_handle task"
proof -
  have "map_option fst (active_task list_lib demo_run ''operation-2'') = Some (Some ''b'')" by code_simp
  then show ?thesis using departed_owner_is_cancelled [OF list_lib_ok demo_run_reachable, of "''b''" "''operation-2''"] by auto
qed

end
