(* ===== verification/Protocol.thy ===== *)
theory Protocol
  imports Api "HOL-Library.AList"
begin

text \<open>
  \<open>src/protocol.rs\<close>: the registry of the client protocol: methods with an example of their parameters, the
  schema derived from each example, streams with their events, operation parameters and error codes.

  The examples are JSON literals of the source, written as the values they parse to; \<open>parameter_contract\<close>
  gets the parser's answer. Objects are compared by their entries. The contract version belongs to the daemon
  framework. The fixture's builder, which only feeds the tests, is not modelled.
\<close>

subsection \<open>Names\<close>

definition NAME :: string where "NAME = ''bt-api''"

definition stream_changed :: string where "stream_changed = ''bluetooth.changed''"
definition stream_pairing :: string where "stream_pairing = ''pairing.request''"
definition stream_operation :: string where "stream_operation = ''bluetooth.operation''"
definition stream_scan :: string where "stream_scan = ''bluetooth.scan''"
definition stream_audio :: string where "stream_audio = ''bluetooth.audio.changed''"
definition stream_obex :: string where "stream_obex = ''bluetooth.obex.transfer''"

text \<open>Name, example of the parameters, response key and stream.\<close>

definition METHODS :: "(string \<times> json \<times> string \<times> string option) list" where
  "METHODS =
    [(''bluetooth.protocol.describe'', JObject [],
      ''registry'', None),
     (''bluetooth.snapshot'', JObject [],
      ''snapshot'', Some stream_changed),
     (''bluetooth.setPowered'', JObject [(''adapter_key'', JNull), (''powered'', JBool True)],
      ''snapshot'', Some stream_changed),
     (''bluetooth.scan'', JObject [(''adapter_key'', JString ''adapter-opaque''), (''enabled'', JBool True),
       (''timeout_ms'', JInt 15000)],
      ''scan'', Some stream_scan),
     (''bluetooth.adapter.operation'', JObject [(''key'', JString ''adapter-opaque''),
       (''operation'', JString ''set-discoverable''), (''discoverable'', JBool True)],
      ''snapshot'', Some stream_changed),
     (''bluetooth.adapter.update'', JObject [(''key'', JString ''adapter-opaque''),
       (''changes'', JObject [(''alias'', JString ''Computer''), (''discoverable_timeout'', JInt 120),
       (''pairable_timeout'', JInt 0)])],
      ''adapter_batch'', Some stream_changed),
     (''bluetooth.management.update'', JObject [(''launch_state'', JString ''remember''),
       (''reconnect_on_resume'', JBool True), (''trust_after_pair'', JBool True),
       (''preferred_adapter_key'', JString ''adapter-opaque''), (''show_blocked_devices'', JBool False),
       (''show_recent_devices'', JBool False)],
      ''snapshot'', Some stream_changed),
     (''bluetooth.device.policy.update'', JObject [(''key'', JString ''device-opaque''),
       (''reconnect_on_resume'', JBool True), (''trust_after_pair'', JBool True),
       (''power_on_connect'', JBool True), (''wait_for_services'', JBool True),
       (''fast_pair_controls_enabled'', JBool True), (''audio_route_on_connect'', JString ''keep''),
       (''preferred_audio_profile_key'', JNull)],
      ''snapshot'', Some stream_changed),
     (''bluetooth.obex.snapshot'', JObject [],
      ''obex'', None),
     (''bluetooth.obex.send'', JObject [(''device_key'', JString ''device-opaque''),
       (''path'', JString ''/selected/file'')],
      ''transfer'', Some stream_obex),
     (''bluetooth.obex.respond'', JObject [(''request_id'', JString ''obex-incoming-1''),
       (''accept'', JBool True)],
      ''authorization'', Some stream_obex),
     (''bluetooth.audio.snapshot'', JObject [],
      ''audio_devices'', None),
     (''bluetooth.audio.setProfile'', JObject [(''device_key'', JString ''device-opaque''),
       (''profile_key'', JString ''audio-profile-opaque''), (''remember'', JBool True)],
      ''audio_devices'', None),
     (''bluetooth.audio.setDefault'', JObject [(''device_key'', JString ''device-opaque''),
       (''endpoint_key'', JString ''audio-endpoint-opaque'')],
      ''audio_devices'', Some stream_audio),
     (''bluetooth.requests.snapshot'', JObject [],
      ''requests'', None),
     (''bluetooth.operation.status'', JObject [(''request_id'', JString ''operation-opaque'')],
      ''operation_status'', None),
     (''bluetooth.device.operation'', JObject [(''key'', JString ''device-opaque''),
       (''operation'', JString ''connect''), (''power_on'', JBool True), (''trust'', JBool False),
       (''wait_for_services'', JBool True)],
      ''operation'', Some stream_operation),
     (''bluetooth.pairing.respond'', JObject [(''request_id'', JString ''pairing-1''),
       (''accept'', JBool True), (''value'', JNull)],
      ''result'', Some stream_pairing)]"

definition DESCRIPTIONS :: "string list" where
  "DESCRIPTIONS =
    [''Return machine-readable bt-api methods, schemas, streams, operations, and errors.'',
     ''Return the current radio, adapter, device, and policy snapshot.'',
     ''Set global or adapter Bluetooth power.'',
     ''Acquire or release a bounded caller-owned discovery lease.'',
     ''Mutate one adapter setting.'',
     ''Apply a validated adapter patch in alias/discoverable_timeout/pairable_timeout order. Returns ''
      @ ''per-field applied/unknown/not-attempted outcomes; stops on error, without rollback or replay. ''
      @ ''Survives caller disconnect, but not daemon restart. Snapshot failure does not erase write ''
      @ ''acknowledgements.'',
     ''Update persistent global Bluetooth policy.'',
     ''Update persistent policy for one device; null clears an override.'',
     ''Return object-push capabilities.'',
     ''Start an outgoing object-push transfer.'',
     ''Answer an incoming object-push authorization request.'',
     ''Return Bluetooth PipeWire cards, profiles, and endpoints.'',
     ''Activate an available Bluetooth audio profile; remember=true persists it under the same device ''
      @ ''gate and returns profile_outcome with explicit partial success. Never automatically replay an ''
      @ ''uncertain write.'',
     ''Make a Bluetooth sink or source the PipeWire default.'',
     ''Recover caller-owned operations and current scan/pairing observations after reconnect or event ''
      @ ''loss. Absence is not an operation outcome.'',
     ''Read caller-owned active or retained terminal device-operation status without replay. Terminal ''
      @ ''results retain at most 64 entries for five minutes; missing, foreign or expired IDs return ''
      @ ''request-not-found, never success.'',
     ''Start a cancellable staged device operation.'',
     ''Answer an active pairing-agent prompt.'']"

definition STREAMS :: "(string \<times> string list) list" where
  "STREAMS =
    [(stream_changed, [''subscribed'', ''changed'', ''loading'', ''unavailable'']),
     (stream_pairing, [''requested'', ''display'', ''answered'', ''cancelled'', ''gap'']),
     (stream_operation, [''started'', ''progress'', ''completed'', ''failed'', ''cancelled'', ''gap'']),
     (stream_scan, [''started'', ''completed'', ''failed'', ''cancelled'', ''gap'']),
     (stream_obex, [''authorization-requested'', ''queued'', ''progress'', ''completed'', ''failed'', ''cancelled'', ''gap'']),
     (stream_audio, [''subscribed'', ''changed'', ''unavailable''])]"

definition required_capability :: "string \<Rightarrow> string option" where
  "required_capability name =
     (if name = ''bluetooth.obex.send'' then Some ''can_send_file''
      else if name = ''bluetooth.audio.setProfile'' \<or> name = ''bluetooth.audio.setDefault'' then Some ''audio_device''
      else None)"

definition required_parameters :: "string \<Rightarrow> string list" where
  "required_parameters name =
     (if name = ''bluetooth.setPowered'' then [''powered'']
      else if name = ''bluetooth.operation.status'' then [''request_id'']
      else if name = ''bluetooth.adapter.operation'' \<or> name = ''bluetooth.device.operation'' then [''key'', ''operation'']
      else if name = ''bluetooth.adapter.update'' then [''key'', ''changes'']
      else if name = ''bluetooth.device.policy.update'' then [''key'']
      else if name = ''bluetooth.obex.send'' then [''device_key'', ''path'']
      else if name = ''bluetooth.obex.respond'' \<or> name = ''bluetooth.pairing.respond'' then [''request_id'', ''accept'']
      else if name = ''bluetooth.audio.setProfile'' then [''device_key'', ''profile_key'']
      else if name = ''bluetooth.audio.setDefault'' then [''device_key'', ''endpoint_key'']
      else [])"

subsection \<open>Parameter schemas\<close>

definition json_strings :: "string list \<Rightarrow> json" where
  "json_strings names = JArray (map JString names)"

definition json_opt :: "string option \<Rightarrow> json" where
  "json_opt v = (case v of None \<Rightarrow> JNull | Some s \<Rightarrow> JString s)"

text \<open>Assignment to a key of an object.\<close>

fun json_set :: "string \<Rightarrow> json \<Rightarrow> json \<Rightarrow> json" where
  "json_set k v (JObject fs) = JObject (AList.update k v fs)"
| "json_set k v j = j"

fun inferred_schema :: "json \<Rightarrow> json" where
  "inferred_schema JNull = JObject [(''type'', json_strings [''string'', ''null''])]"
| "inferred_schema (JBool _) = JObject [(''type'', JString ''boolean'')]"
| "inferred_schema (JInt i) =
     (if as_u64 (JInt i) \<noteq> None then JObject [(''type'', JString ''integer''), (''minimum'', JInt 0)]
      else JObject [(''type'', JString ''number'')])"
| "inferred_schema JFloat = JObject [(''type'', JString ''number'')]"
| "inferred_schema (JString _) = JObject [(''type'', JString ''string''), (''minLength'', JInt 1)]"
| "inferred_schema (JArray _) = JObject [(''type'', JString ''array'')]"
| "inferred_schema (JObject _) = JObject [(''type'', JString ''object'')]"

definition MAX_U32 :: int where "MAX_U32 = 4294967295"

definition timeout_schema :: json where
  "timeout_schema = JObject [(''type'', JString ''integer''), (''minimum'', JInt 0), (''maximum'', JInt MAX_U32)]"

definition string_schema :: json where
  "string_schema = JObject [(''type'', JString ''string''), (''minLength'', JInt 1)]"

definition operation_names :: "('o \<times> string) list \<Rightarrow> json" where
  "operation_names table = json_strings (map snd table)"

definition apply_constraints :: "string \<Rightarrow> string \<Rightarrow> json \<Rightarrow> json" where
  "apply_constraints m property schema =
     (if (m, property) = (''bluetooth.adapter.update'', ''changes'')
      then JObject [(''type'', JString ''object''), (''minProperties'', JInt 1), (''additionalProperties'', JBool False),
        (''properties'', JObject [(''alias'', string_schema), (''discoverable_timeout'', timeout_schema),
           (''pairable_timeout'', timeout_schema)])]
      else if (m, property) = (''bluetooth.adapter.operation'', ''operation'')
      then json_set ''enum'' (operation_names adapter_operations) schema
      else if (m, property) = (''bluetooth.device.operation'', ''operation'')
      then json_set ''enum'' (operation_names device_operations) schema
      else if (m, property) = (''bluetooth.management.update'', ''launch_state'')
      then json_set ''enum'' (json_strings [''remember'', ''enable'', ''disable'']) schema
      else if (m, property) = (''bluetooth.device.policy.update'', ''audio_route_on_connect'')
      then json_set ''enum'' (json_strings [''keep'', ''switch'']) schema
      else if (m, property) = (''bluetooth.device.policy.update'', ''fast_pair_controls_enabled'')
      then json_set ''type'' (json_strings [''boolean'', ''null'']) schema
      else if (m, property) = (''bluetooth.scan'', ''timeout_ms'')
      then json_set ''maximum'' (JInt 60000) (json_set ''minimum'' (JInt 1000) schema)
      else schema)"

definition parameter_contract :: "string \<Rightarrow> json option \<Rightarrow> json \<times> json" where
  "parameter_contract name parsed =
     (case parsed of
        Some (JObject fs) \<Rightarrow>
          (JObject fs,
           JObject [(''$schema'', JString ''https://json-schema.org/draft/2020-12/schema''), (''type'', JString ''object''),
             (''properties'', JObject (map (\<lambda>(k, v). (k, apply_constraints name k (inferred_schema v))) fs)),
             (''required'', json_strings (filter (\<lambda>k. k \<in> set (required_parameters name)) (map fst fs))),
             (''additionalProperties'', JBool (name \<noteq> ''bluetooth.adapter.update''))])
      | _ \<Rightarrow> (JNull, JBool False))"

subsection \<open>Operations and errors\<close>

definition boolean_schema :: json where "boolean_schema = JObject [(''type'', JString ''boolean'')]"

definition adapter_parameters :: json where
  "adapter_parameters = JObject
    [(''set-alias'', JObject [(''required'', JArray [JString ''alias'']),
       (''properties'', JObject [(''alias'', string_schema)])]),
     (''set-discoverable'', JObject [(''required'', JArray [JString ''discoverable'']),
       (''properties'', JObject [(''discoverable'', boolean_schema)])]),
     (''set-pairable'', JObject [(''required'', JArray [JString ''pairable'']),
       (''properties'', JObject [(''pairable'', boolean_schema)])]),
     (''set-discoverable-timeout'', JObject [(''required'', JArray [JString ''timeout'']),
       (''properties'', JObject [(''timeout'', timeout_schema)])]),
     (''set-pairable-timeout'', JObject [(''required'', JArray [JString ''timeout'']),
       (''properties'', JObject [(''timeout'', timeout_schema)])])]"

definition device_parameters :: json where
  "device_parameters = JObject
    [(''pair'', JObject [(''properties'', JObject [(''power_on'', boolean_schema),
       (''trust_after_pair'', boolean_schema), (''wait_for_services'', boolean_schema),
       (''fast_pair_anti_spoofing_public_key'', JObject [(''type'', JString ''string'')])])]),
     (''connect'', JObject [(''properties'', JObject [(''power_on'', boolean_schema),
       (''trust'', boolean_schema), (''wait_for_services'', boolean_schema)])]),
     (''disconnect'', JObject [(''properties'', JObject [])]),
     (''remove'', JObject [(''properties'', JObject [])]),
     (''set-trusted'', JObject [(''required'', JArray [JString ''trusted'']),
       (''properties'', JObject [(''trusted'', boolean_schema)])]),
     (''set-blocked'', JObject [(''required'', JArray [JString ''blocked'']),
       (''properties'', JObject [(''blocked'', boolean_schema)])]),
     (''set-wake-allowed'', JObject [(''required'', JArray [JString ''wake_allowed'']),
       (''properties'', JObject [(''wake_allowed'', boolean_schema)])]),
     (''set-alias'', JObject [(''required'', JArray [JString ''alias'']),
       (''properties'', JObject [(''alias'', string_schema)])]),
     (''reset-alias'', JObject [(''properties'', JObject [])]),
     (''provision-fast-pair'', JObject [(''required'', JArray []),
       (''properties'', JObject [(''anti_spoofing_public_key'', JObject [(''type'', JString ''string'')])])]),
     (''set-multipoint'', JObject [(''required'', JArray [JString ''enabled'']),
       (''properties'', JObject [(''enabled'', boolean_schema)])]),
     (''set-noise-control'', JObject [(''required'', JArray [JString ''mode'']),
       (''properties'', JObject [(''mode'', JObject [(''enum'', JArray [JString ''transparent'', JString
       ''adaptive'', JString ''off'', JString ''noise-cancelling''])])])])]"

definition operation_parameters :: json where
  "operation_parameters = JObject [(''adapter'', adapter_parameters), (''device'', device_parameters)]"

definition registered_errors :: "(string \<times> bool) list" where
  "registered_errors =
     map (\<lambda>k. (kind_code k, kind_retryable k))
       [KTimeout, KDeviceUnavailable, KRejected, KUnavailable, KInvalidInput, KOperationFailed]
     @ [(''daemon-unavailable'', True), (''device-busy'', True), (''adapter-outcome-unknown'', False),
        (''request-not-found'', False), (''unsupported-method'', False), (''unsupported-stream'', False),
        (''audio-unavailable'', True), (''audio-endpoint-unavailable'', True)]"

definition error_registry :: json where
  "error_registry = JArray (map (\<lambda>(code, retryable). JObject [(''code'', JString code), (''retryable'', JBool retryable)])
     registered_errors)"

subsection \<open>The registry\<close>

definition cancellable :: "string \<Rightarrow> bool" where
  "cancellable name = (name \<in> {''bluetooth.scan'', ''bluetooth.device.operation'', ''bluetooth.obex.send''})"

definition method_entry :: "(string \<times> json \<times> string \<times> string option) \<times> string \<Rightarrow> json" where
  "method_entry e =
     (case e of ((name, params, response_key, stream), description) \<Rightarrow>
        case parameter_contract name (Some params) of
          (example, schema) \<Rightarrow>
            JObject [(''name'', JString name), (''description'', JString description), (''params_example'', example),
              (''params_schema'', schema), (''response_key'', JString response_key), (''stream'', json_opt stream),
              (''cancellable'', JBool (cancellable name)), (''required_capability'', json_opt (required_capability name))])"

definition compatibility :: json where
  "compatibility = JObject
     [(''request_unknown_fields'', JString ''method-dependent''), (''response_unknown_fields'', JString ''ignore''),
      (''event_recovery_method'', JString ''bluetooth.requests.snapshot''),
      (''operation_ordering'', JObject
        [(''status_method'', JString ''bluetooth.operation.status''), (''identity'', JString ''never-reused-request-id''),
         (''revision'', JString ''exact-positive-integer-per-operation''),
         (''visibility'', JString ''caller-owned-receipts-status-snapshot-events''),
         (''terminal_limit'', JInt 64), (''terminal_retention_ms'', JInt 300000),
         (''missing'', JString ''unknown-not-success-no-replay''), (''cancellation'', JString ''worker-stopped-not-effect-rollback'')]),
      (''snapshot_ordering'', JObject
        [(''streams'', json_strings [stream_changed, stream_audio]),
         (''reads'', json_strings [''bluetooth.snapshot'', ''bluetooth.audio.snapshot'']),
         (''watermark'', JString ''data.state''), (''semantics'', JString ''full-replacement''),
         (''epoch'', JString ''opaque-publisher-lifetime''), (''revision'', JString ''exact-positive-integer''),
         (''coalescing'', JString ''revision-skips-allowed''),
         (''mutation_snapshots'', JString ''unwatermarked-observations-not-live-state'')])]"

definition registry_value :: "int \<Rightarrow> json" where
  "registry_value version = JObject
     [(''protocol'', JString NAME), (''version'', JInt version),
      (''methods'', JArray (map method_entry (zip METHODS DESCRIPTIONS))),
      (''streams'', JArray (map (\<lambda>(name, events). JObject [(''name'', JString name), (''events'', json_strings events)]) STREAMS)),
      (''operations'', JObject
        [(''adapter'', JObject [(''names'', operation_names adapter_operations), (''parameters'', adapter_parameters)]),
         (''device'', JObject [(''names'', operation_names device_operations), (''parameters'', device_parameters)])]),
      (''errors'', error_registry), (''compatibility'', compatibility)]"

subsection \<open>The advertised contract\<close>

text \<open>
  The part of JSON Schema the registry uses, to a nesting depth: types, enumerations, bounds, lengths,
  properties, required keys and whether others are allowed.
\<close>

fun has_type :: "string \<Rightarrow> json \<Rightarrow> bool" where
  "has_type t JNull = (t = ''null'')"
| "has_type t (JBool _) = (t = ''boolean'')"
| "has_type t (JInt _) = (t = ''integer'' \<or> t = ''number'')"
| "has_type t JFloat = (t = ''number'')"
| "has_type t (JString _) = (t = ''string'')"
| "has_type t (JArray _) = (t = ''array'')"
| "has_type t (JObject _) = (t = ''object'')"

fun type_allows :: "json option \<Rightarrow> json \<Rightarrow> bool" where
  "type_allows (Some (JString t)) v = has_type t v"
| "type_allows (Some (JArray ts)) v = list_ex (\<lambda>t. case t of JString t \<Rightarrow> has_type t v | _ \<Rightarrow> False) ts"
| "type_allows _ v = True"

fun bound_allows :: "(int \<Rightarrow> int \<Rightarrow> bool) \<Rightarrow> json option \<Rightarrow> json \<Rightarrow> bool" where
  "bound_allows le (Some (JInt b)) (JInt i) = le b i"
| "bound_allows le _ v = True"

fun length_allows :: "json option \<Rightarrow> json \<Rightarrow> bool" where
  "length_allows (Some (JInt n)) (JString s) = (n \<le> int (length s))"
| "length_allows _ v = True"

fun enum_allows :: "json option \<Rightarrow> json \<Rightarrow> bool" where
  "enum_allows (Some (JArray vs)) (JString s) = list_ex (\<lambda>v. case v of JString t \<Rightarrow> t = s | _ \<Rightarrow> False) vs"
| "enum_allows _ v = True"

definition object_keys :: "json option \<Rightarrow> string list" where
  "object_keys j = (case j of Some (JObject fs) \<Rightarrow> map fst fs | _ \<Rightarrow> [])"

definition string_items :: "json option \<Rightarrow> string list" where
  "string_items j = (case j of Some (JArray vs) \<Rightarrow> List.map_filter (\<lambda>v. case v of JString s \<Rightarrow> Some s | _ \<Rightarrow> None) vs | _ \<Rightarrow> [])"

fun schema_allows :: "nat \<Rightarrow> json \<Rightarrow> json \<Rightarrow> bool" where
  "schema_allows n (JBool b) v = b"
| "schema_allows 0 schema v = False"
| "schema_allows (Suc n) schema v =
     (type_allows (json_get schema ''type'') v
      \<and> bound_allows (\<le>) (json_get schema ''minimum'') v \<and> bound_allows (\<ge>) (json_get schema ''maximum'') v
      \<and> length_allows (json_get schema ''minLength'') v \<and> enum_allows (json_get schema ''enum'') v
      \<and> (case v of
           JObject fs \<Rightarrow>
             list_all (\<lambda>k. k \<in> set (map fst fs)) (string_items (json_get schema ''required''))
             \<and> list_all (\<lambda>(k, x). case Option.bind (json_get schema ''properties'') (\<lambda>ps. json_get ps k) of
                  None \<Rightarrow> (case json_get schema ''additionalProperties'' of Some (JBool False) \<Rightarrow> False | _ \<Rightarrow> True)
                | Some sub \<Rightarrow> schema_allows n sub x) fs
         | _ \<Rightarrow> True))"

definition parameters_documented :: "json \<Rightarrow> bool" where
  "parameters_documented entry =
     list_all (\<lambda>k. k \<in> set (object_keys (json_get entry ''properties''))) (string_items (json_get entry ''required''))"

definition object_values :: "json \<Rightarrow> json list" where
  "object_values j = (case j of JObject fs \<Rightarrow> map snd fs | _ \<Rightarrow> [])"

text \<open>
  The registry agrees with itself and with the code's operations. Each method's example is accepted by the
  schema advertised for it and has every parameter the method requires; each stream a method names is a
  registered stream; the operations with documented parameters are exactly the adapter and device operations,
  and the parameters they require are documented; no name is registered twice.
\<close>
theorem registry_is_consistent:
  "list_all (\<lambda>(name, example, _, stream).
       schema_allows 3 (snd (parameter_contract name (Some example))) example
       \<and> list_all (\<lambda>p. p \<in> set (object_keys (Some example))) (required_parameters name)
       \<and> (case stream of None \<Rightarrow> True | Some s \<Rightarrow> s \<in> set (map fst STREAMS))) METHODS
   \<and> object_keys (Some adapter_parameters) = map snd adapter_operations
   \<and> object_keys (Some device_parameters) = map snd device_operations
   \<and> list_all parameters_documented (object_values adapter_parameters @ object_values device_parameters)
   \<and> distinct (map fst METHODS) \<and> distinct (map fst STREAMS) \<and> distinct (map fst registered_errors)
   \<and> length DESCRIPTIONS = length METHODS"
proof (intro conjI)
  show "list_all (\<lambda>(name, example, _, stream).
       schema_allows 3 (snd (parameter_contract name (Some example))) example
       \<and> list_all (\<lambda>p. p \<in> set (object_keys (Some example))) (required_parameters name)
       \<and> (case stream of None \<Rightarrow> True | Some s \<Rightarrow> s \<in> set (map fst STREAMS))) METHODS" by code_simp
  show "object_keys (Some adapter_parameters) = map snd adapter_operations" by code_simp
  show "object_keys (Some device_parameters) = map snd device_operations" by code_simp
  show "list_all parameters_documented (object_values adapter_parameters @ object_values device_parameters)" by code_simp
  show "distinct (map fst METHODS)" "distinct (map fst STREAMS)" "distinct (map fst registered_errors)" by code_simp+
  show "length DESCRIPTIONS = length METHODS" by code_simp
qed

subsection \<open>Required parameters\<close>

lemma required_string_missing:
  "json_get params p = None \<Longrightarrow> \<exists>e. checked (require_string params p) = Inl e"
  by (simp add: require_string_def checked_def)

text \<open>
  A backend request without a parameter the registry calls required is refused as invalid input before the
  backend is touched, whatever else it carries.
\<close>
theorem required_parameters_enforced:
  assumes "m \<in> {''bluetooth.setPowered'', ''bluetooth.adapter.operation'', ''bluetooth.adapter.update'',
      ''bluetooth.device.policy.update''}"
    and "p \<in> set (required_parameters m)" and "json_get params p = None"
  shows "\<exists>e. dispatch be m params b = (b, Failed e) \<and> ee_code e = ''validation-error''"
proof -
  have code: "ee_code (validation_error e) = ''validation-error''" for e by (simp add: validation_error_def api_error_def)
  consider "m = ''bluetooth.setPowered''" | "m = ''bluetooth.adapter.operation''" | "m = ''bluetooth.adapter.update''"
    | "m = ''bluetooth.device.policy.update''" using assms(1) by blast
  then show ?thesis
  proof cases
    case 1
    then have "p = ''powered''" using assms(2) by (simp add: required_parameters_def)
    then have "\<exists>e. require_bool params ''powered'' = Inl e" using assms(3) by (simp add: require_bool_def)
    then show ?thesis using 1 code
      by (cases "optional_string params ''adapter_key''") (auto simp: dispatch_def parse_backend_request_def checked_def)
  next
    case 2
    then have "\<exists>e. typed_operation adapter_operations ''adapter'' params = Inl e"
      using assms(2,3) by (auto simp: required_parameters_def typed_operation_def require_strings_def require_string_def checked_def
        split: sum.splits)
    then show ?thesis using 2 code by (auto simp: dispatch_def parse_backend_request_def)
  next
    case 3
    then have "json_get params ''key'' = None \<or> json_get params ''changes'' = None"
      using assms(2,3) by (auto simp: required_parameters_def)
    then have "\<exists>e. parse_patch params = Inl e"
      by (cases "require_string params ''key''"; cases "as_object params")
        (auto simp: parse_patch_def with_context_def ensure_def checked_def require_string_def)
    then show ?thesis using 3 code by (auto simp: dispatch_def submit_def)
  next
    case 4
    then have "p = ''key''" using assms(2) by (simp add: required_parameters_def)
    then show ?thesis using 4 code assms(3) required_string_missing [of params "''key''"]
      by (auto simp: dispatch_def parse_backend_request_def)
  qed
qed

lemma required_parameters_enforced_witness:
  "\<exists>e. dispatch demo_ops ''bluetooth.adapter.update'' (JObject [(''key'', JString ''a'')]) 0 = (0, Failed e)
    \<and> ee_code e = ''validation-error''"
  by (rule required_parameters_enforced [where p = "''changes''"]) (simp_all add: required_parameters_def)

end
