(* ===== verification/Pairing.thy ===== *)
theory Pairing
  imports Backend "HOL-Library.List_Lexorder" "HOL-Library.Char_ord"
begin

text \<open>
  \<open>src/pairing.rs\<close>: the broker between BlueZ's pairing agent and the frontends. A prompt stays pending
  until it is answered, cancelled by BlueZ, timed out, or cancelled with every other; displays are
  shown until BlueZ withdraws them.

  The identity registry's answer, a device key, is an argument. The callback that BlueZ waits on is
  the receiver of a oneshot channel: \<open>rq_alive\<close> says that it was not dropped yet, and what was sent to
  it is kept in \<open>br_answers\<close>. The callback's guard runs after the receiver is dropped.
\<close>

subsection \<open>Events and responses\<close>

definition PROMPT_TIMEOUT_MS :: u64 where "PROMPT_TIMEOUT_MS = 60000"

record pairing_event =
  pe_event :: string
  pe_request_id :: string
  pe_kind :: string
  pe_device_key :: string
  pe_response_required :: bool
  pe_value :: "string option"
  pe_entered :: "u16 option"
  pe_service :: "string option"
  pe_reason :: "string option"
  pe_timeout_ms :: u64

definition event_cancelled :: "string \<Rightarrow> pairing_event \<Rightarrow> pairing_event" where
  "event_cancelled reason ev =
     ev\<lparr>pe_event := ''cancelled'', pe_response_required := False, pe_value := None, pe_service := None,
        pe_reason := Some reason, pe_timeout_ms := 0\<rparr>"

datatype pending_response = Pin | Passkey | Confirm

datatype answer = PinAnswer string | PasskeyAnswer nat | Confirmed | Rejected | Canceled

datatype pairing_error = BadParameter param_error | NotPending | BadPin | BadPasskey | RequestCancelled

definition given_value :: "json \<Rightarrow> string" where
  "given_value params = (case json_get params ''value'' of Some (JString v) \<Rightarrow> v | _ \<Rightarrow> [])"

definition pin_value :: "json \<Rightarrow> pairing_error + string" where
  "pin_value params =
     (let v = given_value params in if v = [] \<or> 16 < length v then Inl BadPin else Inr v)"

definition passkey_value :: "json \<Rightarrow> pairing_error + nat" where
  "passkey_value params =
     (let v = given_value params in
      if v = [] \<or> 6 < length v \<or> \<not> list_all is_digit v then Inl BadPasskey else Inr (undecimal 0 v))"

text \<open>\<open>validate\<close> and the value \<open>accept\<close> sends.\<close>

fun response_value :: "pending_response \<Rightarrow> json \<Rightarrow> pairing_error + answer" where
  "response_value Pin params = res_bind (pin_value params) (\<lambda>v. Inr (PinAnswer v))"
| "response_value Passkey params = res_bind (passkey_value params) (\<lambda>v. Inr (PasskeyAnswer v))"
| "response_value Confirm params = Inr Confirmed"

subsection \<open>The broker\<close>

record pending_request =
  rq_response :: pending_response
  rq_alive :: bool
  rq_event :: pairing_event

record broker =
  br_sequence :: u64
  br_pending :: "(string, pending_request) hmap"
  br_displays :: "(string, pairing_event) hmap"
  br_events :: "pairing_event list"
  br_answers :: "(string \<times> answer) list"

definition broker_new :: broker where
  "broker_new = \<lparr>br_sequence = 1, br_pending = [], br_displays = [], br_events = [], br_answers = []\<rparr>"

definition emit :: "pairing_event \<Rightarrow> broker \<Rightarrow> broker" where
  "emit ev b = b\<lparr>br_events := br_events b @ [ev]\<rparr>"

text \<open>Sending into the oneshot channel; nobody sees what is sent to a dropped receiver.\<close>

definition send_answer :: "string \<Rightarrow> pending_request \<Rightarrow> answer \<Rightarrow> broker \<Rightarrow> broker" where
  "send_answer ident r a b = (if rq_alive r then b\<lparr>br_answers := br_answers b @ [(ident, a)]\<rparr> else b)"

definition pending_events :: "broker \<Rightarrow> pairing_event list" where
  "pending_events b =
     sort_key pe_request_id (map (rq_event \<circ> snd) (br_pending b) @ map snd (br_displays b))"

fun finish_all :: "string \<Rightarrow> (string, pending_request) hmap \<Rightarrow> broker \<Rightarrow> broker" where
  "finish_all reason [] b = b"
| "finish_all reason ((ident, r) # rs) b =
     finish_all reason rs (emit (event_cancelled reason (rq_event r)) (send_answer ident r Canceled b))"

definition cancel_all :: "string \<Rightarrow> broker \<Rightarrow> broker" where
  "cancel_all reason b =
     foldl (\<lambda>b (_, d). emit (event_cancelled reason d) b)
       (finish_all reason (br_pending b) (b\<lparr>br_pending := [], br_displays := []\<rparr>)) (br_displays b)"

definition respond :: "json \<Rightarrow> broker \<Rightarrow> broker \<times> (pairing_error + bool)" where
  "respond params b =
     (case require_string params ''request_id'' of
        Inl e \<Rightarrow> (b, Inl (BadParameter e))
      | Inr request_id \<Rightarrow>
          (case require_bool params ''accept'' of
             Inl e \<Rightarrow> (b, Inl (BadParameter e))
           | Inr accept \<Rightarrow>
               (case hm_get (br_pending b) request_id of
                  None \<Rightarrow> (b, Inl NotPending)
                | Some r \<Rightarrow>
                    (let removed = b\<lparr>br_pending := hm_remove request_id (br_pending b)\<rparr>;
                         answered = (event_cancelled (if accept then ''accepted'' else ''rejected'') (rq_event r))
                           \<lparr>pe_event := ''answered''\<rparr>
                     in if accept then
                          (case response_value (rq_response r) params of
                             Inl e \<Rightarrow> (b, Inl e)
                           | Inr a \<Rightarrow>
                               if rq_alive r then (emit answered (send_answer request_id r a removed), Inr True)
                               else (removed, Inl RequestCancelled))
                        else (emit answered (send_answer request_id r Rejected removed), Inr False)))))"

definition request_id :: "u64 \<Rightarrow> string" where
  "request_id n = ''pairing-'' @ decimal (unat n)"

definition display_id :: "u64 \<Rightarrow> string" where
  "display_id n = ''pairing-display-'' @ decimal (unat n)"

definition insert_request ::
    "string \<Rightarrow> string \<Rightarrow> pending_response \<Rightarrow> string option \<Rightarrow> string option \<Rightarrow> broker \<Rightarrow> broker \<times> string" where
  "insert_request kind device_key response v service b =
     (let ident = request_id (br_sequence b);
          ev = \<lparr>pe_event = ''requested'', pe_request_id = ident, pe_kind = kind, pe_device_key = device_key,
                pe_response_required = True, pe_value = v, pe_entered = None, pe_service = service,
                pe_reason = None, pe_timeout_ms = PROMPT_TIMEOUT_MS\<rparr>
      in (emit ev (b\<lparr>br_sequence := br_sequence b + 1,
            br_pending := hm_insert ident \<lparr>rq_response = response, rq_alive = True, rq_event = ev\<rparr> (br_pending b)\<rparr>),
          ident))"

definition cancel_pending :: "string \<Rightarrow> string \<Rightarrow> broker \<Rightarrow> broker" where
  "cancel_pending ident reason b =
     (case hm_get (br_pending b) ident of
        None \<Rightarrow> b
      | Some r \<Rightarrow> emit (event_cancelled reason (rq_event r))
          (send_answer ident r Canceled (b\<lparr>br_pending := hm_remove ident (br_pending b)\<rparr>)))"

text \<open>The callback's future is dropped: first its receiver, then \<open>RequestGuard\<close>.\<close>

definition drop_receiver :: "string \<Rightarrow> broker \<Rightarrow> broker" where
  "drop_receiver ident b =
     (case hm_get (br_pending b) ident of
        None \<Rightarrow> b
      | Some r \<Rightarrow> b\<lparr>br_pending := hm_insert ident (r\<lparr>rq_alive := False\<rparr>) (br_pending b)\<rparr>)"

definition drop_guard :: "string \<Rightarrow> broker \<Rightarrow> broker" where
  "drop_guard ident b = cancel_pending ident ''bluez-cancelled'' b"

definition timeout_request :: "string \<Rightarrow> broker \<Rightarrow> broker" where
  "timeout_request ident b = cancel_pending ident ''timeout'' b"

definition display :: "string \<Rightarrow> string \<Rightarrow> string \<Rightarrow> u16 option \<Rightarrow> broker \<Rightarrow> broker \<times> string" where
  "display kind device_key v entered b =
     (let ident = display_id (br_sequence b);
          ev = \<lparr>pe_event = ''display'', pe_request_id = ident, pe_kind = kind, pe_device_key = device_key,
                pe_response_required = False, pe_value = Some v, pe_entered = entered, pe_service = None,
                pe_reason = None, pe_timeout_ms = 0\<rparr>
      in (emit ev (b\<lparr>br_sequence := br_sequence b + 1,
            br_displays := hm_insert ident ev
              (hm_retain (\<lambda>_ old. pe_device_key old \<noteq> device_key \<or> pe_kind old \<noteq> kind) (br_displays b))\<rparr>),
          ident))"

definition display_cancelled :: "string \<Rightarrow> string \<Rightarrow> string \<Rightarrow> string \<Rightarrow> broker \<Rightarrow> broker" where
  "display_cancelled ident kind device_key reason b =
     emit \<lparr>pe_event = ''cancelled'', pe_request_id = ident, pe_kind = kind, pe_device_key = device_key,
           pe_response_required = False, pe_value = None, pe_entered = None, pe_service = None,
           pe_reason = Some reason, pe_timeout_ms = 0\<rparr>
       (b\<lparr>br_displays := hm_remove ident (br_displays b)\<rparr>)"

subsection \<open>The agent's callbacks\<close>

datatype agent_request =
    RequestPinCode | RequestPasskey | RequestConfirmation nat | RequestAuthorization
  | AuthorizeService string | DisplayPinCode string | DisplayPasskey nat u16

text \<open>\<open>format!("{:06}", passkey)\<close>\<close>

definition six_digits :: "nat \<Rightarrow> string" where
  "six_digits n = replicate (6 - length (decimal n)) (CHR ''0'') @ decimal n"

fun agent_callback :: "agent_request \<Rightarrow> string \<Rightarrow> broker \<Rightarrow> broker \<times> string" where
  "agent_callback RequestPinCode key b = insert_request ''pin-code'' key Pin None None b"
| "agent_callback RequestPasskey key b = insert_request ''passkey'' key Passkey None None b"
| "agent_callback (RequestConfirmation passkey) key b =
     insert_request ''confirmation'' key Confirm (Some (six_digits passkey)) None b"
| "agent_callback RequestAuthorization key b = insert_request ''authorization'' key Confirm None None b"
| "agent_callback (AuthorizeService service) key b =
     insert_request ''service-authorization'' key Confirm None (Some service) b"
| "agent_callback (DisplayPinCode pincode) key b = display ''display-pin'' key pincode None b"
| "agent_callback (DisplayPasskey passkey entered) key b =
     display ''display-passkey'' key (six_digits passkey) (Some entered) b"

datatype broker_event =
    AgentCall agent_request string
  | Respond json
  | DropReceiver string
  | DropGuard string
  | TimedOut string
  | CancelAll string
  | WithdrawDisplay u64 string string

fun broker_step :: "broker_event \<Rightarrow> broker \<Rightarrow> broker" where
  "broker_step (AgentCall req key) b = fst (agent_callback req key b)"
| "broker_step (Respond params) b = fst (respond params b)"
| "broker_step (DropReceiver ident) b = drop_receiver ident b"
| "broker_step (DropGuard ident) b = drop_guard ident b"
| "broker_step (TimedOut ident) b = timeout_request ident b"
| "broker_step (CancelAll reason) b = cancel_all reason b"
| "broker_step (WithdrawDisplay n kind key) b = display_cancelled (display_id n) kind key ''cancelled'' b"

subsection \<open>Identifiers\<close>

lemma request_id_inj: "request_id m = request_id n \<longleftrightarrow> m = n"
  by (simp add: request_id_def decimal_unat_inj)

lemma request_display_distinct: "request_id m \<noteq> display_id n"
proof
  assume "request_id m = display_id n"
  then have "decimal (unat m) = ''display-'' @ decimal (unat n)" by (simp add: request_id_def display_id_def)
  then have "is_digit (CHR ''d'')" using decimal_digits [of "unat m"] by simp
  then show False by (simp add: is_digit_def)
qed

subsection \<open>What a prompt's life leaves behind\<close>

definition is_terminal :: "pairing_event \<Rightarrow> bool" where
  "is_terminal ev \<longleftrightarrow> pe_event ev = ''cancelled'' \<or> pe_event ev = ''answered''"

definition requests :: "broker \<Rightarrow> string \<Rightarrow> nat" where
  "requests b i = length (filter (\<lambda>ev. pe_request_id ev = i \<and> pe_event ev = ''requested'') (br_events b))"

definition terminals :: "broker \<Rightarrow> string \<Rightarrow> nat" where
  "terminals b i = length (filter (\<lambda>ev. pe_request_id ev = i \<and> is_terminal ev) (br_events b))"

definition answers :: "broker \<Rightarrow> string \<Rightarrow> nat" where
  "answers b i = length (filter (\<lambda>a. fst a = i) (br_answers b))"

definition tally :: "broker \<Rightarrow> string \<Rightarrow> nat \<times> nat \<times> nat" where
  "tally b i = (requests b i, terminals b i, answers b i)"

lemma tally_emit [simp]:
  "tally (emit ev b) i = (let (q, t, a) = tally b i in
     (q + (if pe_request_id ev = i \<and> pe_event ev = ''requested'' then 1 else 0),
      t + (if pe_request_id ev = i \<and> is_terminal ev then 1 else 0), a))"
  by (simp add: tally_def requests_def terminals_def answers_def emit_def)

lemma tally_send [simp]:
  "tally (send_answer j r x b) i = (let (q, t, a) = tally b i in (q, t, a + (if j = i \<and> rq_alive r then 1 else 0)))"
  by (simp add: tally_def requests_def terminals_def answers_def send_answer_def)

lemma tally_other [simp]:
  "tally (b\<lparr>br_pending := x\<rparr>) i = tally b i" "tally (b\<lparr>br_displays := y\<rparr>) i = tally b i"
  "tally (b\<lparr>br_sequence := n\<rparr>) i = tally b i"
  by (simp_all add: tally_def requests_def terminals_def answers_def)

lemma cancelled_simps [simp]:
  "pe_request_id (event_cancelled reason ev) = pe_request_id ev" "pe_event (event_cancelled reason ev) = ''cancelled''"
  "pe_value (event_cancelled reason ev) = None" "pe_service (event_cancelled reason ev) = None"
  "\<not> pe_response_required (event_cancelled reason ev)" "is_terminal (event_cancelled reason ev)"
  by (simp_all add: event_cancelled_def is_terminal_def)

lemma broker_fields [simp]:
  "br_pending (emit ev b) = br_pending b" "br_displays (emit ev b) = br_displays b" "br_sequence (emit ev b) = br_sequence b"
  "br_answers (emit ev b) = br_answers b" "br_events (emit ev b) = br_events b @ [ev]"
  "br_pending (send_answer j r x b) = br_pending b" "br_displays (send_answer j r x b) = br_displays b"
  "br_sequence (send_answer j r x b) = br_sequence b" "br_events (send_answer j r x b) = br_events b"
  by (simp_all add: emit_def send_answer_def)

definition own_event :: "string \<Rightarrow> pending_request \<Rightarrow> bool" where
  "own_event i r \<longleftrightarrow> pe_request_id (rq_event r) = i"

text \<open>How a request that leaves the table changes its tally.\<close>

definition closed :: "pending_request \<Rightarrow> nat \<times> nat \<times> nat \<Rightarrow> nat \<times> nat \<times> nat" where
  "closed r = (\<lambda>(q, t, a). (q, t + 1, a + (if rq_alive r then 1 else 0)))"

lemma finish_all_tally:
  assumes "hm_ok rs" and "\<forall>(i, r) \<in> set rs. own_event i r"
  shows "tally (finish_all reason rs b) i = (case hm_get rs i of None \<Rightarrow> tally b i | Some r \<Rightarrow> closed r (tally b i))"
    and "br_pending (finish_all reason rs b) = br_pending b" and "br_displays (finish_all reason rs b) = br_displays b"
    and "br_sequence (finish_all reason rs b) = br_sequence b"
  using assms
proof (induction reason rs b rule: finish_all.induct)
  case (2 reason ident r rs b)
  { case 1
    have "i = ident \<Longrightarrow> hm_get rs i = None" using 1(1) by (auto simp: hm_ok_def hm_get_None_notin)
    then show ?case
      using 2(1) 1 by (auto simp: hm_ok_def hm_get_def own_event_def closed_def is_terminal_def Let_def split: option.splits prod.splits)
  }
qed (simp_all add: hm_get_def hm_ok_def)

lemma displays_fold:
  assumes "\<forall>d \<in> snd ` set ds. \<exists>m. pe_request_id d = display_id m"
  shows "tally (foldl (\<lambda>b (_, d). emit (event_cancelled reason d) b) b ds) (request_id n) = tally b (request_id n)"
  using assms
proof (induction ds arbitrary: b)
  case (Cons kd ds)
  obtain k d where kd: "kd = (k, d)" by (cases kd)
  obtain m where "pe_request_id d = display_id m" using Cons.prems kd by auto
  then have "pe_request_id d \<noteq> request_id n" using request_display_distinct by metis
  then show ?case using Cons.IH Cons.prems kd by (simp add: Let_def split: prod.split)
qed simp

lemma displays_fold_fields:
  "br_pending (foldl (\<lambda>b (_, d). emit (event_cancelled reason d) b) b ds) = br_pending b"
  "br_displays (foldl (\<lambda>b (_, d). emit (event_cancelled reason d) b) b ds) = br_displays b"
  "br_sequence (foldl (\<lambda>b (_, d). emit (event_cancelled reason d) b) b ds) = br_sequence b"
  by (induction ds arbitrary: b) (simp_all add: case_prod_beta)

definition ok_tally :: "broker \<Rightarrow> u64 \<Rightarrow> bool" where
  "ok_tally b n \<longleftrightarrow>
     (if hm_get (br_pending b) (request_id n) \<noteq> None then tally b (request_id n) = (1, 0, 0)
      else tally b (request_id n) \<in> {(0, 0, 0), (1, 1, 1), (1, 1, 0), (1, 0, 0)})"

definition broker_inv :: "broker \<Rightarrow> bool" where
  "broker_inv b \<longleftrightarrow> hm_ok (br_pending b)
     \<and> (\<forall>i r. hm_get (br_pending b) i = Some r \<longrightarrow> own_event i r \<and> (\<exists>m. i = request_id m))
     \<and> (\<forall>d \<in> snd ` set (br_displays b). \<exists>m. pe_request_id d = display_id m)
     \<and> (\<forall>n. ok_tally b n)
     \<and> (\<forall>n. unat (br_sequence b) \<le> unat n \<longrightarrow>
          hm_get (br_pending b) (request_id n) = None \<and> tally b (request_id n) = (0, 0, 0))"

lemma broker_invD:
  assumes "broker_inv b"
  shows "hm_ok (br_pending b)" and "hm_get (br_pending b) i = Some r \<Longrightarrow> own_event i r \<and> (\<exists>m. i = request_id m)"
    and "\<forall>d \<in> snd ` set (br_displays b). \<exists>m. pe_request_id d = display_id m" and "ok_tally b n"
    and "unat (br_sequence b) \<le> unat n \<Longrightarrow> hm_get (br_pending b) (request_id n) = None \<and> tally b (request_id n) = (0, 0, 0)"
  using assms by (simp_all add: broker_inv_def)

lemma broker_invI:
  assumes "hm_ok (br_pending b)" and "\<And>i r. hm_get (br_pending b) i = Some r \<Longrightarrow> own_event i r \<and> (\<exists>m. i = request_id m)"
    and "\<And>k d. (k, d) \<in> set (br_displays b) \<Longrightarrow> \<exists>m. pe_request_id d = display_id m" and "\<And>n. ok_tally b n"
    and "\<And>n. unat (br_sequence b) \<le> unat n \<Longrightarrow> hm_get (br_pending b) (request_id n) = None \<and> tally b (request_id n) = (0, 0, 0)"
  shows "broker_inv b"
  unfolding broker_inv_def using assms(1,2,4,5) by (auto dest: assms(3))

text \<open>Steps that leave requests and their traces as they are.\<close>

lemma broker_inv_quiet:
  assumes "broker_inv b" and "\<And>n. tally b' (request_id n) = tally b (request_id n)"
    and "hm_ok (br_pending b')" and "\<And>i. hm_get (br_pending b') i = None \<longleftrightarrow> hm_get (br_pending b) i = None"
    and "\<And>i r. hm_get (br_pending b') i = Some r \<Longrightarrow> own_event i r"
    and "\<And>k d. (k, d) \<in> set (br_displays b') \<Longrightarrow> \<exists>m. pe_request_id d = display_id m"
    and "unat (br_sequence b) \<le> unat (br_sequence b')"
  shows "broker_inv b'"
proof (rule broker_invI)
  show "own_event i r \<and> (\<exists>m. i = request_id m)" if get: "hm_get (br_pending b') i = Some r" for i r
  proof -
    obtain r0 where "hm_get (br_pending b) i = Some r0" using assms(4) [of i] get by (cases "hm_get (br_pending b) i") auto
    then show ?thesis using broker_invD(2) [OF assms(1)] assms(5) [OF get] by blast
  qed
  show "ok_tally b' n" for n
    using broker_invD(4) [OF assms(1), of n] unfolding ok_tally_def assms(2,4) .
  show "hm_get (br_pending b') (request_id n) = None \<and> tally b' (request_id n) = (0, 0, 0)"
    if "unat (br_sequence b') \<le> unat n" for n
    using broker_invD(5) [OF assms(1), of n] that assms(2,4,7) by simp
qed (use assms(3,6) in blast)+

lemma broker_inv_new: "broker_inv broker_new"
  by (simp add: broker_inv_def broker_new_def ok_tally_def tally_def requests_def terminals_def answers_def)

text \<open>A pending request that is closed: answered, or cancelled, with or without a living receiver.\<close>

lemma ok_tally_closed:
  assumes "broker_inv b" and "hm_get (br_pending b) (request_id m) = Some r"
    and "tally b' (request_id m) = closed r (tally b (request_id m)) \<or> tally b' (request_id m) = tally b (request_id m)"
    and "\<And>n. n \<noteq> m \<Longrightarrow> tally b' (request_id n) = tally b (request_id n)"
    and "br_pending b' = hm_remove (request_id m) (br_pending b)" and "br_displays b' = br_displays b"
    and "br_sequence b' = br_sequence b"
  shows "broker_inv b'"
proof -
  have "\<not> unat (br_sequence b) \<le> unat m" using broker_invD(5) [OF assms(1), of m] assms(2) by auto
  then have unissued: "unat (br_sequence b) \<le> unat n \<Longrightarrow> n \<noteq> m" for n by blast
  have "ok_tally b' n" for n
  proof (cases "n = m")
    case True
    have "tally b (request_id m) = (1, 0, 0)" using broker_invD(4) [OF assms(1), of m] assms(2) by (simp add: ok_tally_def)
    then show ?thesis using True assms(3,5) by (auto simp: ok_tally_def closed_def)
  next
    case False
    then show ?thesis
      using broker_invD(4) [OF assms(1), of n] assms(4,5) by (auto simp: ok_tally_def request_id_inj split: if_splits)
  qed
  then show ?thesis
    using assms unissued broker_invD [OF assms(1)] by (auto simp: broker_inv_def request_id_inj)
qed

lemma cancel_pending_inv:
  assumes "broker_inv b"
  shows "broker_inv (cancel_pending ident reason b)"
proof (cases "hm_get (br_pending b) ident")
  case None
  then show ?thesis using assms by (simp add: cancel_pending_def)
next
  case (Some r)
  then obtain m where m: "ident = request_id m" and own: "own_event ident r" using broker_invD(2) [OF assms] by blast
  show ?thesis
    by (rule ok_tally_closed [OF assms, of m r])
       (use Some m own in \<open>auto simp: cancel_pending_def own_event_def closed_def request_id_inj Let_def split: prod.splits\<close>)
qed

lemma respond_inv:
  assumes "broker_inv b"
  shows "broker_inv (fst (respond params b))"
proof (cases "fst (respond params b) = b")
  case changed: False
  then obtain ident accept r where r: "require_string params ''request_id'' = Inr ident"
      "require_bool params ''accept'' = Inr accept" "hm_get (br_pending b) ident = Some r"
    by (auto simp: respond_def split: sum.splits option.splits)
  then obtain m where m: "ident = request_id m" and own: "own_event ident r" using broker_invD(2) [OF assms] by blast
  show ?thesis
    by (rule ok_tally_closed [OF assms, of m r])
       (use changed r m own in \<open>auto simp: respond_def own_event_def closed_def request_id_inj is_terminal_def Let_def
          split: prod.splits sum.splits if_splits\<close>)
qed (use assms in simp)

lemma drop_receiver_simps [simp]:
  "br_displays (drop_receiver ident b) = br_displays b" "br_sequence (drop_receiver ident b) = br_sequence b"
  "tally (drop_receiver ident b) i = tally b i"
  "hm_get (br_pending (drop_receiver ident b)) i = None \<longleftrightarrow> hm_get (br_pending b) i = None"
  "hm_ok (br_pending b) \<Longrightarrow> hm_ok (br_pending (drop_receiver ident b))"
  by (auto simp: drop_receiver_def split: option.split)

lemma drop_receiver_inv:
  assumes "broker_inv b"
  shows "broker_inv (drop_receiver ident b)"
proof (rule broker_inv_quiet [OF assms])
  show "own_event i r" if "hm_get (br_pending (drop_receiver ident b)) i = Some r" for i r
    using that broker_invD(2) [OF assms] by (auto simp: drop_receiver_def own_event_def split: option.splits if_splits)
qed (use broker_invD(1,3) [OF assms] in force)+

lemma next_sequence: "unat (br_sequence b) + 1 < 2 ^ 64 \<Longrightarrow> unat (br_sequence b + 1) = Suc (unat (br_sequence b))"
  by (rule unat_inc_below) simp

lemma insert_request_inv:
  assumes "broker_inv b" and "unat (br_sequence b) + 1 < 2 ^ 64"
  shows "broker_inv (fst (insert_request kind key response v service b))"
proof -
  let ?b = "fst (insert_request kind key response v service b)" and ?i = "request_id (br_sequence b)"
  note inv = broker_invD [OF assms(1)]
  have fresh: "hm_get (br_pending b) ?i = None" "tally b ?i = (0, 0, 0)" using inv(5) by simp_all
  have fields: "br_sequence ?b = br_sequence b + 1" "br_displays ?b = br_displays b"
    "hm_get (br_pending ?b) j = (if j = ?i then Some \<lparr>rq_response = response, rq_alive = True, rq_event =
        \<lparr>pe_event = ''requested'', pe_request_id = ?i, pe_kind = kind, pe_device_key = key,
         pe_response_required = True, pe_value = v, pe_entered = None, pe_service = service,
         pe_reason = None, pe_timeout_ms = PROMPT_TIMEOUT_MS\<rparr>\<rparr> else hm_get (br_pending b) j)"
    "hm_ok (br_pending ?b)" for j
    using inv(1) by (simp_all add: insert_request_def Let_def)
  have tally: "tally ?b j = (if j = ?i then (1, 0, 0) else tally b j)" for j
    using fresh by (auto simp: insert_request_def is_terminal_def Let_def split: prod.splits)
  have "ok_tally ?b n" for n
    using inv(4) [of n] fields(3) [of "request_id n"] tally [of "request_id n"] by (auto simp: ok_tally_def split: if_splits)
  moreover have "hm_get (br_pending ?b) (request_id n) = None \<and> tally ?b (request_id n) = (0, 0, 0)"
    if "unat (br_sequence ?b) \<le> unat n" for n
    using that inv(5) [of n] next_sequence [OF assms(2)] fields tally by (auto simp: request_id_inj)
  moreover have "own_event i r \<and> (\<exists>m. i = request_id m)" if "hm_get (br_pending ?b) i = Some r" for i r
    using that fields(3) inv(2) by (auto simp: own_event_def split: if_splits)
  moreover have "\<exists>m. pe_request_id d = display_id m" if "(k, d) \<in> set (br_displays ?b)" for k d
    using that inv(3) fields(2) by force
  ultimately show ?thesis using fields(4) by (intro broker_invI) blast+
qed

lemma display_inv:
  assumes "broker_inv b" and "unat (br_sequence b) + 1 < 2 ^ 64"
  shows "broker_inv (fst (display kind key v entered b))"
proof -
  let ?b = "fst (display kind key v entered b)"
  have shown: "\<exists>m. pe_request_id d = display_id m" if "(k, d) \<in> set (br_displays ?b)" for k d
    using that broker_invD(3) [OF assms(1)]
    by (auto simp: display_def Let_def dest!: subsetD [OF hm_insert_set] subsetD [OF hm_retain_set] bspec)
  show ?thesis
  proof (rule broker_inv_quiet [OF assms(1)])
    show "tally ?b (request_id n) = tally b (request_id n)" for n
      using request_display_distinct [of n "br_sequence b"] by (auto simp: display_def Let_def split: prod.splits)
    show "unat (br_sequence b) \<le> unat (br_sequence ?b)"
      using next_sequence [OF assms(2)] by (simp add: display_def Let_def)
  qed (use shown broker_invD(1,2) [OF assms(1)] in \<open>auto simp: display_def Let_def\<close>)
qed

lemma display_cancelled_inv:
  assumes "broker_inv b"
  shows "broker_inv (display_cancelled (display_id m) kind key reason b)"
proof (rule broker_inv_quiet [OF assms])
  let ?b = "display_cancelled (display_id m) kind key reason b"
  show "tally ?b (request_id n) = tally b (request_id n)" for n
    using request_display_distinct [of n m] by (auto simp: display_cancelled_def Let_def split: prod.splits)
  show "\<exists>m. pe_request_id d = display_id m" if "(k, d) \<in> set (br_displays ?b)" for k d
    using that broker_invD(3) [OF assms] by (force simp: display_cancelled_def dest!: subsetD [OF hm_remove_set])
qed (use broker_invD(1,2) [OF assms] in \<open>auto simp: display_cancelled_def\<close>)

lemma cancel_all_inv:
  assumes "broker_inv b"
  shows "broker_inv (cancel_all reason b)" and "br_pending (cancel_all reason b) = []"
proof -
  note inv = broker_invD [OF assms]
  have own: "\<forall>(i, r) \<in> set (br_pending b). own_event i r" using inv(1,2) by (auto simp: hm_in_set)
  have fields: "br_pending (cancel_all reason b) = []" "br_displays (cancel_all reason b) = []"
      "br_sequence (cancel_all reason b) = br_sequence b"
    using finish_all_tally [OF inv(1) own] by (simp_all add: cancel_all_def displays_fold_fields)
  have tally: "tally (cancel_all reason b) (request_id n) = (case hm_get (br_pending b) (request_id n) of
      None \<Rightarrow> tally b (request_id n) | Some r \<Rightarrow> closed r (tally b (request_id n)))" for n
    using finish_all_tally(1) [OF inv(1) own] displays_fold [OF inv(3)] by (simp add: cancel_all_def split: option.split)
  have "ok_tally (cancel_all reason b) n" for n
    using inv(4) [of n] tally [of n] fields(1) by (auto simp: ok_tally_def closed_def split: option.splits if_splits)
  then show "broker_inv (cancel_all reason b)"
    using fields tally inv(5) by (intro broker_invI) auto
  show "br_pending (cancel_all reason b) = []" by (rule fields(1))
qed

subsection \<open>Runs\<close>

definition broker_run :: "broker_event list \<Rightarrow> broker" where
  "broker_run es = fold broker_step es broker_new"

lemma broker_run_snoc: "broker_run (es @ [e]) = broker_step e (broker_run es)"
  by (simp add: broker_run_def)

lemma sequence_step:
  "br_sequence (broker_step e b) = br_sequence b \<or> br_sequence (broker_step e b) = br_sequence b + 1"
proof (cases e)
  case (AgentCall req key)
  then show ?thesis by (cases req) (simp_all add: insert_request_def display_def Let_def)
next
  case (Respond params)
  then show ?thesis by (auto simp: respond_def Let_def split: sum.split option.split)
next
  case (CancelAll reason)
  have "br_sequence (finish_all reason rs b) = br_sequence b" for rs b
    by (induction reason rs b rule: finish_all.induct) simp_all
  then show ?thesis using CancelAll by (simp add: cancel_all_def displays_fold_fields)
qed (auto simp: drop_guard_def timeout_request_def cancel_pending_def display_cancelled_def split: option.split)

lemma broker_step_inv:
  assumes "broker_inv b" and "unat (br_sequence b) + 1 < 2 ^ 64"
  shows "broker_inv (broker_step e b)"
proof (cases e)
  case (AgentCall req key)
  then show ?thesis using assms by (cases req) (simp_all add: insert_request_inv display_inv)
qed (simp_all add: assms respond_inv drop_receiver_inv cancel_pending_inv cancel_all_inv(1) display_cancelled_inv
       drop_guard_def timeout_request_def)

lemma broker_run_inv:
  "length es < 2 ^ 64 - 2 \<Longrightarrow> broker_inv (broker_run es) \<and> unat (br_sequence (broker_run es)) \<le> length es + 1"
proof (induction es rule: rev_induct)
  case Nil
  then show ?case using broker_inv_new by (simp add: broker_run_def) (simp add: broker_new_def)
next
  case (snoc e es)
  let ?b = "broker_run es"
  have inv: "broker_inv ?b" "unat (br_sequence ?b) \<le> length es + 1" using snoc by simp_all
  have room: "unat (br_sequence ?b) + 1 < 2 ^ 64" using inv(2) snoc.prems by simp
  have "unat (br_sequence (broker_step e ?b)) \<le> unat (br_sequence ?b) + 1"
    using sequence_step [of e ?b] next_sequence [OF room] by auto
  then show ?case using broker_step_inv [OF inv(1) room] inv(2) by (simp add: broker_run_snoc)
qed

subsection \<open>What leaves the broker\<close>

definition confirm_kinds :: "string list" where
  "confirm_kinds = [''confirmation'', ''authorization'', ''service-authorization'']"

fun fits :: "pending_response \<Rightarrow> string \<Rightarrow> bool" where
  "fits Pin kind = (kind = ''pin-code'')"
| "fits Passkey kind = (kind = ''passkey'')"
| "fits Confirm kind = (kind \<in> set confirm_kinds)"

fun answer_ok :: "answer \<Rightarrow> string \<Rightarrow> bool" where
  "answer_ok (PinAnswer v) kind = (kind = ''pin-code'' \<and> 1 \<le> length v \<and> length v \<le> 16)"
| "answer_ok (PasskeyAnswer n) kind = (kind = ''passkey'' \<and> n < 1000000)"
| "answer_ok Confirmed kind = (kind \<in> set confirm_kinds)"
| "answer_ok Rejected kind = True"
| "answer_ok Canceled kind = True"

definition prompted :: "broker \<Rightarrow> string \<Rightarrow> string \<Rightarrow> bool" where
  "prompted b i kind = (\<exists>ev \<in> set (br_events b). pe_request_id ev = i \<and> pe_event ev = ''requested'' \<and> pe_kind ev = kind)"

definition discreet :: "pairing_event \<Rightarrow> bool" where
  "discreet ev \<longleftrightarrow> (is_terminal ev \<longrightarrow> pe_value ev = None \<and> pe_service ev = None \<and> \<not> pe_response_required ev)"

definition asked :: "broker \<Rightarrow> string \<Rightarrow> pending_request \<Rightarrow> bool" where
  "asked b i r \<longleftrightarrow> prompted b i (pe_kind (rq_event r)) \<and> fits (rq_response r) (pe_kind (rq_event r))"

definition broker_clean :: "broker \<Rightarrow> bool" where
  "broker_clean b \<longleftrightarrow> (\<forall>ev \<in> set (br_events b). discreet ev) \<and> (\<forall>(i, r) \<in> set (br_pending b). asked b i r)
     \<and> (\<forall>(i, a) \<in> set (br_answers b). \<exists>kind. prompted b i kind \<and> answer_ok a kind)"

lemma prompted_emit: "prompted b i kind \<Longrightarrow> prompted (emit ev b) i kind"
  by (auto simp: prompted_def)

lemma prompted_fields [simp]:
  "prompted (send_answer j r a b) i kind = prompted b i kind" "prompted (b\<lparr>br_pending := x\<rparr>) i kind = prompted b i kind"
  "prompted (b\<lparr>br_displays := y\<rparr>) i kind = prompted b i kind" "prompted (b\<lparr>br_sequence := n\<rparr>) i kind = prompted b i kind"
  by (simp_all add: prompted_def)

lemma clean_emit:
  assumes "broker_clean b" and "discreet ev"
  shows "broker_clean (emit ev b)"
  using assms prompted_emit [of b] unfolding broker_clean_def asked_def by fastforce

lemma clean_cancelled: "broker_clean b \<Longrightarrow> broker_clean (emit (event_cancelled reason ev) b)"
  by (rule clean_emit) (auto simp: discreet_def)

lemma clean_send:
  assumes "broker_clean b" and "prompted b i kind" and "answer_ok a kind"
  shows "broker_clean (send_answer i r a b)"
proof (cases "rq_alive r")
  case True
  have "\<forall>(j, x) \<in> set (br_answers b @ [(i, a)]). \<exists>kind. prompted b j kind \<and> answer_ok x kind"
    using assms by (auto simp: broker_clean_def)
  then show ?thesis using True assms(1) by (simp add: broker_clean_def send_answer_def asked_def prompted_def)
qed (use assms in \<open>simp add: send_answer_def\<close>)

lemma clean_shrink:
  assumes "broker_clean b" and "set x \<subseteq> set (br_pending b)"
  shows "broker_clean (b\<lparr>br_pending := x\<rparr>)"
  using assms by (auto simp: broker_clean_def asked_def)

lemma clean_other [simp]:
  "broker_clean (b\<lparr>br_displays := y\<rparr>) = broker_clean b" "broker_clean (b\<lparr>br_sequence := n\<rparr>) = broker_clean b"
  by (simp_all add: broker_clean_def asked_def prompted_def)

lemma hm_get_in: "hm_get m k = Some v \<Longrightarrow> (k, v) \<in> set m"
  by (simp add: hm_get_def map_of_SomeD)

lemma clean_asked: "broker_clean b \<Longrightarrow> hm_get (br_pending b) i = Some r \<Longrightarrow> asked b i r"
  by (auto simp: broker_clean_def dest: hm_get_in)

lemma clean_cancel_pending:
  assumes "broker_clean b"
  shows "broker_clean (cancel_pending i reason b)"
proof (cases "hm_get (br_pending b) i")
  case (Some r)
  then have "prompted b i (pe_kind (rq_event r))" using clean_asked [OF assms] by (simp add: asked_def)
  then have "broker_clean (send_answer i r Canceled (b\<lparr>br_pending := hm_remove i (br_pending b)\<rparr>))"
    by (intro clean_send [where kind = "pe_kind (rq_event r)"] clean_shrink assms hm_remove_set) simp_all
  then show ?thesis using Some clean_cancelled by (simp add: cancel_pending_def)
qed (use assms in \<open>simp add: cancel_pending_def\<close>)

lemma response_value_ok:
  assumes "response_value resp params = Inr a" and "fits resp kind"
  shows "answer_ok a kind"
proof (cases resp)
  case Passkey
  then obtain v where v: "a = PasskeyAnswer (undecimal 0 v)" "length v \<le> 6" "list_all is_digit v"
    using assms(1) by (auto simp: passkey_value_def Let_def split: if_splits)
  have "(10::nat) ^ length v \<le> 10 ^ 6" using v(2) by (intro power_increasing) simp_all
  then show ?thesis using v undecimal_bound [OF v(3), of 0] assms(2) Passkey by simp
qed (use assms in \<open>auto simp: pin_value_def Let_def Suc_le_eq split: if_splits\<close>)

lemma clean_respond:
  assumes "broker_clean b"
  shows "broker_clean (fst (respond params b))"
proof (cases "fst (respond params b) = b")
  case changed: False
  then obtain i accept r where r: "require_string params ''request_id'' = Inr i"
      "require_bool params ''accept'' = Inr accept" "hm_get (br_pending b) i = Some r"
    by (auto simp: respond_def split: sum.splits option.splits)
  let ?kind = "pe_kind (rq_event r)" and ?b = "b\<lparr>br_pending := hm_remove i (br_pending b)\<rparr>"
    and ?ev = "(event_cancelled (if accept then ''accepted'' else ''rejected'') (rq_event r))\<lparr>pe_event := ''answered''\<rparr>"
  have asked: "prompted ?b i ?kind" "fits (rq_response r) ?kind"
    using clean_asked [OF assms r(3)] by (simp_all add: asked_def)
  have removed: "broker_clean ?b" by (intro clean_shrink assms hm_remove_set)
  have emitted: "broker_clean (emit ?ev (send_answer i r a ?b))" if "answer_ok a ?kind" for a
    by (intro clean_emit clean_send [where kind = ?kind] removed asked(1) that) (auto simp: discreet_def event_cancelled_def)
  show ?thesis
    using changed r removed emitted response_value_ok [OF _ asked(2)]
    by (cases accept) (auto simp: respond_def Let_def split: sum.split)
qed (use assms in simp)

lemma clean_finish_all:
  assumes "broker_clean b" and "\<forall>(i, r) \<in> set rs. prompted b i (pe_kind (rq_event r))"
  shows "broker_clean (finish_all reason rs b)"
  using assms
proof (induction reason rs b rule: finish_all.induct)
  case (2 reason i r rs b)
  let ?b = "emit (event_cancelled reason (rq_event r)) (send_answer i r Canceled b)"
  have "broker_clean ?b" using 2(2,3) by (auto intro!: clean_cancelled clean_send [where kind = "pe_kind (rq_event r)"])
  moreover have "\<forall>(j, q) \<in> set rs. prompted ?b j (pe_kind (rq_event q))" using 2(3) by (auto intro!: prompted_emit)
  ultimately show ?case using 2(1) by simp
qed simp

lemma clean_cancel_all:
  assumes "broker_clean b"
  shows "broker_clean (cancel_all reason b)"
proof -
  have fold: "broker_clean c \<Longrightarrow> broker_clean (foldl (\<lambda>b (_, d). emit (event_cancelled reason d) b) c ds)" for c ds
    by (induction ds arbitrary: c) (auto intro: clean_cancelled)
  have "broker_clean (b\<lparr>br_pending := [], br_displays := []\<rparr>)" using clean_shrink [OF assms, of "[]"] by simp
  moreover have "\<forall>(i, r) \<in> set (br_pending b). prompted b i (pe_kind (rq_event r))"
    using assms by (auto simp: broker_clean_def asked_def)
  ultimately show ?thesis unfolding cancel_all_def by (intro fold clean_finish_all) auto
qed

lemma clean_insert_request:
  assumes "broker_clean b" and "fits response kind"
  shows "broker_clean (fst (insert_request kind key response v service b))"
proof -
  let ?b = "fst (insert_request kind key response v service b)"
  let ?next = "b\<lparr>br_sequence := br_sequence b + 1\<rparr>"
  obtain ev where ev: "?b = emit ev (?next\<lparr>br_pending := hm_insert (request_id (br_sequence b))
        \<lparr>rq_response = response, rq_alive = True, rq_event = ev\<rparr> (br_pending b)\<rparr>)"
      "pe_event ev = ''requested''" "pe_request_id ev = request_id (br_sequence b)" "pe_kind ev = kind"
    by (simp add: insert_request_def Let_def)
  have events: "broker_clean (emit ev ?next)" using assms(1) ev(2) by (intro clean_emit) (simp_all add: discreet_def is_terminal_def)
  have "asked (emit ev ?next) i r" if "(i, r) \<in> set (br_pending ?b)" for i r
    using that assms(2) ev(2-4) events unfolding ev(1)
    by (auto simp: asked_def prompted_def broker_clean_def dest!: subsetD [OF hm_insert_set])
  then show ?thesis using events unfolding ev(1) by (auto simp: broker_clean_def asked_def prompted_def emit_def)
qed

lemma broker_step_clean:
  assumes "broker_clean b"
  shows "broker_clean (broker_step e b)"
proof (cases e)
  case (AgentCall req key)
  have "broker_clean (fst (display kind key v entered b))" for kind v entered
    unfolding display_def Let_def fst_conv
    by (intro clean_emit) (simp_all add: assms discreet_def is_terminal_def)
  then show ?thesis
    using assms AgentCall by (cases req) (simp_all add: clean_insert_request confirm_kinds_def)
next
  case (DropReceiver i)
  have "set (br_pending (drop_receiver i b)) \<subseteq> set (br_pending b) \<union> {(i, r\<lparr>rq_alive := False\<rparr>) |r. (i, r) \<in> set (br_pending b)}"
    by (auto simp: drop_receiver_def split: option.splits dest: subsetD [OF hm_insert_set] hm_get_in)
  moreover have "br_events (drop_receiver i b) = br_events b" "br_answers (drop_receiver i b) = br_answers b"
    by (simp_all add: drop_receiver_def split: option.split)
  ultimately show ?thesis
    using assms DropReceiver by (fastforce simp: broker_clean_def asked_def prompted_def)
next
  case (WithdrawDisplay n kind key)
  show ?thesis
    unfolding WithdrawDisplay broker_step.simps display_cancelled_def
    by (intro clean_emit) (simp_all add: assms discreet_def)
qed (simp_all add: assms clean_respond clean_cancel_pending clean_cancel_all drop_guard_def timeout_request_def)

lemma broker_run_clean: "broker_clean (broker_run es)"
proof (induction es rule: rev_induct)
  case Nil
  show ?case by (simp add: broker_run_def broker_clean_def broker_new_def)
qed (simp add: broker_run_snoc broker_step_clean)

subsection \<open>Passkeys\<close>

lemma decimal_length: "0 < k \<Longrightarrow> n < 10 ^ k \<Longrightarrow> length (decimal n) \<le> k"
proof (induction n arbitrary: k rule: decimal.induct)
  case (1 n)
  show ?case
  proof (cases "n < 10")
    case False
    then obtain j where j: "k = Suc j" "0 < j" using 1(2,3) by (cases k; cases "k - 1") auto
    then have "n div 10 < 10 ^ j" using 1(3) by (simp add: less_mult_imp_div_less)
    then show ?thesis using 1(1) [OF False j(2)] j(1) False by (simp add: decimal.simps [of n])
  qed (use 1(2) in \<open>simp add: decimal.simps [of n]\<close>)
qed

lemma undecimal_zeros: "undecimal 0 (replicate k (CHR ''0'') @ ds) = undecimal 0 ds"
  by (induction k) simp_all

lemma six_digits_facts:
  assumes "n < 1000000"
  shows "length (six_digits n) = 6" and "list_all is_digit (six_digits n)" and "undecimal 0 (six_digits n) = n"
proof -
  have "length (decimal n) \<le> 6" using decimal_length [of 6 n] assms by simp
  then show "length (six_digits n) = 6" by (simp add: six_digits_def)
  show "list_all is_digit (six_digits n)"
    using decimal_digits [of n] by (auto simp: six_digits_def is_digit_def list_all_iff)
  show "undecimal 0 (six_digits n) = n" by (simp add: six_digits_def undecimal_zeros)
qed

lemma passkey_value_six_digits:
  assumes "n < 1000000" and "json_get params ''value'' = Some (JString (six_digits n))"
  shows "passkey_value params = Inr n"
  using six_digits_facts [OF assms(1)] assms(2) by (auto simp: passkey_value_def given_value_def Let_def)

subsection \<open>Properties\<close>

text \<open>
  C7. Whatever BlueZ, the frontends, the deadlines and dropped callbacks do, and in whatever order, a
  pairing prompt is announced at most once, has at most one terminal event, and sends at most one answer to
  BlueZ, never without a terminal event. A prompt that is still pending was announced and has neither a
  terminal event nor an answer.
\<close>

theorem prompt_lifecycle:
  assumes "length es < 2 ^ 64 - 2"
  shows "requests (broker_run es) (request_id n) \<le> 1
    \<and> terminals (broker_run es) (request_id n) \<le> requests (broker_run es) (request_id n)
    \<and> answers (broker_run es) (request_id n) \<le> terminals (broker_run es) (request_id n)
    \<and> (hm_get (br_pending (broker_run es)) (request_id n) \<noteq> None \<longrightarrow>
      requests (broker_run es) (request_id n) = 1 \<and> terminals (broker_run es) (request_id n) = 0
        \<and> answers (broker_run es) (request_id n) = 0)"
  using broker_invD(4) [OF conjunct1 [OF broker_run_inv [OF assms]], of n]
  by (auto simp: ok_tally_def tally_def split: if_splits)

definition pin_answer :: "string \<Rightarrow> json" where
  "pin_answer v = JObject [(''request_id'', JString ''pairing-1''), (''accept'', JBool True), (''value'', JString v)]"

theorem prompt_lifecycle_witness:
  "terminals (broker_run [AgentCall RequestPinCode ''d'', Respond (pin_answer ''1234''), TimedOut ''pairing-1''])
     (request_id 1) = 1"
proof -
  let ?b = "broker_run [AgentCall RequestPinCode ''d'', Respond (pin_answer ''1234''), TimedOut ''pairing-1'']"
  have "1 \<le> terminals ?b (request_id 1)" by code_simp
  moreover have "terminals ?b (request_id 1) \<le> 1"
    using prompt_lifecycle [of "[AgentCall RequestPinCode ''d'', Respond (pin_answer ''1234''), TimedOut ''pairing-1'']" 1]
    by (simp add: le_trans)
  ultimately show ?thesis by simp
qed

text \<open>
  C37. Every terminal event hides the prompt's secret and service and asks for no response, and every
  answer BlueZ receives fits the prompt that was announced under its identifier: a PIN of one to sixteen
  characters only for a PIN prompt, a passkey below one million only for a passkey prompt, a plain consent
  only for a confirmation or an authorization.
\<close>

theorem pairing_output_fits_prompt:
  "(\<forall>ev \<in> set (br_events (broker_run es)). is_terminal ev \<longrightarrow>
      pe_value ev = None \<and> pe_service ev = None \<and> \<not> pe_response_required ev)
   \<and> (\<forall>(i, a) \<in> set (br_answers (broker_run es)). \<exists>kind. prompted (broker_run es) i kind \<and> answer_ok a kind)"
  using broker_run_clean [of es] by (auto simp: broker_clean_def discreet_def)

theorem pairing_output_fits_prompt_witness:
  "(''pairing-1'', PinAnswer ''1234'') \<in> set (br_answers (broker_run [AgentCall RequestPinCode ''d'', Respond (pin_answer ''1234'')]))
   \<and> (\<exists>kind. prompted (broker_run [AgentCall RequestPinCode ''d'', Respond (pin_answer ''1234'')]) ''pairing-1'' kind
        \<and> answer_ok (PinAnswer ''1234'') kind)"
proof -
  have "(''pairing-1'', PinAnswer ''1234'') \<in> set (br_answers (broker_run [AgentCall RequestPinCode ''d'', Respond (pin_answer ''1234'')]))"
    by code_simp
  then show ?thesis
    using conjunct2 [OF pairing_output_fits_prompt [of "[AgentCall RequestPinCode ''d'', Respond (pin_answer ''1234'')]"]] by fast
qed

text \<open>
  A passkey survives the trip through the frontend: the six digits that stand for a passkey, leading
  zeros included, answer a pending passkey prompt with that passkey; the prompt leaves the table, and
  every other one stays. While its callback waits, a value that is no passkey leaves the prompt pending.
\<close>

theorem respond_passkey:
  assumes "broker_inv b" and "hm_get (br_pending b) i = Some r" and "rq_response r = Passkey" and "rq_alive r"
    and "require_string params ''request_id'' = Inr i" and "require_bool params ''accept'' = Inr True"
  shows "n < 1000000 \<Longrightarrow> json_get params ''value'' = Some (JString (six_digits n)) \<Longrightarrow>
      snd (respond params b) = Inr True
      \<and> br_answers (fst (respond params b)) = br_answers b @ [(i, PasskeyAnswer n)]
      \<and> (\<forall>j. hm_get (br_pending (fst (respond params b))) j = (if j = i then None else hm_get (br_pending b) j))"
    and "passkey_value params = Inl e \<Longrightarrow> respond params b = (b, Inl e)"
proof -
  show "snd (respond params b) = Inr True
      \<and> br_answers (fst (respond params b)) = br_answers b @ [(i, PasskeyAnswer n)]
      \<and> (\<forall>j. hm_get (br_pending (fst (respond params b))) j = (if j = i then None else hm_get (br_pending b) j))"
    if "n < 1000000" and "json_get params ''value'' = Some (JString (six_digits n))"
    using passkey_value_six_digits [OF that] assms by (simp add: respond_def Let_def send_answer_def)
  show "respond params b = (b, Inl e)" if "passkey_value params = Inl e"
    using that assms by (simp add: respond_def Let_def)
qed

theorem respond_passkey_witness:
  "snd (respond (pin_answer (six_digits 42)) (broker_run [AgentCall RequestPasskey ''d''])) = Inr True
   \<and> br_answers (fst (respond (pin_answer (six_digits 42)) (broker_run [AgentCall RequestPasskey ''d''])))
      = [(''pairing-1'', PasskeyAnswer 42)]
   \<and> respond (pin_answer ''12a'') (broker_run [AgentCall RequestPasskey ''d''])
      = (broker_run [AgentCall RequestPasskey ''d''], Inl BadPasskey)"
proof -
  let ?b = "broker_run [AgentCall RequestPasskey ''d'']"
  let ?r = "the (hm_get (br_pending ?b) ''pairing-1'')"
  have b: "broker_inv ?b" using broker_run_inv [of "[AgentCall RequestPasskey ''d'']"] by simp
  have r: "hm_get (br_pending ?b) ''pairing-1'' = Some ?r" "rq_response ?r = Passkey" "rq_alive ?r" by code_simp+
  have p: "require_string (pin_answer v) ''request_id'' = Inr ''pairing-1''" "require_bool (pin_answer v) ''accept'' = Inr True"
      "json_get (pin_answer v) ''value'' = Some (JString v)" for v
    by (simp_all add: pin_answer_def require_string_def require_bool_def optional_string_def optional_bool_def)
  have "br_answers ?b = []" "passkey_value (pin_answer ''12a'') = Inl BadPasskey" by code_simp+
  then show ?thesis
    using respond_passkey(1) [OF b r p(1,2) _ p(3), of 42] respond_passkey(2) [OF b r p(1,2), of "''12a''" BadPasskey]
    by simp
qed

text \<open>
  Two runs that the broker leaves unbalanced: a prompt that is accepted between the end of its callback and
  the callback's guard gets no terminal event; a display cancelled with all others is cancelled again when
  BlueZ withdraws it.
\<close>

lemma accepted_after_drop_has_no_terminal_event:
  "(let b = broker_run [AgentCall RequestPinCode ''d'', DropReceiver ''pairing-1'', Respond (pin_answer ''1234''),
        DropGuard ''pairing-1'', TimedOut ''pairing-1'']
    in br_pending b = [] \<and> requests b ''pairing-1'' = 1 \<and> terminals b ''pairing-1'' = 0)"
  by code_simp

lemma display_cancelled_twice:
  "terminals (broker_run [AgentCall (DisplayPinCode ''0000'') ''d'', CancelAll ''lost'', WithdrawDisplay 1 ''display-pin'' ''d''])
     ''pairing-display-1'' = 2"
  by code_simp

end
