(* ===== verification/Obex.thy ===== *)
theory Obex
  imports Api
begin

text \<open>
  \<open>src/obex.rs\<close>: file transfers over OBEX. Names from remote devices and the reservation of a destination,
  what obexd reports about a transfer, and the loop that follows one transfer to its end.

  obexd is a sequence of inputs: answers to calls and signals. A D-Bus value is kept by its type; the file
  system is the list of names in the download directory and the error it answers for a name.
\<close>

subsection \<open>Values from obexd\<close>

datatype dbus_value = DStr string | DU64 u64 | DPath string | DOther

definition property_str :: "(string, dbus_value) hmap \<Rightarrow> string \<Rightarrow> string option" where
  "property_str vs k = (case hm_get vs k of Some (DStr v) \<Rightarrow> Some v | _ \<Rightarrow> None)"

definition property_u64 :: "(string, dbus_value) hmap \<Rightarrow> string \<Rightarrow> u64 option" where
  "property_u64 vs k = (case hm_get vs k of Some (DU64 v) \<Rightarrow> Some v | _ \<Rightarrow> None)"

definition property_path :: "(string, dbus_value) hmap \<Rightarrow> string \<Rightarrow> string option" where
  "property_path vs k = (case hm_get vs k of Some (DPath v) \<Rightarrow> Some v | _ \<Rightarrow> None)"

definition TRANSFER_INTERFACE :: string where "TRANSFER_INTERFACE = ''org.bluez.obex.Transfer1''"

subsection \<open>Events\<close>

record obex_event =
  oe_event :: string
  oe_request_id :: string
  oe_direction :: string
  oe_device_key :: string
  oe_device_name :: "string option"
  oe_file_name :: string
  oe_media_type :: "string option"
  oe_status :: string
  oe_transferred :: u64
  oe_size :: u64
  oe_timeout_ms :: "u64 option"
  oe_error :: "envelope_error option"

record transfer_update =
  tu_status :: string
  tu_transferred :: u64
  tu_size :: u64

definition outgoing_event :: "string \<Rightarrow> string \<Rightarrow> string \<Rightarrow> u64 \<Rightarrow> obex_event" where
  "outgoing_event request_id device_key file_name amount =
     \<lparr>oe_event = ''queued'', oe_request_id = request_id, oe_direction = ''outgoing'', oe_device_key = device_key,
      oe_device_name = None, oe_file_name = file_name, oe_media_type = None, oe_status = ''queued'',
      oe_transferred = 0, oe_size = amount, oe_timeout_ms = None, oe_error = None\<rparr>"

definition lifecycle_event :: "string \<Rightarrow> string" where
  "lifecycle_event status =
     (if status = ''complete'' then ''completed'' else if status = ''cancelled'' then ''cancelled''
      else if status = ''error'' then ''failed'' else if status = ''queued'' then ''queued'' else ''progress'')"

definition updated :: "transfer_update \<Rightarrow> obex_event \<Rightarrow> obex_event" where
  "updated u ev = ev\<lparr>oe_event := lifecycle_event (tu_status u), oe_status := tu_status u,
     oe_transferred := tu_transferred u, oe_size := tu_size u\<rparr>"

definition event_failed :: "envelope_error \<Rightarrow> obex_event \<Rightarrow> obex_event" where
  "event_failed e ev = ev\<lparr>oe_event := ''failed'', oe_status := ''error'', oe_error := Some e\<rparr>"

definition apply_values :: "string option \<Rightarrow> u64 option \<Rightarrow> u64 option \<Rightarrow> transfer_update \<Rightarrow> transfer_update" where
  "apply_values status transferred amount u =
     \<lparr>tu_status = (case status of None \<Rightarrow> tu_status u | Some s \<Rightarrow> s),
      tu_transferred = (case transferred of None \<Rightarrow> tu_transferred u | Some n \<Rightarrow> n),
      tu_size = (case amount of None \<Rightarrow> tu_size u | Some n \<Rightarrow> n)\<rparr>"

definition apply_properties :: "(string, dbus_value) hmap \<Rightarrow> transfer_update \<Rightarrow> transfer_update" where
  "apply_properties vs =
     apply_values (property_str vs ''Status'') (property_u64 vs ''Transferred'') (property_u64 vs ''Size'')"

definition apply_changed :: "(string, dbus_value) hmap \<Rightarrow> transfer_update \<Rightarrow> transfer_update" where
  "apply_changed vs = apply_values (property_str vs ''Status'') (property_u64 vs ''Transferred'') None"

definition transfer_terminal :: "transfer_update \<Rightarrow> bool" where
  "transfer_terminal u \<longleftrightarrow> tu_status u \<in> {''complete'', ''error'', ''cancelled''}"

subsection \<open>Following a transfer\<close>

datatype monitor_input =
    CancelRequested "failure + unit"  \<comment> \<open>with obexd's answer to \<open>Cancel\<close>\<close>
  | PropertiesChanged string "(string, dbus_value) hmap"
  | MalformedSignal failure
  | StreamEnded

text \<open>The loop: the published updates, and how it ended, or \<open>None\<close> while it waits for more.\<close>

fun monitor_loop ::
    "transfer_update \<Rightarrow> monitor_input list \<Rightarrow> transfer_update list \<times> (failure + transfer_update) option" where
  "monitor_loop u [] = ([], if transfer_terminal u then Some (Inr u) else None)"
| "monitor_loop u (i # ins) =
     (if transfer_terminal u then ([], Some (Inr u))
      else case i of
        CancelRequested (Inl e) \<Rightarrow> ([], Some (Inl (Context ''cancel OBEX transfer'' # e)))
      | CancelRequested (Inr _) \<Rightarrow>
          (let u' = u\<lparr>tu_status := ''cancelled''\<rparr>; (us, r) = monitor_loop u' ins in (u' # us, r))
      | StreamEnded \<Rightarrow> ([], Some (Inl [Context ''OBEX property stream ended'']))
      | MalformedSignal e \<Rightarrow> ([], Some (Inl e))
      | PropertiesChanged interface changed \<Rightarrow>
          if interface \<noteq> TRANSFER_INTERFACE then monitor_loop u ins
          else (let u' = apply_changed changed u; (us, r) = monitor_loop u' ins in (u' # us, r)))"

definition ensure_not_failed :: "failure + transfer_update \<Rightarrow> failure + unit" where
  "ensure_not_failed r = res_bind r (\<lambda>u. ensure (tu_status u \<noteq> ''error'') ''OBEX transfer failed'')"

text \<open>\<open>opened\<close>: the proxies, the subscription and the first reading of the properties.\<close>

definition monitor_transfer ::
    "failure + (string, dbus_value) hmap \<Rightarrow> monitor_input list \<Rightarrow> transfer_update
      \<Rightarrow> transfer_update list \<times> (failure + unit) option" where
  "monitor_transfer opened ins u =
     (if transfer_terminal u then ([], Some (ensure_not_failed (Inr u)))
      else case opened of
        Inl e \<Rightarrow> ([], Some (Inl e))
      | Inr vs \<Rightarrow>
          (let u' = apply_properties vs u; (us, r) = monitor_loop u' ins
           in (u' # us, map_option ensure_not_failed r)))"

record active_transfer =
  at_file_name :: string
  at_size :: u64
  at_initial_status :: string
  at_initial_transferred :: u64

definition active_run ::
    "failure + (string, dbus_value) hmap \<Rightarrow> monitor_input list \<Rightarrow> active_transfer
      \<Rightarrow> transfer_update list \<times> (failure + unit) option" where
  "active_run opened ins t =
     (let u = \<lparr>tu_status = at_initial_status t, tu_transferred = at_initial_transferred t, tu_size = at_size t\<rparr>;
          (us, r) = monitor_transfer opened ins u
      in (u # us, r))"

text \<open>What the spawned tasks publish: each update, and the failure.\<close>

definition task_events ::
    "(failure \<Rightarrow> envelope_error) \<Rightarrow> obex_event \<Rightarrow> transfer_update list \<times> (failure + unit) option \<Rightarrow> obex_event list" where
  "task_events describe ev run =
     map (\<lambda>u. updated u ev) (fst run)
     @ (case snd run of Some (Inl e) \<Rightarrow> [event_failed (describe e) ev] | _ \<Rightarrow> [])"

definition incoming_failure :: "failure \<Rightarrow> envelope_error" where
  "incoming_failure e = api_error ''obex-transfer-failed'' (error_chain (Context ''monitor incoming OBEX transfer'' # e))"

text \<open>\<open>start_file\<close> once the session exists and \<open>SendFile\<close> answered.\<close>

definition started_transfer :: "string \<Rightarrow> u64 \<Rightarrow> (string, dbus_value) hmap \<Rightarrow> active_transfer" where
  "started_transfer file_name file_size vs =
     \<lparr>at_file_name = file_name,
      at_size = (case property_u64 vs ''Size'' of None \<Rightarrow> file_size | Some n \<Rightarrow> n),
      at_initial_status = (case property_str vs ''Status'' of None \<Rightarrow> ''queued'' | Some s \<Rightarrow> s),
      at_initial_transferred = (case property_u64 vs ''Transferred'' of None \<Rightarrow> 0 | Some n \<Rightarrow> n)\<rparr>"

subsection \<open>Names\<close>

text \<open>\<open>Path::file_name\<close>: the last component, where empty and current-directory components do not count.\<close>

definition path_file_name :: "string \<Rightarrow> string option" where
  "path_file_name v =
     (case filter (\<lambda>w. w \<noteq> [] \<and> w \<noteq> ''.'') (split_slash v) of
        [] \<Rightarrow> None
      | ws \<Rightarrow> if last ws = ''..'' then None else Some (last ws))"

text \<open>\<open>Path::file_stem\<close> and \<open>Path::extension\<close>: the last dot separates them, unless it leads the name.\<close>

fun split_last_dot :: "string \<Rightarrow> (string \<times> string) option" where
  "split_last_dot [] = None"
| "split_last_dot (c # cs) =
     (case split_last_dot cs of
        Some (a, b) \<Rightarrow> Some (c # a, b)
      | None \<Rightarrow> if c = CHR ''.'' then Some ([], cs) else None)"

definition file_stem :: "string \<Rightarrow> string option" where
  "file_stem v = map_option (\<lambda>n. case split_last_dot n of Some (c # a, b) \<Rightarrow> c # a | _ \<Rightarrow> n) (path_file_name v)"

definition file_extension :: "string \<Rightarrow> string option" where
  "file_extension v =
     Option.bind (path_file_name v) (\<lambda>n. case split_last_dot n of Some (c # a, b) \<Rightarrow> Some b | _ \<Rightarrow> None)"

definition FALLBACK_NAME :: string where "FALLBACK_NAME = ''bluetooth-transfer''"

definition is_control :: "char \<Rightarrow> bool" where
  "is_control c \<longleftrightarrow> (of_char c :: nat) < 32 \<or> 127 \<le> (of_char c :: nat) \<and> (of_char c :: nat) < 160"

definition safe_file_name :: "string \<Rightarrow> string" where
  "safe_file_name v =
     (let basename = (case path_file_name v of None \<Rightarrow> FALLBACK_NAME | Some n \<Rightarrow> n);
          sanitized = take 180 (filter (\<lambda>c. \<not> is_control c) basename)
      in if sanitized = [] \<or> sanitized = ''.'' \<or> sanitized = ''..'' then FALLBACK_NAME else sanitized)"

definition incoming_name :: "(string, dbus_value) hmap \<Rightarrow> string" where
  "incoming_name vs =
     (case property_str vs ''Name'' of
        Some n \<Rightarrow> n
      | None \<Rightarrow> (case Option.bind (property_str vs ''Filename'') path_file_name of Some n \<Rightarrow> n | None \<Rightarrow> FALLBACK_NAME))"

record incoming_details =
  in_source :: string
  in_destination :: string
  in_name :: string
  in_media_type :: "string option"
  in_size :: u64

text \<open>\<open>read\<close> answers with the properties of an object of obexd.\<close>

definition incoming_details_of ::
    "(string \<Rightarrow> string \<Rightarrow> failure + (string, dbus_value) hmap) \<Rightarrow> string \<Rightarrow> failure + incoming_details" where
  "incoming_details_of read path =
     res_bind (read path TRANSFER_INTERFACE) (\<lambda>vs.
     res_bind (with_context ''incoming OBEX transfer has no session'' (property_path vs ''Session'')) (\<lambda>session.
     res_bind (read session ''org.bluez.obex.Session1'') (\<lambda>ss.
     res_bind (with_context ''incoming OBEX session has no source'' (property_str ss ''Source'')) (\<lambda>source.
     res_bind (with_context ''incoming OBEX session has no destination'' (property_str ss ''Destination'')) (\<lambda>destination.
     Inr \<lparr>in_source = source, in_destination = destination, in_name = incoming_name vs,
          in_media_type = property_str vs ''Type'',
          in_size = (case property_u64 vs ''Size'' of None \<Rightarrow> 0 | Some n \<Rightarrow> n)\<rparr>)))))"

subsection \<open>Reserving a destination\<close>

definition candidate :: "string \<Rightarrow> nat \<Rightarrow> string" where
  "candidate file_name suffix =
     (let stem = (case file_stem file_name of None \<Rightarrow> FALLBACK_NAME | Some s \<Rightarrow> s) in
      if suffix = 0 then file_name
      else case file_extension file_name of
        Some extension \<Rightarrow> stem @ '' ('' @ decimal suffix @ '').'' @ extension
      | None \<Rightarrow> stem @ '' ('' @ decimal suffix @ '')'')"

definition RESERVATIONS :: nat where "RESERVATIONS = 10000"

text \<open>\<open>create_new\<close> for each suffix in turn; \<open>denied\<close> is any other error the file system has for a name.\<close>

fun reserve_from ::
    "(string \<Rightarrow> failure option) \<Rightarrow> string \<Rightarrow> nat \<Rightarrow> nat \<Rightarrow> string list \<Rightarrow> string list \<times> (failure + string)" where
  "reserve_from denied file_name suffix 0 files =
     (files, Inl [Context ''could not reserve a unique incoming Bluetooth filename''])"
| "reserve_from denied file_name suffix (Suc n) files =
     (let name = candidate file_name suffix in
      if name \<in> set files then reserve_from denied file_name (Suc suffix) n files
      else case denied name of
        Some e \<Rightarrow> (files, Inl (Context (''reserve incoming Bluetooth file '' @ name) # e))
      | None \<Rightarrow> (name # files, Inr name))"

definition reserve_incoming_destination_in ::
    "(string \<Rightarrow> failure option) \<Rightarrow> string \<Rightarrow> string list \<Rightarrow> string list \<times> (failure + string)" where
  "reserve_incoming_destination_in denied file_name files = reserve_from denied file_name 0 RESERVATIONS files"

definition remove_reservation :: "string \<Rightarrow> string list \<Rightarrow> string list" where
  "remove_reservation name files = filter (\<lambda>n. n \<noteq> name) files"

subsection \<open>The course of a transfer\<close>

text \<open>The updates of a transfer: only the last may be terminal, and it is when the loop ends well.\<close>

definition course :: "transfer_update list \<Rightarrow> (failure + transfer_update) option \<Rightarrow> bool" where
  "course us r \<longleftrightarrow>
     (case r of
        Some (Inr v) \<Rightarrow> last us = v \<and> transfer_terminal v \<and> (\<forall>x \<in> set (butlast us). \<not> transfer_terminal x)
      | _ \<Rightarrow> \<forall>x \<in> set us. \<not> transfer_terminal x)"

lemma course_Cons: "\<not> transfer_terminal u \<Longrightarrow> course (v # us) r \<Longrightarrow> course (u # v # us) r"
  by (auto simp: course_def split: option.splits sum.splits)

lemma monitor_loop_course: "course (u # fst (monitor_loop u ins)) (snd (monitor_loop u ins))"
proof (induction u ins rule: monitor_loop.induct)
  case (1 u)
  show ?case by (simp add: course_def)
next
  case (2 u i ins)
  show ?case
  proof (cases "transfer_terminal u")
    case True
    then show ?thesis by (simp add: course_def)
  next
    case False
    show ?thesis
    proof (cases i)
      case (CancelRequested a)
      then show ?thesis using "2.IH"(1) [OF False CancelRequested] False
        by (cases a) (simp add: course_def, simp add: Let_def case_prod_beta course_Cons)
    next
      case (PropertiesChanged interface changed)
      then show ?thesis using "2.IH"(2,3) [OF False PropertiesChanged] False
        by (cases "interface = TRANSFER_INTERFACE") (simp_all add: Let_def case_prod_beta course_Cons)
    qed (use False in \<open>simp_all add: course_def\<close>)
  qed
qed

definition event_terminal :: "obex_event \<Rightarrow> bool" where
  "event_terminal ev \<longleftrightarrow> oe_event ev \<in> {''completed'', ''cancelled'', ''failed''}"

lemma event_terminal_updated [simp]: "event_terminal (updated u ev) = transfer_terminal u"
  by (auto simp: event_terminal_def updated_def lifecycle_event_def transfer_terminal_def)

lemma oe_event_updated [simp]:
  "oe_event (updated u ev) = lifecycle_event (tu_status u)" "oe_event (event_failed e ev) = ''failed''"
  by (simp_all add: updated_def event_failed_def)

text \<open>How a task's updates and its result fit together.\<close>

definition run_course :: "transfer_update list \<Rightarrow> (failure + unit) option \<Rightarrow> bool" where
  "run_course us r \<longleftrightarrow> us \<noteq> [] \<and> (\<forall>x \<in> set (butlast us). \<not> transfer_terminal x)
     \<and> (case r of
          None \<Rightarrow> \<not> transfer_terminal (last us)
        | Some (Inr _) \<Rightarrow> tu_status (last us) \<in> {''complete'', ''cancelled''}
        | Some (Inl _) \<Rightarrow> transfer_terminal (last us) \<longrightarrow> tu_status (last us) = ''error'')"

lemma run_course_finish: "us \<noteq> [] \<Longrightarrow> course us r \<Longrightarrow> run_course us (map_option ensure_not_failed r)"
proof (cases r)
  case (Some v)
  assume "us \<noteq> []" "course us r"
  then show ?thesis
    using Some by (cases v) (auto simp: run_course_def course_def ensure_not_failed_def ensure_def transfer_terminal_def
        dest: in_set_butlastD split: option.splits sum.splits if_splits)
qed (auto simp: run_course_def course_def dest: in_set_butlastD)

lemma monitor_transfer_course:
  assumes "monitor_transfer opened ins u = (us, r)"
  shows "run_course (u # us) r"
proof (cases "transfer_terminal u")
  case True
  then show ?thesis
    using assms run_course_finish [of "[u]" "Some (Inr u)"] by (auto simp: monitor_transfer_def course_def)
next
  case False
  show ?thesis
  proof (cases opened)
    case (Inl e)
    then show ?thesis using assms False by (auto simp: monitor_transfer_def run_course_def)
  next
    case (Inr vs)
    let ?u = "apply_properties vs u"
    have "us = ?u # fst (monitor_loop ?u ins)" "r = map_option ensure_not_failed (snd (monitor_loop ?u ins))"
      using assms False Inr by (auto simp: monitor_transfer_def Let_def split: prod.splits)
    then show ?thesis
      using run_course_finish [OF _ course_Cons [OF False monitor_loop_course [of ?u ins]]] by simp
  qed
qed

lemma active_run_course: "run_course (fst (active_run opened ins t)) (snd (active_run opened ins t))"
  using monitor_transfer_course by (simp add: active_run_def Let_def case_prod_beta)

subsection \<open>Names without separators\<close>

definition plain :: "string \<Rightarrow> bool" where
  "plain n \<longleftrightarrow> n \<noteq> [] \<and> CHR ''/'' \<notin> set n \<and> n \<noteq> ''.'' \<and> n \<noteq> ''..''"

lemma path_file_name_plain: "plain n \<Longrightarrow> path_file_name n = Some n"
  by (simp add: path_file_name_def plain_def split_slash_plain)

lemma path_file_name_part: "path_file_name v = Some n \<Longrightarrow> CHR ''/'' \<notin> set n"
proof -
  assume v: "path_file_name v = Some n"
  let ?ws = "filter (\<lambda>w. w \<noteq> [] \<and> w \<noteq> ''.'') (split_slash v)"
  have "?ws \<noteq> [] \<and> n = last ?ws" using v by (auto simp: path_file_name_def split: list.splits if_splits)
  then have "n \<in> set ?ws" using last_in_set by metis
  then show ?thesis using split_slash_parts [of n v] by simp
qed

lemma fallback_plain: "plain FALLBACK_NAME" "length FALLBACK_NAME \<le> 180" "list_all (\<lambda>c. \<not> is_control c) FALLBACK_NAME"
  by code_simp+

lemma safe_file_name_facts:
  shows "plain (safe_file_name v)" and "length (safe_file_name v) \<le> 180" and "list_all (\<lambda>c. \<not> is_control c) (safe_file_name v)"
proof -
  define base where "base = (case path_file_name v of None \<Rightarrow> FALLBACK_NAME | Some n \<Rightarrow> n)"
  define clean where "clean = take 180 (filter (\<lambda>c. \<not> is_control c) base)"
  have "CHR ''/'' \<notin> set base"
    using path_file_name_part fallback_plain(1) by (auto simp: base_def plain_def split: option.splits)
  then have c: "CHR ''/'' \<notin> set clean" "length clean \<le> 180" "list_all (\<lambda>c. \<not> is_control c) clean"
    by (auto simp: clean_def list_all_iff dest: in_set_takeD)
  have safe: "safe_file_name v = (if clean = [] \<or> clean = ''.'' \<or> clean = ''..'' then FALLBACK_NAME else clean)"
    by (simp add: safe_file_name_def base_def clean_def)
  show "plain (safe_file_name v)" using c(1) fallback_plain(1) unfolding safe by (auto simp: plain_def)
  show "length (safe_file_name v) \<le> 180" using c(2) fallback_plain(2) unfolding safe by simp
  show "list_all (\<lambda>c. \<not> is_control c) (safe_file_name v)" using c(3) fallback_plain(3) unfolding safe by simp
qed

lemma safe_file_name_fixes:
  assumes "plain n" and "length n \<le> 180" and "list_all (\<lambda>c. \<not> is_control c) n"
  shows "safe_file_name n = n"
proof -
  have "filter (\<lambda>c. \<not> is_control c) n = n" using assms(3) by (simp add: list_all_iff)
  then show ?thesis using assms(1,2) by (simp add: safe_file_name_def path_file_name_plain plain_def)
qed

subsection \<open>Candidates\<close>

lemma split_last_dot_Some: "split_last_dot n = Some (a, b) \<Longrightarrow> n = a @ CHR ''.'' # b"
  by (induction n arbitrary: a b) (auto split: option.splits if_splits)

text \<open>A plain name is its stem and what its extension adds.\<close>

lemma candidate_plain:
  assumes "plain n"
  obtains stem tail where "n = stem @ tail" and "\<And>k. 0 < k \<Longrightarrow> candidate n k = stem @ '' ('' @ decimal k @ '')'' @ tail"
proof (cases "split_last_dot n")
  case None
  then show ?thesis
    using assms by (intro that [of n "[]"]) (simp_all add: candidate_def file_stem_def file_extension_def path_file_name_plain)
next
  case (Some ab)
  obtain a b where ab: "ab = (a, b)" by force
  show ?thesis
  proof (cases a)
    case Nil
    then show ?thesis
      using assms Some ab by (intro that [of n "[]"]) (simp_all add: candidate_def file_stem_def file_extension_def path_file_name_plain)
  next
    case (Cons c cs)
    then show ?thesis
      using assms Some ab split_last_dot_Some [of n a b]
      by (intro that [of a "CHR ''.'' # b"]) (simp_all add: candidate_def file_stem_def file_extension_def path_file_name_plain)
  qed
qed

lemma candidate_inj:
  assumes "plain n" and "candidate n i = candidate n j"
  shows "i = j"
proof -
  obtain stem tail where n: "n = stem @ tail" and c: "\<And>k. 0 < k \<Longrightarrow> candidate n k = stem @ '' ('' @ decimal k @ '')'' @ tail"
    using candidate_plain [OF assms(1)] by blast
  have zero: "candidate n 0 = n" by (simp add: candidate_def)
  have longer: "length n < length (candidate n k)" if "0 < k" for k using c [OF that] n by simp
  show ?thesis
  proof (cases "i = 0 \<or> j = 0")
    case True
    then show ?thesis using assms(2) longer [of i] longer [of j] zero by (cases "i = 0"; cases "j = 0") auto
  next
    case False
    then show ?thesis using assms(2) c [of i] c [of j] by (simp add: decimal_inj)
  qed
qed

lemma candidate_keeps_plain:
  assumes "plain n"
  shows "CHR ''/'' \<notin> set (candidate n k)"
proof (cases "k = 0")
  case True
  then show ?thesis using assms by (simp add: candidate_def plain_def)
next
  case False
  obtain stem tail where n: "n = stem @ tail" and c: "candidate n k = stem @ '' ('' @ decimal k @ '')'' @ tail"
    using candidate_plain [OF assms] False by (metis neq0_conv)
  have "CHR ''/'' \<notin> set (decimal k)" using decimal_digits [of k] by (auto simp: list_all_iff is_digit_def)
  moreover have "CHR ''/'' \<notin> set stem" "CHR ''/'' \<notin> set tail" using assms by (simp_all add: plain_def n)
  ultimately show ?thesis unfolding c by simp
qed

lemma reserve_from_result:
  "reserve_from denied n k m files = (files', r) \<Longrightarrow>
     (case r of
        Inr name \<Rightarrow> files' = name # files \<and> name \<notin> set files
          \<and> (\<exists>i. k \<le> i \<and> i < k + m \<and> name = candidate n i \<and> (\<forall>j. k \<le> j \<and> j < i \<longrightarrow> candidate n j \<in> set files))
      | Inl _ \<Rightarrow> files' = files
          \<and> ((\<forall>i. k \<le> i \<and> i < k + m \<longrightarrow> candidate n i \<in> set files) \<or> (\<exists>i < k + m. denied (candidate n i) \<noteq> None)))"
proof (induction m arbitrary: k)
  case (Suc m)
  have le: "k \<le> j \<longleftrightarrow> j = k \<or> Suc k \<le> j" for j by auto
  show ?case
  proof (cases "candidate n k \<in> set files")
    case True
    then show ?thesis
      using Suc.IH [of "Suc k"] Suc.prems by (auto simp: Let_def le split: sum.splits)
  next
    case False
    then show ?thesis using Suc.prems by (auto simp: Let_def split: option.splits intro!: exI [of _ k])
  qed
qed auto

subsection \<open>Properties\<close>

text \<open>
  C34. While an outgoing transfer is under way no terminal event is published. When its task ends, the last
  event is terminal and nothing but failures is published after the first terminal event: a task that ends
  well has published exactly one terminal event, completed or cancelled; one that fails ends with a failed
  event that carries the error, and has published neither completed nor cancelled.
\<close>

theorem transfer_ends_with_terminal_event:
  "let run = active_run opened ins t; events = task_events describe ev run in
    case snd run of
      None \<Rightarrow> \<forall>x \<in> set events. \<not> event_terminal x
    | Some (Inr _) \<Rightarrow> (\<forall>x \<in> set (butlast events). \<not> event_terminal x) \<and> oe_event (last events) \<in> {''completed'', ''cancelled''}
    | Some (Inl e) \<Rightarrow> last events = event_failed (describe e) ev
        \<and> (\<forall>x \<in> set events. event_terminal x \<longrightarrow> oe_event x = ''failed'')"
proof -
  obtain us r where run: "active_run opened ins t = (us, r)" by force
  then have c: "run_course us r" using active_run_course [of opened ins t] by simp
  then have us: "us \<noteq> []" "\<forall>x \<in> set (butlast us). \<not> transfer_terminal x" by (simp_all add: run_course_def)
  have split: "set us = insert (last us) (set (butlast us))" using us(1) by (cases us rule: rev_cases) auto
  show ?thesis
  proof (cases r)
    case None
    then show ?thesis using c us split run by (auto simp: task_events_def run_course_def)
  next
    case (Some q)
    show ?thesis
    proof (cases q)
      case (Inl e)
      then show ?thesis
        using c us split run Some by (auto simp: task_events_def run_course_def lifecycle_event_def)
    next
      case (Inr u)
      then show ?thesis
        using c us run Some by (auto simp: task_events_def run_course_def last_map map_butlast [symmetric] lifecycle_event_def)
    qed
  qed
qed

definition demo_transfer :: active_transfer where
  "demo_transfer = \<lparr>at_file_name = ''a.txt'', at_size = 10, at_initial_status = ''queued'', at_initial_transferred = 0\<rparr>"

theorem transfer_ends_with_terminal_event_witness:
  "oe_event (last (task_events error_details (outgoing_event ''obex-transfer-1'' ''d'' ''a.txt'' 10)
     (active_run (Inr [(''Status'', DStr ''active'')])
       [PropertiesChanged TRANSFER_INTERFACE [(''Transferred'', DU64 5)], CancelRequested (Inr ())] demo_transfer)))
   \<in> {''completed'', ''cancelled''}"
proof -
  let ?run = "active_run (Inr [(''Status'', DStr ''active'')])
       [PropertiesChanged TRANSFER_INTERFACE [(''Transferred'', DU64 5)], CancelRequested (Inr ())] demo_transfer"
  have "snd ?run = Some (Inr ())" by code_simp
  then show ?thesis
    using transfer_ends_with_terminal_event [where opened = "Inr [(''Status'', DStr ''active'')]" and t = demo_transfer
        and ins = "[PropertiesChanged TRANSFER_INTERFACE [(''Transferred'', DU64 5)], CancelRequested (Inr ())]"
        and describe = error_details and ev = "outgoing_event ''obex-transfer-1'' ''d'' ''a.txt'' 10"]
    by (simp add: Let_def)
qed

text \<open>
  Whatever name a remote device sends, the name used for the received file is a plain one: not empty,
  at most 180 characters, without separator or control character, neither the directory nor its parent. A
  name that is already plain is kept.
\<close>

theorem incoming_file_name_is_confined:
  "plain (safe_file_name v) \<and> length (safe_file_name v) \<le> 180 \<and> list_all (\<lambda>c. \<not> is_control c) (safe_file_name v)
   \<and> safe_file_name (safe_file_name v) = safe_file_name v"
  using safe_file_name_facts [of v] safe_file_name_fixes by blast

text \<open>
  C32. Reserving a destination never touches a file that exists: it either creates one new file, directly
  in the download directory and with the first free suffix, or leaves the directory as it was. As long as
  the file system refuses no name and the directory has fewer than \<open>RESERVATIONS\<close> entries, it succeeds.
\<close>

theorem reservation_never_overwrites:
  assumes "reserve_incoming_destination_in denied (safe_file_name v) files = (files', r)"
  shows "(case r of
      Inr name \<Rightarrow> files' = name # files \<and> name \<notin> set files \<and> CHR ''/'' \<notin> set name
        \<and> (\<exists>i < RESERVATIONS. name = candidate (safe_file_name v) i \<and> (\<forall>j < i. candidate (safe_file_name v) j \<in> set files))
    | Inl _ \<Rightarrow> files' = files)
    \<and> ((\<forall>name. denied name = None) \<and> length files < RESERVATIONS \<longrightarrow> (\<exists>name. r = Inr name))"
proof (intro conjI impI; (elim conjE)?)
  let ?n = "safe_file_name v"
  have res: "reserve_from denied ?n 0 RESERVATIONS files = (files', r)" using assms by (simp add: reserve_incoming_destination_in_def)
  note result = reserve_from_result [OF res]
  show "case r of
      Inr name \<Rightarrow> files' = name # files \<and> name \<notin> set files \<and> CHR ''/'' \<notin> set name
        \<and> (\<exists>i < RESERVATIONS. name = candidate ?n i \<and> (\<forall>j < i. candidate ?n j \<in> set files))
    | Inl _ \<Rightarrow> files' = files"
    using result candidate_keeps_plain [OF safe_file_name_facts(1), of v] by (cases r) auto
  show "\<exists>name. r = Inr name" if ok: "\<forall>name. denied name = None" "length files < RESERVATIONS"
  proof (cases r)
    case (Inl e)
    then have "candidate ?n ` {..<RESERVATIONS} \<subseteq> set files" using result ok(1) by auto
    then have "card (candidate ?n ` {..<RESERVATIONS}) \<le> card (set files)" by (intro card_mono) auto
    moreover have "inj_on (candidate ?n) {..<RESERVATIONS}"
      by (rule inj_onI) (rule candidate_inj [OF safe_file_name_facts(1)])
    ultimately have "RESERVATIONS \<le> length files" using card_length [of files] by (simp add: card_image)
    then show ?thesis using ok(2) by simp
  qed simp
qed

theorem reservation_never_overwrites_witness:
  "\<exists>name. snd (reserve_incoming_destination_in (\<lambda>_. None) (safe_file_name ''../a.txt'') [''a.txt'', ''a (1).txt'']) = Inr name
     \<and> name \<notin> {''a.txt'', ''a (1).txt''} \<and> CHR ''/'' \<notin> set name"
proof -
  let ?res = "reserve_incoming_destination_in (\<lambda>_. None) (safe_file_name ''../a.txt'') [''a.txt'', ''a (1).txt'']"
  have r: "?res = (fst ?res, snd ?res)" by simp
  obtain name where "snd ?res = Inr name" using reservation_never_overwrites [OF r] by (auto simp: RESERVATIONS_def)
  then show ?thesis using reservation_never_overwrites [OF r] by auto
qed

text \<open>A transfer that obexd reports as failed is published as failed twice, first without the error.\<close>

lemma reported_failure_is_published_twice:
  "map (\<lambda>x. (oe_event x, oe_error x = None)) (task_events error_details (outgoing_event ''obex-transfer-1'' ''d'' ''a.txt'' 10)
     (active_run (Inr [(''Status'', DStr ''error'')]) [] demo_transfer))
   = [(''queued'', True), (''failed'', True), (''failed'', False)]"
  by code_simp

end
