(* ===== verification/ObexIncoming.thy ===== *)
theory ObexIncoming
  imports Obex
begin

text \<open>
  The incoming side of \<open>src/obex.rs\<close> with \<open>src/obex/authorization.rs\<close>: authorizations of pushed files, their
  deadlines, cancellation and the reserved destinations; and the table of outgoing transfers of
  \<open>src/daemon/obex.rs\<close>.

  The callback that obexd waits on is a task of the state. Between two steps it waits on its oneshot
  channel, whose content is part of its phase. Other programs do not touch the download directory.
\<close>

subsection \<open>Authorizations\<close>

datatype decision = Accept | Reject | Cancel

datatype agent_error = ARejected string | ACanceled string

record authorization =
  au_device_key :: string
  au_device_name :: string
  au_media_type :: "string option"
  au_size :: u64
  au_file_name :: string
  au_destination :: string

datatype phase = Waiting "decision option" | Expired

record incoming =
  ib_sequence :: u64
  ib_pending :: "(string, unit) hmap"
  ib_cancellations :: "(string, unit) hmap"
  ib_tasks :: "(string, authorization \<times> phase) hmap"
  ib_files :: "string list"
  ib_events :: "obex_event list"
  ib_replies :: "(string \<times> (agent_error + string)) list"
  ib_consents :: "string list"  \<comment> \<open>requests that \<open>respond\<close> accepted, for the specification\<close>
  ib_stopped :: "string list"  \<comment> \<open>active transfers told to stop\<close>

definition incoming_new :: "string list \<Rightarrow> incoming" where
  "incoming_new files = \<lparr>ib_sequence = 1, ib_pending = [], ib_cancellations = [], ib_tasks = [], ib_files = files,
     ib_events = [], ib_replies = [], ib_consents = [], ib_stopped = []\<rparr>"

definition incoming_id :: "u64 \<Rightarrow> string" where
  "incoming_id n = ''obex-incoming-'' @ decimal (unat n)"

definition authorization_event :: "string \<Rightarrow> authorization \<Rightarrow> string \<Rightarrow> string \<Rightarrow> u64 option \<Rightarrow> obex_event" where
  "authorization_event ident a event status timeout_ms =
     \<lparr>oe_event = event, oe_request_id = ident, oe_direction = ''incoming'', oe_device_key = au_device_key a,
      oe_device_name = Some (au_device_name a), oe_file_name = au_file_name a, oe_media_type = au_media_type a,
      oe_status = status, oe_transferred = 0, oe_size = au_size a, oe_timeout_ms = timeout_ms, oe_error = None\<rparr>"

definition emit_event :: "obex_event \<Rightarrow> incoming \<Rightarrow> incoming" where
  "emit_event ev b = b\<lparr>ib_events := ib_events b @ [ev]\<rparr>"

definition AUTHORIZATION_TIMEOUT_MS :: u64 where "AUTHORIZATION_TIMEOUT_MS = 60000"

definition rejected :: "failure \<Rightarrow> agent_error" where
  "rejected e = ARejected (error_chain e)"

text \<open>
  \<open>prepare_authorization\<close>: whether the agent has its connection, what obexd and the backend answer, and the
  reserved file; then \<open>request_decision\<close> up to its first wait.
\<close>

definition prepare_authorization ::
    "bool \<Rightarrow> (failure + incoming_details) \<Rightarrow> (incoming_details \<Rightarrow> failure + string \<times> string) \<Rightarrow> (string \<Rightarrow> failure option)
      \<Rightarrow> incoming \<Rightarrow> incoming \<times> (agent_error + string \<times> authorization)" where
  "prepare_authorization connected details remote denied b =
     (if \<not> connected then (b, Inl (ACanceled ''OBEX agent connection is unavailable''))
      else case details of
        Inl e \<Rightarrow> (b, Inl (rejected e))
      | Inr d \<Rightarrow>
          (case remote d of
             Inl e \<Rightarrow> (b, Inl (rejected e))
           | Inr (device_key, device_name) \<Rightarrow>
               (case reserve_incoming_destination_in denied (safe_file_name (in_name d)) (ib_files b) of
                  (files, Inl e) \<Rightarrow> (b\<lparr>ib_files := files\<rparr>, Inl (rejected e))
                | (files, Inr destination) \<Rightarrow>
                    (b\<lparr>ib_files := files, ib_sequence := ib_sequence b + 1\<rparr>,
                     Inr (incoming_id (ib_sequence b),
                       \<lparr>au_device_key = device_key, au_device_name = device_name, au_media_type = in_media_type d,
                        au_size = in_size d, au_file_name = safe_file_name (in_name d), au_destination = destination\<rparr>)))))"

definition request_decision :: "string \<Rightarrow> authorization \<Rightarrow> incoming \<Rightarrow> incoming" where
  "request_decision ident a b =
     emit_event (authorization_event ident a ''authorization-requested'' ''awaiting-authorization'' (Some AUTHORIZATION_TIMEOUT_MS))
       (b\<lparr>ib_pending := hm_insert ident () (ib_pending b), ib_tasks := hm_insert ident (a, Waiting None) (ib_tasks b)\<rparr>)"

definition authorize ::
    "bool \<Rightarrow> (failure + incoming_details) \<Rightarrow> (incoming_details \<Rightarrow> failure + string \<times> string) \<Rightarrow> (string \<Rightarrow> failure option)
      \<Rightarrow> incoming \<Rightarrow> incoming" where
  "authorize connected details remote denied b =
     (case prepare_authorization connected details remote denied b of
        (b', Inl e) \<Rightarrow> b'
      | (b', Inr (ident, a)) \<Rightarrow> request_decision ident a b')"

text \<open>Sending a decision: only a task that still waits receives it.\<close>

definition send_decision :: "decision \<Rightarrow> string \<Rightarrow> incoming \<Rightarrow> incoming" where
  "send_decision d ident b =
     (case hm_get (ib_tasks b) ident of
        Some (a, Waiting _) \<Rightarrow> b\<lparr>ib_tasks := hm_insert ident (a, Waiting (Some d)) (ib_tasks b)\<rparr>
      | _ \<Rightarrow> b)"

definition respond :: "string \<Rightarrow> bool \<Rightarrow> incoming \<Rightarrow> incoming \<times> (failure + unit)" where
  "respond ident accept b =
     (case hm_get (ib_pending b) ident of
        None \<Rightarrow> (b, Inl [Context ''incoming transfer authorization is no longer pending''])
      | Some _ \<Rightarrow>
          (send_decision (if accept then Accept else Reject) ident
             (b\<lparr>ib_pending := hm_remove ident (ib_pending b),
                ib_consents := (if accept then [ident] else []) @ ib_consents b\<rparr>), Inr ()))"

definition cancel_transfer :: "string \<Rightarrow> incoming \<Rightarrow> incoming \<times> bool" where
  "cancel_transfer ident b =
     (if hm_get (ib_pending b) ident \<noteq> None
      then (send_decision Cancel ident (b\<lparr>ib_pending := hm_remove ident (ib_pending b)\<rparr>), True)
      else if hm_get (ib_cancellations b) ident \<noteq> None
      then (b\<lparr>ib_cancellations := hm_remove ident (ib_cancellations b), ib_stopped := ident # ib_stopped b\<rparr>, True)
      else (b, False))"

definition cancel_authorizations :: "incoming \<Rightarrow> incoming" where
  "cancel_authorizations b = fold (send_decision Cancel) (map fst (ib_pending b)) (b\<lparr>ib_pending := []\<rparr>)"

text \<open>The end of a callback. A destination that was not accepted is removed with it.\<close>

definition end_task :: "string \<Rightarrow> incoming \<Rightarrow> incoming" where
  "end_task ident b = b\<lparr>ib_tasks := hm_remove ident (ib_tasks b)\<rparr>"

definition drop_destination :: "authorization \<Rightarrow> incoming \<Rightarrow> incoming" where
  "drop_destination a b = b\<lparr>ib_files := remove_reservation (au_destination a) (ib_files b)\<rparr>"

definition reply :: "string \<Rightarrow> agent_error + string \<Rightarrow> incoming \<Rightarrow> incoming" where
  "reply ident r b = b\<lparr>ib_replies := ib_replies b @ [(ident, r)]\<rparr>"

definition start_incoming :: "string \<Rightarrow> authorization \<Rightarrow> incoming \<Rightarrow> incoming" where
  "start_incoming ident a b =
     reply ident (Inr (au_destination a)) (end_task ident (b\<lparr>ib_cancellations := hm_insert ident () (ib_cancellations b)\<rparr>))"

definition reject_authorization :: "agent_error \<Rightarrow> string \<Rightarrow> authorization \<Rightarrow> incoming \<Rightarrow> incoming" where
  "reject_authorization e ident a b =
     reply ident (Inl e) (drop_destination a (end_task ident
       (emit_event (authorization_event ident a ''cancelled'' ''cancelled'' None) b)))"

text \<open>The callback wakes with a decision.\<close>

definition decide :: "string \<Rightarrow> incoming \<Rightarrow> incoming" where
  "decide ident b =
     (case hm_get (ib_tasks b) ident of
        Some (a, Waiting (Some Accept)) \<Rightarrow> start_incoming ident a b
      | Some (a, Waiting (Some Reject)) \<Rightarrow>
          reject_authorization (ARejected ''incoming transfer was rejected'') ident a b
      | Some (a, Waiting (Some Cancel)) \<Rightarrow>
          reject_authorization (ACanceled ''incoming transfer was cancelled'') ident a b
      | _ \<Rightarrow> b)"

text \<open>The deadline passes while no decision was sent, and the branch that handles it.\<close>

definition deadline :: "string \<Rightarrow> incoming \<Rightarrow> incoming" where
  "deadline ident b =
     (case hm_get (ib_tasks b) ident of
        Some (a, Waiting None) \<Rightarrow> b\<lparr>ib_tasks := hm_insert ident (a, Expired) (ib_tasks b)\<rparr>
      | _ \<Rightarrow> b)"

definition expire :: "string \<Rightarrow> incoming \<Rightarrow> incoming" where
  "expire ident b =
     (case hm_get (ib_tasks b) ident of
        Some (a, Expired) \<Rightarrow>
          reject_authorization (ACanceled ''incoming transfer authorization timed out'') ident a
            (b\<lparr>ib_pending := hm_remove ident (ib_pending b)\<rparr>)
      | _ \<Rightarrow> b)"

text \<open>\<open>Prompt::drop\<close> and \<open>Destination::drop\<close> when the callback is abandoned while it waits.\<close>

definition drop_prompt :: "string \<Rightarrow> authorization \<Rightarrow> incoming \<Rightarrow> incoming" where
  "drop_prompt ident a b =
     (if hm_get (ib_pending b) ident \<noteq> None
      then emit_event (authorization_event ident a ''cancelled'' ''cancelled'' None)
             (b\<lparr>ib_pending := hm_remove ident (ib_pending b)\<rparr>)
      else b)"

definition abandon :: "string \<Rightarrow> incoming \<Rightarrow> incoming" where
  "abandon ident b =
     (case hm_get (ib_tasks b) ident of
        Some (a, Waiting _) \<Rightarrow> drop_destination a (end_task ident (drop_prompt ident a b))
      | _ \<Rightarrow> b)"

text \<open>The task that follows an accepted transfer ends.\<close>

definition transfer_ended :: "string \<Rightarrow> incoming \<Rightarrow> incoming" where
  "transfer_ended ident b = b\<lparr>ib_cancellations := hm_remove ident (ib_cancellations b)\<rparr>"

inductive incoming_step :: "incoming \<Rightarrow> incoming \<Rightarrow> bool" where
  authorize: "unat (ib_sequence b) + 1 < 2 ^ 64 \<Longrightarrow> incoming_step b (authorize connected details remote denied b)"
| respond: "incoming_step b (fst (respond ident accept b))"
| cancel: "incoming_step b (fst (cancel_transfer ident b))"
| cancel_authorizations: "incoming_step b (cancel_authorizations b)"
| decide: "incoming_step b (decide ident b)"
| deadline: "incoming_step b (deadline ident b)"
| expire: "incoming_step b (expire ident b)"
| abandon: "incoming_step b (abandon ident b)"
| transfer_ended: "incoming_step b (transfer_ended ident b)"

subsection \<open>What is seen of one request\<close>

definition requests :: "incoming \<Rightarrow> string \<Rightarrow> nat" where
  "requests b i = length (filter (\<lambda>ev. oe_request_id ev = i \<and> oe_event ev = ''authorization-requested'') (ib_events b))"

definition cancels :: "incoming \<Rightarrow> string \<Rightarrow> nat" where
  "cancels b i = length (filter (\<lambda>ev. oe_request_id ev = i \<and> oe_event ev = ''cancelled'') (ib_events b))"

definition replies :: "incoming \<Rightarrow> string \<Rightarrow> (agent_error + string) list" where
  "replies b i = map snd (filter (\<lambda>r. fst r = i) (ib_replies b))"

record view =
  v_task :: "(authorization \<times> phase) option"
  v_pending :: bool
  v_requests :: nat
  v_cancels :: nat
  v_replies :: "(agent_error + string) list"
  v_consent :: bool

definition view :: "incoming \<Rightarrow> string \<Rightarrow> view" where
  "view b i = \<lparr>v_task = hm_get (ib_tasks b) i, v_pending = (hm_get (ib_pending b) i \<noteq> None), v_requests = requests b i,
     v_cancels = cancels b i, v_replies = replies b i, v_consent = (i \<in> set (ib_consents b))\<rparr>"

definition ok_view :: "view \<Rightarrow> bool" where
  "ok_view v \<longleftrightarrow>
     (case v_task v of
        Some (a, ph) \<Rightarrow> v_requests v = 1 \<and> v_cancels v = 0 \<and> v_replies v = []
          \<and> (case ph of
               Waiting None \<Rightarrow> v_pending v
             | Waiting (Some d) \<Rightarrow> \<not> v_pending v \<and> (d = Accept \<longrightarrow> v_consent v)
             | Expired \<Rightarrow> True)
      | None \<Rightarrow> \<not> v_pending v \<and> v_requests v \<le> 1 \<and> v_cancels v \<le> v_requests v \<and> length (v_replies v) \<le> v_requests v
          \<and> (\<forall>r \<in> set (v_replies v). case r of Inr _ \<Rightarrow> v_consent v \<and> v_cancels v = 0 | Inl _ \<Rightarrow> v_cancels v = 1))"

lemma view_primitives [simp]:
  "view (b\<lparr>ib_files := fs\<rparr>) i = view b i" "view (b\<lparr>ib_sequence := n\<rparr>) i = view b i" "view (b\<lparr>ib_stopped := st\<rparr>) i = view b i"
  "view (b\<lparr>ib_cancellations := cs\<rparr>) i = view b i"
  "view (b\<lparr>ib_pending := ps\<rparr>) i = (view b i)\<lparr>v_pending := (hm_get ps i \<noteq> None)\<rparr>"
  "view (b\<lparr>ib_tasks := ts\<rparr>) i = (view b i)\<lparr>v_task := hm_get ts i\<rparr>"
  "view (b\<lparr>ib_consents := k @ ib_consents b\<rparr>) i = (view b i)\<lparr>v_consent := (i \<in> set k \<or> v_consent (view b i))\<rparr>"
  by (simp_all add: view_def requests_def cancels_def replies_def)

lemma view_actions [simp]:
  "view (emit_event ev b) i = (view b i)
     \<lparr>v_requests := v_requests (view b i) + (if oe_request_id ev = i \<and> oe_event ev = ''authorization-requested'' then 1 else 0),
      v_cancels := v_cancels (view b i) + (if oe_request_id ev = i \<and> oe_event ev = ''cancelled'' then 1 else 0)\<rparr>"
  "view (reply ident r b) i = (view b i)\<lparr>v_replies := v_replies (view b i) @ (if i = ident then [r] else [])\<rparr>"
  "view (end_task ident b) i = (if i = ident then (view b i)\<lparr>v_task := None\<rparr> else view b i)"
  "view (drop_destination a b) i = view b i"
  by (auto simp: view_def requests_def cancels_def replies_def emit_event_def reply_def end_task_def drop_destination_def)

lemma view_fields [simp]:
  "v_task (view b i) = hm_get (ib_tasks b) i" "v_pending (view b i) \<longleftrightarrow> hm_get (ib_pending b) i \<noteq> None"
  "v_consent (view b i) \<longleftrightarrow> i \<in> set (ib_consents b)"
  by (simp_all add: view_def)

fun told :: "decision \<Rightarrow> authorization \<times> phase \<Rightarrow> authorization \<times> phase" where
  "told d (a, Waiting _) = (a, Waiting (Some d))"
| "told d (a, Expired) = (a, Expired)"

lemma send_decision_view:
  "view (send_decision d ident b) i = (if i = ident then (view b i)\<lparr>v_task := map_option (told d) (hm_get (ib_tasks b) i)\<rparr> else view b i)"
proof (cases "hm_get (ib_tasks b) ident")
  case (Some t)
  obtain a ph where t: "t = (a, ph)" by force
  show ?thesis using Some t by (cases ph) (auto simp: send_decision_def view_def requests_def cancels_def replies_def)
qed (auto simp: send_decision_def view_def)

lemma told_idem [simp]: "told d (told d t) = told d t"
  by (cases t; cases "snd t") auto

lemma send_all_view:
  "view (fold (send_decision d) idents b) i
     = (if i \<in> set idents then (view b i)\<lparr>v_task := map_option (told d) (hm_get (ib_tasks b) i)\<rparr> else view b i)"
proof (induction idents arbitrary: b)
  case (Cons j idents)
  have "hm_get (ib_tasks (send_decision d j b)) i = (if i = j then map_option (told d) (hm_get (ib_tasks b) i) else hm_get (ib_tasks b) i)"
    using arg_cong [OF send_decision_view [of d j b i], of v_task] by (auto split: if_splits)
  then show ?case using Cons by (auto simp: send_decision_view option.map_comp comp_def)
qed simp

lemma ok_viewE:
  assumes "ok_view v" and "v_task v = Some (a, ph)"
  shows "v_requests v = 1" "v_cancels v = 0" "v_replies v = []"
  using assms by (simp_all add: ok_view_def)

subsection \<open>Each step keeps the requests in order\<close>

lemma no_unit [simp]: "(x :: unit option) \<noteq> Some () \<longleftrightarrow> x = None"
  by (cases x) simp_all

lemma view_pending_same [simp]: "(view b i)\<lparr>v_pending := (hm_get (ib_pending b) i = Some ())\<rparr> = view b i"
  by (simp add: view_def)

lemma view_swap: "v\<lparr>v_pending := p, v_task := t\<rparr> = v\<lparr>v_task := t, v_pending := p\<rparr>"
  by (cases v) simp

definition trace_inv :: "incoming \<Rightarrow> bool" where
  "trace_inv b \<longleftrightarrow> (\<forall>i. ok_view (view b i))
     \<and> (\<forall>n. unat (ib_sequence b) \<le> unat n \<longrightarrow> requests b (incoming_id n) = 0)"

lemma ok_told:
  assumes "ok_view v" and "v_pending v" and "d = Accept \<longrightarrow> con"
  shows "ok_view (v\<lparr>v_task := map_option (told d) (v_task v), v_pending := False, v_consent := con\<rparr>)"
proof (cases "v_task v")
  case (Some t)
  obtain a ph where "t = (a, ph)" by force
  then show ?thesis using assms Some by (cases ph) (auto simp: ok_view_def)
qed (use assms in \<open>simp add: ok_view_def\<close>)

lemma ok_refused:
  assumes "ok_view v" and "v_task v = Some (a, ph)"
  shows "ok_view (v\<lparr>v_task := None, v_pending := False, v_cancels := Suc (v_cancels v), v_replies := v_replies v @ [Inl e]\<rparr>)"
  using assms by (auto simp: ok_view_def)

lemma ok_accepted:
  assumes "ok_view v" and "v_task v = Some (a, Waiting (Some Accept))"
  shows "ok_view (v\<lparr>v_task := None, v_replies := v_replies v @ [Inr p]\<rparr>)"
  using assms by (auto simp: ok_view_def)

lemma event_fields [simp]:
  "oe_request_id (authorization_event i a e st t) = i" "oe_event (authorization_event i a e st t) = e"
  by (simp_all add: authorization_event_def)

lemma waiting_not_pending:
  "ok_view (view b i) \<Longrightarrow> hm_get (ib_tasks b) i = Some (a, Waiting (Some d)) \<Longrightarrow> hm_get (ib_pending b) i = None"
  by (auto simp: ok_view_def)

lemma reject_view:
  "view (reject_authorization e ident a b) i = (if i = ident then (view b i)
     \<lparr>v_task := None, v_cancels := Suc (v_cancels (view b i)), v_replies := v_replies (view b i) @ [Inl e]\<rparr> else view b i)"
  by (simp add: reject_authorization_def)

lemma decide_ok:
  assumes "\<And>i. ok_view (view b i)"
  shows "ok_view (view (decide ident b) i)"
proof (cases "hm_get (ib_tasks b) ident")
  case (Some t)
  obtain a ph where t: "t = (a, ph)" by force
  show ?thesis
  proof (cases "\<exists>d. ph = Waiting (Some d)")
    case True
    then obtain d where ph: "ph = Waiting (Some d)" by blast
    have none: "hm_get (ib_pending b) ident = None" using waiting_not_pending [OF assms] Some t ph by simp
    show ?thesis
    proof (cases d)
      case Accept
      then show ?thesis
        using assms [of i] ok_accepted [OF assms [of ident], of a] Some t ph by (simp add: decide_def start_incoming_def)
    next
      case Reject
      then show ?thesis
        using assms [of i] ok_refused [OF assms [of ident], of a ph] Some t ph none
        by (simp add: decide_def reject_view) (simp add: view_def)
    next
      case Cancel
      then show ?thesis
        using assms [of i] ok_refused [OF assms [of ident], of a ph] Some t ph none
        by (simp add: decide_def reject_view) (simp add: view_def)
    qed
  next
    case False
    then show ?thesis using assms Some t by (auto simp: decide_def split: phase.split option.split)
  qed
qed (use assms in \<open>simp add: decide_def\<close>)

lemma respond_view:
  "view (fst (respond ident accept b)) i = (if i = ident \<and> hm_get (ib_pending b) ident \<noteq> None
     then (view b i)\<lparr>v_task := map_option (told (if accept then Accept else Reject)) (v_task (view b i)), v_pending := False,
       v_consent := (accept \<or> v_consent (view b i))\<rparr> else view b i)"
  by (auto simp: respond_def send_decision_view split: option.split)
     (auto simp: view_def requests_def cancels_def replies_def)

lemma respond_ok:
  assumes "\<And>i. ok_view (view b i)"
  shows "ok_view (view (fst (respond ident accept b)) i)"
  using assms [of i] ok_told [OF assms [of ident]] by (simp add: respond_view)

lemma cancel_transfer_view:
  "view (fst (cancel_transfer ident b)) i = (if i = ident \<and> hm_get (ib_pending b) ident \<noteq> None
     then (view b i)\<lparr>v_task := map_option (told Cancel) (v_task (view b i)), v_pending := False\<rparr> else view b i)"
  by (auto simp: cancel_transfer_def send_decision_view view_swap)

lemma ok_cancelled:
  assumes "ok_view v" and "v_pending v"
  shows "ok_view (v\<lparr>v_task := map_option (told Cancel) (v_task v), v_pending := False\<rparr>)"
  using ok_told [OF assms, of Cancel "v_consent v"] by simp

lemma cancel_transfer_ok:
  assumes "\<And>i. ok_view (view b i)"
  shows "ok_view (view (fst (cancel_transfer ident b)) i)"
  using assms [of i] ok_cancelled [OF assms [of ident]] by (simp add: cancel_transfer_view)

lemma cancel_authorizations_ok:
  assumes "\<And>i. ok_view (view b i)"
  shows "ok_view (view (cancel_authorizations b) i)"
proof (cases "hm_get (ib_pending b) i")
  case None
  then have "i \<notin> set (map fst (ib_pending b))" by (simp add: hm_get_None_notin)
  moreover have "(view b i)\<lparr>v_pending := False\<rparr> = view b i" using None by (simp add: view_def)
  ultimately show ?thesis using assms [of i] by (simp add: cancel_authorizations_def send_all_view)
next
  case (Some u)
  then have "i \<in> set (map fst (ib_pending b))" using hm_get_None_notin [of "ib_pending b" i] by auto
  then show ?thesis
    using ok_cancelled [OF assms [of i]] Some by (simp add: cancel_authorizations_def send_all_view view_swap)
qed

lemma deadline_ok:
  assumes "\<And>i. ok_view (view b i)"
  shows "ok_view (view (deadline ident b) i)"
proof (cases "\<exists>a. hm_get (ib_tasks b) ident = Some (a, Waiting None)")
  case True
  then obtain a where a: "hm_get (ib_tasks b) ident = Some (a, Waiting None)" by blast
  have "ok_view ((view b ident)\<lparr>v_task := Some (a, Expired)\<rparr>)" using assms [of ident] a by (simp add: ok_view_def)
  moreover have "view (deadline ident b) i = (if i = ident then (view b i)\<lparr>v_task := Some (a, Expired)\<rparr> else view b i)"
    using a by (auto simp: deadline_def view_def requests_def cancels_def replies_def)
  ultimately show ?thesis using assms [of i] by simp
next
  case False
  then have "deadline ident b = b" by (auto simp: deadline_def split: option.splits prod.splits phase.splits)
  then show ?thesis using assms by simp
qed

lemma expire_ok:
  assumes "\<And>i. ok_view (view b i)"
  shows "ok_view (view (expire ident b) i)"
proof (cases "\<exists>a. hm_get (ib_tasks b) ident = Some (a, Expired)")
  case True
  then obtain a where a: "hm_get (ib_tasks b) ident = Some (a, Expired)" by blast
  then show ?thesis
    using assms [of i] ok_refused [OF assms [of ident], of a Expired] by (simp add: expire_def reject_view view_swap)
next
  case False
  then have "expire ident b = b" by (auto simp: expire_def split: option.splits prod.splits phase.splits)
  then show ?thesis using assms by simp
qed

lemma abandon_ok:
  assumes "\<And>i. ok_view (view b i)"
  shows "ok_view (view (abandon ident b) i)"
proof (cases "\<exists>a d. hm_get (ib_tasks b) ident = Some (a, Waiting d)")
  case True
  then obtain a d where a: "hm_get (ib_tasks b) ident = Some (a, Waiting d)" by blast
  have other: "i \<noteq> ident \<Longrightarrow> view (abandon ident b) i = view b i" using a by (simp add: abandon_def drop_prompt_def)
  have "ok_view (view (abandon ident b) ident)"
    using assms [of ident] a by (cases d) (auto simp: abandon_def drop_prompt_def ok_view_def)
  then show ?thesis using assms [of i] other by (cases "i = ident") simp_all
next
  case False
  then have "abandon ident b = b" by (auto simp: abandon_def split: option.splits prod.splits phase.splits)
  then show ?thesis using assms by simp
qed

lemma incoming_id_inj: "incoming_id m = incoming_id n \<longleftrightarrow> m = n"
  by (simp add: incoming_id_def decimal_unat_inj)

lemma unrequested:
  assumes "ok_view v" and "v_requests v = 0"
  shows "v_task v = None" and "\<not> v_pending v" and "v_cancels v = 0" and "v_replies v = []"
  using assms by (auto simp: ok_view_def split: option.splits)

text \<open>A callback either changes nothing, or reserves a new file and opens the next request.\<close>

lemma prepare_authorization_result:
  shows "prepare_authorization connected details remote denied b = (b1, Inl e) \<Longrightarrow> b1 = b"
    and "prepare_authorization connected details remote denied b = (b1, Inr (ident, a)) \<Longrightarrow>
      ident = incoming_id (ib_sequence b) \<and> b1 = b\<lparr>ib_files := au_destination a # ib_files b, ib_sequence := ib_sequence b + 1\<rparr>
      \<and> au_destination a \<notin> set (ib_files b) \<and> CHR ''/'' \<notin> set (au_destination a)"
proof -
  have reserved: "files = name # ib_files b \<and> name \<notin> set (ib_files b) \<and> CHR ''/'' \<notin> set name"
    if "reserve_incoming_destination_in denied (safe_file_name v) (ib_files b) = (files, Inr name)" for v files name
    using reserve_from_result [OF that [unfolded reserve_incoming_destination_in_def]]
      candidate_keeps_plain [OF safe_file_name_facts(1), of v] by auto
  have same: "files = ib_files b"
    if "reserve_incoming_destination_in denied (safe_file_name v) (ib_files b) = (files, Inl e)" for v files e
    using reserve_from_result [OF that [unfolded reserve_incoming_destination_in_def]] by simp
  show "prepare_authorization connected details remote denied b = (b1, Inl e) \<Longrightarrow> b1 = b"
    by (auto simp: prepare_authorization_def split: if_splits sum.splits prod.splits dest!: same)
  show "prepare_authorization connected details remote denied b = (b1, Inr (ident, a)) \<Longrightarrow>
      ident = incoming_id (ib_sequence b) \<and> b1 = b\<lparr>ib_files := au_destination a # ib_files b, ib_sequence := ib_sequence b + 1\<rparr>
      \<and> au_destination a \<notin> set (ib_files b) \<and> CHR ''/'' \<notin> set (au_destination a)"
    by (auto simp: prepare_authorization_def split: if_splits sum.splits prod.splits dest!: reserved)
qed

lemma authorize_cases:
  obtains (unchanged) "authorize connected details remote denied b = b"
  | (opened) a where "authorize connected details remote denied b = request_decision (incoming_id (ib_sequence b)) a
        (b\<lparr>ib_files := au_destination a # ib_files b, ib_sequence := ib_sequence b + 1\<rparr>)"
      and "au_destination a \<notin> set (ib_files b)" and "CHR ''/'' \<notin> set (au_destination a)"
proof -
  obtain b1 r where p: "prepare_authorization connected details remote denied b = (b1, r)" by force
  show thesis
  proof (cases r)
    case (Inl e)
    then show ?thesis using p prepare_authorization_result(1) unchanged by (fastforce simp: authorize_def)
  next
    case (Inr ia)
    obtain ident a where "ia = (ident, a)" by force
    with Inr p have p: "prepare_authorization connected details remote denied b = (b1, Inr (ident, a))" by simp
    show ?thesis using prepare_authorization_result(2) [OF p] p by (intro opened [of a]) (simp_all add: authorize_def)
  qed
qed

lemma request_decision_view:
  "view (request_decision ident a b) i = (if i = ident then (view b i)
     \<lparr>v_task := Some (a, Waiting None), v_pending := True, v_requests := Suc (v_requests (view b i))\<rparr> else view b i)"
  by (auto simp: request_decision_def view_swap)

lemma authorize_trace:
  assumes "trace_inv b" and "unat (ib_sequence b) + 1 < 2 ^ 64"
  shows "trace_inv (authorize connected details remote denied b)"
proof -
  let ?b = "authorize connected details remote denied b" and ?i = "incoming_id (ib_sequence b)"
  have ok: "ok_view (view b i)" and fresh: "unat (ib_sequence b) \<le> unat n \<Longrightarrow> requests b (incoming_id n) = 0" for i n
    using assms(1) by (simp_all add: trace_inv_def)
  show ?thesis
  proof (cases rule: authorize_cases [of connected details remote denied b])
    case unchanged
    then show ?thesis using assms(1) by simp
  next
    case (opened a)
    note b = opened(1)
    have zero: "v_requests (view b ?i) = 0" using fresh [of "ib_sequence b"] by (simp add: view_def)
    have view: "view ?b i = (if i = ?i then (view b i)\<lparr>v_task := Some (a, Waiting None), v_pending := True, v_requests := 1\<rparr> else view b i)" for i
      using zero unfolding b by (simp add: request_decision_view)
    have "ok_view (view ?b i)" for i
      using ok [of i] unrequested [OF ok zero] by (auto simp: view ok_view_def)
    moreover have "requests ?b (incoming_id n) = 0" if n: "unat (ib_sequence b + 1) \<le> unat n" for n
    proof -
      have "unat (ib_sequence b + 1) = Suc (unat (ib_sequence b))" using assms(2) by (intro unat_inc_below) simp
      then have "incoming_id n \<noteq> ?i" "requests b (incoming_id n) = 0" using n fresh [of n] by (auto simp: incoming_id_inj)
      then show ?thesis using arg_cong [OF view [of "incoming_id n"], of v_requests] by (simp add: view_def)
    qed
    moreover have "ib_sequence ?b = ib_sequence b + 1" unfolding b by (simp add: request_decision_def emit_event_def)
    ultimately show ?thesis by (simp add: trace_inv_def)
  qed
qed

lemma trace_inv_quiet:
  assumes "trace_inv b" and "\<And>i. ok_view (view b' i)" and "ib_sequence b' = ib_sequence b"
    and "\<And>i. v_requests (view b' i) = v_requests (view b i)"
  shows "trace_inv b'"
proof -
  have "requests b' i = requests b i" for i using assms(4) [of i] by (simp add: view_def)
  then show ?thesis using assms(1-3) by (simp add: trace_inv_def)
qed

lemma sequence_actions [simp]:
  "ib_sequence (emit_event ev b) = ib_sequence b" "ib_sequence (reply i r b) = ib_sequence b"
  "ib_sequence (end_task i b) = ib_sequence b" "ib_sequence (drop_destination a b) = ib_sequence b"
  "ib_sequence (send_decision d i b) = ib_sequence b"
  by (simp_all add: emit_event_def reply_def end_task_def drop_destination_def send_decision_def split: option.split prod.split phase.split)

lemma sequence_send_all [simp]: "ib_sequence (fold (send_decision d) idents b) = ib_sequence b"
  by (induction idents arbitrary: b) simp_all

lemma sequence_steps [simp]:
  "ib_sequence (fst (respond ident accept b)) = ib_sequence b" "ib_sequence (fst (cancel_transfer ident b)) = ib_sequence b"
  "ib_sequence (cancel_authorizations b) = ib_sequence b" "ib_sequence (decide ident b) = ib_sequence b"
  "ib_sequence (deadline ident b) = ib_sequence b" "ib_sequence (expire ident b) = ib_sequence b"
  "ib_sequence (abandon ident b) = ib_sequence b" "ib_sequence (transfer_ended ident b) = ib_sequence b"
  by (simp_all add: respond_def cancel_transfer_def cancel_authorizations_def decide_def start_incoming_def
      reject_authorization_def deadline_def expire_def abandon_def drop_prompt_def transfer_ended_def
      split: option.split prod.split phase.split decision.split)

lemma requests_steps [simp]:
  "v_requests (view (fst (respond ident accept b)) i) = v_requests (view b i)"
  "v_requests (view (fst (cancel_transfer ident b)) i) = v_requests (view b i)"
  "v_requests (view (cancel_authorizations b) i) = v_requests (view b i)"
  "v_requests (view (decide ident b) i) = v_requests (view b i)"
  "v_requests (view (deadline ident b) i) = v_requests (view b i)"
  "v_requests (view (expire ident b) i) = v_requests (view b i)"
  "v_requests (view (abandon ident b) i) = v_requests (view b i)"
  "v_requests (view (transfer_ended ident b) i) = v_requests (view b i)"
  by (simp_all add: respond_view cancel_transfer_view cancel_authorizations_def send_all_view decide_def start_incoming_def
      reject_authorization_def deadline_def expire_def abandon_def drop_prompt_def transfer_ended_def
      split: option.split prod.split phase.split decision.split)

lemma incoming_step_trace:
  assumes "incoming_step b b'" and "trace_inv b"
  shows "trace_inv b'"
proof -
  have ok: "\<And>i. ok_view (view b i)" using assms(2) by (simp add: trace_inv_def)
  note quiet = trace_inv_quiet [OF assms(2)]
  show ?thesis
    using assms(1)
  proof cases
    case (authorize connected details remote denied)
    then show ?thesis using authorize_trace [OF assms(2)] by simp
  next
    case (respond ident accept)
    show ?thesis unfolding respond by (rule quiet [OF respond_ok [OF ok]]) simp_all
  next
    case (cancel ident)
    show ?thesis unfolding cancel by (rule quiet [OF cancel_transfer_ok [OF ok]]) simp_all
  next
    case cancel_authorizations
    show ?thesis unfolding cancel_authorizations by (rule quiet [OF cancel_authorizations_ok [OF ok]]) simp_all
  next
    case (decide ident)
    show ?thesis unfolding decide by (rule quiet [OF decide_ok [OF ok]]) simp_all
  next
    case (deadline ident)
    show ?thesis unfolding deadline by (rule quiet [OF deadline_ok [OF ok]]) simp_all
  next
    case (expire ident)
    show ?thesis unfolding expire by (rule quiet [OF expire_ok [OF ok]]) simp_all
  next
    case (abandon ident)
    show ?thesis unfolding abandon by (rule quiet [OF abandon_ok [OF ok]]) simp_all
  next
    case (transfer_ended ident)
    show ?thesis unfolding transfer_ended by (rule quiet) (simp_all add: ok transfer_ended_def)
  qed
qed

subsection \<open>Reserved files\<close>

definition held :: "incoming \<Rightarrow> string \<Rightarrow> string option" where
  "held b i = map_option (\<lambda>t. au_destination (fst t)) (hm_get (ib_tasks b) i)"

definition handed_over :: "incoming \<Rightarrow> string set" where
  "handed_over b = {p. \<exists>i. (i, Inr p) \<in> set (ib_replies b)}"

text \<open>The files of the directory: those of the start, those handed to obexd, those of waiting callbacks.\<close>

definition file_inv :: "string list \<Rightarrow> incoming \<Rightarrow> bool" where
  "file_inv files0 b \<longleftrightarrow> inj_on (held b) (dom (held b)) \<and> ran (held b) \<inter> (set files0 \<union> handed_over b) = {}
     \<and> handed_over b \<inter> set files0 = {} \<and> set (ib_files b) = set files0 \<union> handed_over b \<union> ran (held b)"

lemma file_inv_same:
  assumes "file_inv files0 b" and "held b' = held b" and "handed_over b' = handed_over b" and "ib_files b' = ib_files b"
  shows "file_inv files0 b'"
  using assms by (simp add: file_inv_def)

lemma ran_drop:
  assumes "inj_on h (dom h)" and "h i = Some p"
  shows "ran (h(i := None)) = ran h - {p}"
proof -
  have same: "j = i" if "h j = Some p" for j
    by (rule inj_onD [OF assms(1)]) (simp_all add: that assms(2) domIff)
  show ?thesis
  proof (rule set_eqI)
    fix q
    show "q \<in> ran (h(i := None)) \<longleftrightarrow> q \<in> ran h - {p}"
    proof
      assume "q \<in> ran (h(i := None))"
      then obtain j where j: "j \<noteq> i" "h j = Some q" by (auto simp: ran_def split: if_splits)
      then show "q \<in> ran h - {p}" using same [of j] by (auto simp: ran_def)
    next
      assume "q \<in> ran h - {p}"
      then obtain j where j: "h j = Some q" "q \<noteq> p" by (auto simp: ran_def)
      then have "(h(i := None)) j = Some q" using assms(2) by auto
      then show "q \<in> ran (h(i := None))" by (rule ranI)
    qed
  qed
qed

lemma inj_drop: "inj_on h (dom h) \<Longrightarrow> inj_on (h(i := None)) (dom (h(i := None)))"
  by (auto simp: inj_on_def dom_def)

lemma file_inv_dropped:
  assumes "file_inv files0 b" and "held b i = Some p" and "held b' = (held b)(i := None)"
    and "handed_over b' = handed_over b" and "ib_files b' = remove_reservation p (ib_files b)"
  shows "file_inv files0 b'"
proof -
  have inj: "inj_on (held b) (dom (held b))" using assms(1) by (simp add: file_inv_def)
  have "p \<in> ran (held b)" using assms(2) by (auto simp: ran_def)
  then show ?thesis
    using assms(1,3-5) inj_drop [OF inj, of i] ran_drop [OF inj assms(2)]
    by (auto simp: file_inv_def remove_reservation_def)
qed

lemma file_inv_handed:
  assumes "file_inv files0 b" and "held b i = Some p" and "held b' = (held b)(i := None)"
    and "handed_over b' = insert p (handed_over b)" and "ib_files b' = ib_files b"
  shows "file_inv files0 b'"
proof -
  have inj: "inj_on (held b) (dom (held b))" using assms(1) by (simp add: file_inv_def)
  have "p \<in> ran (held b)" using assms(2) by (auto simp: ran_def)
  then show ?thesis
    using assms(1,3-5) inj_drop [OF inj, of i] ran_drop [OF inj assms(2)] by (auto simp: file_inv_def)
qed

lemma file_inv_reserved:
  assumes "file_inv files0 b" and "held b i = None" and "p \<notin> set (ib_files b)" and "held b' = (held b)(i \<mapsto> p)"
    and "handed_over b' = handed_over b" and "ib_files b' = p # ib_files b"
  shows "file_inv files0 b'"
proof -
  have p: "p \<notin> ran (held b)" using assms(1,3) by (simp add: file_inv_def)
  have inj: "inj_on (held b) (dom (held b))" using assms(1) by (simp add: file_inv_def)
  have "inj_on ((held b)(i \<mapsto> p)) (dom (held b))"
    using inj assms(2) by (simp add: inj_on_def domIff)
  moreover have "Some p \<notin> held b ` dom (held b)" using p by (force simp: ran_def)
  then have "Some p \<notin> ((held b)(i \<mapsto> p)) ` (dom (held b) - {i})" by (auto simp: image_iff)
  ultimately have "inj_on ((held b)(i \<mapsto> p)) (dom ((held b)(i \<mapsto> p)))" by simp
  moreover have "ran ((held b)(i \<mapsto> p)) = insert p (ran (held b))" using assms(2) by (rule ran_map_upd)
  ultimately show ?thesis
    using assms(1,3) by (simp add: file_inv_def assms(4-6) p Int_Un_distrib)
qed

lemma held_actions [simp]:
  "held (emit_event ev b) = held b" "held (reply i r b) = held b" "held (end_task i b) = (held b)(i := None)"
  "held (drop_destination a b) = held b" "held (b\<lparr>ib_pending := ps\<rparr>) = held b" "held (b\<lparr>ib_files := fs\<rparr>) = held b"
  "held (b\<lparr>ib_sequence := n\<rparr>) = held b" "held (b\<lparr>ib_cancellations := cs\<rparr>) = held b"
  "held (b\<lparr>ib_pending := ps, ib_consents := k\<rparr>) = held b" "held (b\<lparr>ib_cancellations := cs, ib_stopped := st\<rparr>) = held b"
  by (auto simp: held_def emit_event_def reply_def end_task_def drop_destination_def)

lemma held_send [simp]: "held (send_decision d i b) = held b"
  by (rule ext) (auto simp: held_def send_decision_def split: option.split phase.split)

lemma held_send_all [simp]: "held (fold (send_decision d) idents b) = held b"
  by (induction idents arbitrary: b) simp_all

lemma handed_actions [simp]:
  "handed_over (emit_event ev b) = handed_over b" "handed_over (end_task i b) = handed_over b"
  "handed_over (drop_destination a b) = handed_over b" "handed_over (b\<lparr>ib_pending := ps\<rparr>) = handed_over b"
  "handed_over (b\<lparr>ib_files := fs\<rparr>) = handed_over b" "handed_over (b\<lparr>ib_sequence := n\<rparr>) = handed_over b"
  "handed_over (b\<lparr>ib_cancellations := cs\<rparr>) = handed_over b" "handed_over (b\<lparr>ib_tasks := ts\<rparr>) = handed_over b"
  "handed_over (b\<lparr>ib_consents := k\<rparr>) = handed_over b" "handed_over (b\<lparr>ib_stopped := st\<rparr>) = handed_over b"
  "handed_over (reply i (Inl e) b) = handed_over b" "handed_over (reply i (Inr p) b) = insert p (handed_over b)"
  by (auto simp: handed_over_def emit_event_def reply_def end_task_def drop_destination_def)

lemma handed_send [simp]: "handed_over (send_decision d i b) = handed_over b"
  by (simp add: send_decision_def split: option.split prod.split phase.split)

lemma handed_send_all [simp]: "handed_over (fold (send_decision d) idents b) = handed_over b"
  by (induction idents arbitrary: b) simp_all

lemma files_actions [simp]:
  "ib_files (emit_event ev b) = ib_files b" "ib_files (end_task i b) = ib_files b" "ib_files (reply i r b) = ib_files b"
  "ib_files (drop_destination a b) = remove_reservation (au_destination a) (ib_files b)" "ib_files (send_decision d i b) = ib_files b"
  by (simp_all add: emit_event_def end_task_def reply_def drop_destination_def send_decision_def split: option.split prod.split phase.split)

lemma files_send_all [simp]: "ib_files (fold (send_decision d) idents b) = ib_files b"
  by (induction idents arbitrary: b) simp_all

lemma held_task: "hm_get (ib_tasks b) i = Some (a, ph) \<Longrightarrow> held b i = Some (au_destination a)"
  by (simp add: held_def)

lemma reject_file_inv:
  assumes "file_inv files0 b" and "hm_get (ib_tasks b) ident = Some (a, ph)"
  shows "file_inv files0 (reject_authorization e ident a b)"
  by (rule file_inv_dropped [OF assms(1) held_task [OF assms(2)]]) (simp_all add: reject_authorization_def)

lemma decide_file_inv:
  assumes "file_inv files0 b"
  shows "file_inv files0 (decide ident b)"
proof -
  have "file_inv files0 (start_incoming ident a b)" if "hm_get (ib_tasks b) ident = Some (a, ph)" for a ph
    by (rule file_inv_handed [OF assms held_task [OF that]]) (simp_all add: start_incoming_def)
  then show ?thesis
    using assms reject_file_inv [OF assms] by (auto simp: decide_def split: option.split phase.split decision.split)
qed

lemma expire_file_inv:
  assumes "file_inv files0 b"
  shows "file_inv files0 (expire ident b)"
proof -
  have b: "file_inv files0 (b\<lparr>ib_pending := ps\<rparr>)" for ps by (rule file_inv_same [OF assms]) simp_all
  show ?thesis using assms reject_file_inv [OF b] by (auto simp: expire_def split: option.split phase.split)
qed

lemma abandon_file_inv:
  assumes "file_inv files0 b"
  shows "file_inv files0 (abandon ident b)"
proof -
  have "file_inv files0 (drop_destination a (end_task ident (drop_prompt ident a b)))"
    if "hm_get (ib_tasks b) ident = Some (a, ph)" for a ph
    by (rule file_inv_dropped [OF assms held_task [OF that]]) (simp_all add: drop_prompt_def)
  then show ?thesis using assms by (auto simp: abandon_def split: option.split phase.split)
qed

lemma authorize_file_inv:
  assumes "file_inv files0 b" and "trace_inv b"
  shows "file_inv files0 (authorize connected details remote denied b)"
proof (cases rule: authorize_cases [of connected details remote denied b])
  case unchanged
  then show ?thesis using assms(1) by simp
next
  case (opened a)
  let ?i = "incoming_id (ib_sequence b)"
  have "v_requests (view b ?i) = 0" using assms(2) by (simp add: trace_inv_def view_def)
  moreover have "ok_view (view b ?i)" using assms(2) by (simp add: trace_inv_def)
  ultimately have "hm_get (ib_tasks b) ?i = None" using unrequested(1) [of "view b ?i"] by simp
  then have none: "held b ?i = None" by (simp add: held_def)
  show ?thesis unfolding opened(1)
    by (rule file_inv_reserved [OF assms(1) none opened(2)])
       (simp_all add: request_decision_def held_def fun_eq_iff)
qed

lemma incoming_step_files:
  assumes "incoming_step b b'" and "trace_inv b" and "file_inv files0 b"
  shows "file_inv files0 b'"
  using assms(1)
proof cases
  case (authorize connected details remote denied)
  then show ?thesis using authorize_file_inv assms by simp
next
  case (respond ident accept)
  show ?thesis unfolding respond by (rule file_inv_same [OF assms(3)]) (simp_all add: ObexIncoming.respond_def split: option.split)
next
  case (cancel ident)
  show ?thesis unfolding cancel by (rule file_inv_same [OF assms(3)]) (simp_all add: cancel_transfer_def)
next
  case cancel_authorizations
  show ?thesis unfolding cancel_authorizations by (rule file_inv_same [OF assms(3)]) (simp_all add: cancel_authorizations_def)
next
  case (decide ident)
  then show ?thesis using decide_file_inv assms by simp
next
  case (deadline ident)
  show ?thesis unfolding deadline
    by (rule file_inv_same [OF assms(3)]) (simp_all add: deadline_def held_def fun_eq_iff split: option.split prod.split phase.split)
next
  case (expire ident)
  then show ?thesis using expire_file_inv assms by simp
next
  case (abandon ident)
  then show ?thesis using abandon_file_inv assms by simp
next
  case (transfer_ended ident)
  show ?thesis unfolding transfer_ended by (rule file_inv_same [OF assms(3)]) (simp_all add: transfer_ended_def)
qed

interpretation incoming_run: step_system "\<lambda>b. b = incoming_new files0" incoming_step "\<lambda>b. trace_inv b \<and> file_inv files0 b"
  for files0
proof
  show "trace_inv b \<and> file_inv files0 b" if "b = incoming_new files0" for b
    using that by (simp add: trace_inv_def file_inv_def ok_view_def view_def incoming_new_def requests_def cancels_def
        replies_def held_def handed_over_def dom_def ran_def)
qed (use incoming_step_trace incoming_step_files in blast)

lemma incoming_invariants:
  assumes "incoming_step\<^sup>*\<^sup>* (incoming_new files0) b"
  shows "trace_inv b \<and> file_inv files0 b"
  by (rule incoming_run.reachable_inv [OF assms refl])

subsection \<open>Outgoing transfers\<close>

record outgoing =
  og_sequence :: u64
  og_cancellations :: "(string, string option) hmap"  \<comment> \<open>the owner of each\<close>
  og_cancelled :: "string list"  \<comment> \<open>transfers whose task was told to stop\<close>
  og_events :: "obex_event list"

definition outgoing_new :: outgoing where
  "outgoing_new = \<lparr>og_sequence = 1, og_cancellations = [], og_cancelled = [], og_events = []\<rparr>"

definition outgoing_id :: "u64 \<Rightarrow> string" where
  "outgoing_id n = ''obex-transfer-'' @ decimal (unat n)"

text \<open>\<open>target\<close> is the backend's answer for the device and \<open>start\<close> that of \<open>obex::start_file\<close>.\<close>

definition start_owned ::
    "json \<Rightarrow> string option \<Rightarrow> (string \<Rightarrow> failure + string \<times> string) \<Rightarrow> (string \<times> string \<Rightarrow> string \<Rightarrow> failure + active_transfer)
      \<Rightarrow> outgoing \<Rightarrow> outgoing \<times> (envelope_error + obex_event)" where
  "start_owned params owner target start s =
     (case checked (require_strings params ''device_key'' ''path'') of
        Inl e \<Rightarrow> (s, Inl (api_error ''validation-error'' (error_text e)))
      | Inr (device_key, path) \<Rightarrow>
          (case target device_key of
             Inl e \<Rightarrow> (s, Inl (error_details e))
           | Inr addresses \<Rightarrow>
               (case start addresses path of
                  Inl e \<Rightarrow> (s, Inl (api_error ''obex-start-failed'' (error_chain e)))
                | Inr t \<Rightarrow>
                    (let ident = outgoing_id (og_sequence s) in
                     (s\<lparr>og_sequence := og_sequence s + 1,
                        og_cancellations := hm_insert ident owner (og_cancellations s)\<rparr>,
                      Inr (outgoing_event ident device_key (at_file_name t) (at_size t)))))))"

text \<open>The task of a transfer ends: its slot goes, and a failure is published.\<close>

definition outgoing_ended :: "string \<Rightarrow> obex_event list \<Rightarrow> outgoing \<Rightarrow> outgoing" where
  "outgoing_ended ident evs s = s\<lparr>og_cancellations := hm_remove ident (og_cancellations s), og_events := og_events s @ evs\<rparr>"

definition cancel_owned :: "string \<Rightarrow> string option \<Rightarrow> outgoing \<Rightarrow> outgoing \<times> bool" where
  "cancel_owned ident owner s =
     (if hm_get (og_cancellations s) ident \<noteq> Some owner then (s, False)
      else (s\<lparr>og_cancellations := hm_remove ident (og_cancellations s), og_cancelled := ident # og_cancelled s\<rparr>, True))"

definition cancel_outgoing :: "string \<Rightarrow> outgoing \<Rightarrow> outgoing \<times> bool" where
  "cancel_outgoing ident s = cancel_owned ident None s"

definition cancel_owner :: "string \<Rightarrow> outgoing \<Rightarrow> outgoing" where
  "cancel_owner owner s =
     s\<lparr>og_cancellations := hm_retain (\<lambda>_ c. c \<noteq> Some owner) (og_cancellations s),
       og_cancelled := map fst (filter (\<lambda>(_, c). c = Some owner) (og_cancellations s)) @ og_cancelled s\<rparr>"

text \<open>\<open>ObexCoordinator::cancel\<close>: an outgoing transfer without owner first, then an incoming one.\<close>

definition coordinator_cancel :: "string \<Rightarrow> outgoing \<Rightarrow> incoming \<Rightarrow> outgoing \<times> incoming \<times> bool" where
  "coordinator_cancel ident out b =
     (case cancel_outgoing ident out of
        (out', True) \<Rightarrow> (out', b, True)
      | (out', False) \<Rightarrow> (case cancel_transfer ident b of (b', r) \<Rightarrow> (out', b', r)))"

definition incoming_agent_enabled :: "string option \<Rightarrow> bool" where
  "incoming_agent_enabled v = (v = Some ''1'')"

subsection \<open>Properties\<close>

text \<open>
  C6. In every reachable state of the incoming broker, whatever obexd, the frontends, the deadlines and
  abandoned callbacks do, a request is announced, cancelled and answered at most once; obexd is told to
  store a file only after that very request was accepted, and no such request is ever published as cancelled
  by its authorization; a refusal is always published.
\<close>

theorem incoming_requires_consent:
  assumes "incoming_step\<^sup>*\<^sup>* (incoming_new files0) b"
  shows "requests b i \<le> 1 \<and> cancels b i \<le> requests b i \<and> length (replies b i) \<le> requests b i
    \<and> (\<forall>p. (i, Inr p) \<in> set (ib_replies b) \<longrightarrow> i \<in> set (ib_consents b) \<and> cancels b i = 0)
    \<and> (\<forall>e. (i, Inl e) \<in> set (ib_replies b) \<longrightarrow> cancels b i = 1)"
proof (intro conjI allI impI)
  have ok: "ok_view (view b i)" using incoming_invariants [OF assms] by (simp add: trace_inv_def)
  have r: "(i, r) \<in> set (ib_replies b) \<Longrightarrow> r \<in> set (replies b i)" for r by (force simp: replies_def)
  show "requests b i \<le> 1" and "cancels b i \<le> requests b i" and "length (replies b i) \<le> requests b i"
    using ok by (auto simp: ok_view_def view_def split: option.splits)
  show "i \<in> set (ib_consents b)" and "cancels b i = 0" if "(i, Inr p) \<in> set (ib_replies b)" for p
    using ok r [OF that] by (auto simp: ok_view_def view_def split: option.splits)
  show "cancels b i = 1" if "(i, Inl e) \<in> set (ib_replies b)" for e
    using ok r [OF that] by (auto simp: ok_view_def view_def split: option.splits)
qed

definition demo_details :: incoming_details where
  "demo_details = \<lparr>in_source = ''s'', in_destination = ''d'', in_name = ''../a.txt'', in_media_type = None, in_size = 7\<rparr>"

definition demo_incoming :: incoming where
  "demo_incoming = decide ''obex-incoming-1'' (fst (respond ''obex-incoming-1'' True
     (authorize True (Inr demo_details) (\<lambda>_. Inr (''device-1'', ''Phone'')) (\<lambda>_. None) (incoming_new [''a.txt'']))))"

lemma demo_incoming_reachable: "incoming_step\<^sup>*\<^sup>* (incoming_new [''a.txt'']) demo_incoming"
proof -
  have "incoming_step (incoming_new [''a.txt'']) (authorize True (Inr demo_details) (\<lambda>_. Inr (''device-1'', ''Phone'')) (\<lambda>_. None) (incoming_new [''a.txt'']))"
    by (rule incoming_step.authorize) (simp add: incoming_new_def)
  then show ?thesis unfolding demo_incoming_def
    by (meson incoming_step.decide incoming_step.respond r_into_rtranclp rtranclp.rtrancl_into_rtrancl)
qed

theorem incoming_requires_consent_witness:
  "ib_replies demo_incoming = [(''obex-incoming-1'', Inr ''a (1).txt'')] \<and> ''obex-incoming-1'' \<in> set (ib_consents demo_incoming)"
proof -
  have "ib_replies demo_incoming = [(''obex-incoming-1'', Inr ''a (1).txt'')]" by code_simp
  then show ?thesis using incoming_requires_consent [OF demo_incoming_reachable, of "''obex-incoming-1''"] by simp
qed

text \<open>
  The download directory holds exactly the files it started with, those handed to obexd and those
  reserved by callbacks that still wait; these never overlap, so a refused, expired or abandoned request
  leaves no file behind and removes none but its own.
\<close>

theorem incoming_files_exact:
  assumes "incoming_step\<^sup>*\<^sup>* (incoming_new files0) b"
  shows "set (ib_files b) = set files0 \<union> handed_over b \<union> ran (held b)
    \<and> handed_over b \<inter> set files0 = {} \<and> ran (held b) \<inter> (set files0 \<union> handed_over b) = {} \<and> inj_on (held b) (dom (held b))"
  using incoming_invariants [OF assms] by (simp add: file_inv_def)

theorem incoming_files_exact_witness:
  "set (ib_files demo_incoming) = {''a.txt''} \<union> handed_over demo_incoming \<union> ran (held demo_incoming)"
  using incoming_files_exact [OF demo_incoming_reachable] by simp

text \<open>
  An owner can stop exactly its own outgoing transfers: \<open>cancel_owned\<close> succeeds exactly for a transfer of
  that owner and then leaves every other one alone, and \<open>cancel_owner\<close> stops all and only the owner's.
\<close>

theorem outgoing_owner_isolation:
  assumes "hm_ok (og_cancellations s)"
  shows "snd (cancel_owned ident owner s) = (hm_get (og_cancellations s) ident = Some owner)"
    and "hm_get (og_cancellations (fst (cancel_owned ident owner s))) j
      = (if j = ident \<and> hm_get (og_cancellations s) ident = Some owner then None else hm_get (og_cancellations s) j)"
    and "hm_get (og_cancellations (cancel_owner who s)) j
      = (if hm_get (og_cancellations s) j = Some (Some who) then None else hm_get (og_cancellations s) j)"
    and "\<exists>stopped. og_cancelled (cancel_owner who s) = stopped @ og_cancelled s
      \<and> distinct stopped \<and> (\<forall>j. j \<in> set stopped \<longleftrightarrow> hm_get (og_cancellations s) j = Some (Some who))"
proof -
  show "snd (cancel_owned ident owner s) = (hm_get (og_cancellations s) ident = Some owner)"
    and "hm_get (og_cancellations (fst (cancel_owned ident owner s))) j
      = (if j = ident \<and> hm_get (og_cancellations s) ident = Some owner then None else hm_get (og_cancellations s) j)"
    by (simp_all add: cancel_owned_def)
  show "hm_get (og_cancellations (cancel_owner who s)) j
      = (if hm_get (og_cancellations s) j = Some (Some who) then None else hm_get (og_cancellations s) j)"
    using assms by (simp add: cancel_owner_def split: option.split)
  let ?l = "map fst (filter (\<lambda>(_, c). c = Some who) (og_cancellations s))"
  have "distinct ?l" using assms by (simp add: hm_ok_def distinct_map_filter)
  moreover have "j \<in> set ?l \<longleftrightarrow> hm_get (og_cancellations s) j = Some (Some who)" for j
    using hm_in_set [OF assms, of j "Some who"] by force
  ultimately show "\<exists>stopped. og_cancelled (cancel_owner who s) = stopped @ og_cancelled s
      \<and> distinct stopped \<and> (\<forall>j. j \<in> set stopped \<longleftrightarrow> hm_get (og_cancellations s) j = Some (Some who))"
    by (intro exI [of _ ?l]) (simp add: cancel_owner_def)
qed

definition demo_outgoing :: outgoing where
  "demo_outgoing = outgoing_new\<lparr>og_cancellations := [(''a'', Some ''owner''), (''c'', Some ''peer''), (''d'', None)]\<rparr>"

theorem outgoing_owner_isolation_witness:
  "\<not> snd (cancel_owned ''c'' (Some ''owner'') demo_outgoing)
   \<and> hm_get (og_cancellations (cancel_owner ''owner'' demo_outgoing)) ''a'' = None
   \<and> hm_get (og_cancellations (cancel_owner ''owner'' demo_outgoing)) ''c'' = Some (Some ''peer'')"
proof -
  have ok: "hm_ok (og_cancellations demo_outgoing)" by (simp add: demo_outgoing_def hm_ok_def)
  show ?thesis unfolding outgoing_owner_isolation(1,3) [OF ok] by (simp add: demo_outgoing_def hm_get_def)
qed

end
