(* ===== verification/Scan.thy ===== *)
theory Scan
  imports Backend "HOL-Library.List_Lexorder" "HOL-Library.Char_ord"
begin

text \<open>
  \<open>ScanCoordinator\<close> of \<open>src/daemon/scan.rs\<close>: discovery sessions that share adapters.

  The answers of the backend are arguments: \<open>stops\<close> is what \<open>set_scanning(Some key, false)\<close>
  returns for each adapter, \<open>latest\<close> what \<open>snapshot()\<close> returns. Of a snapshot only the adapters
  matter here. \<open>sc_events\<close> is the stream of published events and \<open>sc_stopped\<close> the adapters whose
  discovery was asked to stop, both oldest first. Spawned timers are the ids in \<open>sc_tasks\<close>.
\<close>

record adapter_view =
  av_key :: string
  av_powered :: bool
  av_discovering :: bool

type_synonym snapshot = "adapter_view list"

record scan_event =
  se_event :: string
  se_request_id :: string
  se_adapter_key :: "string option"
  se_adapter_keys :: "string list"
  se_owner :: string
  se_state :: string
  se_timeout_ms :: "nat option"
  se_snapshot :: "snapshot option"
  se_error :: "string option"

record coordinator =
  sc_sequence :: u64
  sc_tasks :: "(string, scan_event) hmap"
  sc_events :: "scan_event list"
  sc_stopped :: "string list"

definition coordinator_new :: coordinator where
  "coordinator_new = \<lparr>sc_sequence = 1, sc_tasks = [], sc_events = [], sc_stopped = []\<rparr>"

subsection \<open>Requests\<close>

datatype scan_request = Start "string option" nat | Stop "string option"

datatype scan_error = BadParam param_error | BadEnabled | BadTimeout

definition clamp :: "nat \<Rightarrow> nat \<Rightarrow> nat \<Rightarrow> nat" where
  "clamp lo hi n = max lo (min hi n)"

fun lift_param :: "param_error + 'a \<Rightarrow> scan_error + 'a" where
  "lift_param (Inl e) = Inl (BadParam e)"
| "lift_param (Inr a) = Inr a"

definition parse_scan :: "json \<Rightarrow> scan_error + scan_request" where
  "parse_scan params =
     res_bind (case json_get params ''enabled'' of
         None \<Rightarrow> Inr True | Some (JBool b) \<Rightarrow> Inr b | Some _ \<Rightarrow> Inl BadEnabled) (\<lambda>enabled.
       if \<not> enabled then
         res_bind (lift_param (optional_string params ''request_id'')) (\<lambda>r. Inr (Stop r))
       else
         res_bind (lift_param (optional_string params ''adapter_key'')) (\<lambda>adapter_key.
         res_bind (case json_get params ''timeout_ms'' of
             None \<Rightarrow> Inr 15000
           | Some v \<Rightarrow> (case as_u64 v of
               Some n \<Rightarrow> Inr (clamp 1000 60000 n) | None \<Rightarrow> Inl BadTimeout)) (\<lambda>timeout_ms.
           Inr (Start adapter_key timeout_ms))))"

subsection \<open>Selection\<close>

definition selects :: "string option \<Rightarrow> string option \<Rightarrow> string \<Rightarrow> scan_event \<Rightarrow> bool" where
  "selects request_id owner k task =
     ((case request_id of None \<Rightarrow> True | Some r \<Rightarrow> r = k)
      \<and> (case owner of None \<Rightarrow> True | Some w \<Rightarrow> se_owner task = w))"

definition select_scans ::
    "(string, scan_event) hmap \<Rightarrow> string option \<Rightarrow> string option \<Rightarrow> string list \<times> string list" where
  "select_scans tasks request_id owner =
     (let chosen = filter (\<lambda>(k, t). selects request_id owner k t) tasks;
          kept = filter (\<lambda>(k, t). \<not> selects request_id owner k t) tasks;
          keys = (\<lambda>ts. concat (map (\<lambda>(_, t). se_adapter_keys t) ts))
      in (map fst chosen,
          sort (remdups (filter (\<lambda>a. a \<notin> set (keys kept)) (keys chosen)))))"

definition powered_adapter_keys :: "snapshot \<Rightarrow> string option \<Rightarrow> string list" where
  "powered_adapter_keys snap requested =
     map av_key (filter (\<lambda>a. av_powered a \<and> av_discovering a
       \<and> (case requested of None \<Rightarrow> True | Some k \<Rightarrow> av_key a = k)) snap)"

text \<open>\<open>stop_adapters\<close>: every adapter is tried; the first error or the last snapshot is the result.\<close>

fun stop_results :: "(string \<Rightarrow> string + snapshot) \<Rightarrow> string list \<Rightarrow> string + snapshot option
    \<Rightarrow> string + snapshot option" where
  "stop_results stops [] acc = acc"
| "stop_results stops (k # ks) acc =
     stop_results stops ks
       (case acc of Inl e \<Rightarrow> Inl e | Inr _ \<Rightarrow> (case stops k of Inl e \<Rightarrow> Inl e | Inr s \<Rightarrow> Inr (Some s)))"

definition stop_adapters ::
    "(string \<Rightarrow> string + snapshot) \<Rightarrow> string + snapshot \<Rightarrow> string list \<Rightarrow> string + snapshot" where
  "stop_adapters stops latest ks =
     res_bind (stop_results stops ks (Inr None)) (\<lambda>r. case r of Some s \<Rightarrow> Inr s | None \<Rightarrow> latest)"

subsection \<open>Operations\<close>

definition scan_id :: "u64 \<Rightarrow> string" where
  "scan_id n = ''scan-'' @ decimal (unat n)"

datatype response = Ok | Error string

definition scan_stop_selected ::
    "(string \<Rightarrow> string + snapshot) \<Rightarrow> string + snapshot \<Rightarrow> string option \<Rightarrow> string option \<Rightarrow> string
     \<Rightarrow> coordinator \<Rightarrow> coordinator \<times> response" where
  "scan_stop_selected stops latest request_id owner event c =
     (case select_scans (sc_tasks c) request_id owner of
        (ids, adapters) \<Rightarrow>
          if ids = [] then (c, Error ''request-not-found'')
          else
            let c1 = c\<lparr>sc_stopped := sc_stopped c @ adapters\<rparr> in
            case stop_adapters stops latest adapters of
              Inl e \<Rightarrow> (c1, Error ''scan-stop-failed'')
            | Inr snap \<Rightarrow>
                (c1\<lparr>sc_tasks := filter (\<lambda>(k, t). k \<notin> set ids) (sc_tasks c1),
                    sc_events := sc_events c1 @ map (\<lambda>(k, t). t\<lparr>se_event := event, se_state := event,
                        se_timeout_ms := None, se_snapshot := Some snap\<rparr>)
                      (filter (\<lambda>(k, t). k \<in> set ids) (sc_tasks c1))\<rparr>, Ok))"

text \<open>
  \<open>start\<close>: \<open>started\<close> is the result of \<open>set_scanning(adapter_key, true)\<close>. A start that no powered
  adapter confirmed is rolled back on the same selection.
\<close>

datatype rollback = NoRollback | Rollback "string option"

definition scan_start ::
    "string + snapshot \<Rightarrow> (string \<Rightarrow> string + snapshot) \<Rightarrow> string + snapshot \<Rightarrow> json \<Rightarrow> string
     \<Rightarrow> coordinator \<Rightarrow> coordinator \<times> response \<times> rollback" where
  "scan_start started stops latest params owner c =
     (case parse_scan params of
        Inl e \<Rightarrow> (c, Error ''validation-error'', NoRollback)
      | Inr (Stop request_id) \<Rightarrow>
          (case scan_stop_selected stops latest request_id (Some owner) ''cancelled'' c of
             (c', r) \<Rightarrow> (c', r, NoRollback))
      | Inr (Start adapter_key timeout_ms) \<Rightarrow>
          (case started of
             Inl e \<Rightarrow> (c, Error ''scan-start-failed'', NoRollback)
           | Inr snap \<Rightarrow>
               let keys = powered_adapter_keys snap adapter_key in
               if keys = [] then (c, Error ''scan-start-failed'', Rollback adapter_key)
               else
                 let id = scan_id (sc_sequence c);
                     running = \<lparr>se_event = ''started'', se_request_id = id, se_adapter_key = adapter_key,
                       se_adapter_keys = keys, se_owner = owner, se_state = ''running'',
                       se_timeout_ms = Some timeout_ms, se_snapshot = Some snap, se_error = None\<rparr>
                 in (c\<lparr>sc_sequence := sc_sequence c + 1, sc_tasks := hm_insert id running (sc_tasks c),
                       sc_events := sc_events c @ [running]\<rparr>, Ok, NoRollback)))"

definition terminal_event :: "string \<Rightarrow> string option \<Rightarrow> string + snapshot \<Rightarrow> scan_event" where
  "terminal_event request_id adapter_key result =
     (let (snap, err, state) = (case result of
          Inr s \<Rightarrow> (Some s, None, ''completed'') | Inl e \<Rightarrow> (None, Some e, ''failed''))
      in \<lparr>se_event = state, se_request_id = request_id, se_adapter_key = adapter_key,
          se_adapter_keys = [], se_owner = [], se_state = state, se_timeout_ms = None,
          se_snapshot = snap, se_error = err\<rparr>)"

text \<open>
  One turn of the timer's loop: \<open>first\<close> says that no terminal event was published yet. The
  result says whether the loop goes on (after two seconds).
\<close>

definition timeout_turn ::
    "(string \<Rightarrow> string + snapshot) \<Rightarrow> string + snapshot \<Rightarrow> string \<Rightarrow> string option \<Rightarrow> bool
     \<Rightarrow> coordinator \<Rightarrow> coordinator \<times> bool" where
  "timeout_turn stops latest task_id task_adapter first c =
     (case select_scans (sc_tasks c) (Some task_id) None of
        (ids, adapters) \<Rightarrow>
          if ids = [] then (c, False)
          else
            let result = stop_adapters stops latest adapters;
                c1 = c\<lparr>sc_stopped := sc_stopped c @ adapters\<rparr>;
                c2 = (if res_ok result then c1\<lparr>sc_tasks := hm_remove task_id (sc_tasks c1)\<rparr> else c1);
                c3 = (if first
                  then c2\<lparr>sc_events := sc_events c2 @ [terminal_event task_id task_adapter result]\<rparr> else c2)
            in (c3, \<not> res_ok result))"

text \<open>The loop against a sequence of backend answers, one for each turn.\<close>

fun timeout_loop ::
    "((string \<Rightarrow> string + snapshot) \<times> (string + snapshot)) list \<Rightarrow> string \<Rightarrow> string option \<Rightarrow> bool
     \<Rightarrow> coordinator \<Rightarrow> coordinator" where
  "timeout_loop [] task_id a first c = c"
| "timeout_loop ((stops, latest) # turns) task_id a first c =
     (case timeout_turn stops latest task_id a first c of
        (c', again) \<Rightarrow> if again then timeout_loop turns task_id a False c' else c')"

definition owner_ids :: "string \<Rightarrow> coordinator \<Rightarrow> string list" where
  "owner_ids owner c = map fst (filter (\<lambda>(_, t). se_owner t = owner) (sc_tasks c))"

definition stop_owner ::
    "(string \<Rightarrow> string + snapshot) \<Rightarrow> string + snapshot \<Rightarrow> string \<Rightarrow> coordinator \<Rightarrow> coordinator" where
  "stop_owner stops latest owner c =
     fold (\<lambda>id c. fst (scan_stop_selected stops latest (Some id) None ''cancelled'' c)) (owner_ids owner c) c"

definition is_owned_by :: "string \<Rightarrow> string \<Rightarrow> coordinator \<Rightarrow> bool" where
  "is_owned_by request_id owner c =
     (case hm_get (sc_tasks c) request_id of None \<Rightarrow> False | Some t \<Rightarrow> se_owner t = owner)"

subsection \<open>Leases\<close>

definition leases :: "(string, scan_event) hmap \<Rightarrow> string set" where
  "leases tasks = (\<Union>(k, t) \<in> set tasks. set (se_adapter_keys t))"

lemma select_scans_spec:
  assumes "select_scans tasks request_id owner = (ids, adapters)"
  shows "ids = map fst (filter (\<lambda>(k, t). selects request_id owner k t) tasks)"
    and "set adapters = leases (filter (\<lambda>(k, t). selects request_id owner k t) tasks)
      - leases (filter (\<lambda>(k, t). \<not> selects request_id owner k t) tasks)"
    and "sorted adapters" and "distinct adapters"
proof -
  have "set (concat (map (\<lambda>(_, t). se_adapter_keys t) ts)) = leases ts" for ts
    by (auto simp: leases_def)
  then show "ids = map fst (filter (\<lambda>(k, t). selects request_id owner k t) tasks)"
    and "set adapters = leases (filter (\<lambda>(k, t). selects request_id owner k t) tasks)
      - leases (filter (\<lambda>(k, t). \<not> selects request_id owner k t) tasks)"
    and "sorted adapters" and "distinct adapters"
    using assms by (auto simp: select_scans_def Let_def simp del: set_concat)
qed

text \<open>With distinct ids, removing the selected ids leaves exactly the tasks that were not selected.\<close>

lemma filter_ids:
  assumes "hm_ok tasks"
  shows "filter (\<lambda>(k, t). k \<in> set (map fst (filter (\<lambda>(k, t). p k t) tasks))) tasks
      = filter (\<lambda>(k, t). p k t) tasks"
    and "filter (\<lambda>(k, t). k \<notin> set (map fst (filter (\<lambda>(k, t). p k t) tasks))) tasks
      = filter (\<lambda>(k, t). \<not> p k t) tasks"
proof -
  have iff: "k \<in> set (map fst (filter (\<lambda>(k, t). p k t) tasks)) \<longleftrightarrow> p k t" if t: "(k, t) \<in> set tasks" for k t
  proof -
    have "k \<in> set (map fst (filter (\<lambda>(k, t). p k t) tasks)) \<longleftrightarrow> (\<exists>t'. (k, t') \<in> set tasks \<and> p k t')"
      by (auto simp: image_iff)
    also have "\<dots> \<longleftrightarrow> p k t" using t assms by (auto simp: hm_in_set)
    finally show ?thesis .
  qed
  then show "filter (\<lambda>(k, t). k \<in> set (map fst (filter (\<lambda>(k, t). p k t) tasks))) tasks
      = filter (\<lambda>(k, t). p k t) tasks"
    and "filter (\<lambda>(k, t). k \<notin> set (map fst (filter (\<lambda>(k, t). p k t) tasks))) tasks
      = filter (\<lambda>(k, t). \<not> p k t) tasks"
    by (intro filter_cong refl; clarsimp simp only: iff prod.case)+
qed

lemma hm_remove_filter:
  assumes "hm_ok tasks"
  shows "hm_remove task_id tasks = filter (\<lambda>(k, t). \<not> selects (Some task_id) None k t) tasks"
proof -
  have "AList.delete task_id tasks = filter (\<lambda>(k, t). task_id \<noteq> k) tasks"
    by (simp add: AList.delete_eq)
  then show ?thesis by (simp add: hm_remove_def selects_def)
qed

text \<open>What stopping does: the outcome of \<open>stop_selected\<close> in terms of leases.\<close>

lemma stop_selected_outcome:
  assumes "hm_ok (sc_tasks c)"
    and "scan_stop_selected stops latest request_id owner event c = (c', r)"
  shows "(\<exists>ks. sc_stopped c' = sc_stopped c @ ks
       \<and> set ks \<subseteq> leases (filter (\<lambda>(k, t). selects request_id owner k t) (sc_tasks c))
           - leases (filter (\<lambda>(k, t). \<not> selects request_id owner k t) (sc_tasks c))
       \<and> (r = Ok \<longrightarrow> set ks = leases (filter (\<lambda>(k, t). selects request_id owner k t) (sc_tasks c))
           - leases (sc_tasks c')))
    \<and> (r = Ok \<longrightarrow> sc_tasks c' = filter (\<lambda>(k, t). \<not> selects request_id owner k t) (sc_tasks c))
    \<and> (r \<noteq> Ok \<longrightarrow> sc_tasks c' = sc_tasks c \<and> sc_events c' = sc_events c)"
proof -
  obtain ids adapters where sel: "select_scans (sc_tasks c) request_id owner = (ids, adapters)" by force
  note spec = select_scans_spec [OF sel]
  show ?thesis
  proof (cases "ids = []")
    case True
    then show ?thesis using assms(2) sel by (auto simp: scan_stop_selected_def)
  next
    case False
    show ?thesis
    proof (cases "stop_adapters stops latest adapters")
      case (Inl e)
      then show ?thesis using assms(2) sel False spec(2) by (auto simp: scan_stop_selected_def Let_def)
    next
      case (Inr snap)
      have "sc_tasks c' = filter (\<lambda>(k, t). k \<notin> set ids) (sc_tasks c)" "r = Ok"
          "sc_stopped c' = sc_stopped c @ adapters"
        using assms(2) sel False Inr by (auto simp: scan_stop_selected_def Let_def)
      moreover have "filter (\<lambda>(k, t). k \<notin> set ids) (sc_tasks c)
          = filter (\<lambda>(k, t). \<not> selects request_id owner k t) (sc_tasks c)"
        using filter_ids(2) [OF assms(1), of "selects request_id owner"] spec(1) by simp
      ultimately show ?thesis using spec(2) by auto
    qed
  qed
qed

subsection \<open>Timeouts\<close>

lemma timeout_turn_outcome:
  assumes "hm_ok (sc_tasks c)" and "timeout_turn stops latest task_id a first c = (c', again)"
  shows "hm_ok (sc_tasks c')"
    and "hm_get (sc_tasks c) task_id = None \<Longrightarrow> c' = c \<and> \<not> again"
    and "hm_get (sc_tasks c) task_id \<noteq> None \<Longrightarrow>
      sc_tasks c' = (if again then sc_tasks c else hm_remove task_id (sc_tasks c))
      \<and> (\<exists>ks result. sc_stopped c' = sc_stopped c @ ks
            \<and> set ks \<inter> leases (hm_remove task_id (sc_tasks c)) = {}
            \<and> again = (\<not> res_ok result)
            \<and> sc_events c' = sc_events c @ (if first then [terminal_event task_id a result] else []))"
proof -
  obtain ids adapters where sel: "select_scans (sc_tasks c) (Some task_id) None = (ids, adapters)" by force
  note spec = select_scans_spec [OF sel] hm_remove_filter [OF assms(1), of task_id]
  have ids: "ids = [] \<longleftrightarrow> hm_get (sc_tasks c) task_id = None"
    using spec(1) by (auto simp: selects_def filter_empty_conv hm_get_None_notin image_iff)
  show "hm_ok (sc_tasks c')"
    using assms sel by (auto simp: timeout_turn_def Let_def split: if_splits)
  show "hm_get (sc_tasks c) task_id = None \<Longrightarrow> c' = c \<and> \<not> again"
    using assms(2) sel ids by (auto simp: timeout_turn_def)
  assume "hm_get (sc_tasks c) task_id \<noteq> None"
  with ids have "ids \<noteq> []" by simp
  with assms(2) sel have c': "sc_tasks c' = (if again then sc_tasks c else hm_remove task_id (sc_tasks c))"
      "sc_stopped c' = sc_stopped c @ adapters" "again = (\<not> res_ok (stop_adapters stops latest adapters))"
      "sc_events c' = sc_events c @ (if first then [terminal_event task_id a (stop_adapters stops latest adapters)] else [])"
    by (auto simp: timeout_turn_def Let_def split: if_splits)
  moreover have "set adapters \<inter> leases (hm_remove task_id (sc_tasks c)) = {}"
    using spec(2,5) by auto
  ultimately show "sc_tasks c' = (if again then sc_tasks c else hm_remove task_id (sc_tasks c))
      \<and> (\<exists>ks result. sc_stopped c' = sc_stopped c @ ks
            \<and> set ks \<inter> leases (hm_remove task_id (sc_tasks c)) = {}
            \<and> again = (\<not> res_ok result)
            \<and> sc_events c' = sc_events c @ (if first then [terminal_event task_id a result] else []))"
    by blast
qed

text \<open>After the first turn the loop publishes nothing; it only retries until the task is gone.\<close>

lemma timeout_loop_quiet:
  "hm_ok (sc_tasks c) \<Longrightarrow> sc_events (timeout_loop turns task_id a False c) = sc_events c
    \<and> hm_ok (sc_tasks (timeout_loop turns task_id a False c))
    \<and> sc_tasks (timeout_loop turns task_id a False c) \<in> {sc_tasks c, hm_remove task_id (sc_tasks c)}"
proof (induction turns arbitrary: c)
  case Nil
  then show ?case by simp
next
  case (Cons turn turns)
  obtain stops latest where t: "turn = (stops, latest)" by force
  obtain c' again where c': "timeout_turn stops latest task_id a False c = (c', again)" by force
  note out = timeout_turn_outcome [OF Cons.prems c']
  show ?case
  proof (cases "hm_get (sc_tasks c) task_id = None")
    case True
    then show ?thesis using out(2) t c' Cons.prems by simp
  next
    case False
    then show ?thesis using out(1) out(3) [OF False] Cons.IH [OF out(1)] t c' by (cases again) auto
  qed
qed

lemma terminal_event_simps [simp]:
  "se_request_id (terminal_event i a r) = i" "se_state (terminal_event i a r) = (if res_ok r then ''completed'' else ''failed'')"
  by (cases r; simp add: terminal_event_def)+

subsection \<open>Request ids\<close>

lemma scan_id_inj: "scan_id m = scan_id n \<longleftrightarrow> m = n"
  by (simp add: scan_id_def decimal_unat_inj)

subsection \<open>Properties\<close>


definition demo_scan :: "string \<Rightarrow> string list \<Rightarrow> scan_event" where
  "demo_scan owner keys = \<lparr>se_event = ''started'', se_request_id = ''x'', se_adapter_key = None,
     se_adapter_keys = keys, se_owner = owner, se_state = ''running'', se_timeout_ms = Some 15000,
     se_snapshot = None, se_error = None\<rparr>"

definition demo_scans :: coordinator where
  "demo_scans = coordinator_new\<lparr>sc_tasks :=
     [(''scan-1'', demo_scan ''a'' [''h0'', ''h1'']), (''scan-2'', demo_scan ''b'' [''h1''])]\<rparr>"


text \<open>
  A client's stop never ends a scan of another client, whatever id it names.
\<close>

theorem scan_stop_owned_isolated:
  assumes "hm_ok (sc_tasks c)" and "hm_get (sc_tasks c) k = Some t" and "se_owner t \<noteq> w"
  shows "hm_get (sc_tasks (fst (scan_stop_selected stops latest request_id (Some w) event c))) k = Some t"
proof -
  obtain c' r where run: "scan_stop_selected stops latest request_id (Some w) event c = (c', r)" by force
  have "hm_get (filter (\<lambda>(k, t). \<not> selects request_id (Some w) k t) (sc_tasks c)) k = Some t"
    using hm_get_retain [OF assms(1), of "\<lambda>k t. \<not> selects request_id (Some w) k t" k] assms(2,3)
    by (simp add: hm_retain_def selects_def)
  then show ?thesis using stop_selected_outcome [OF assms(1) run] run assms(2) by (cases "r = Ok") auto
qed

theorem scan_stop_owned_isolated_witness:
  "hm_get (sc_tasks (fst (scan_stop_selected (\<lambda>_. Inr []) (Inr []) (Some ''scan-1'') (Some ''b'') ''cancelled''
     demo_scans))) ''scan-1'' = Some (demo_scan ''a'' [''h0'', ''h1''])"
  by (rule scan_stop_owned_isolated)
    (simp_all add: demo_scans_def hm_ok_def hm_get_def demo_scan_def)

text \<open>
  The timer of a scan publishes exactly one terminal event however often its cleanup has to be
  retried; the scan is removed once a cleanup succeeds, and no other scan is touched.
\<close>

theorem scan_timeout_single_terminal_event:
  assumes "hm_ok (sc_tasks c)" and "hm_get (sc_tasks c) task_id \<noteq> None" and "turns \<noteq> []"
  shows "(\<exists>result. sc_events (timeout_loop turns task_id a True c)
         = sc_events c @ [terminal_event task_id a result])
    \<and> sc_tasks (timeout_loop turns task_id a True c) \<in> {sc_tasks c, hm_remove task_id (sc_tasks c)}"
proof -
  obtain stops latest turns' where t: "turns = (stops, latest) # turns'"
    using assms(3) by (metis list.exhaust surj_pair)
  obtain c' again where c': "timeout_turn stops latest task_id a True c = (c', again)" by force
  note out = timeout_turn_outcome [OF assms(1) c']
  from out(3) [OF assms(2)] obtain result where
    ev: "sc_events c' = sc_events c @ [terminal_event task_id a result]" by auto
  show ?thesis
    using out(3) [OF assms(2)] ev timeout_loop_quiet [OF out(1), of turns' task_id a] t c'
    by (cases again) auto
qed

theorem scan_timeout_single_terminal_event_witness:
  "\<exists>result. sc_events (timeout_loop [(\<lambda>_. Inl ''busy'', Inr []), (\<lambda>_. Inr [], Inr [])] ''scan-1'' None True demo_scans)
     = [terminal_event ''scan-1'' None result]"
  using scan_timeout_single_terminal_event [of demo_scans "''scan-1''"
      "[(\<lambda>_. Inl ''busy'', Inr []), (\<lambda>_. Inr [], Inr [])]" None]
  by (simp add: demo_scans_def hm_ok_def hm_get_def coordinator_new_def)

lemma powered_keys_in:
  "k \<in> set (powered_adapter_keys snap requested) \<Longrightarrow>
   \<exists>v \<in> set snap. av_key v = k \<and> av_powered v \<and> av_discovering v \<and> (requested = None \<or> requested = Some k)"
  by (cases requested) (auto simp: powered_adapter_keys_def)

text \<open>
  A successful start leases at least one adapter, all of them powered and discovering in the
  backend's answer and matching the request, for a bounded time; every refused start leaves the
  coordinator as it was, and one that no powered adapter confirmed is rolled back.
\<close>

theorem scan_start_confirmed:
  assumes "parse_scan params = Inr (Start adapter_key timeout_ms)"
    and "scan_start started stops latest params owner c = (c', r, rollback)"
  shows "1000 \<le> timeout_ms \<and> timeout_ms \<le> 60000 \<and>
    (if r = Ok
     then \<exists>snap t. started = Inr snap \<and> hm_get (sc_tasks c') (scan_id (sc_sequence c)) = Some t
        \<and> se_owner t = owner \<and> se_timeout_ms t = Some timeout_ms \<and> se_adapter_keys t \<noteq> []
        \<and> (\<forall>k \<in> set (se_adapter_keys t). \<exists>v \<in> set snap. av_key v = k \<and> av_powered v \<and> av_discovering v
             \<and> (adapter_key = None \<or> adapter_key = Some k))
     else c' = c \<and> ((\<exists>snap. started = Inr snap) \<longrightarrow> rollback = Rollback adapter_key))"
proof -
  have "1000 \<le> timeout_ms \<and> timeout_ms \<le> 60000"
    using assms(1) by (auto simp: parse_scan_def clamp_def split: option.splits json.splits if_splits)
  moreover have "if r = Ok
     then \<exists>snap t. started = Inr snap \<and> hm_get (sc_tasks c') (scan_id (sc_sequence c)) = Some t
        \<and> se_owner t = owner \<and> se_timeout_ms t = Some timeout_ms \<and> se_adapter_keys t \<noteq> []
        \<and> (\<forall>k \<in> set (se_adapter_keys t). \<exists>v \<in> set snap. av_key v = k \<and> av_powered v \<and> av_discovering v
             \<and> (adapter_key = None \<or> adapter_key = Some k))
     else c' = c \<and> ((\<exists>snap. started = Inr snap) \<longrightarrow> rollback = Rollback adapter_key)"
  proof (cases started)
    case (Inl e)
    then show ?thesis using assms by (auto simp: scan_start_def)
  next
    case (Inr snap)
    show ?thesis
    proof (cases "powered_adapter_keys snap adapter_key = []")
      case True
      then show ?thesis using assms Inr by (auto simp: scan_start_def Let_def)
    next
      case False
      then have "r = Ok" and "\<exists>t. hm_get (sc_tasks c') (scan_id (sc_sequence c)) = Some t \<and> se_owner t = owner
          \<and> se_timeout_ms t = Some timeout_ms \<and> se_adapter_keys t = powered_adapter_keys snap adapter_key"
        using assms Inr by (auto simp: scan_start_def Let_def)
      then show ?thesis using False Inr powered_keys_in [of _ snap adapter_key] by auto
    qed
  qed
  ultimately show ?thesis by blast
qed

theorem scan_start_confirmed_witness:
  "\<exists>t. hm_get (sc_tasks (fst (scan_start (Inr [\<lparr>av_key = ''h0'', av_powered = True, av_discovering = True\<rparr>])
      (\<lambda>_. Inr []) (Inr []) (JObject [(''timeout_ms'', JInt 5)]) ''a'' coordinator_new))) ''scan-1'' = Some t
    \<and> se_timeout_ms t = Some 1000"
proof -
  let ?p = "JObject [(''timeout_ms'', JInt 5)]"
  let ?up = "Inr [\<lparr>av_key = ''h0'', av_powered = True, av_discovering = True\<rparr>] :: string + snapshot"
  obtain c' r b where run: "scan_start ?up (\<lambda>_. Inr []) (Inr []) ?p ''a'' coordinator_new = (c', r, b)"
    by (metis surj_pair)
  have parse: "parse_scan ?p = Inr (Start None 1000)"
    by (simp add: parse_scan_def optional_string_def clamp_def)
  have id: "scan_id (sc_sequence coordinator_new) = ''scan-1''"
    by code_simp
  have "r = Ok" using run parse by (auto simp: scan_start_def powered_adapter_keys_def Let_def)
  with scan_start_confirmed [OF parse run] run id show ?thesis by auto
qed

end
