(* ===== verification/Audio.thy ===== *)
theory Audio
  imports Api Model "HOL-Library.List_Lexorder" "HOL-Library.Char_ord" "HOL-Library.Product_Lexorder" "HOL-Library.Multiset"
begin

text \<open>
  \<open>src/audio.rs\<close> and \<open>src/audio/profile.rs\<close>: the Bluetooth devices, profiles and endpoints that PipeWire
  publishes, how a probe collects and orders them, and what a device's policy asks of them.

  PipeWire is the source of callbacks with property dictionaries. Its serialized parameters arrive decoded;
  the digest behind opaque keys and the JSON parser are arguments. A PipeWire \<open>i32\<close> is an integer.
\<close>

type_synonym props = "(string, string) hmap"

subsection \<open>Numbers and letters\<close>

text \<open>\<open>str::parse\<close> for unsigned and signed integers.\<close>

definition parse_digits :: "string \<Rightarrow> nat option" where
  "parse_digits v = (if v \<noteq> [] \<and> list_all is_digit v then Some (undecimal 0 v) else None)"

definition unsigned_digits :: "string \<Rightarrow> string" where
  "unsigned_digits v = (case v of c # cs \<Rightarrow> if c = CHR ''+'' then cs else v | [] \<Rightarrow> v)"

definition parse_unsigned :: "string \<Rightarrow> ('w::len) word option" where
  "parse_unsigned v = Option.bind (parse_digits (unsigned_digits v)) word_try_from"

definition parse_i32 :: "string \<Rightarrow> int option" where
  "parse_i32 v =
     (case v of
        c # cs \<Rightarrow>
          if c = CHR ''-''
          then Option.bind (parse_digits cs) (\<lambda>n. if n \<le> 2147483648 then Some (- int n) else None)
          else Option.bind (parse_digits (unsigned_digits v)) (\<lambda>n. if n < 2147483648 then Some (int n) else None)
      | [] \<Rightarrow> None)"

text \<open>\<open>to_lowercase\<close> on the characters of \<open>string\<close>.\<close>

definition lower :: "char \<Rightarrow> char" where
  "lower c =
     (if 0xc0 \<le> (of_char c :: nat) \<and> (of_char c :: nat) \<le> 0xde \<and> (of_char c :: nat) \<noteq> 0xd7
      then char_of ((of_char c :: nat) + 32) else ascii_lower c)"

subsection \<open>Devices\<close>

datatype endpoint_kind = Sink | Source

fun kind_str :: "endpoint_kind \<Rightarrow> string" where
  "kind_str Sink = ''sink''"
| "kind_str Source = ''source''"

record audio_endpoint =
  ae_id :: u32
  ae_serial :: "u64 option"
  ae_name :: string
  ae_kind :: endpoint_kind
  ae_state :: string
  ae_is_default :: bool
  ae_codec :: "string option"
  ae_priority :: int
  ae_internal :: bool

record audio_profile =
  ap_index :: u32
  ap_name :: string
  ap_description :: string
  ap_available :: bool
  ap_priority :: int
  ap_mode :: string
  ap_codec :: "string option"

record audio_device =
  ad_id :: u32
  ad_serial :: "u64 option"
  ad_address :: string
  ad_adapter :: string
  ad_name :: string
  ad_active_profile :: "u32 option"
  ad_profiles :: "audio_profile list"
  ad_endpoints :: "audio_endpoint list"
  ad_internal_endpoints :: "audio_endpoint list"
  ad_sink :: "audio_endpoint option"
  ad_source :: "audio_endpoint option"

definition opaque_audio_key :: "(string \<Rightarrow> string) \<Rightarrow> string \<Rightarrow> string \<Rightarrow> string \<Rightarrow> string" where
  "opaque_audio_key digest kind device_key v = ''audio-'' @ kind @ ''-'' @ digest (device_key @ '':'' @ v)"

definition profile_key :: "(string \<Rightarrow> string) \<Rightarrow> string \<Rightarrow> string \<Rightarrow> string" where
  "profile_key digest device_key name = opaque_audio_key digest ''profile'' device_key name"

definition endpoint_key :: "(string \<Rightarrow> string) \<Rightarrow> string \<Rightarrow> string \<Rightarrow> string" where
  "endpoint_key digest device_key kind = opaque_audio_key digest ''endpoint'' device_key kind"

definition node_key :: "(string \<Rightarrow> string) \<Rightarrow> string \<Rightarrow> audio_endpoint \<Rightarrow> string" where
  "node_key digest device_key e = endpoint_key digest device_key (kind_str (ae_kind e) @ '':'' @ ae_name e)"

definition available_profile :: "(string \<Rightarrow> string) \<Rightarrow> string \<Rightarrow> string \<Rightarrow> audio_device \<Rightarrow> audio_profile option" where
  "available_profile digest device_key key d =
     List.find (\<lambda>p. ap_available p \<and> profile_key digest device_key (ap_name p) = key) (ad_profiles d)"

subsection \<open>Profiles\<close>

definition codec_name :: "string \<Rightarrow> string option" where
  "codec_name v =
     (if v \<noteq> [] \<and> length v \<le> 64
         \<and> list_all (\<lambda>c. is_digit c \<or> (65 \<le> (of_char c :: nat) \<and> (of_char c :: nat) \<le> 90)
              \<or> (97 \<le> (of_char c :: nat) \<and> (of_char c :: nat) \<le> 122) \<or> c \<in> set ''_-.'') v
      then Some v else None)"

fun strip_prefix :: "string \<Rightarrow> string \<Rightarrow> string option" where
  "strip_prefix [] v = Some v"
| "strip_prefix (c # cs) [] = None"
| "strip_prefix (c # cs) (d # ds) = (if c = d then strip_prefix cs ds else None)"

fun find_map :: "('a \<Rightarrow> 'b option) \<Rightarrow> 'a list \<Rightarrow> 'b option" where
  "find_map f [] = None"
| "find_map f (x # xs) = (case f x of None \<Rightarrow> find_map f xs | Some y \<Rightarrow> Some y)"

definition profile_mode :: "string \<Rightarrow> string" where
  "profile_mode name =
     (if name = ''off'' then ''off''
      else case find_map (\<lambda>(prefix, mode). if strip_prefix prefix name \<noteq> None then Some mode else None)
          [(''a2dp-'', ''high-fidelity''), (''headset-'', ''headset''), (''handsfree-'', ''headset''),
           (''bap-'', ''le-audio''), (''asha-'', ''hearing-aid'')] of
        None \<Rightarrow> ''other''
      | Some mode \<Rightarrow> mode)"

definition CODEC_BASES :: "string list" where
  "CODEC_BASES = [''a2dp-sink'', ''a2dp-source'', ''a2dp-duplex'', ''headset-head-unit'', ''handsfree-head-unit'',
     ''bap-broadcast-sink'', ''bap-broadcast-source'', ''bap-sink'', ''bap-source'', ''bap-duplex'', ''asha-sink'']"

definition profile_codec :: "string \<Rightarrow> string option" where
  "profile_codec name =
     find_map (\<lambda>base. Option.bind (strip_prefix base name) (\<lambda>rest. Option.bind (strip_prefix ''-'' rest) codec_name))
       CODEC_BASES"

datatype profile_property = KIndex | KName | KDescription | KAvailable | KPriority | KOther

datatype spa_value = VInt int | VString string | VAvailability bool  \<comment> \<open>an id; true for \<open>no\<close>\<close> | VOther

record profile_values =
  pv_index :: "u32 option"
  pv_name :: "string option"
  pv_description :: "string option"
  pv_available :: bool
  pv_priority :: int

definition profile_values_default :: profile_values where
  "profile_values_default = \<lparr>pv_index = None, pv_name = None, pv_description = None, pv_available = False, pv_priority = 0\<rparr>"

fun values_apply :: "profile_property \<times> spa_value \<Rightarrow> profile_values \<Rightarrow> profile_values" where
  "values_apply (KIndex, VInt v) s = s\<lparr>pv_index := (if 0 \<le> v then word_try_from (nat v) else None)\<rparr>"
| "values_apply (KName, VString v) s = s\<lparr>pv_name := Some v\<rparr>"
| "values_apply (KDescription, VString v) s = s\<lparr>pv_description := Some v\<rparr>"
| "values_apply (KAvailable, VAvailability no) s = s\<lparr>pv_available := \<not> no\<rparr>"
| "values_apply (KPriority, VInt v) s = s\<lparr>pv_priority := v\<rparr>"
| "values_apply _ s = s"

definition values_finish :: "profile_values \<Rightarrow> audio_profile option" where
  "values_finish s =
     (let name = (case pv_name s of None \<Rightarrow> [] | Some n \<Rightarrow> n);
          description = (case pv_description s of None \<Rightarrow> [] | Some n \<Rightarrow> n)
      in map_option (\<lambda>i. \<lparr>ap_index = i, ap_name = name, ap_description = description, ap_available = pv_available s,
           ap_priority = pv_priority s, ap_mode = profile_mode name, ap_codec = profile_codec name\<rparr>) (pv_index s))"

text \<open>A decoded parameter: its properties when it is an object of the profile type.\<close>

definition parse_profile :: "(profile_property \<times> spa_value) list option \<Rightarrow> audio_profile option" where
  "parse_profile pod =
     Option.bind pod (\<lambda>ps. values_finish (fold values_apply ps profile_values_default))"

subsection \<open>Properties of objects\<close>

definition endpoint_kind_of :: "string option \<Rightarrow> endpoint_kind option" where
  "endpoint_kind_of c =
     (if c = Some ''Audio/Sink'' then Some Sink else if c = Some ''Audio/Source'' then Some Source else None)"

datatype node_state = NError | NCreating | NSuspended | NIdle | NRunning

fun node_state_str :: "node_state \<Rightarrow> string" where
  "node_state_str NError = ''error''"
| "node_state_str NCreating = ''creating''"
| "node_state_str NSuspended = ''suspended''"
| "node_state_str NIdle = ''idle''"
| "node_state_str NRunning = ''running''"

definition default_node_name :: "(string \<Rightarrow> json option) \<Rightarrow> string \<Rightarrow> string option" where
  "default_node_name parse v =
     Option.bind (Option.bind (parse v) (\<lambda>j. json_get j ''name'')) (\<lambda>n. case n of JString s \<Rightarrow> Some s | _ \<Rightarrow> None)"

definition adapter_from_bluez_path :: "string \<Rightarrow> string option" where
  "adapter_from_bluez_path path = List.find (\<lambda>part. strip_prefix ''hci'' part \<noteq> None) (split_slash path)"

datatype object_type = TDevice | TNode | TMetadata | TOther

record global_object =
  go_id :: u32
  go_type :: object_type
  go_props :: "props option"

definition global_prop :: "global_object \<Rightarrow> string \<Rightarrow> string option" where
  "global_prop g k = Option.bind (go_props g) (\<lambda>ps. hm_get ps k)"

definition object_matches :: "global_object \<Rightarrow> u32 \<Rightarrow> u64 option \<Rightarrow> bool" where
  "object_matches g ident serial =
     (go_id g = ident \<and> serial \<noteq> None \<and> Option.bind (global_prop g ''object.serial'') parse_unsigned = serial)"

definition device_properties_match :: "string \<Rightarrow> string \<Rightarrow> props \<Rightarrow> bool" where
  "device_properties_match adapter a ps =
     ((case hm_get ps ''api.bluez5.address'' of None \<Rightarrow> False | Some v \<Rightarrow> eq_ignore_case v a)
      \<and> Option.bind (hm_get ps ''api.bluez5.path'') adapter_from_bluez_path = Some adapter)"

definition update_endpoint_properties :: "props \<Rightarrow> audio_endpoint \<Rightarrow> audio_endpoint" where
  "update_endpoint_properties ps e0 =
     (let e1 = (case hm_get ps ''api.bluez5.codec'' of None \<Rightarrow> e0 | Some v \<Rightarrow> e0\<lparr>ae_codec := codec_name v\<rparr>);
          e2 = (case hm_get ps ''api.bluez5.internal'' of None \<Rightarrow> e1
                | Some v \<Rightarrow> e1\<lparr>ae_internal := (v = ''true'' \<or> v = ''1'')\<rparr>)
      in case Option.bind (hm_get ps ''priority.session'') parse_i32 of None \<Rightarrow> e2 | Some p \<Rightarrow> e2\<lparr>ae_priority := p\<rparr>)"

definition first_of :: "'a option \<Rightarrow> 'a option \<Rightarrow> 'a option" where
  "first_of a b = (case a of None \<Rightarrow> b | Some v \<Rightarrow> Some v)"

definition update_device_properties :: "props \<Rightarrow> audio_device \<Rightarrow> audio_device" where
  "update_device_properties ps d0 =
     (let d1 = (case hm_get ps ''api.bluez5.address'' of None \<Rightarrow> d0 | Some v \<Rightarrow> d0\<lparr>ad_address := v\<rparr>);
          d2 = (case hm_get ps ''api.bluez5.path'' of None \<Rightarrow> d1
                | Some v \<Rightarrow> d1\<lparr>ad_adapter := (case adapter_from_bluez_path v of None \<Rightarrow> [] | Some a \<Rightarrow> a)\<rparr>)
      in case first_of (hm_get ps ''device.description'') (hm_get ps ''device.alias'') of
           None \<Rightarrow> d2 | Some v \<Rightarrow> d2\<lparr>ad_name := v\<rparr>)"

datatype param_type = PProfile | PEnumProfile | PElse

definition update_profile :: "param_type \<Rightarrow> audio_profile \<Rightarrow> audio_device \<Rightarrow> audio_device" where
  "update_profile parameter p d =
     (if parameter = PProfile then d\<lparr>ad_active_profile := Some (ap_index p)\<rparr>
      else if parameter = PEnumProfile \<and> ap_index p \<notin> ap_index ` set (ad_profiles d)
      then d\<lparr>ad_profiles := ad_profiles d @ [p]\<rparr> else d)"

record defaults =
  df_sink :: string
  df_source :: string

definition no_defaults :: defaults where "no_defaults = \<lparr>df_sink = [], df_source = []\<rparr>"

definition update_default :: "string \<Rightarrow> string \<Rightarrow> defaults \<Rightarrow> defaults" where
  "update_default key v s =
     (if key = ''default.audio.sink'' then s\<lparr>df_sink := v\<rparr>
      else if key = ''default.audio.source'' then s\<lparr>df_source := v\<rparr> else s)"

subsection \<open>Finishing a device\<close>

fun default_of :: "defaults \<Rightarrow> endpoint_kind \<Rightarrow> string" where
  "default_of s Sink = df_sink s"
| "default_of s Source = df_source s"

definition endpoint_order :: "audio_endpoint \<Rightarrow> bool \<times> int \<times> string \<times> u32" where
  "endpoint_order e = (\<not> ae_is_default e, - ae_priority e, ae_name e, ae_id e)"

definition common_codec :: "audio_endpoint list \<Rightarrow> string option" where
  "common_codec es =
     (case List.map_filter ae_codec es of
        [] \<Rightarrow> None
      | c # cs \<Rightarrow> if list_all (\<lambda>x. x = c) cs then Some c else None)"

fun update_first :: "('a \<Rightarrow> bool) \<Rightarrow> ('a \<Rightarrow> 'a) \<Rightarrow> 'a list \<Rightarrow> 'a list" where
  "update_first p f [] = []"
| "update_first p f (x # xs) = (if p x then f x # xs else x # update_first p f xs)"

definition ordered_endpoints :: "defaults \<Rightarrow> audio_endpoint list \<Rightarrow> audio_endpoint list" where
  "ordered_endpoints s es =
     sort_key endpoint_order (map (\<lambda>e. e\<lparr>ae_is_default := (ae_name e = default_of s (ae_kind e))\<rparr>) es)"

definition finalize :: "defaults \<Rightarrow> audio_device \<Rightarrow> audio_device" where
  "finalize s d =
     (let profiles = sort_key (\<lambda>p. (- ap_priority p, ap_index p)) (ad_profiles d);
          endpoints = ordered_endpoints s (ad_endpoints d)
      in d\<lparr>ad_profiles :=
             (case common_codec endpoints of
                None \<Rightarrow> profiles
              | Some codec \<Rightarrow>
                  update_first (\<lambda>p. Some (ap_index p) = ad_active_profile d) (\<lambda>p. p\<lparr>ap_codec := Some codec\<rparr>) profiles),
           ad_endpoints := endpoints,
           ad_sink := List.find (\<lambda>e. ae_kind e = Sink) endpoints,
           ad_source := List.find (\<lambda>e. ae_kind e = Source) endpoints\<rparr>)"

type_synonym endpoint_table = "(u32, (u32, audio_endpoint) hmap) hmap"

definition with_endpoints :: "endpoint_table \<Rightarrow> audio_device \<Rightarrow> audio_device" where
  "with_endpoints t d =
     (case hm_get t (ad_id d) of
        None \<Rightarrow> d
      | Some nodes \<Rightarrow>
          d\<lparr>ad_internal_endpoints := filter ae_internal (map snd nodes),
            ad_endpoints := filter (\<lambda>e. \<not> ae_internal e) (map snd nodes)\<rparr>)"

definition device_order :: "audio_device \<Rightarrow> string \<times> u32" where
  "device_order d = (map lower (ad_name d), ad_id d)"

definition finalize_devices :: "defaults \<Rightarrow> endpoint_table \<Rightarrow> audio_device list \<Rightarrow> audio_device list" where
  "finalize_devices s t ds = sort_key device_order (map (\<lambda>d. finalize s (with_endpoints t d)) ds)"

subsection \<open>The probe\<close>

record probe_state =
  pb_devices :: "(u32, audio_device) hmap"
  pb_endpoints :: endpoint_table
  pb_defaults :: defaults

definition probe_new :: probe_state where
  "probe_new = \<lparr>pb_devices = [], pb_endpoints = [], pb_defaults = no_defaults\<rparr>"

definition or_empty :: "string option \<Rightarrow> string" where
  "or_empty v = (case v of None \<Rightarrow> [] | Some s \<Rightarrow> s)"

text \<open>Binding an object may fail, which is \<open>bound = False\<close>.\<close>

definition bind_device :: "bool \<Rightarrow> u32 \<Rightarrow> props \<Rightarrow> probe_state \<Rightarrow> probe_state" where
  "bind_device bound ident ps s =
     (if \<not> bound then s
      else s\<lparr>pb_devices := hm_insert ident
        \<lparr>ad_id = ident, ad_serial = Option.bind (hm_get ps ''object.serial'') parse_unsigned,
         ad_address = or_empty (hm_get ps ''api.bluez5.address''),
         ad_adapter = or_empty (Option.bind (hm_get ps ''api.bluez5.path'') adapter_from_bluez_path),
         ad_name = (case first_of (hm_get ps ''device.description'') (hm_get ps ''device.alias'') of
            None \<Rightarrow> ''Bluetooth audio device'' | Some n \<Rightarrow> n),
         ad_active_profile = None, ad_profiles = [], ad_endpoints = [], ad_internal_endpoints = [],
         ad_sink = None, ad_source = None\<rparr> (pb_devices s)\<rparr>)"

definition device_info :: "u32 \<Rightarrow> props option \<Rightarrow> probe_state \<Rightarrow> probe_state" where
  "device_info ident info s =
     (case (info, hm_get (pb_devices s) ident) of
        (Some ps, Some d) \<Rightarrow> s\<lparr>pb_devices := hm_insert ident (update_device_properties ps d) (pb_devices s)\<rparr>
      | _ \<Rightarrow> s)"

definition device_param ::
    "u32 \<Rightarrow> param_type \<Rightarrow> (profile_property \<times> spa_value) list option \<Rightarrow> probe_state \<Rightarrow> probe_state" where
  "device_param ident parameter pod s =
     (case (parse_profile pod, hm_get (pb_devices s) ident) of
        (Some p, Some d) \<Rightarrow> s\<lparr>pb_devices := hm_insert ident (update_profile parameter p d) (pb_devices s)\<rparr>
      | _ \<Rightarrow> s)"

definition endpoints_of :: "u32 \<Rightarrow> endpoint_table \<Rightarrow> (u32, audio_endpoint) hmap" where
  "endpoints_of device t = (case hm_get t device of None \<Rightarrow> [] | Some es \<Rightarrow> es)"

definition bind_node :: "u32 \<Rightarrow> props \<Rightarrow> probe_state \<Rightarrow> probe_state" where
  "bind_node ident ps s =
     (case Option.bind (hm_get ps ''device.id'') parse_unsigned of
        None \<Rightarrow> s
      | Some device \<Rightarrow>
          (case endpoint_kind_of (hm_get ps ''media.class'') of
             None \<Rightarrow> s
           | Some kind \<Rightarrow>
               s\<lparr>pb_endpoints := hm_insert device
                   (hm_insert ident (update_endpoint_properties ps
                      \<lparr>ae_id = ident, ae_serial = Option.bind (hm_get ps ''object.serial'') parse_unsigned,
                       ae_name = or_empty (hm_get ps ''node.name''), ae_kind = kind, ae_state = ''creating'',
                       ae_is_default = False, ae_codec = None, ae_priority = 0, ae_internal = False\<rparr>)
                     (endpoints_of device (pb_endpoints s)))
                   (pb_endpoints s)\<rparr>))"

definition node_info :: "u32 \<Rightarrow> u32 \<Rightarrow> node_state \<Rightarrow> props option \<Rightarrow> probe_state \<Rightarrow> probe_state" where
  "node_info device ident state info s =
     (case Option.bind (hm_get (pb_endpoints s) device) (\<lambda>es. hm_get es ident) of
        None \<Rightarrow> s
      | Some e \<Rightarrow>
          (let e1 = e\<lparr>ae_state := node_state_str state\<rparr>;
               e2 = (case info of None \<Rightarrow> e1 | Some ps \<Rightarrow> update_endpoint_properties ps e1)
           in s\<lparr>pb_endpoints := hm_insert device (hm_insert ident e2 (endpoints_of device (pb_endpoints s))) (pb_endpoints s)\<rparr>))"

definition metadata_property ::
    "(string \<Rightarrow> json option) \<Rightarrow> u32 \<Rightarrow> string option \<Rightarrow> string option \<Rightarrow> probe_state \<Rightarrow> probe_state" where
  "metadata_property parse subject key v s =
     (if subject \<noteq> 0 then s
      else case key of
        None \<Rightarrow> s\<lparr>pb_defaults := no_defaults\<rparr>
      | Some k \<Rightarrow>
          s\<lparr>pb_defaults := update_default k (or_empty (Option.bind v (default_node_name parse))) (pb_defaults s)\<rparr>)"

definition remove_object :: "u32 \<Rightarrow> probe_state \<Rightarrow> probe_state" where
  "remove_object ident s =
     s\<lparr>pb_devices := hm_remove ident (pb_devices s),
       pb_endpoints := hm_map_values (\<lambda>_ es. hm_remove ident es) (hm_remove ident (pb_endpoints s))\<rparr>"

definition bind_global :: "bool \<Rightarrow> global_object \<Rightarrow> probe_state \<Rightarrow> probe_state" where
  "bind_global bound g s =
     (case go_props g of
        None \<Rightarrow> s
      | Some ps \<Rightarrow>
          (case go_type g of
             TDevice \<Rightarrow> if hm_get ps ''device.api'' = Some ''bluez5'' then bind_device bound (go_id g) ps s else s
           | TNode \<Rightarrow> bind_node (go_id g) ps s
           | _ \<Rightarrow> s))"

definition finish_probe :: "probe_state \<Rightarrow> audio_device list" where
  "finish_probe s = finalize_devices (pb_defaults s) (pb_endpoints s) (map snd (pb_devices s))"

datatype probe_event =
    GlobalAdded bool global_object
  | GlobalRemoved u32
  | DeviceInfo u32 "props option"
  | DeviceParam u32 param_type "(profile_property \<times> spa_value) list option"
  | NodeInfo u32 u32 node_state "props option"
  | MetadataProperty u32 "string option" "string option"

fun probe_step :: "(string \<Rightarrow> json option) \<Rightarrow> probe_event \<Rightarrow> probe_state \<Rightarrow> probe_state" where
  "probe_step parse (GlobalAdded bound g) s = bind_global bound g s"
| "probe_step parse (GlobalRemoved ident) s = remove_object ident s"
| "probe_step parse (DeviceInfo ident info) s = device_info ident info s"
| "probe_step parse (DeviceParam ident parameter pod) s = device_param ident parameter pod s"
| "probe_step parse (NodeInfo device ident state info) s = node_info device ident state info s"
| "probe_step parse (MetadataProperty subject key v) s = metadata_property parse subject key v s"

subsection \<open>Policy of a device\<close>

record policy_request =
  pq_device_key :: string
  pq_adapter :: string
  pq_address :: string
  pq_preferred_profile_key :: "string option"
  pq_switch_output :: bool

record 'w audio_ops =
  ao_probe :: "'w \<Rightarrow> 'w \<times> (failure + audio_device list)"
  ao_set_profile :: "audio_device \<Rightarrow> u32 \<Rightarrow> 'w \<Rightarrow> 'w \<times> (failure + unit)"
  ao_set_default_node :: "audio_device \<Rightarrow> audio_endpoint \<Rightarrow> 'w \<Rightarrow> 'w \<times> (failure + bool \<times> bool)"

definition find_device :: "string \<Rightarrow> string \<Rightarrow> audio_device list \<Rightarrow> audio_device option" where
  "find_device adapter a ds = List.find (\<lambda>d. ad_adapter d = adapter \<and> eq_ignore_case (ad_address d) a) ds"

definition set_default_endpoint ::
    "'w audio_ops \<Rightarrow> string \<Rightarrow> string \<Rightarrow> endpoint_kind \<Rightarrow> 'w \<Rightarrow> 'w \<times> (failure + bool \<times> bool)" where
  "set_default_endpoint ops adapter a kind w =
     (case ao_probe ops w of
        (w1, Inl e) \<Rightarrow> (w1, Inl e)
      | (w1, Inr ds) \<Rightarrow>
          (case find_device adapter a ds of
             None \<Rightarrow> (w1, Inl [Context ''Bluetooth audio device is unavailable''])
           | Some d \<Rightarrow>
               (case (case kind of Sink \<Rightarrow> ad_sink d | Source \<Rightarrow> ad_source d) of
                  None \<Rightarrow> (w1, Inl [Context ''requested Bluetooth audio endpoint is unavailable''])
                | Some e \<Rightarrow>
                    if ae_name e = [] then (w1, Inl [Context ''requested Bluetooth audio endpoint has no PipeWire node name''])
                    else ao_set_default_node ops d e w1)))"

definition preferred_profile :: "(string \<Rightarrow> string) \<Rightarrow> policy_request \<Rightarrow> audio_device \<Rightarrow> failure + u32 option" where
  "preferred_profile digest q d =
     (case pq_preferred_profile_key q of
        None \<Rightarrow> Inr None
      | Some key \<Rightarrow>
          (case available_profile digest (pq_device_key q) key d of
             None \<Rightarrow> Inl [Context ''preferred Bluetooth audio profile is unavailable'']
           | Some p \<Rightarrow> Inr (if ad_active_profile d = Some (ap_index p) then None else Some (ap_index p))))"

definition mutation_failed :: "failure \<Rightarrow> failure" where
  "mutation_failed e = Context ''audio policy write failed or is uncertain; do not automatically replay'' # e"

definition policy_apply :: "(string \<Rightarrow> string) \<Rightarrow> 'w audio_ops \<Rightarrow> policy_request \<Rightarrow> 'w \<Rightarrow> 'w \<times> (failure + unit)" where
  "policy_apply digest ops q w =
     (case ao_probe ops w of
        (w1, Inl e) \<Rightarrow> (w1, Inl e)
      | (w1, Inr ds) \<Rightarrow>
          (case find_device (pq_adapter q) (pq_address q) ds of
             None \<Rightarrow> (w1, Inl [Context ''Bluetooth audio card is not ready''])
           | Some d \<Rightarrow>
               (case preferred_profile digest q d of
                  Inl e \<Rightarrow> (w1, Inl e)
                | Inr choice \<Rightarrow>
                    (let (w2, r) = (case choice of None \<Rightarrow> (w1, Inr ()) | Some i \<Rightarrow> ao_set_profile ops d i w1) in
                     case r of
                       Inl e \<Rightarrow> (w2, Inl (mutation_failed e))
                     | Inr _ \<Rightarrow>
                         if \<not> pq_switch_output q then (w2, Inr ())
                         else (case set_default_endpoint ops (pq_adapter q) (pq_address q) Sink w2 of
                             (w3, Inl e) \<Rightarrow> (w3, Inl (mutation_failed e))
                           | (w3, Inr _) \<Rightarrow> (w3, Inr ()))))))"

subsection \<open>Order does not matter\<close>

lemma distinct_map_distinct: "distinct (map f xs) \<Longrightarrow> distinct xs"
  by (simp add: distinct_map)

lemma map_sort_key: "map f (sort_key (\<lambda>x. k (f x)) xs) = sort_key k (map f xs)"
proof -
  have insort: "map f (insort_key (\<lambda>x. k (f x)) x ys) = insort_key k (f x) (map f ys)" for x ys
    by (induction ys) simp_all
  show ?thesis by (induction xs) (simp_all add: insort)
qed

lemma sort_key_unique:
  assumes "mset xs = mset ys" and "inj_on f (set xs)" and "distinct xs"
  shows "sort_key f xs = sort_key f ys"
proof -
  have sets: "set ys = set xs" and d: "distinct ys"
    using assms(1,3) mset_eq_setD mset_eq_imp_distinct_iff by metis+
  have "sorted (map f (sort_key f xs))" "sorted (map f (sort_key f ys))" by simp_all
  moreover have "distinct (map f (sort_key f xs))" "distinct (map f (sort_key f ys))"
    using assms(2,3) d sets by (simp_all add: distinct_map)
  moreover have "set (map f (sort_key f xs)) = set (map f (sort_key f ys))" using sets by simp
  ultimately have "map f (sort_key f xs) = map f (sort_key f ys)" by (metis sorted_distinct_set_unique)
  moreover have "inj_on f (set (sort_key f xs) \<union> set (sort_key f ys))" using assms(2) sets by simp
  ultimately show ?thesis by (rule map_inj_on)
qed

definition same_content :: "('k, 'v) hmap \<Rightarrow> ('k, 'v) hmap \<Rightarrow> bool" where
  "same_content m n \<longleftrightarrow> hm_ok m \<and> hm_ok n \<and> hm_get m = hm_get n"

lemma same_content_set:
  assumes "hm_ok m" and "hm_ok n" and "set m = set n"
  shows "same_content m n"
proof -
  have "hm_get m k = Some v \<longleftrightarrow> hm_get n k = Some v" for k v
    using hm_in_set [OF assms(1), of k v] hm_in_set [OF assms(2), of k v] assms(3) by simp
  then have "hm_get m = hm_get n" by (metis not_None_eq ext)
  then show ?thesis using assms(1,2) by (simp add: same_content_def)
qed

lemma same_content_mset:
  assumes "same_content m n"
  shows "mset m = mset n"
proof -
  have "set m = set n" using assms hm_in_set [of m] hm_in_set [of n] by (auto simp: same_content_def)
  moreover have "distinct m" "distinct n" using assms by (auto simp: same_content_def hm_ok_def dest: distinct_map_distinct)
  ultimately show ?thesis by (simp add: set_eq_iff_mset_eq_distinct)
qed

text \<open>Every table is keyed by the identifier of what it holds.\<close>

definition keyed :: "('v \<Rightarrow> u32) \<Rightarrow> (u32, 'v) hmap \<Rightarrow> bool" where
  "keyed ident m \<longleftrightarrow> hm_ok m \<and> (\<forall>k v. hm_get m k = Some v \<longrightarrow> ident v = k)"

lemma keyed_empty [simp]: "keyed ident []"
  by (simp add: keyed_def)

lemma keyed_insert: "keyed ident m \<Longrightarrow> ident v = k \<Longrightarrow> keyed ident (hm_insert k v m)"
  by (simp add: keyed_def)

lemma keyed_remove: "keyed ident m \<Longrightarrow> keyed ident (hm_remove k m)"
  by (simp add: keyed_def)

lemma keyed_inj:
  assumes "keyed ident m"
  shows "inj_on ident (set (map snd m))" and "distinct (map snd m)"
proof -
  have key: "(k, v) \<in> set m \<Longrightarrow> ident v = k" for k v using assms hm_in_set [of m] by (auto simp: keyed_def)
  have "map ident (map snd m) = map fst m" using key by auto
  moreover have "distinct (map fst m)" using assms by (simp add: keyed_def hm_ok_def)
  ultimately have "distinct (map ident (map snd m))" by (simp only:)
  then show "inj_on ident (set (map snd m))" and "distinct (map snd m)"
    using distinct_map [of ident "map snd m"] by blast+
qed

definition probe_inv :: "probe_state \<Rightarrow> bool" where
  "probe_inv s \<longleftrightarrow> keyed ad_id (pb_devices s) \<and> hm_ok (pb_endpoints s)
     \<and> (\<forall>k d. hm_get (pb_devices s) k = Some d \<longrightarrow> ad_endpoints d = [])
     \<and> (\<forall>d es. hm_get (pb_endpoints s) d = Some es \<longrightarrow> keyed ae_id es)"

lemma update_ids [simp]:
  "ad_id (update_device_properties ps d) = ad_id d" "ad_id (update_profile parameter p d) = ad_id d"
  "ae_id (update_endpoint_properties ps e) = ae_id e" "ad_endpoints (update_device_properties ps d) = ad_endpoints d"
  "ad_endpoints (update_profile parameter p d) = ad_endpoints d"
  by (simp_all add: update_device_properties_def update_profile_def update_endpoint_properties_def Let_def split: option.split)

lemma keyed_get: "keyed ident m \<Longrightarrow> hm_get m k = Some v \<Longrightarrow> ident v = k"
  by (simp add: keyed_def)

lemma probe_inv_device:
  assumes "probe_inv s" and "ad_id d = k" and "ad_endpoints d = []"
  shows "probe_inv (s\<lparr>pb_devices := hm_insert k d (pb_devices s)\<rparr>)"
  using assms by (simp add: probe_inv_def keyed_insert)

lemma probe_inv_endpoint:
  assumes "probe_inv s" and "ae_id e = k"
  shows "probe_inv (s\<lparr>pb_endpoints := hm_insert d (hm_insert k e (endpoints_of d (pb_endpoints s))) (pb_endpoints s)\<rparr>)"
proof -
  have "keyed ae_id (endpoints_of d (pb_endpoints s))"
    using assms(1) by (simp add: endpoints_of_def probe_inv_def split: option.split)
  then show ?thesis using assms by (simp add: probe_inv_def keyed_insert)
qed

lemma probe_step_inv:
  assumes "probe_inv s"
  shows "probe_inv (probe_step parse ev s)"
proof (cases ev)
  case (GlobalAdded bound g)
  then show ?thesis
    using assms by (auto simp: bind_global_def bind_device_def bind_node_def intro!: probe_inv_device probe_inv_endpoint
        split: option.split object_type.split)
next
  case (GlobalRemoved ident)
  then show ?thesis using assms by (auto simp: remove_object_def probe_inv_def intro: keyed_remove)
next
  case (DeviceInfo ident info)
  then show ?thesis
    using assms by (auto simp: device_info_def probe_inv_def intro!: keyed_insert dest: keyed_get split: option.split)
next
  case (DeviceParam ident parameter pod)
  then show ?thesis
    using assms by (auto simp: device_param_def probe_inv_def intro!: keyed_insert dest: keyed_get split: option.split)
next
  case (NodeInfo device ident state info)
  have "ae_id e = ident" if "hm_get (pb_endpoints s) device = Some es" "hm_get es ident = Some e" for es e
  proof -
    have "keyed ae_id es" using that(1) assms by (simp add: probe_inv_def)
    then show ?thesis using that(2) by (rule keyed_get)
  qed
  then show ?thesis
    using assms NodeInfo by (auto simp: node_info_def Let_def bind_eq_Some_conv intro!: probe_inv_endpoint split: option.split)
next
  case (MetadataProperty subject key v)
  then show ?thesis using assms by (simp add: metadata_property_def probe_inv_def split: option.split)
qed

lemma probe_run_inv: "probe_inv (fold (probe_step parse) evs probe_new)"
proof -
  have "probe_inv s \<Longrightarrow> probe_inv (fold (probe_step parse) evs s)" for s
    by (induction evs arbitrary: s) (simp_all add: probe_step_inv)
  moreover have "probe_inv probe_new" by (simp add: probe_inv_def probe_new_def)
  ultimately show ?thesis .
qed

lemma default_of_same [simp]:
  "ae_id (e\<lparr>ae_is_default := b\<rparr>) = ae_id e" by simp

lemma finalize_fields [simp]:
  "ad_id (finalize s d) = ad_id d" "ad_name (finalize s d) = ad_name d" "ad_id (with_endpoints t d) = ad_id d"
  by (simp_all add: finalize_def with_endpoints_def Let_def split: option.split)

lemma endpoint_order_inj: "inj_on ae_id S \<Longrightarrow> inj_on endpoint_order S"
  by (auto simp: inj_on_def endpoint_order_def)

text \<open>A device's endpoints may come in any order.\<close>

lemma finalize_permuted:
  assumes "mset es = mset fs" and "inj_on ae_id (set es)" and "distinct es"
  shows "finalize s (d\<lparr>ad_endpoints := es\<rparr>) = finalize s (d\<lparr>ad_endpoints := fs\<rparr>)"
proof -
  let ?f = "\<lambda>e. e\<lparr>ae_is_default := (ae_name e = default_of s (ae_kind e))\<rparr>"
  have "inj_on ae_id (set (map ?f es))" using assms(2) by (auto simp: inj_on_def)
  moreover have "distinct (map ae_id (map ?f es))" using assms(2,3) by (simp add: comp_def distinct_map)
  then have "distinct (map ?f es)" by (rule distinct_map_distinct)
  ultimately have "ordered_endpoints s es = ordered_endpoints s fs"
    unfolding ordered_endpoints_def using assms(1) by (intro sort_key_unique endpoint_order_inj) simp_all
  then show ?thesis by (simp add: finalize_def Let_def split: option.split)
qed

definition public_part :: "audio_device \<Rightarrow> audio_device" where
  "public_part d = d\<lparr>ad_internal_endpoints := []\<rparr>"

lemma public_part_finalize: "public_part (finalize s d) = finalize s (public_part d)"
  by (cases d) (simp add: public_part_def finalize_def Let_def split: option.split)

definition same_endpoints :: "endpoint_table \<Rightarrow> endpoint_table \<Rightarrow> bool" where
  "same_endpoints t u \<longleftrightarrow> (\<forall>d. case (hm_get t d, hm_get u d) of
     (None, None) \<Rightarrow> True | (Some es, Some fs) \<Rightarrow> same_content es fs | _ \<Rightarrow> False)"

lemma finalize_same_endpoints:
  assumes "same_endpoints t u" and "\<And>d es. hm_get t d = Some es \<Longrightarrow> keyed ae_id es"
  shows "public_part (finalize s (with_endpoints t d)) = public_part (finalize s (with_endpoints u d))"
proof (cases "hm_get t (ad_id d)")
  case None
  then have "hm_get u (ad_id d) = None" using assms(1) by (auto simp: same_endpoints_def dest!: spec [of _ "ad_id d"] split: option.splits)
  then show ?thesis using None by (simp add: with_endpoints_def)
next
  case (Some es)
  then obtain fs where fs: "hm_get u (ad_id d) = Some fs" "same_content es fs"
    using assms(1) by (auto simp: same_endpoints_def dest!: spec [of _ "ad_id d"] split: option.splits)
  let ?pub = "\<lambda>xs. filter (\<lambda>e. \<not> ae_internal e) (map snd xs)"
  have mset: "mset (?pub es) = mset (?pub fs)"
    using same_content_mset [OF fs(2)] by (simp add: mset_filter)
  have inj: "inj_on ae_id (set (?pub es))" "distinct (?pub es)"
    using keyed_inj [OF assms(2) [OF Some]] by (auto intro: inj_on_subset)
  have "public_part (finalize s (with_endpoints v d)) = finalize s ((public_part d)\<lparr>ad_endpoints := ?pub xs\<rparr>)"
    if "hm_get v (ad_id d) = Some xs" for v xs
    using that unfolding public_part_finalize by (cases d) (simp add: public_part_def with_endpoints_def)
  then show ?thesis using finalize_permuted [OF mset inj] Some fs(1) by simp
qed

lemma finalize_devices_same:
  assumes "same_endpoints t u" and "\<And>d es. hm_get t d = Some es \<Longrightarrow> keyed ae_id es"
    and "keyed ad_id m" and "same_content m n"
  shows "map public_part (finalize_devices s t (map snd m)) = map public_part (finalize_devices s u (map snd n))"
proof -
  let ?f = "\<lambda>d. public_part (finalize s (with_endpoints t d))"
  have order: "device_order (public_part d) = device_order d" for d by (simp add: device_order_def public_part_def)
  have names: "device_order (?f d) = device_order d" for d
    by (simp add: order) (simp add: device_order_def with_endpoints_def split: option.split)
  have sort: "map public_part (finalize_devices s v ds) = sort_key device_order (map (\<lambda>d. public_part (finalize s (with_endpoints v d))) ds)" for v ds
    using map_sort_key [of public_part device_order "map (\<lambda>d. finalize s (with_endpoints v d)) ds"]
    by (simp add: finalize_devices_def order comp_def)
  have ids: "inj_on ad_id (set (map snd m))" "distinct (map snd m)" using keyed_inj [OF assms(3)] by simp_all
  have f_id: "ad_id (?f d) = ad_id d" for d by (simp add: public_part_def)
  have order_inj: "?f x = ?f y" if "x \<in> set (map snd m)" "y \<in> set (map snd m)" "device_order (?f x) = device_order (?f y)" for x y
  proof -
    have "ad_id x = ad_id y" using that(3) unfolding names by (simp add: device_order_def)
    then show ?thesis using inj_onD [OF ids(1) _ that(1,2)] by simp
  qed
  have "map (\<lambda>d. public_part (finalize s (with_endpoints u d))) (map snd n) = map ?f (map snd n)"
    using finalize_same_endpoints [OF assms(1,2)] by simp
  moreover have "mset (map ?f (map snd m)) = mset (map ?f (map snd n))"
    using same_content_mset [OF assms(4)] by simp
  moreover have "inj_on device_order (set (map ?f (map snd m)))"
    using order_inj by (auto intro!: inj_onI)
  moreover have "distinct (map ?f (map snd m))"
  proof (rule distinct_map_distinct [of ad_id])
    have "map ad_id (map ?f (map snd m)) = map ad_id (map snd m)" by (simp add: f_id)
    moreover have "distinct (map ad_id (map snd m))" using ids distinct_map by blast
    ultimately show "distinct (map ad_id (map ?f (map snd m)))" by (simp only:)
  qed
  ultimately show ?thesis unfolding sort by (simp only:) (rule sort_key_unique)
qed

subsection \<open>Properties\<close>

text \<open>
  C23. What a probe reports does not depend on the order in which its hash maps give their entries: any
  state with the same devices and endpoints as the one the callbacks built finishes with the same list of
  devices, with the same order of devices, profiles and endpoints, and the same selected sink and source.
  Only the internal endpoints, which are not shown, may come in another order.
\<close>

theorem probe_is_deterministic:
  assumes "p = fold (probe_step parse) evs probe_new" and "same_content (pb_devices p) (pb_devices q)"
    and "same_endpoints (pb_endpoints p) (pb_endpoints q)" and "pb_defaults q = pb_defaults p"
  shows "map public_part (finish_probe p) = map public_part (finish_probe q)"
proof -
  have inv: "probe_inv p" using probe_run_inv assms(1) by simp
  then show ?thesis
    unfolding finish_probe_def assms(4) using assms(2,3) by (intro finalize_devices_same) (auto simp: probe_inv_def)
qed

lemma find_first:
  "sorted (map k xs) \<Longrightarrow> List.find p xs = Some x \<Longrightarrow> x \<in> set xs \<and> p x \<and> (\<forall>y \<in> set xs. p y \<longrightarrow> k x \<le> k y)"
  by (induction xs) (auto split: if_splits)

lemma sorted_endpoints: "sorted (map endpoint_order (ordered_endpoints s es))"
  by (simp add: ordered_endpoints_def)

lemma finished_device:
  assumes "d \<in> set (finish_probe p)" and "probe_inv p"
  obtains es where "ad_endpoints d = ordered_endpoints (pb_defaults p) es" and "\<forall>e \<in> set es. \<not> ae_internal e"
    and "ad_sink d = List.find (\<lambda>e. ae_kind e = Sink) (ad_endpoints d)"
    and "ad_source d = List.find (\<lambda>e. ae_kind e = Source) (ad_endpoints d)"
proof -
  obtain k d0 where d0: "(k, d0) \<in> set (pb_devices p)" "d = finalize (pb_defaults p) (with_endpoints (pb_endpoints p) d0)"
    using assms(1) by (auto simp: finish_probe_def finalize_devices_def)
  have "hm_get (pb_devices p) k = Some d0" using d0(1) assms(2) by (simp add: probe_inv_def keyed_def hm_in_set)
  then have "ad_endpoints d0 = []" using assms(2) by (simp add: probe_inv_def)
  then have "\<forall>e \<in> set (ad_endpoints (with_endpoints (pb_endpoints p) d0)). \<not> ae_internal e"
    by (auto simp: with_endpoints_def split: option.split)
  moreover have "ad_endpoints d = ordered_endpoints (pb_defaults p) (ad_endpoints (with_endpoints (pb_endpoints p) d0))"
    "ad_sink d = List.find (\<lambda>e. ae_kind e = Sink) (ad_endpoints d)"
    "ad_source d = List.find (\<lambda>e. ae_kind e = Source) (ad_endpoints d)"
    unfolding d0(2) by (simp_all add: finalize_def Let_def)
  ultimately show ?thesis using that by blast
qed

definition demo_node :: "string \<Rightarrow> global_object" where
  "demo_node name = \<lparr>go_id = (if name = ''b'' then 3 else 2), go_type = TNode,
     go_props = Some [(''device.id'', ''1''), (''media.class'', ''Audio/Sink''), (''node.name'', name)]\<rparr>"

definition demo_card :: global_object where
  "demo_card = \<lparr>go_id = 1, go_type = TDevice, go_props = Some [(''device.api'', ''bluez5'')]\<rparr>"

definition demo_events :: "string list \<Rightarrow> probe_event list" where
  "demo_events names = GlobalAdded True demo_card # map (\<lambda>n. GlobalAdded True (demo_node n)) names
     @ [MetadataProperty 0 (Some ''default.audio.sink'') (Some ''b'')]"

definition demo_parse :: "string \<Rightarrow> json option" where
  "demo_parse v = Some (JObject [(''name'', JString v)])"

definition demo_probe :: "string list \<Rightarrow> probe_state" where
  "demo_probe names = fold (probe_step demo_parse) (demo_events names) probe_new"

text \<open>The same two endpoints, announced in either order.\<close>

theorem probe_is_deterministic_witness:
  "map (\<lambda>d. map_option ae_name (ad_sink (public_part d))) (finish_probe (demo_probe [''b'', ''a''])) = [Some ''b'']"
proof -
  let ?p = "demo_probe [''a'', ''b'']" and ?q = "demo_probe [''b'', ''a'']"
  have inv: "probe_inv ?p" "probe_inv ?q" unfolding demo_probe_def by (rule probe_run_inv)+
  have "pb_devices ?p = pb_devices ?q" "pb_defaults ?q = pb_defaults ?p" by code_simp+
  then have devices: "same_content (pb_devices ?p) (pb_devices ?q)" "pb_defaults ?q = pb_defaults ?p"
    using inv(1) by (simp_all add: same_content_def probe_inv_def keyed_def)
  let ?es = "the (hm_get (pb_endpoints ?p) 1)" and ?fs = "the (hm_get (pb_endpoints ?q) 1)"
  obtain es fs where e: "pb_endpoints ?p = [(1, es)]" "pb_endpoints ?q = [(1, fs)]" "fs = rev es"
  proof -
    have "pb_endpoints ?p = [(1, ?es)]" "pb_endpoints ?q = [(1, ?fs)]" "?fs = rev ?es" by code_simp+
    then show thesis by (rule that)
  qed
  have "keyed ae_id es" "keyed ae_id fs" using inv e by (simp_all add: probe_inv_def hm_get_def)
  then have "same_content es fs"
    by (intro same_content_set) (simp_all add: e(3) keyed_def)
  then have "same_endpoints (pb_endpoints ?p) (pb_endpoints ?q)"
    using e(1,2) by (simp add: same_endpoints_def hm_get_def)
  from probe_is_deterministic [OF _ devices(1) this devices(2), of demo_parse "demo_events [''a'', ''b'']"]
  have "map public_part (finish_probe ?p) = map public_part (finish_probe ?q)" by (simp add: demo_probe_def)
  moreover have "map (\<lambda>d. map_option ae_name (ad_sink d)) (map public_part (finish_probe ?p)) = [Some ''b'']" by code_simp
  ultimately show ?thesis by (simp add: comp_def)
qed

text \<open>
  The sink and source offered for a device are never internal ones: each is the first of its kind in
  the order by default, priority, name and identifier, and there is none only when the device has none. An
  endpoint is marked default exactly when it has the default's name.
\<close>

theorem selected_endpoints_are_best:
  assumes "p = fold (probe_step parse) evs probe_new" and "d \<in> set (finish_probe p)"
  shows "\<forall>e \<in> set (ad_endpoints d). \<not> ae_internal e \<and> ae_is_default e = (ae_name e = default_of (pb_defaults p) (ae_kind e))"
    and "(ad_sink d = None) = (\<forall>e \<in> set (ad_endpoints d). ae_kind e \<noteq> Sink)"
    and "ad_sink d = Some e \<Longrightarrow> e \<in> set (ad_endpoints d) \<and> ae_kind e = Sink
      \<and> (\<forall>f \<in> set (ad_endpoints d). ae_kind f = Sink \<longrightarrow> endpoint_order e \<le> endpoint_order f)"
    and "(ad_source d = None) = (\<forall>e \<in> set (ad_endpoints d). ae_kind e \<noteq> Source)"
    and "ad_source d = Some e \<Longrightarrow> e \<in> set (ad_endpoints d) \<and> ae_kind e = Source
      \<and> (\<forall>f \<in> set (ad_endpoints d). ae_kind f = Source \<longrightarrow> endpoint_order e \<le> endpoint_order f)"
proof -
  have "probe_inv p" using probe_run_inv assms(1) by simp
  then obtain es where d: "ad_endpoints d = ordered_endpoints (pb_defaults p) es" "\<forall>e \<in> set es. \<not> ae_internal e"
      "ad_sink d = List.find (\<lambda>e. ae_kind e = Sink) (ad_endpoints d)" "ad_source d = List.find (\<lambda>e. ae_kind e = Source) (ad_endpoints d)"
    using finished_device [OF assms(2)] by metis
  have sorted: "sorted (map endpoint_order (ad_endpoints d))" unfolding d(1) by (rule sorted_endpoints)
  show "\<forall>e \<in> set (ad_endpoints d). \<not> ae_internal e \<and> ae_is_default e = (ae_name e = default_of (pb_defaults p) (ae_kind e))"
    using d(2) unfolding d(1) by (auto simp: ordered_endpoints_def)
  show "(ad_sink d = None) = (\<forall>e \<in> set (ad_endpoints d). ae_kind e \<noteq> Sink)"
    and "(ad_source d = None) = (\<forall>e \<in> set (ad_endpoints d). ae_kind e \<noteq> Source)"
    unfolding d(3,4) by (auto simp: find_None_iff)
  show "ad_sink d = Some e \<Longrightarrow> e \<in> set (ad_endpoints d) \<and> ae_kind e = Sink
      \<and> (\<forall>f \<in> set (ad_endpoints d). ae_kind f = Sink \<longrightarrow> endpoint_order e \<le> endpoint_order f)"
    unfolding d(3) by (rule find_first [OF sorted])
  show "ad_source d = Some e \<Longrightarrow> e \<in> set (ad_endpoints d) \<and> ae_kind e = Source
      \<and> (\<forall>f \<in> set (ad_endpoints d). ae_kind f = Source \<longrightarrow> endpoint_order e \<le> endpoint_order f)"
    unfolding d(4) by (rule find_first [OF sorted])
qed

theorem selected_endpoints_are_best_witness:
  "\<exists>d e. d \<in> set (finish_probe (demo_probe [''a'', ''b''])) \<and> ad_sink d = Some e \<and> ae_name e = ''b''
     \<and> (\<forall>f \<in> set (ad_endpoints d). ae_kind f = Sink \<longrightarrow> endpoint_order e \<le> endpoint_order f)"
proof -
  let ?p = "demo_probe [''a'', ''b'']"
  have "list_all (\<lambda>d. case ad_sink d of Some e \<Rightarrow> ae_name e = ''b'' | None \<Rightarrow> False) (finish_probe ?p) \<and> finish_probe ?p \<noteq> []"
    by code_simp
  then obtain d e where d: "d \<in> set (finish_probe ?p)" "ad_sink d = Some e" "ae_name e = ''b''"
    by (cases "finish_probe ?p") (auto split: option.splits)
  then show ?thesis using selected_endpoints_are_best(3) [OF demo_probe_def d(1,2)] by blast
qed

end
