(* ===== verification/AudioChange.thy ===== *)
theory AudioChange
  imports Audio
begin

text \<open>
  \<open>src/audio.rs\<close> and \<open>src/audio/wait.rs\<close>: the two changes the daemon makes in PipeWire, activating a profile
  and setting the default route. Each is a state that callbacks update until it is confirmed, fails, or its
  deadline passes.

  The main loop dispatches callbacks in batches; \<open>quit\<close> ends it after the batch. What a bind or a write
  would answer comes with the callback that asks for it.
\<close>

subsection \<open>Completion\<close>

type_synonym completion = "(string + unit) option"

definition succeed :: "completion \<Rightarrow> completion" where
  "succeed c = (case c of None \<Rightarrow> Some (Inr ()) | Some r \<Rightarrow> Some r)"

definition completion_fail :: "string \<Rightarrow> completion \<Rightarrow> completion" where
  "completion_fail e c = Some (Inl e)"

fun completion_failed :: "completion \<Rightarrow> bool" where
  "completion_failed (Some (Inl e)) = True"
| "completion_failed _ = False"

text \<open>
  \<open>wait\<close> over the batches to come, for a state with a completion and the deadline's flag: \<open>None\<close> while it
  waits for another batch, otherwise the state it stops in.
\<close>

fun wait_loop :: "('s \<Rightarrow> completion) \<Rightarrow> ('s \<Rightarrow> bool) \<Rightarrow> ('e \<Rightarrow> 's \<Rightarrow> 's) \<Rightarrow> 'e list list \<Rightarrow> 's \<Rightarrow> 's option" where
  "wait_loop completion expired step batches s =
     (if completion s \<noteq> None \<or> expired s then Some s
      else case batches of
        [] \<Rightarrow> None
      | b # bs \<Rightarrow> wait_loop completion expired step bs (fold step b s))"

definition wait_result :: "completion \<Rightarrow> failure + bool" where
  "wait_result c = (case c of Some (Inr _) \<Rightarrow> Inr True | Some (Inl e) \<Rightarrow> Inl [Context e] | None \<Rightarrow> Inr False)"

declare wait_loop.simps [simp del]

lemma wait_loop_stop: "completion s \<noteq> None \<or> expired s \<Longrightarrow> wait_loop completion expired step batches s = Some s"
  by (subst wait_loop.simps) simp

lemma wait_loop_dispatch:
  "completion s = None \<Longrightarrow> \<not> expired s \<Longrightarrow>
    wait_loop completion expired step (b # bs) s = wait_loop completion expired step bs (fold step b s)"
  "completion s = None \<Longrightarrow> \<not> expired s \<Longrightarrow> wait_loop completion expired step [] s = None"
  by (subst wait_loop.simps, simp)+

text \<open>The state \<open>wait\<close> stops in is reached by whole batches, and it is done or its deadline has passed.\<close>

lemma wait_loop_prefix:
  "wait_loop completion expired step batches s = Some s' \<Longrightarrow>
    (\<exists>n. s' = fold step (concat (take n batches)) s) \<and> (completion s' \<noteq> None \<or> expired s')"
proof (induction batches arbitrary: s)
  case Nil
  then show ?case using wait_loop_stop [of completion s expired step "[]"] wait_loop_dispatch(2) [of completion s expired step]
    by fastforce
next
  case (Cons b bs)
  show ?case
  proof (cases "completion s \<noteq> None \<or> expired s")
    case True
    then have "s' = fold step (concat (take 0 (b # bs))) s"
      using Cons.prems wait_loop_stop [of completion s expired step "b # bs"] by simp
    moreover have "completion s' \<noteq> None \<or> expired s'"
      using True Cons.prems wait_loop_stop [of completion s expired step "b # bs"] by simp
    ultimately show ?thesis by blast
  next
    case False
    then have rest: "wait_loop completion expired step bs (fold step b s) = Some s'"
      using Cons.prems by (simp add: wait_loop_dispatch)
    obtain n where "s' = fold step (concat (take n bs)) (fold step b s)" using Cons.IH [OF rest] by blast
    then have "s' = fold step (concat (take (Suc n) (b # bs))) s" by simp
    then show ?thesis using Cons.IH [OF rest] by blast
  qed
qed

subsection \<open>Activating a profile\<close>

record identity =
  di_id :: u32
  di_serial :: "u64 option"
  di_adapter :: string
  di_address :: string

definition identity_of :: "audio_device \<Rightarrow> identity" where
  "identity_of d = \<lparr>di_id = ad_id d, di_serial = ad_serial d, di_adapter = ad_adapter d, di_address = ad_address d\<rparr>"

record profile_change =
  pc_target_id :: "u32 option"
  pc_listening :: bool
  pc_written :: bool
  pc_completion :: completion
  pc_expired :: bool
  pc_writes :: nat  \<comment> \<open>how often the parameter was written, for the specification\<close>

definition profile_change_new :: profile_change where
  "profile_change_new = \<lparr>pc_target_id = None, pc_listening = False, pc_written = False, pc_completion = None,
     pc_expired = False, pc_writes = 0\<rparr>"

datatype profile_event =
    PGlobal global_object "failure + unit"
  | PRemoved u32
  | PInfo "props option" "failure + unit"
  | PParam param_type "(profile_property \<times> spa_value) list option"
  | PCoreError string
  | PDeadline

definition profile_fail :: "string \<Rightarrow> profile_change \<Rightarrow> profile_change" where
  "profile_fail e s = s\<lparr>pc_completion := completion_fail e (pc_completion s)\<rparr>"

definition profile_info :: "identity \<Rightarrow> props option \<Rightarrow> failure + unit \<Rightarrow> profile_change \<Rightarrow> profile_change" where
  "profile_info target info write_answer s =
     (if completion_failed (pc_completion s) then s
      else case info of
        None \<Rightarrow> s
      | Some ps \<Rightarrow>
          if \<not> device_properties_match (di_adapter target) (di_address target) ps
          then profile_fail ''PipeWire Bluetooth device changed identity'' s
          else if pc_written s then s
          else case write_answer of
            Inr _ \<Rightarrow> s\<lparr>pc_written := True, pc_writes := Suc (pc_writes s)\<rparr>
          | Inl e \<Rightarrow> profile_fail (''write PipeWire profile: '' @ error_chain e) s)"

definition profile_observe ::
    "u32 \<Rightarrow> param_type \<Rightarrow> (profile_property \<times> spa_value) list option \<Rightarrow> profile_change \<Rightarrow> profile_change" where
  "profile_observe index parameter pod s =
     (if pc_written s \<and> parameter = PProfile \<and> map_option ap_index (parse_profile pod) = Some index
      then s\<lparr>pc_completion := succeed (pc_completion s)\<rparr> else s)"

definition profile_global :: "identity \<Rightarrow> global_object \<Rightarrow> failure + unit \<Rightarrow> profile_change \<Rightarrow> profile_change" where
  "profile_global target g bound s =
     (if go_type g \<noteq> TDevice \<or> \<not> object_matches g (di_id target) (di_serial target) then s
      else let s1 = s\<lparr>pc_target_id := Some (go_id g)\<rparr> in
        case bound of
          Inl e \<Rightarrow> profile_fail (''apply PipeWire Bluetooth profile: ''
            @ error_chain (Context ''bind PipeWire device for profile change'' # e)) s1
        | Inr _ \<Rightarrow> s1\<lparr>pc_listening := True\<rparr>)"

fun profile_step :: "identity \<Rightarrow> u32 \<Rightarrow> profile_event \<Rightarrow> profile_change \<Rightarrow> profile_change" where
  "profile_step target index (PGlobal g bound) s = profile_global target g bound s"
| "profile_step target index (PRemoved ident) s =
     (if pc_target_id s = Some ident then profile_fail ''PipeWire Bluetooth device disappeared during profile change'' s else s)"
| "profile_step target index (PInfo info answer) s = (if pc_listening s then profile_info target info answer s else s)"
| "profile_step target index (PParam parameter pod) s = (if pc_listening s then profile_observe index parameter pod s else s)"
| "profile_step target index (PCoreError e) s = profile_fail e s"
| "profile_step target index PDeadline s = s\<lparr>pc_expired := True\<rparr>"

definition profile_parameter_fits :: "u32 \<Rightarrow> bool" where
  "profile_parameter_fits index = (index \<le> 2147483647)"

text \<open>\<open>opened\<close>: the session's answer. \<open>None\<close> while it waits.\<close>

definition set_profile ::
    "failure + unit \<Rightarrow> profile_event list list \<Rightarrow> audio_device \<Rightarrow> u32 \<Rightarrow> (failure + unit) option" where
  "set_profile opened batches target index =
     (if ad_serial target = None \<or> ad_adapter target = []
      then Some (Inl [Context ''PipeWire device identity is unavailable''])
      else if \<not> profile_parameter_fits index then Some (Inl [Context ''PipeWire profile index exceeds i32''])
      else case opened of
        Inl e \<Rightarrow> Some (Inl e)
      | Inr _ \<Rightarrow>
          map_option (\<lambda>s. res_bind (wait_result (pc_completion s)) (\<lambda>confirmed.
              if confirmed then Inr ()
              else Inl [Context ''PipeWire profile activation was not observed before the deadline; the write may still complete'']))
            (wait_loop pc_completion pc_expired (profile_step (identity_of target) index) batches profile_change_new))"

subsection \<open>Setting the default route\<close>

definition configured_default_key :: "endpoint_kind \<Rightarrow> string" where
  "configured_default_key k = (case k of Sink \<Rightarrow> ''default.configured.audio.sink'' | Source \<Rightarrow> ''default.configured.audio.source'')"

definition effective_default_key :: "endpoint_kind \<Rightarrow> string" where
  "effective_default_key k = (case k of Sink \<Rightarrow> ''default.audio.sink'' | Source \<Rightarrow> ''default.audio.source'')"

record route_outcome =
  ro_configured :: bool
  ro_effective :: bool

definition no_route :: route_outcome where "no_route = \<lparr>ro_configured = False, ro_effective = False\<rparr>"

definition route_confirmed :: "bool \<Rightarrow> route_outcome \<Rightarrow> bool" where
  "route_confirmed written r = (written \<and> ro_configured r \<and> ro_effective r)"

definition route_observe ::
    "(string \<Rightarrow> json option) \<Rightarrow> endpoint_kind \<Rightarrow> string \<Rightarrow> string option \<Rightarrow> string option \<Rightarrow> route_outcome \<Rightarrow> route_outcome" where
  "route_observe parse kind expected key v r =
     (let found = (Option.bind v (default_node_name parse) = Some expected) in
      case key of
        None \<Rightarrow> no_route
      | Some k \<Rightarrow>
          if k = configured_default_key kind then r\<lparr>ro_configured := found\<rparr>
          else if k = effective_default_key kind then r\<lparr>ro_effective := found\<rparr> else r)"

record route_target =
  rt_device :: identity
  rt_node_id :: u32
  rt_node_serial :: "u64 option"
  rt_name :: string
  rt_kind :: endpoint_kind

record route_change =
  rc_completion :: completion
  rc_outcome :: route_outcome
  rc_device_bound :: bool
  rc_device_seen :: bool
  rc_node_seen :: bool
  rc_written :: bool
  rc_metadata_id :: "u32 option"
  rc_metadata :: "u32 option"  \<comment> \<open>the proxy held, by its object\<close>
  rc_expired :: bool
  rc_writes :: nat  \<comment> \<open>for the specification\<close>

definition route_change_new :: route_change where
  "route_change_new = \<lparr>rc_completion = None, rc_outcome = no_route, rc_device_bound = False, rc_device_seen = False,
     rc_node_seen = False, rc_written = False, rc_metadata_id = None, rc_metadata = None, rc_expired = False, rc_writes = 0\<rparr>"

datatype route_event =
    RGlobal global_object "failure + unit"
  | RRemoved u32
  | RDeviceInfo "props option"
  | RMetadata u32 u32 "string option" "string option"  \<comment> \<open>object, subject, key and value\<close>
  | RCoreError string
  | RDeadline

definition route_fail :: "string \<Rightarrow> route_change \<Rightarrow> route_change" where
  "route_fail e s = s\<lparr>rc_completion := completion_fail e (rc_completion s)\<rparr>"

definition route_confirm :: "route_change \<Rightarrow> route_change" where
  "route_confirm s =
     (if route_confirmed (rc_written s) (rc_outcome s) then s\<lparr>rc_completion := succeed (rc_completion s)\<rparr> else s)"

definition write_if_ready :: "route_change \<Rightarrow> route_change" where
  "write_if_ready s =
     (if \<not> rc_device_seen s \<or> \<not> rc_node_seen s \<or> rc_written s \<or> completion_failed (rc_completion s) then s
      else case rc_metadata s of
        None \<Rightarrow> s
      | Some _ \<Rightarrow> route_confirm (s\<lparr>rc_written := True, rc_writes := Suc (rc_writes s)\<rparr>))"

definition node_identity :: "route_target \<Rightarrow> global_object \<Rightarrow> bool" where
  "node_identity t g \<longleftrightarrow> go_props g \<noteq> None
     \<and> Option.bind (global_prop g ''device.id'') parse_unsigned = Some (di_id (rt_device t))
     \<and> global_prop g ''node.name'' = Some (rt_name t)
     \<and> endpoint_kind_of (global_prop g ''media.class'') = Some (rt_kind t)"

definition route_bind_metadata :: "global_object \<Rightarrow> failure + unit \<Rightarrow> route_change \<Rightarrow> failure + route_change" where
  "route_bind_metadata g bound s =
     (case bound of
        Inl e \<Rightarrow> Inl (Context ''bind PipeWire default metadata'' # e)
      | Inr _ \<Rightarrow> Inr (s\<lparr>rc_metadata := Some (go_id g)\<rparr>))"

definition route_global :: "route_target \<Rightarrow> global_object \<Rightarrow> failure + unit \<Rightarrow> route_change \<Rightarrow> route_change" where
  "route_global t g bound s0 =
     (let is_metadata = (go_type g = TMetadata \<and> global_prop g ''metadata.name'' = Some ''default'');
          s = (if is_metadata then s0\<lparr>rc_metadata_id := Some (go_id g)\<rparr> else s0);
          r = (if go_type g = TDevice \<and> object_matches g (di_id (rt_device t)) (di_serial (rt_device t))
               then (case bound of Inl e \<Rightarrow> Inl (Context ''bind PipeWire routing device'' # e) | Inr _ \<Rightarrow> Inr (s\<lparr>rc_device_bound := True\<rparr>))
               else if go_type g = TNode \<and> object_matches g (rt_node_id t) (rt_node_serial t)
               then res_bind (ensure (node_identity t g) ''PipeWire endpoint changed identity'') (\<lambda>_. Inr (s\<lparr>rc_node_seen := True\<rparr>))
               else if is_metadata then route_bind_metadata g bound s
               else Inr s)
      in case r of Inl e \<Rightarrow> route_fail (error_chain e) s | Inr s1 \<Rightarrow> write_if_ready s1)"

definition route_device_info :: "route_target \<Rightarrow> props option \<Rightarrow> route_change \<Rightarrow> route_change" where
  "route_device_info t info s =
     (case info of
        None \<Rightarrow> s
      | Some ps \<Rightarrow>
          if \<not> device_properties_match (di_adapter (rt_device t)) (di_address (rt_device t)) ps
          then route_fail ''PipeWire routing device changed identity'' s
          else write_if_ready (s\<lparr>rc_device_seen := True\<rparr>))"

fun route_step :: "(string \<Rightarrow> json option) \<Rightarrow> route_target \<Rightarrow> route_event \<Rightarrow> route_change \<Rightarrow> route_change" where
  "route_step parse t (RGlobal g bound) s = route_global t g bound s"
| "route_step parse t (RRemoved ident) s =
     (if rc_metadata_id s = Some ident \<or> ident = di_id (rt_device t) \<or> ident = rt_node_id t
      then route_fail ''PipeWire routing target or default metadata disappeared'' s else s)"
| "route_step parse t (RDeviceInfo info) s = (if rc_device_bound s then route_device_info t info s else s)"
| "route_step parse t (RMetadata object subject key v) s =
     (if rc_metadata s = Some object \<and> subject = 0
      then route_confirm (s\<lparr>rc_outcome := route_observe parse (rt_kind t) (rt_name t) key v (rc_outcome s)\<rparr>) else s)"
| "route_step parse t (RCoreError e) s = route_fail e s"
| "route_step parse t RDeadline s = s\<lparr>rc_expired := True\<rparr>"

definition route_target_of :: "audio_device \<Rightarrow> audio_endpoint \<Rightarrow> route_target" where
  "route_target_of d e = \<lparr>rt_device = identity_of d, rt_node_id = ae_id e, rt_node_serial = ae_serial e,
     rt_name = ae_name e, rt_kind = ae_kind e\<rparr>"

definition routable :: "audio_device \<Rightarrow> audio_endpoint \<Rightarrow> bool" where
  "routable d e \<longleftrightarrow> ad_serial d \<noteq> None \<and> ad_adapter d \<noteq> [] \<and> ae_serial e \<noteq> None \<and> ae_name e \<noteq> []
     \<and> \<not> ae_internal e \<and> (\<exists>n \<in> set (ad_endpoints d). ae_id n = ae_id e \<and> ae_serial n = ae_serial e)"

definition set_default_node ::
    "(string \<Rightarrow> json option) \<Rightarrow> failure + unit \<Rightarrow> route_event list list \<Rightarrow> audio_device \<Rightarrow> audio_endpoint
      \<Rightarrow> (failure + route_outcome) option" where
  "set_default_node parse opened batches d e =
     (if \<not> routable d e
      then Some (Inl [Context ''PipeWire endpoint identity is unavailable or does not belong to this device''])
      else case opened of
        Inl err \<Rightarrow> Some (Inl err)
      | Inr _ \<Rightarrow>
          map_option (\<lambda>s. res_bind (wait_result (rc_completion s)) (\<lambda>_.
              if rc_written s \<and> ro_configured (rc_outcome s) then Inr (rc_outcome s)
              else Inl [Context ''PipeWire did not confirm the requested default before the deadline (target may have disappeared)'']))
            (wait_loop rc_completion rc_expired (route_step parse (route_target_of d e)) batches route_change_new))"

subsection \<open>What a confirmed profile shows\<close>

lemmas profile_case_simps = profile_fail_def profile_info_def profile_observe_def profile_global_def completion_fail_def
  succeed_def

lemma completion_failed_iff: "completion_failed c \<longleftrightarrow> (\<exists>e. c = Some (Inl e))"
  by (cases c rule: completion_failed.cases) auto

lemma profile_step_failed:
  "completion_failed (pc_completion s) \<Longrightarrow> completion_failed (pc_completion (profile_step target index e s))"
  by (cases e) (auto simp: profile_case_simps completion_failed_iff Let_def split: option.splits sum.splits)

lemma profile_step_failed_writes:
  "completion_failed (pc_completion s) \<Longrightarrow> pc_writes (profile_step target index e s) = pc_writes s"
  by (cases e) (auto simp: profile_case_simps completion_failed_iff Let_def split: option.splits sum.splits)

lemma profile_run_failed:
  "completion_failed (pc_completion s) \<Longrightarrow>
    completion_failed (pc_completion (fold (profile_step target index) es s))
    \<and> pc_writes (fold (profile_step target index) es s) = pc_writes s"
  by (induction es arbitrary: s) (simp_all add: profile_step_failed profile_step_failed_writes)

definition profile_write_seen :: "identity \<Rightarrow> profile_event list \<Rightarrow> bool" where
  "profile_write_seen target es \<longleftrightarrow>
     (\<exists>ps. PInfo (Some ps) (Inr ()) \<in> set es \<and> device_properties_match (di_adapter target) (di_address target) ps)"

definition profile_reply_seen :: "identity \<Rightarrow> u32 \<Rightarrow> profile_event list \<Rightarrow> bool" where
  "profile_reply_seen target index es \<longleftrightarrow>
     (\<exists>before pod after. es = before @ PParam PProfile pod # after \<and> profile_write_seen target before
        \<and> map_option ap_index (parse_profile pod) = Some index)"

definition profile_trace_inv :: "identity \<Rightarrow> u32 \<Rightarrow> profile_event list \<Rightarrow> profile_change \<Rightarrow> bool" where
  "profile_trace_inv target index es s \<longleftrightarrow>
     pc_writes s = of_bool (pc_written s)
     \<and> (pc_written s \<longrightarrow> profile_write_seen target es)
     \<and> (pc_completion s = Some (Inr ()) \<longrightarrow> pc_written s \<and> profile_reply_seen target index es)
     \<and> ((\<exists>e. PCoreError e \<in> set es) \<longrightarrow> completion_failed (pc_completion s))"

lemma profile_write_seen_snoc [simp]:
  "profile_write_seen target es \<Longrightarrow> profile_write_seen target (es @ [e])"
  by (auto simp: profile_write_seen_def)

lemma profile_reply_seen_snoc [simp]:
  assumes "profile_reply_seen target index es" shows "profile_reply_seen target index (es @ [e])"
proof -
  obtain before pod after where "es = before @ PParam PProfile pod # after" "profile_write_seen target before"
    "map_option ap_index (parse_profile pod) = Some index"
    using assms unfolding profile_reply_seen_def by blast
  then show ?thesis unfolding profile_reply_seen_def
    by (intro exI [of _ before] exI [of _ pod] exI [of _ "after @ [e]"]) simp
qed

lemma profile_trace_inv_step:
  assumes inv: "profile_trace_inv target index es s"
  shows "profile_trace_inv target index (es @ [e]) (profile_step target index e s)"
proof (cases e)
  case (PInfo info answer)
  then show ?thesis using inv
    by (auto simp: profile_trace_inv_def profile_case_simps completion_failed_iff profile_write_seen_def
        split: option.splits sum.splits)
next
  case (PParam parameter pod)
  have "profile_reply_seen target index (es @ [e])"
    if "pc_written s" "parameter = PProfile" "map_option ap_index (parse_profile pod) = Some index"
    using inv that PParam unfolding profile_trace_inv_def profile_reply_seen_def
    by (intro exI [of _ es] exI [of _ pod] exI [of _ "[]"]) simp
  then show ?thesis using inv PParam
    by (auto simp: profile_trace_inv_def profile_case_simps completion_failed_iff split: option.splits)
qed (use inv in \<open>auto simp: profile_trace_inv_def profile_case_simps completion_failed_iff Let_def split: sum.splits\<close>)

lemma profile_trace_inv_run: "profile_trace_inv target index es (fold (profile_step target index) es profile_change_new)"
proof (induction es rule: rev_induct)
  case Nil
  show ?case by (simp add: profile_trace_inv_def profile_change_new_def)
next
  case (snoc e es)
  then show ?case by (simp add: profile_trace_inv_step)
qed

text \<open>
  C9. A profile change reported as done was written to a device that still had the target's adapter and
  address, the device then reported the requested profile as its current one, no core error arrived by then,
  and the parameter was written exactly once.
\<close>
theorem profile_change_confirmed:
  assumes "set_profile opened batches device index = Some (Inr ())"
  shows "\<exists>n es. es = concat (take n batches)
    \<and> profile_reply_seen (identity_of device) index es
    \<and> (\<forall>e. PCoreError e \<notin> set es)
    \<and> pc_writes (fold (profile_step (identity_of device) index) es profile_change_new) = 1"
proof -
  let ?step = "profile_step (identity_of device) index"
  obtain s where s: "wait_loop pc_completion pc_expired ?step batches profile_change_new = Some s"
      and ok: "pc_completion s = Some (Inr ())"
    using assms by (auto simp: set_profile_def wait_result_def split: if_splits sum.splits option.splits)
  obtain n where n: "s = fold ?step (concat (take n batches)) profile_change_new"
    using wait_loop_prefix [OF s] by blast
  have "profile_trace_inv (identity_of device) index (concat (take n batches)) s"
    unfolding n by (rule profile_trace_inv_run)
  then show ?thesis using ok n by (auto simp: profile_trace_inv_def)
qed

definition sample_endpoint :: audio_endpoint where
  "sample_endpoint = \<lparr>ae_id = 50, ae_serial = Some 8, ae_name = ''bluez_output.1'', ae_kind = Sink, ae_state = ''idle'',
     ae_is_default = False, ae_codec = None, ae_priority = 0, ae_internal = False\<rparr>"

definition sample_device :: audio_device where
  "sample_device = \<lparr>ad_id = 40, ad_serial = Some 7, ad_address = ''11:22:33:44:55:66'', ad_adapter = ''hci0'',
     ad_name = ''Buds'', ad_active_profile = None, ad_profiles = [], ad_endpoints = [sample_endpoint],
     ad_internal_endpoints = [], ad_sink = None, ad_source = None\<rparr>"

definition sample_props :: props where
  "sample_props = [(''api.bluez5.path'', ''/org/bluez/hci0/dev_1''), (''api.bluez5.address'', ''11:22:33:44:55:66'')]"

definition sample_global :: global_object where
  "sample_global = \<lparr>go_id = 40, go_type = TDevice, go_props = Some [(''object.serial'', ''7'')]\<rparr>"

definition sample_batches :: "profile_event list list" where
  "sample_batches = [[PGlobal sample_global (Inr ())], [PInfo (Some sample_props) (Inr ())],
     [PParam PProfile (Some [(KIndex, VInt 2)])]]"

lemma profile_change_confirmed_witness:
  "\<exists>n es. es = concat (take n sample_batches) \<and> profile_reply_seen (identity_of sample_device) 2 es
    \<and> (\<forall>e. PCoreError e \<notin> set es)
    \<and> pc_writes (fold (profile_step (identity_of sample_device) 2) es profile_change_new) = 1"
proof -
  have "set_profile (Inr ()) sample_batches sample_device 2 = Some (Inr ())" by code_simp
  then show ?thesis by (rule profile_change_confirmed)
qed

text \<open>
  However the callbacks arrive, a profile change writes its parameter at most once, never after it has
  failed, and a failure is final: later callbacks of the same batch cannot turn it into a success.
\<close>
theorem profile_written_at_most_once:
  assumes "s = fold (profile_step target index) es profile_change_new"
      and "s' = fold (profile_step target index) rest s"
  shows "pc_writes s' \<le> 1
    \<and> (completion_failed (pc_completion s) \<longrightarrow> completion_failed (pc_completion s') \<and> pc_writes s' = pc_writes s)"
proof -
  have "profile_trace_inv target index (es @ rest) s'"
    using profile_trace_inv_run [of target index "es @ rest"] assms by simp
  then have "pc_writes s' \<le> 1" by (simp add: profile_trace_inv_def)
  then show ?thesis using profile_run_failed [of s target index rest] assms(2) by simp
qed

lemma profile_written_at_most_once_witness:
  "pc_writes (fold (profile_step (identity_of sample_device) 2) [PInfo (Some sample_props) (Inr ())]
     (fold (profile_step (identity_of sample_device) 2) (concat sample_batches) profile_change_new)) \<le> 1"
  using profile_written_at_most_once [OF refl refl] by blast

subsection \<open>What a routed endpoint shows\<close>

lemmas route_case_simps = route_fail_def route_confirm_def write_if_ready_def route_device_info_def completion_fail_def
  succeed_def

definition route_checked :: "route_target \<Rightarrow> route_event list \<Rightarrow> bool" where
  "route_checked t es \<longleftrightarrow>
     (\<exists>ps. RDeviceInfo (Some ps) \<in> set es
        \<and> device_properties_match (di_adapter (rt_device t)) (di_address (rt_device t)) ps)
     \<and> (\<exists>g bound. RGlobal g bound \<in> set es \<and> go_type g = TNode \<and> object_matches g (rt_node_id t) (rt_node_serial t)
        \<and> node_identity t g)"

definition route_configured_seen :: "(string \<Rightarrow> json option) \<Rightarrow> route_target \<Rightarrow> route_event list \<Rightarrow> bool" where
  "route_configured_seen parse t es \<longleftrightarrow>
     (\<exists>object v. RMetadata object 0 (Some (configured_default_key (rt_kind t))) (Some v) \<in> set es
        \<and> default_node_name parse v = Some (rt_name t))"

definition route_trace_inv :: "(string \<Rightarrow> json option) \<Rightarrow> route_target \<Rightarrow> route_event list \<Rightarrow> route_change \<Rightarrow> bool" where
  "route_trace_inv parse t es s \<longleftrightarrow>
     rc_writes s = of_bool (rc_written s)
     \<and> (rc_device_seen s \<longrightarrow> (\<exists>ps. RDeviceInfo (Some ps) \<in> set es
          \<and> device_properties_match (di_adapter (rt_device t)) (di_address (rt_device t)) ps))
     \<and> (rc_node_seen s \<longrightarrow> (\<exists>g bound. RGlobal g bound \<in> set es \<and> go_type g = TNode
          \<and> object_matches g (rt_node_id t) (rt_node_serial t) \<and> node_identity t g))
     \<and> (rc_written s \<longrightarrow> rc_device_seen s \<and> rc_node_seen s)
     \<and> (ro_configured (rc_outcome s) \<longrightarrow> route_configured_seen parse t es)"

lemma route_trace_inv_mono:
  "route_trace_inv parse t es s \<Longrightarrow> set es \<subseteq> set es' \<Longrightarrow> route_trace_inv parse t es' s"
  unfolding route_trace_inv_def route_configured_seen_def by blast

lemma route_trace_inv_confirm [simp]: "route_trace_inv parse t es (route_confirm s) = route_trace_inv parse t es s"
  by (simp add: route_trace_inv_def route_confirm_def)

lemma route_trace_inv_fail [simp]: "route_trace_inv parse t es (route_fail e s) = route_trace_inv parse t es s"
  by (simp add: route_trace_inv_def route_fail_def)

lemma route_trace_inv_write: "route_trace_inv parse t es s \<Longrightarrow> route_trace_inv parse t es (write_if_ready s)"
  by (auto simp: write_if_ready_def split: option.split) (auto simp: route_trace_inv_def)

lemma route_observe_configured:
  "ro_configured (route_observe parse kind expected key v r) \<Longrightarrow>
    ro_configured r \<or> (key = Some (configured_default_key kind) \<and> Option.bind v (default_node_name parse) = Some expected)"
  by (cases key) (auto simp: route_observe_def no_route_def Let_def split: if_splits)

lemma route_trace_inv_step:
  assumes inv: "route_trace_inv parse t es s"
  shows "route_trace_inv parse t (es @ [e]) (route_step parse t e s)"
proof -
  have old: "route_trace_inv parse t (es @ [e]) s" by (rule route_trace_inv_mono [OF inv]) auto
  show ?thesis
  proof (cases e)
    case (RGlobal g bound)
    define s1 where "s1 = (if go_type g = TMetadata \<and> global_prop g ''metadata.name'' = Some ''default''
      then s\<lparr>rc_metadata_id := Some (go_id g)\<rparr> else s)"
    have s1: "route_trace_inv parse t (es @ [e]) s1" using old by (simp add: s1_def route_trace_inv_def)
    have device: "route_trace_inv parse t (es @ [e]) (s1\<lparr>rc_device_bound := b\<rparr>)" for b
      using s1 by (simp add: route_trace_inv_def)
    have metadata: "route_trace_inv parse t (es @ [e]) (s1\<lparr>rc_metadata := b\<rparr>)" for b
      using s1 by (simp add: route_trace_inv_def)
    have node: "route_trace_inv parse t (es @ [e]) (s1\<lparr>rc_node_seen := True\<rparr>)"
      if "go_type g = TNode" "object_matches g (rt_node_id t) (rt_node_serial t)" "node_identity t g"
      using s1 that unfolding route_trace_inv_def RGlobal by auto
    show ?thesis unfolding RGlobal route_step.simps route_global_def Let_def s1_def [symmetric]
      unfolding RGlobal [symmetric]
      using s1 device metadata node
      by (auto simp: ensure_def route_bind_metadata_def intro!: route_trace_inv_write split: sum.splits)
  next
    case (RDeviceInfo info)
    have "route_trace_inv parse t (es @ [e]) (s\<lparr>rc_device_seen := True\<rparr>)"
      if "info = Some ps" "device_properties_match (di_adapter (rt_device t)) (di_address (rt_device t)) ps" for ps
      using old that unfolding route_trace_inv_def RDeviceInfo by auto
    then show ?thesis using old RDeviceInfo
      by (auto simp: route_device_info_def intro!: route_trace_inv_write split: option.split)
  next
    case (RMetadata object subject key v)
    have "route_trace_inv parse t (es @ [e]) (s\<lparr>rc_outcome := route_observe parse (rt_kind t) (rt_name t) key v (rc_outcome s)\<rparr>)"
      if "subject = 0"
    proof -
      have "route_configured_seen parse t (es @ [e])"
        if "ro_configured (route_observe parse (rt_kind t) (rt_name t) key v (rc_outcome s))"
        using route_observe_configured [OF that]
      proof
        assume "ro_configured (rc_outcome s)"
        then show ?thesis using old by (simp add: route_trace_inv_def)
      next
        assume "key = Some (configured_default_key (rt_kind t))
          \<and> Option.bind v (default_node_name parse) = Some (rt_name t)"
        then show ?thesis unfolding route_configured_seen_def RMetadata \<open>subject = 0\<close>
          by (auto simp: bind_eq_Some_conv)
      qed
      then show ?thesis using old by (simp add: route_trace_inv_def)
    qed
    then show ?thesis using old RMetadata by simp
  next
    case RDeadline
    then show ?thesis using old by (simp add: route_trace_inv_def)
  qed (use old in simp_all)
qed

lemma route_trace_inv_run: "route_trace_inv parse t es (fold (route_step parse t) es route_change_new)"
proof (induction es rule: rev_induct)
  case Nil
  show ?case by (simp add: route_trace_inv_def route_change_new_def no_route_def)
next
  case (snoc e es)
  then show ?case by (simp add: route_trace_inv_step)
qed

text \<open>
  A default route is reported only for an endpoint of the target device whose serials and names were still
  the same on the server, after the device had shown the target's adapter and address; the default was written
  exactly once, and PipeWire itself reported the endpoint as the configured default.
\<close>
theorem route_set_after_checks:
  assumes "set_default_node parse opened batches device endpoint = Some (Inr outcome)"
  shows "routable device endpoint \<and> ro_configured outcome
    \<and> (\<exists>n es. es = concat (take n batches) \<and> route_checked (route_target_of device endpoint) es
        \<and> route_configured_seen parse (route_target_of device endpoint) es
        \<and> rc_writes (fold (route_step parse (route_target_of device endpoint)) es route_change_new) = 1)"
proof -
  let ?t = "route_target_of device endpoint"
  obtain s where s: "wait_loop rc_completion rc_expired (route_step parse ?t) batches route_change_new = Some s"
      and ok: "rc_written s" "ro_configured (rc_outcome s)" "outcome = rc_outcome s"
    using assms by (auto simp: set_default_node_def wait_result_def split: if_splits sum.splits option.splits)
  obtain n where n: "s = fold (route_step parse ?t) (concat (take n batches)) route_change_new"
    using wait_loop_prefix [OF s] by blast
  have "route_trace_inv parse ?t (concat (take n batches)) s" unfolding n by (rule route_trace_inv_run)
  then have "route_checked ?t (concat (take n batches))" "route_configured_seen parse ?t (concat (take n batches))"
      "rc_writes s = 1"
    using ok by (auto simp: route_trace_inv_def route_checked_def)
  moreover have "routable device endpoint" using assms by (auto simp: set_default_node_def split: if_splits)
  ultimately show ?thesis using ok n by blast
qed

definition sample_node :: global_object where
  "sample_node = \<lparr>go_id = 50, go_type = TNode, go_props = Some [(''object.serial'', ''8''), (''device.id'', ''40''),
     (''node.name'', ''bluez_output.1''), (''media.class'', ''Audio/Sink'')]\<rparr>"

definition sample_metadata :: global_object where
  "sample_metadata = \<lparr>go_id = 60, go_type = TMetadata, go_props = Some [(''metadata.name'', ''default'')]\<rparr>"

definition sample_parse :: "string \<Rightarrow> json option" where
  "sample_parse v = Some (JObject [(''name'', JString v)])"

definition sample_route :: "route_event list list" where
  "sample_route = [[RGlobal sample_global (Inr ()), RGlobal sample_node (Inr ()), RGlobal sample_metadata (Inr ())],
     [RDeviceInfo (Some sample_props)],
     [RMetadata 60 0 (Some ''default.configured.audio.sink'') (Some ''bluez_output.1''),
      RMetadata 60 0 (Some ''default.audio.sink'') (Some ''bluez_output.1'')]]"

lemma route_set_after_checks_witness:
  "routable sample_device sample_endpoint
    \<and> ro_configured \<lparr>ro_configured = True, ro_effective = True\<rparr>
    \<and> (\<exists>n es. es = concat (take n sample_route) \<and> route_checked (route_target_of sample_device sample_endpoint) es
        \<and> route_configured_seen sample_parse (route_target_of sample_device sample_endpoint) es
        \<and> rc_writes (fold (route_step sample_parse (route_target_of sample_device sample_endpoint)) es route_change_new) = 1)"
proof -
  have "set_default_node sample_parse (Inr ()) sample_route sample_device sample_endpoint
      = Some (Inr \<lparr>ro_configured = True, ro_effective = True\<rparr>)"
    by code_simp
  then show ?thesis by (rule route_set_after_checks)
qed

subsection \<open>The change monitor\<close>

definition monitor_relevant :: "global_object \<Rightarrow> bool" where
  "monitor_relevant g =
     (case go_type g of
        TDevice \<Rightarrow> global_prop g ''device.api'' = Some ''bluez5''
      | TNode \<Rightarrow> global_prop g ''device.api'' = Some ''bluez5''
          \<or> (case global_prop g ''node.name'' of None \<Rightarrow> False | Some n \<Rightarrow> strip_prefix ''bluez_'' n \<noteq> None)
      | TMetadata \<Rightarrow> global_prop g ''metadata.name'' = Some ''default''
      | TOther \<Rightarrow> False)"

record audio_monitor =
  mo_relevant :: "u32 set"
  mo_objects :: "u32 set"  \<comment> \<open>the objects whose proxies and listeners are held\<close>
  mo_failed :: "string option"
  mo_quit :: bool
  mo_changes :: nat  \<comment> \<open>calls of \<open>on_change\<close>\<close>

definition audio_monitor_new :: audio_monitor where
  "audio_monitor_new = \<lparr>mo_relevant = {}, mo_objects = {}, mo_failed = None, mo_quit = False, mo_changes = 0\<rparr>"

text \<open>\<open>ObjectEvent\<close> is any callback of the object: a device's information or parameter, a node's, a metadata entry's.\<close>

datatype monitor_event =
    MonitorGlobal global_object bool  \<comment> \<open>whether the bind succeeds\<close>
  | MonitorRemoved u32
  | ObjectEvent u32
  | MonitorError u32 int string

definition on_change :: "audio_monitor \<Rightarrow> audio_monitor" where
  "on_change m = m\<lparr>mo_changes := Suc (mo_changes m)\<rparr>"

definition bind_monitor_object :: "global_object \<Rightarrow> bool \<Rightarrow> audio_monitor \<Rightarrow> audio_monitor" where
  "bind_monitor_object g bound m =
     (if go_type g \<noteq> TOther \<and> bound then m\<lparr>mo_objects := insert (go_id g) (mo_objects m)\<rparr> else m)"

definition signed_decimal :: "int \<Rightarrow> string" where
  "signed_decimal i = (if i < 0 then CHR ''-'' # decimal (nat (- i)) else decimal (nat i))"

fun monitor_step :: "monitor_event \<Rightarrow> audio_monitor \<Rightarrow> audio_monitor" where
  "monitor_step (MonitorGlobal g bound) m =
     (if \<not> monitor_relevant g then m
      else bind_monitor_object g bound (on_change (m\<lparr>mo_relevant := insert (go_id g) (mo_relevant m)\<rparr>)))"
| "monitor_step (MonitorRemoved ident) m =
     (if ident \<in> mo_relevant m
      then on_change (m\<lparr>mo_relevant := mo_relevant m - {ident}, mo_objects := mo_objects m - {ident}\<rparr>) else m)"
| "monitor_step (ObjectEvent ident) m = (if ident \<in> mo_objects m then on_change m else m)"
| "monitor_step (MonitorError ident code e) m =
     (if ident = 0
      then m\<lparr>mo_failed := Some (''PipeWire core disconnected ('' @ signed_decimal code @ ''): '' @ e), mo_quit := True\<rparr>
      else m)"

text \<open>\<open>monitor\<close>: the events up to the core's error; it returns only with an error.\<close>

fun monitor :: "monitor_event list \<Rightarrow> audio_monitor \<Rightarrow> failure option" where
  "monitor es m =
     (if mo_quit m
      then Some [Context (case mo_failed m of None \<Rightarrow> ''PipeWire monitor loop ended'' | Some e \<Rightarrow> e)]
      else case es of [] \<Rightarrow> None | e # rest \<Rightarrow> monitor rest (monitor_step e m))"

declare monitor.simps [simp del]

text \<open>Only objects counted as relevant have listeners, and every change of a relevant object is reported.\<close>

lemma monitor_objects_relevant:
  "mo_objects m \<subseteq> mo_relevant m \<Longrightarrow> mo_objects (monitor_step e m) \<subseteq> mo_relevant (monitor_step e m)"
  by (cases e) (auto simp: bind_monitor_object_def on_change_def)

lemma monitor_step_changes:
  "mo_changes (monitor_step e m) = mo_changes m + of_bool (case e of
     MonitorGlobal g _ \<Rightarrow> monitor_relevant g | MonitorRemoved ident \<Rightarrow> ident \<in> mo_relevant m
   | ObjectEvent ident \<Rightarrow> ident \<in> mo_objects m | MonitorError _ _ _ \<Rightarrow> False)"
  by (cases e) (auto simp: bind_monitor_object_def on_change_def)

lemma monitor_ends_on_core_error:
  "\<not> mo_quit m \<Longrightarrow> monitor es m \<noteq> None \<longleftrightarrow> (\<exists>code e. MonitorError 0 code e \<in> set es)"
proof (induction es arbitrary: m)
  case Nil
  then show ?case by (simp add: monitor.simps)
next
  case (Cons e es)
  show ?case
  proof (cases "mo_quit (monitor_step e m)")
    case True
    then have "\<exists>code err. e = MonitorError 0 code err" using Cons.prems
      by (cases e) (auto simp: bind_monitor_object_def on_change_def split: if_splits)
    then show ?thesis using Cons.prems True by (auto simp: monitor.simps [of "e # es"] monitor.simps [of es])
  next
    case False
    then have "\<nexists>code err. e = MonitorError 0 code err" by auto
    moreover have "monitor (e # es) m = monitor es (monitor_step e m)" using Cons.prems by (simp add: monitor.simps [of "e # es"])
    ultimately show ?thesis using Cons.IH [OF False] by auto
  qed
qed

text \<open>
  The change monitor returns, so that its caller can connect again, exactly when the PipeWire core reports
  an error: neither the removal of objects nor an error of another object ends it, and no core error leaves it
  running.
\<close>
theorem monitor_returns_on_core_error:
  "monitor es audio_monitor_new \<noteq> None \<longleftrightarrow> (\<exists>code e. MonitorError 0 code e \<in> set es)"
  by (rule monitor_ends_on_core_error) (simp add: audio_monitor_new_def)

end
