(* ===== verification/DaemonAudio.thy ===== *)
theory DaemonAudio
  imports AudioChange
begin

text \<open>
  \<open>src/daemon/audio.rs\<close> and \<open>src/model/audio_wire.rs\<close>: the audio requests of clients. A request names a device
  and an endpoint or profile by opaque keys; the daemon probes PipeWire, finds what the keys mean now, makes
  the change and may remember it.

  The probe, the two changes, the device keys and the policy store are operations on a world of their own.
  An answer is the error, or the data fields that the daemon framework wraps.
\<close>

record ('w, 'k) audio_world =
  aw_ops :: "'w audio_ops"
  aw_parse_address :: "string \<Rightarrow> 'k option"
  aw_device_key :: "string \<Rightarrow> 'k \<Rightarrow> 'w \<Rightarrow> 'w \<times> string"

definition probe_devices :: "('w, 'k) audio_world \<Rightarrow> 'w \<Rightarrow> 'w \<times> (envelope_error + audio_device list)" where
  "probe_devices a w =
     (case ao_probe (aw_ops a) w of
        (w1, Inl e) \<Rightarrow> (w1, Inl (api_error ''audio-unavailable'' (error_chain e)))
      | (w1, Inr ds) \<Rightarrow> (w1, Inr ds))"

definition resolved_device_key :: "('w, 'k) audio_world \<Rightarrow> audio_device \<Rightarrow> 'w \<Rightarrow> 'w \<times> string option" where
  "resolved_device_key a d w =
     (case aw_parse_address a (ad_address d) of
        None \<Rightarrow> (w, None)
      | Some address \<Rightarrow>
          if ad_adapter d = [] then (w, None)
          else (case aw_device_key a (ad_adapter d) address w of (w1, key) \<Rightarrow> (w1, Some key)))"

subsection \<open>Choosing the operation\<close>

datatype audio_operation = SetNode audio_device audio_endpoint | SetProfile audio_device u32

definition run_operation :: "'w audio_ops \<Rightarrow> audio_operation \<Rightarrow> 'w \<Rightarrow> 'w \<times> (failure + (bool \<times> bool) option)" where
  "run_operation ops op w =
     (case op of
        SetNode d e \<Rightarrow>
          (case ao_set_default_node ops d e w of (w1, Inl err) \<Rightarrow> (w1, Inl err) | (w1, Inr r) \<Rightarrow> (w1, Inr (Some r)))
      | SetProfile d i \<Rightarrow>
          (case ao_set_profile ops d i w of (w1, Inl err) \<Rightarrow> (w1, Inl err) | (w1, Inr _) \<Rightarrow> (w1, Inr None)))"

definition select_default :: "(string \<Rightarrow> string) \<Rightarrow> string \<Rightarrow> string \<Rightarrow> audio_device \<Rightarrow> audio_operation option" where
  "select_default digest device_key wanted d =
     map_option (SetNode d)
       (first_of (List.find (\<lambda>n. node_key digest device_key n = wanted) (ad_endpoints d))
         (find_map (\<lambda>(kind, node). if endpoint_key digest device_key kind = wanted then node else None)
           [(''sink'', ad_sink d), (''source'', ad_source d)]))"

definition select_profile :: "(string \<Rightarrow> string) \<Rightarrow> string \<Rightarrow> string \<Rightarrow> audio_device \<Rightarrow> audio_operation option" where
  "select_profile digest device_key wanted d =
     map_option (\<lambda>p. SetProfile d (ap_index p)) (available_profile digest device_key wanted d)"

record change =
  ch_parameter :: string
  ch_unavailable_code :: string
  ch_unavailable_message :: string
  ch_select :: "(string \<Rightarrow> string) \<Rightarrow> string \<Rightarrow> string \<Rightarrow> audio_device \<Rightarrow> audio_operation option"

definition DEFAULT :: change where
  "DEFAULT = \<lparr>ch_parameter = ''endpoint_key'', ch_unavailable_code = ''audio-endpoint-unavailable'',
     ch_unavailable_message = ''Bluetooth audio endpoint is not available'', ch_select = select_default\<rparr>"

definition PROFILE :: change where
  "PROFILE = \<lparr>ch_parameter = ''profile_key'', ch_unavailable_code = ''audio-profile-unavailable'',
     ch_unavailable_message = ''Bluetooth audio profile is not available'', ch_select = select_profile\<rparr>"

definition change_request :: "change \<Rightarrow> json \<Rightarrow> failure + string \<times> string \<times> bool" where
  "change_request c params =
     res_bind
       (case json_get params ''remember'' of
          None \<Rightarrow> Inr False
        | Some v \<Rightarrow>
            (case v of
               JBool b \<Rightarrow> if ch_parameter c = ''profile_key'' then Inr b
                 else Inl [Context ''remember must be a boolean on setProfile'']
             | _ \<Rightarrow> Inl [Context ''remember must be a boolean on setProfile'']))
       (\<lambda>remember.
     res_bind (checked (require_strings params ''device_key'' (ch_parameter c))) (\<lambda>(device, wanted).
     Inr (device, wanted, remember)))"

text \<open>The iterator over the probed devices: keys are resolved until one device has the operation.\<close>

fun choose_operation ::
    "('w, 'k) audio_world \<Rightarrow> string \<Rightarrow> (audio_device \<Rightarrow> audio_operation option) \<Rightarrow> audio_device list \<Rightarrow> 'w
      \<Rightarrow> 'w \<times> audio_operation option" where
  "choose_operation a device_key select [] w = (w, None)"
| "choose_operation a device_key select (d # ds) w =
     (case resolved_device_key a d w of
        (w1, key) \<Rightarrow>
          if key \<noteq> Some device_key then choose_operation a device_key select ds w1
          else case select d of
            None \<Rightarrow> choose_operation a device_key select ds w1
          | Some op \<Rightarrow> (w1, Some op))"

subsection \<open>Snapshots\<close>

record wire_profile =
  wp_key :: string
  wp_label :: string
  wp_mode :: string
  wp_codec :: "string option"
  wp_available :: bool
  wp_priority :: int

record wire_endpoint =
  we_key :: string
  we_kind :: endpoint_kind
  we_codec :: "string option"
  we_ready :: bool
  we_state :: string
  we_is_default :: bool

record wire_device =
  wd_device_key :: string
  wd_active_profile_key :: "string option"
  wd_profiles :: "wire_profile list"
  wd_endpoints :: "wire_endpoint list"
  wd_sink :: "wire_endpoint option"
  wd_source :: "wire_endpoint option"

definition node_snapshot :: "audio_endpoint \<Rightarrow> string \<Rightarrow> wire_endpoint" where
  "node_snapshot e key = \<lparr>we_key = key, we_kind = ae_kind e, we_codec = ae_codec e,
     we_ready = (ae_state e \<noteq> ''creating'' \<and> ae_state e \<noteq> ''error''), we_state = ae_state e, we_is_default = ae_is_default e\<rparr>"

definition endpoint_snapshot ::
    "(string \<Rightarrow> string) \<Rightarrow> string \<Rightarrow> string \<Rightarrow> audio_endpoint option \<Rightarrow> wire_endpoint option" where
  "endpoint_snapshot digest device_key kind e = map_option (\<lambda>e. node_snapshot e (endpoint_key digest device_key kind)) e"

definition profile_snapshot :: "(string \<Rightarrow> string) \<Rightarrow> string \<Rightarrow> audio_profile \<Rightarrow> wire_profile" where
  "profile_snapshot digest device_key p = \<lparr>wp_key = profile_key digest device_key (ap_name p), wp_label = ap_description p,
     wp_mode = ap_mode p, wp_codec = ap_codec p, wp_available = ap_available p, wp_priority = ap_priority p\<rparr>"

definition device_snapshot :: "(string \<Rightarrow> string) \<Rightarrow> string \<Rightarrow> audio_device \<Rightarrow> wire_device" where
  "device_snapshot digest key d =
     \<lparr>wd_device_key = key,
      wd_active_profile_key = map_option (\<lambda>p. profile_key digest key (ap_name p))
        (Option.bind (ad_active_profile d) (\<lambda>active. List.find (\<lambda>p. ap_index p = active) (ad_profiles d))),
      wd_profiles = map (profile_snapshot digest key) (ad_profiles d),
      wd_endpoints = map (\<lambda>n. node_snapshot n (node_key digest key n)) (ad_endpoints d),
      wd_sink = endpoint_snapshot digest key ''sink'' (ad_sink d),
      wd_source = endpoint_snapshot digest key ''source'' (ad_source d)\<rparr>"

fun snapshot_devices ::
    "(string \<Rightarrow> string) \<Rightarrow> ('w, 'k) audio_world \<Rightarrow> audio_device list \<Rightarrow> 'w \<Rightarrow> 'w \<times> wire_device list" where
  "snapshot_devices digest a [] w = (w, [])"
| "snapshot_devices digest a (d # ds) w =
     (case resolved_device_key a d w of
        (w1, key) \<Rightarrow>
          (case snapshot_devices digest a ds w1 of
             (w2, rest) \<Rightarrow> (w2, (case key of None \<Rightarrow> rest | Some k \<Rightarrow> device_snapshot digest k d # rest))))"

subsection \<open>Answers\<close>

record profile_outcome =
  po_applied :: bool
  po_remembered :: bool
  po_persistence_error :: "string option"

record audio_data =
  av_devices :: "wire_device list option"
  av_refresh_error :: "envelope_error option"
  av_profile_outcome :: "profile_outcome option"
  av_default_route_outcome :: "(bool \<times> bool) option"

definition audio_snapshot ::
    "(string \<Rightarrow> string) \<Rightarrow> ('w, 'k) audio_world \<Rightarrow> 'w \<Rightarrow> 'w \<times> (envelope_error + audio_data)" where
  "audio_snapshot digest a w =
     (case probe_devices a w of
        (w1, Inl e) \<Rightarrow> (w1, Inl e)
      | (w1, Inr ds) \<Rightarrow>
          (case snapshot_devices digest a ds w1 of
             (w2, devices) \<Rightarrow>
               (w2, Inr \<lparr>av_devices = Some devices, av_refresh_error = None, av_profile_outcome = None,
                 av_default_route_outcome = None\<rparr>)))"

definition apply_then_remember ::
    "('w \<Rightarrow> 'w \<times> (failure + 'a)) \<Rightarrow> ('w \<Rightarrow> 'w \<times> (failure + unit)) \<Rightarrow> 'w \<Rightarrow> 'w \<times> (failure + 'a \<times> string option)" where
  "apply_then_remember apply remember w =
     (case apply w of
        (w1, Inl e) \<Rightarrow> (w1, Inl e)
      | (w1, Inr outcome) \<Rightarrow>
          (case remember w1 of
             (w2, Inl e) \<Rightarrow> (w2, Inr (outcome, Some (error_chain e)))
           | (w2, Inr _) \<Rightarrow> (w2, Inr (outcome, None))))"

definition applied_response ::
    "envelope_error + audio_data \<Rightarrow> bool \<Rightarrow> string option \<Rightarrow> (bool \<times> bool) option \<Rightarrow> envelope_error + audio_data" where
  "applied_response response remember persistence_error route =
     (if \<not> remember \<and> route = None then response
      else
        (let d0 = (case response of
              Inl e \<Rightarrow> \<lparr>av_devices = None, av_refresh_error = Some e, av_profile_outcome = None, av_default_route_outcome = None\<rparr>
            | Inr d \<Rightarrow> d);
             d1 = (if remember
               then d0\<lparr>av_profile_outcome := Some \<lparr>po_applied = True, po_remembered = (persistence_error = None),
                  po_persistence_error = persistence_error\<rparr>\<rparr> else d0);
             d2 = (case route of None \<Rightarrow> d1 | Some r \<Rightarrow> d1\<lparr>av_default_route_outcome := Some r\<rparr>)
         in Inr d2))"

definition apply_change ::
    "(string \<Rightarrow> string) \<Rightarrow> ('w, 'k) audio_world \<Rightarrow> (string \<Rightarrow> string \<Rightarrow> 'w \<Rightarrow> 'w \<times> (failure + unit)) \<Rightarrow> change \<Rightarrow> json
      \<Rightarrow> 'w \<Rightarrow> 'w \<times> (envelope_error + audio_data)" where
  "apply_change digest a persist c params w =
     (case change_request c params of
        Inl e \<Rightarrow> (w, Inl (api_error ''validation-error'' (error_text e)))
      | Inr (device_key, wanted, remember) \<Rightarrow>
          (case probe_devices a w of
             (w1, Inl e) \<Rightarrow> (w1, Inl e)
           | (w1, Inr ds) \<Rightarrow>
               (case choose_operation a device_key (ch_select c digest device_key wanted) ds w1 of
                  (w2, None) \<Rightarrow> (w2, Inl (api_error (ch_unavailable_code c) (ch_unavailable_message c)))
                | (w2, Some op) \<Rightarrow>
                    (case apply_then_remember (run_operation (aw_ops a) op)
                        (if remember then persist device_key wanted else (\<lambda>w. (w, Inr ()))) w2 of
                       (w3, Inl e) \<Rightarrow> (w3, Inl (api_error ''audio-operation-failed'' (error_chain e)))
                     | (w3, Inr (route, persistence_error)) \<Rightarrow>
                         (case audio_snapshot digest a w3 of
                            (w4, response) \<Rightarrow> (w4, applied_response response remember persistence_error route))))))"

subsection \<open>What an operation is chosen for\<close>

lemma choose_operation_sound:
  "choose_operation a device_key select ds w = (w', Some op) \<Longrightarrow>
    \<exists>d \<in> set ds. select d = Some op \<and> (\<exists>w1. snd (resolved_device_key a d w1) = Some device_key)"
proof (induction ds arbitrary: w)
  case (Cons d ds)
  obtain w1 key where r: "resolved_device_key a d w = (w1, key)" by fastforce
  show ?case
  proof (cases "key = Some device_key \<and> select d \<noteq> None")
    case True
    then have "select d = Some op" using Cons.prems r by auto
    moreover have "snd (resolved_device_key a d w) = Some device_key" using True r by simp
    ultimately show ?thesis by auto
  next
    case False
    then have "choose_operation a device_key select ds w1 = (w', Some op)"
      using Cons.prems r by (auto split: if_splits option.splits)
    then show ?thesis using Cons.IH by auto
  qed
qed simp

lemma find_in_set: "List.find p xs = Some x \<Longrightarrow> x \<in> set xs \<and> p x"
  by (induction xs) (auto split: if_splits)

lemma select_default_endpoint:
  assumes "select_default digest device_key wanted d = Some op"
    and "\<And>e. ad_sink d = Some e \<Longrightarrow> e \<in> set (ad_endpoints d)" and "\<And>e. ad_source d = Some e \<Longrightarrow> e \<in> set (ad_endpoints d)"
  obtains e where "op = SetNode d e" and "e \<in> set (ad_endpoints d)"
    and "node_key digest device_key e = wanted
      \<or> (endpoint_key digest device_key ''sink'' = wanted \<and> ad_sink d = Some e)
      \<or> (endpoint_key digest device_key ''source'' = wanted \<and> ad_source d = Some e)"
proof (cases "List.find (\<lambda>n. node_key digest device_key n = wanted) (ad_endpoints d)")
  case None
  then have "(endpoint_key digest device_key ''sink'' = wanted \<and> ad_sink d \<noteq> None \<and> op = SetNode d (the (ad_sink d)))
      \<or> (endpoint_key digest device_key ''source'' = wanted \<and> ad_source d \<noteq> None \<and> op = SetNode d (the (ad_source d)))"
    using assms(1) by (auto simp: select_default_def first_of_def split: if_splits option.splits)
  then show thesis using that assms(2,3) by fastforce
next
  case (Some e)
  then have "op = SetNode d e" using assms(1) by (simp add: select_default_def first_of_def)
  then show thesis using that find_in_set [OF Some] by blast
qed

text \<open>
  A client's audio request reaches only what its keys stand for. The operation is on a probed device whose
  key is the requested one; an endpoint is one of the device's public endpoints, found by its own key or by the
  sink and source aliases, so that PipeWire routing refuses it only for a missing identity; a profile is one
  the device has available under the requested key.
\<close>
theorem audio_choice_is_requested:
  assumes "p = fold (probe_step parse) evs probe_new" and "c \<in> {DEFAULT, PROFILE}"
    and "choose_operation a device_key (ch_select c digest device_key wanted) (finish_probe p) w = (w', Some op)"
  shows "\<exists>d \<in> set (finish_probe p). (\<exists>w1. snd (resolved_device_key a d w1) = Some device_key)
    \<and> (case op of
         SetNode d' e \<Rightarrow> c = DEFAULT \<and> d' = d \<and> e \<in> set (ad_endpoints d) \<and> \<not> ae_internal e
           \<and> (node_key digest device_key e = wanted
              \<or> (endpoint_key digest device_key ''sink'' = wanted \<and> ad_sink d = Some e)
              \<or> (endpoint_key digest device_key ''source'' = wanted \<and> ad_source d = Some e))
           \<and> routable d e = (ad_serial d \<noteq> None \<and> ad_adapter d \<noteq> [] \<and> ae_serial e \<noteq> None \<and> ae_name e \<noteq> [])
       | SetProfile d' i \<Rightarrow> c = PROFILE \<and> d' = d
           \<and> (\<exists>q \<in> set (ad_profiles d). ap_available q \<and> ap_index q = i \<and> profile_key digest device_key (ap_name q) = wanted))"
proof -
  obtain d where d: "d \<in> set (finish_probe p)" "ch_select c digest device_key wanted d = Some op"
      and key: "\<exists>w1. snd (resolved_device_key a d w1) = Some device_key"
    using choose_operation_sound [OF assms(3)] by blast
  have "probe_inv p" using probe_run_inv assms(1) by simp
  from finished_device [OF d(1) this] obtain es where
      es: "ad_endpoints d = ordered_endpoints (pb_defaults p) es" "\<forall>e \<in> set es. \<not> ae_internal e"
      and sink: "ad_sink d = List.find (\<lambda>e. ae_kind e = Sink) (ad_endpoints d)"
      and source: "ad_source d = List.find (\<lambda>e. ae_kind e = Source) (ad_endpoints d)"
    by metis
  have public: "\<not> ae_internal e" if "e \<in> set (ad_endpoints d)" for e
    using that es by (auto simp: ordered_endpoints_def)
  show ?thesis
  proof (cases "c = DEFAULT")
    case True
    then have "select_default digest device_key wanted d = Some op" using d(2) by (simp add: DEFAULT_def)
    then obtain e where e: "op = SetNode d e" "e \<in> set (ad_endpoints d)"
      "node_key digest device_key e = wanted
        \<or> (endpoint_key digest device_key ''sink'' = wanted \<and> ad_sink d = Some e)
        \<or> (endpoint_key digest device_key ''source'' = wanted \<and> ad_source d = Some e)"
    proof (rule select_default_endpoint)
      show "\<And>e. ad_sink d = Some e \<Longrightarrow> e \<in> set (ad_endpoints d)" unfolding sink by (drule find_in_set) simp
      show "\<And>e. ad_source d = Some e \<Longrightarrow> e \<in> set (ad_endpoints d)" unfolding source by (drule find_in_set) simp
    qed
    then have "routable d e = (ad_serial d \<noteq> None \<and> ad_adapter d \<noteq> [] \<and> ae_serial e \<noteq> None \<and> ae_name e \<noteq> [])"
      using public by (auto simp: routable_def)
    then show ?thesis using True d(1) key e public by (intro bexI [of _ d]) simp_all
  next
    case False
    then have c: "c = PROFILE" using assms(2) by simp
    then have "select_profile digest device_key wanted d = Some op" using d(2) by (simp add: PROFILE_def)
    then obtain q where q: "available_profile digest device_key wanted d = Some q" "op = SetProfile d (ap_index q)"
      by (auto simp: select_profile_def)
    then have "q \<in> set (ad_profiles d) \<and> ap_available q \<and> profile_key digest device_key (ap_name q) = wanted"
      unfolding available_profile_def using find_in_set by fastforce
    then show ?thesis using c d(1) key q(2) by (intro bexI [of _ d]) auto
  qed
qed

definition audio_demo_probe :: probe_state where
  "audio_demo_probe = fold (probe_step demo_parse)
     [GlobalAdded True \<lparr>go_id = 40, go_type = TDevice,
        go_props = Some ([(''device.api'', ''bluez5''), (''object.serial'', ''7'')] @ sample_props)\<rparr>,
      GlobalAdded True sample_node] probe_new"

definition audio_demo_device :: audio_device where "audio_demo_device = hd (finish_probe audio_demo_probe)"

definition audio_demo_endpoint :: audio_endpoint where "audio_demo_endpoint = hd (ad_endpoints audio_demo_device)"

text \<open>The world counts the operations; the device's key is the same for every address.\<close>

definition audio_demo_world :: "(nat, unit) audio_world" where
  "audio_demo_world = \<lparr>aw_ops = \<lparr>ao_probe = (\<lambda>w. (Suc w, Inr (finish_probe audio_demo_probe))),
       ao_set_profile = (\<lambda>d i w. (Suc w, Inr ())), ao_set_default_node = (\<lambda>d e w. (Suc w, Inr (True, True)))\<rparr>,
     aw_parse_address = (\<lambda>_. Some ()), aw_device_key = (\<lambda>_ _ w. (Suc w, ''k''))\<rparr>"

lemma audio_choice_is_requested_witness: "routable audio_demo_device audio_demo_endpoint"
proof -
  have "choose_operation audio_demo_world ''k'' (ch_select DEFAULT (\<lambda>s. s) ''k'' (endpoint_key (\<lambda>s. s) ''k'' ''sink''))
      (finish_probe audio_demo_probe) 0 = (1, Some (SetNode audio_demo_device audio_demo_endpoint))"
    by code_simp
  from audio_choice_is_requested [OF audio_demo_probe_def _ this]
  have requested: "routable audio_demo_device audio_demo_endpoint = (ad_serial audio_demo_device \<noteq> None
      \<and> ad_adapter audio_demo_device \<noteq> [] \<and> ae_serial audio_demo_endpoint \<noteq> None \<and> ae_name audio_demo_endpoint \<noteq> [])"
    by auto
  have "(let d = audio_demo_device; e = hd (ad_endpoints d) in
      ad_serial d = Some 7 \<and> ad_adapter d = ''hci0'' \<and> ae_serial e = Some 8 \<and> ae_name e = ''bluez_output.1'')"
    by code_simp
  then have "ad_serial audio_demo_device = Some 7" "ad_adapter audio_demo_device = ''hci0''"
      "ae_serial audio_demo_endpoint = Some 8" "ae_name audio_demo_endpoint = ''bluez_output.1''"
    by (simp_all add: Let_def audio_demo_endpoint_def)
  with requested show ?thesis by simp
qed

subsection \<open>What is remembered\<close>

lemma apply_then_remember_cases:
  "apply_then_remember apply remember w = (w', Inl e) \<longleftrightarrow> apply w = (w', Inl e)"
  "apply_then_remember apply remember w = (w', Inr (r, err)) \<longleftrightarrow>
     (\<exists>w1 x. apply w = (w1, Inr r) \<and> remember w1 = (w', x) \<and> err = (case x of Inl e \<Rightarrow> Some (error_chain e) | Inr _ \<Rightarrow> None))"
  by (auto simp: apply_then_remember_def split: prod.splits sum.splits)

lemma applied_response_remembers:
  "applied_response response True err route = Inr (case applied_response response True err route of Inr d \<Rightarrow> d)
    \<and> (\<forall>d. applied_response response True err route = Inr d \<longrightarrow>
         av_profile_outcome d = Some \<lparr>po_applied = True, po_remembered = (err = None), po_persistence_error = err\<rparr>)"
  by (auto simp: applied_response_def Let_def split: option.splits sum.splits)

text \<open>
  A failed audio change is never remembered: the answer and the effects of a request that ends in an error
  do not depend on the policy store at all. When the client asked to remember a profile and the change was
  made, the answer says so whatever else fails, and says it was remembered exactly when the store took it.
\<close>
theorem audio_change_remembers_only_applied:
  assumes "apply_change digest a persist c params w = (w', answer)"
    and "change_request c params = Inr (device_key, wanted, True)"
  shows "case answer of
      Inl e \<Rightarrow> apply_change digest a store c params w = (w', Inl e)
    | Inr d \<Rightarrow> \<exists>op w1 w2 r stored. run_operation (aw_ops a) op w1 = (w2, Inr r)
        \<and> stored = snd (persist device_key wanted w2)
        \<and> av_profile_outcome d = Some \<lparr>po_applied = True, po_remembered = res_ok stored,
            po_persistence_error = (case stored of Inl e \<Rightarrow> Some (error_chain e) | Inr _ \<Rightarrow> None)\<rparr>"
proof -
  obtain w1 ds where probe: "probe_devices a w = (w1, ds)" by fastforce
  show ?thesis
  proof (cases ds)
    case (Inl e)
    then show ?thesis using assms probe by (auto simp: apply_change_def)
  next
    case (Inr devices)
    obtain w2 choice where choice:
        "choose_operation a device_key (ch_select c digest device_key wanted) devices w1 = (w2, choice)" by fastforce
    show ?thesis
    proof (cases choice)
      case None
      then show ?thesis using assms probe Inr choice by (auto simp: apply_change_def)
    next
      case (Some op)
      obtain w3 r where run: "run_operation (aw_ops a) op w2 = (w3, r)" by fastforce
      show ?thesis
      proof (cases r)
        case (Inl e)
        then show ?thesis using assms probe Inr choice Some run
          by (auto simp: apply_change_def apply_then_remember_def)
      next
        case (Inr route)
        obtain w4 stored where stored: "persist device_key wanted w3 = (w4, stored)" by fastforce
        let ?err = "case stored of Inl e \<Rightarrow> Some (error_chain e) | Inr _ \<Rightarrow> None"
        have "apply_then_remember (run_operation (aw_ops a) op) (persist device_key wanted) w2 = (w4, Inr (route, ?err))"
          using run Inr stored by (cases stored) (simp_all add: apply_then_remember_def)
        then have "answer = applied_response (snd (audio_snapshot digest a w4)) True ?err route"
          using assms probe \<open>ds = Inr devices\<close> choice Some by (auto simp: apply_change_def split: prod.splits)
        then obtain d where d: "answer = Inr d" "av_profile_outcome d =
            Some \<lparr>po_applied = True, po_remembered = (?err = None), po_persistence_error = ?err\<rparr>"
          using applied_response_remembers by metis
        have "(?err = None) = res_ok stored" by (cases stored) simp_all
        then have "av_profile_outcome d = Some \<lparr>po_applied = True, po_remembered = res_ok stored, po_persistence_error = ?err\<rparr>"
          using d(2) by simp
        then show ?thesis unfolding d(1) sum.case
          by (intro exI [of _ op] exI [of _ w2] exI [of _ w3] exI [of _ route] exI [of _ stored]) (simp add: run Inr stored)
      qed
    qed
  qed
qed

definition audio_demo_profiles :: "(nat, unit) audio_world" where
  "audio_demo_profiles = audio_demo_world\<lparr>aw_ops := (aw_ops audio_demo_world)\<lparr>ao_probe := (\<lambda>w. (Suc w,
     Inr [sample_device\<lparr>ad_profiles := [\<lparr>ap_index = 2, ap_name = ''a2dp-sink'', ap_description = ''High'', ap_available = True,
       ap_priority = 0, ap_mode = ''high-fidelity'', ap_codec = None\<rparr>]\<rparr>]))\<rparr>\<rparr>"

definition audio_demo_params :: json where
  "audio_demo_params = JObject [(''device_key'', JString ''k''),
     (''profile_key'', JString (profile_key (\<lambda>s. s) ''k'' ''a2dp-sink'')), (''remember'', JBool True)]"

text \<open>A store that refuses: the profile is applied and reported as not remembered.\<close>

lemma audio_change_remembers_only_applied_witness:
  "\<exists>d. snd (apply_change (\<lambda>s. s) audio_demo_profiles (\<lambda>_ _ w. (w, Inl [Context ''disk full''])) PROFILE audio_demo_params 0) = Inr d
    \<and> av_profile_outcome d = Some \<lparr>po_applied = True, po_remembered = False, po_persistence_error = Some ''disk full''\<rparr>"
proof -
  let ?persist = "\<lambda>_ _ w. (w, Inl [Context ''disk full''])"
  have request: "change_request PROFILE audio_demo_params = Inr (''k'', profile_key (\<lambda>s. s) ''k'' ''a2dp-sink'', True)"
    by code_simp
  have ok: "res_ok (snd (apply_change (\<lambda>s. s) audio_demo_profiles ?persist PROFILE audio_demo_params 0))"
    by code_simp
  obtain w' answer where
      run: "apply_change (\<lambda>s. s) audio_demo_profiles ?persist PROFILE audio_demo_params 0 = (w', answer)" by fastforce
  then obtain d where d: "answer = Inr d" using ok by (cases answer) simp_all
  then show ?thesis
    using audio_change_remembers_only_applied [OF run request, where store = ?persist] run by auto
qed

end
