(* ===== verification/Subscription.thy ===== *)
theory Subscription
  imports Protocol Pairing ObexIncoming Scan Daemon DaemonAudio
begin

text \<open>
  \<open>src/daemon/subscription.rs\<close> with the responses of \<open>src/daemon/published.rs\<close>: the shared snapshot that answers
  reads and feeds events, and what a subscription forwards from each of the daemon's event sources.

  Serialization is an argument that may fail. The channels, the forwarding loops and the envelopes belong to
  the daemon framework: a source is the list of what its receiver yields. Emitting over D-Bus or a socket is
  input and output.
\<close>

subsection \<open>The shared snapshot\<close>

datatype 's shared_snapshot = Loading | Available 's | Unavailable string

definition shared_from :: "failure + 's \<Rightarrow> 's shared_snapshot" where
  "shared_from r = (case r of Inr s \<Rightarrow> Available s | Inl e \<Rightarrow> Unavailable (error_chain e))"

fun shared_response :: "'s shared_snapshot \<Rightarrow> envelope_error + 's" where
  "shared_response Loading = Inl (api_error ''snapshot-loading'' ''Bluetooth snapshot is loading'')"
| "shared_response (Available s) = Inr s"
| "shared_response (Unavailable e) = Inl (api_error ''bluez-unavailable'' e)"

text \<open>\<open>stamp\<close> puts the watermark beside whatever the response is.\<close>

definition stamp :: "'v published \<Rightarrow> 'r \<Rightarrow> 'r \<times> watermark" where
  "stamp p response = (response, pb_watermark p)"

definition published_response :: "'s shared_snapshot published \<Rightarrow> (envelope_error + 's) \<times> watermark" where
  "published_response p = stamp p (shared_response (pb_value p))"

definition audio_published_response :: "'r published \<Rightarrow> 'r \<times> watermark" where
  "audio_published_response p = stamp p (pb_value p)"

subsection \<open>Events of the sources\<close>

datatype watch_phase = Initial | Changed

fun watch_event :: "watch_phase \<Rightarrow> string" where
  "watch_event Initial = ''subscribed''"
| "watch_event Changed = ''changed''"

datatype 's snapshot_body = StatusBody string | SnapshotBody 's | ErrorBody envelope_error

definition snapshot_fields :: "'s shared_snapshot published \<Rightarrow> string \<Rightarrow> string \<times> 's snapshot_body \<times> watermark" where
  "snapshot_fields p event =
     (case pb_value p of
        Loading \<Rightarrow> (''loading'', StatusBody ''loading'', pb_watermark p)
      | Available s \<Rightarrow> (event, SnapshotBody s, pb_watermark p)
      | Unavailable e \<Rightarrow> (''unavailable'', ErrorBody (api_error ''bluez-unavailable'' e), pb_watermark p))"

definition audio_fields ::
    "(envelope_error + audio_data) published \<Rightarrow> string \<Rightarrow> string \<times> wire_device list option snapshot_body \<times> watermark" where
  "audio_fields p event =
     (case audio_published_response p of
        (Inr d, state) \<Rightarrow> (event, SnapshotBody (av_devices d), state)
      | (Inl e, state) \<Rightarrow> (''unavailable'', ErrorBody e, state))"

definition forward_snapshots :: "('p \<Rightarrow> string \<Rightarrow> 'e) \<Rightarrow> ('p \<times> watch_phase) list \<Rightarrow> 'e list" where
  "forward_snapshots body updates = map (\<lambda>(p, phase). body p (watch_event phase)) updates"

datatype 'a broadcast = Item 'a | Lagged u64

datatype gap = LaggedGap u64 | ResetGap string

datatype 'j event_body = DataBody 'j | GapBody gap

definition gap_fields :: "gap \<Rightarrow> string \<times> 'j event_body" where
  "gap_fields g = (''gap'', GapBody g)"

definition broadcast_fields :: "('a \<Rightarrow> 'j option) \<Rightarrow> ('a \<Rightarrow> string) \<Rightarrow> 'a broadcast \<Rightarrow> string \<times> 'j event_body" where
  "broadcast_fields serialize event_name update =
     (case update of
        Item ev \<Rightarrow> (case serialize ev of Some j \<Rightarrow> (event_name ev, DataBody j) | None \<Rightarrow> gap_fields (ResetGap ''1''))
      | Lagged skipped \<Rightarrow> gap_fields (LaggedGap skipped))"

definition forward_events_filtered ::
    "('a \<Rightarrow> 'j option) \<Rightarrow> ('a \<Rightarrow> string) \<Rightarrow> ('a \<Rightarrow> bool) \<Rightarrow> 'a broadcast list \<Rightarrow> (string \<times> 'j event_body) list" where
  "forward_events_filtered serialize event_name visible updates =
     List.map_filter (\<lambda>update. case update of
         Item ev \<Rightarrow> if visible ev then Some (broadcast_fields serialize event_name update) else None
       | Lagged _ \<Rightarrow> Some (broadcast_fields serialize event_name update)) updates"

definition forward_events :: "('a \<Rightarrow> 'j option) \<Rightarrow> ('a \<Rightarrow> string) \<Rightarrow> 'a broadcast list \<Rightarrow> (string \<times> 'j event_body) list" where
  "forward_events serialize event_name updates = forward_events_filtered serialize event_name (\<lambda>_. True) updates"

subsection \<open>Subscribing\<close>

definition valid_streams :: "string list \<Rightarrow> bool" where
  "valid_streams streams \<longleftrightarrow> streams \<noteq> [] \<and> (\<forall>s \<in> set streams. s \<in> fst ` set STREAMS)"

definition forwarded_streams :: "string list \<Rightarrow> string list" where
  "forwarded_streams streams =
     filter (\<lambda>s. s \<in> set streams) [stream_changed, stream_audio, stream_pairing, stream_operation, stream_scan, stream_obex]"

text \<open>\<open>start_target\<close>: the answer, and the streams the spawned task forwards; \<open>refused\<close> is the registry's error.\<close>

definition start_target :: "string \<Rightarrow> string option \<Rightarrow> string list \<Rightarrow> (envelope_error + string \<times> string list) \<times> string list" where
  "start_target ident refused streams =
     (if \<not> valid_streams streams
      then (Inl (api_error ''unsupported-stream'' (''Subscriptions require bluetooth.changed, pairing.request, ''
        @ ''bluetooth.operation, bluetooth.scan, bluetooth.audio.changed, and/or bluetooth.obex.transfer'')), [])
      else case refused of
        Some e \<Rightarrow> (Inl (api_error ''subscription-unavailable'' e), [])
      | None \<Rightarrow> (Inr (ident, streams), forwarded_streams streams))"

definition stream_events :: "string \<Rightarrow> string list" where
  "stream_events s = (case map_of STREAMS s of None \<Rightarrow> [] | Some evs \<Rightarrow> evs)"

lemma stream_events_simps:
  "stream_events stream_changed = [''subscribed'', ''changed'', ''loading'', ''unavailable'']"
  "stream_events stream_audio = [''subscribed'', ''changed'', ''unavailable'']"
  "stream_events stream_pairing = [''requested'', ''display'', ''answered'', ''cancelled'', ''gap'']"
  "stream_events stream_operation = [''started'', ''progress'', ''completed'', ''failed'', ''cancelled'', ''gap'']"
  "stream_events stream_obex =
    [''authorization-requested'', ''queued'', ''progress'', ''completed'', ''failed'', ''cancelled'', ''gap'']"
  "stream_events stream_scan = [''started'', ''completed'', ''failed'', ''cancelled'', ''gap'']"
  by (simp_all add: stream_events_def STREAMS_def stream_changed_def stream_audio_def stream_pairing_def
      stream_operation_def stream_obex_def stream_scan_def)

text \<open>Every stream that may be asked for has a forwarder.\<close>

lemma valid_streams_forwarded:
  assumes "valid_streams streams"
  shows "set (forwarded_streams streams) = set streams"
proof -
  have "set [stream_changed, stream_audio, stream_pairing, stream_operation, stream_scan, stream_obex] = fst ` set STREAMS"
    unfolding STREAMS_def by (simp add: insert_commute)
  then have "set (forwarded_streams streams) = {s \<in> fst ` set STREAMS. s \<in> set streams}"
    by (simp only: forwarded_streams_def set_filter)
  then show ?thesis using assms unfolding valid_streams_def by blast
qed

lemma fst_gap_fields [simp]: "fst (gap_fields g) = ''gap''"
  by (simp add: gap_fields_def)

lemma broadcast_event_name:
  "fst (broadcast_fields serialize event_name u) = ''gap'' \<or> (\<exists>ev. u = Item ev \<and> fst (broadcast_fields serialize event_name u) = event_name ev)"
  by (cases u) (auto simp: broadcast_fields_def split: option.splits)

lemma set_map_filter_Some: "y \<in> set (List.map_filter f xs) \<longleftrightarrow> (\<exists>x \<in> set xs. f x = Some y)"
  by (induction xs) (auto simp: List.map_filter_simps split: option.splits)

lemma forwarded_origin:
  assumes "x \<in> set (forward_events_filtered serialize event_name visible updates)"
  obtains u where "u \<in> set updates" and "x = broadcast_fields serialize event_name u"
    and "\<forall>ev. u = Item ev \<longrightarrow> visible ev"
proof -
  obtain u where u: "u \<in> set updates" "(case u of
         Item ev \<Rightarrow> if visible ev then Some (broadcast_fields serialize event_name u) else None
       | Lagged _ \<Rightarrow> Some (broadcast_fields serialize event_name u)) = Some x"
    using assms unfolding forward_events_filtered_def set_map_filter_Some by blast
  show thesis
  proof (rule that [OF u(1)])
    show "x = broadcast_fields serialize event_name u" using u(2) by (cases u) (simp_all split: if_splits)
    show "\<forall>ev. u = Item ev \<longrightarrow> visible ev" using u(2) by (cases u) (simp_all split: if_splits)
  qed
qed

lemma forwarded_names:
  assumes "\<And>ev. Item ev \<in> set updates \<Longrightarrow> event_name ev \<in> set names" and "''gap'' \<in> set names"
    and "x \<in> set (forward_events_filtered serialize event_name visible updates)"
  shows "fst x \<in> set names"
proof -
  obtain u where u: "u \<in> set updates" "x = broadcast_fields serialize event_name u"
    using assms(3) by (rule forwarded_origin)
  show ?thesis using broadcast_event_name [of serialize event_name u] u assms(1,2) by auto
qed

subsection \<open>What the sources publish\<close>

definition pairing_named :: "broker \<Rightarrow> bool" where
  "pairing_named b \<longleftrightarrow> (\<forall>ev \<in> set (br_events b). pe_event ev \<in> set (stream_events stream_pairing))"

lemma pairing_named_emit:
  "pairing_named b \<Longrightarrow> pe_event ev \<in> {''requested'', ''display'', ''answered'', ''cancelled''} \<Longrightarrow>
    pairing_named (Pairing.emit ev b)"
  by (auto simp: pairing_named_def Pairing.emit_def stream_events_simps)

lemma pairing_named_same: "pairing_named b \<Longrightarrow> br_events b' = br_events b \<Longrightarrow> pairing_named b'"
  by (simp add: pairing_named_def)

lemma pairing_named_cancelled: "pairing_named b \<Longrightarrow> pairing_named (Pairing.emit (event_cancelled reason ev) b)"
  by (rule pairing_named_emit) (simp_all add: event_cancelled_def)

lemma send_answer_events [simp]: "br_events (send_answer i r a b) = br_events b"
  by (simp add: send_answer_def)

lemma pairing_named_finish: "pairing_named b \<Longrightarrow> pairing_named (finish_all reason rs b)"
proof (induction reason rs b rule: finish_all.induct)
  case (2 reason ident r rs b)
  have "pairing_named (send_answer ident r Canceled b)" using 2(2) by (rule pairing_named_same) simp
  then show ?case using 2(1) pairing_named_cancelled by simp
qed simp

lemma pairing_named_displays:
  "pairing_named b \<Longrightarrow> pairing_named (foldl (\<lambda>b (_, d). Pairing.emit (event_cancelled reason d) b) b ds)"
proof (induction ds arbitrary: b)
  case (Cons d ds)
  obtain k x where "d = (k, x)" by fastforce
  then show ?case using Cons.IH [OF pairing_named_cancelled [OF Cons.prems]] by simp
qed simp

lemma pairing_named_pending: "pairing_named b \<Longrightarrow> pairing_named (cancel_pending i reason b)"
  by (auto simp: cancel_pending_def intro!: pairing_named_cancelled elim: pairing_named_same split: option.split)

lemma pairing_named_insert: "pairing_named b \<Longrightarrow> pairing_named (fst (insert_request kind key response v service b))"
  by (auto simp: insert_request_def Let_def intro!: pairing_named_emit elim: pairing_named_same)

lemma pairing_named_display: "pairing_named b \<Longrightarrow> pairing_named (fst (display kind key v entered b))"
  by (auto simp: display_def Let_def intro!: pairing_named_emit elim: pairing_named_same)

lemma pairing_named_respond:
  assumes "pairing_named b"
  shows "pairing_named (fst (Pairing.respond params b))"
proof -
  have send: "pairing_named (send_answer i r a (b\<lparr>br_pending := x\<rparr>))" for i r a x
    using assms by (rule pairing_named_same) simp
  have removed: "pairing_named (b\<lparr>br_pending := x\<rparr>)" for x using assms by (rule pairing_named_same) simp
  show ?thesis unfolding Pairing.respond_def Let_def
    by (auto intro!: pairing_named_emit send removed assms split: option.split sum.split)
qed

lemma pairing_step_named:
  assumes "pairing_named b"
  shows "pairing_named (broker_step e b)"
proof (cases e)
  case (AgentCall req key)
  then show ?thesis using assms pairing_named_insert pairing_named_display by (cases req) simp_all
next
  case (CancelAll reason)
  have "pairing_named (b\<lparr>br_pending := [], br_displays := []\<rparr>)" using assms by (rule pairing_named_same) simp
  then show ?thesis unfolding CancelAll broker_step.simps cancel_all_def
    by (intro pairing_named_displays pairing_named_finish)
next
  case (DropReceiver i)
  then show ?thesis using assms by (auto simp: drop_receiver_def elim: pairing_named_same split: option.split)
next
  case (WithdrawDisplay n kind key)
  have "pairing_named (b\<lparr>br_displays := x\<rparr>)" for x using assms by (rule pairing_named_same) simp
  then show ?thesis by (auto simp: WithdrawDisplay display_cancelled_def intro!: pairing_named_emit)
qed (use assms pairing_named_pending pairing_named_respond in \<open>simp_all add: drop_guard_def timeout_request_def\<close>)

lemma pairing_run_named:
  "pairing_named (fold broker_step es broker_new)"
proof (induction es rule: rev_induct)
  case Nil
  show ?case by (simp add: broker_new_def pairing_named_def)
next
  case (snoc e es)
  then show ?case by (simp add: pairing_step_named)
qed

lemma operation_events_named:
  "op_step s s' \<Longrightarrow> \<forall>ev \<in> set (os_published s). Daemon.oe_event ev \<in> set (stream_events stream_operation) \<Longrightarrow>
    \<forall>ev \<in> set (os_published s'). Daemon.oe_event ev \<in> set (stream_events stream_operation)"
proof (induction rule: op_step.induct)
  case (start s s' going)
  then show ?case by (auto simp: op_start_def publish_def set_state_def stream_events_simps split: if_splits)
next
  case (progress s locked stage)
  then show ?case by (auto simp: op_progress_def publish_def progress_def set_state_def stream_events_simps)
next
  case (finish s result)
  then show ?case
    by (auto simp: op_finish_def publish_def finished_def set_state_def Let_def stream_events_simps split: sum.splits)
next
  case (cancel owner s s' taken)
  then show ?case by (auto simp: op_cancel_def split: if_splits)
next
  case (reap s)
  then show ?case by (auto simp: op_reap_def publish_def set_state_def stream_events_simps)
qed

lemma operation_run_named:
  "op_reachable ev s \<Longrightarrow> \<forall>e \<in> set (os_published s). Daemon.oe_event e \<in> set (stream_events stream_operation)"
  by (induction rule: op_reachable.induct) (simp add: slot_new_def, rule operation_events_named)

lemma transfer_events_named:
  "ev' \<in> set (task_events describe ev run) \<Longrightarrow> Obex.oe_event ev' \<in> set (stream_events stream_obex)"
  by (auto simp: task_events_def updated_def event_failed_def lifecycle_event_def stream_events_simps
      split: option.splits sum.splits if_splits)

definition incoming_named :: "incoming \<Rightarrow> bool" where
  "incoming_named b \<longleftrightarrow> (\<forall>ev \<in> set (ib_events b). Obex.oe_event ev \<in> set (stream_events stream_obex))"

lemma incoming_named_emit:
  "incoming_named b \<Longrightarrow> event \<in> {''authorization-requested'', ''cancelled'', ''queued''} \<Longrightarrow>
    incoming_named (emit_event (authorization_event i a event status t) b)"
  by (auto simp: incoming_named_def emit_event_def authorization_event_def stream_events_simps)

lemma incoming_named_same: "ib_events b' = ib_events b \<Longrightarrow> incoming_named b \<Longrightarrow> incoming_named b'"
  by (simp add: incoming_named_def)

lemma send_decision_events [simp]: "ib_events (send_decision d i b) = ib_events b"
  by (simp add: send_decision_def split: option.split prod.split phase.split)

lemma fold_send_decision_events [simp]: "ib_events (fold (send_decision d) is b) = ib_events b"
  by (induction "is" arbitrary: b) simp_all

lemma incoming_named_reject:
  "incoming_named b \<Longrightarrow> incoming_named (reject_authorization e i a b)"
  using incoming_named_emit [of b "''cancelled''" i a "''cancelled''" None]
  by (simp add: reject_authorization_def reply_def drop_destination_def end_task_def incoming_named_def)

lemma incoming_events_named: "incoming_step b b' \<Longrightarrow> incoming_named b \<Longrightarrow> incoming_named b'"
proof (induction rule: incoming_step.induct)
  case (authorize b connected details remote denied)
  obtain b1 r where p: "prepare_authorization connected details remote denied b = (b1, r)" by fastforce
  then have "ib_events b1 = ib_events b"
    by (auto simp: prepare_authorization_def split: if_splits sum.splits prod.splits)
  then have b1: "incoming_named b1" using authorize by (simp add: incoming_named_def)
  show ?case
  proof (cases r)
    case (Inl e)
    then show ?thesis using p b1 by (simp add: authorize_def)
  next
    case (Inr x)
    obtain i a where "x = (i, a)" by fastforce
    then show ?thesis using Inr p b1
      by (auto simp: authorize_def request_decision_def intro!: incoming_named_emit) (simp add: incoming_named_def)
  qed
next
  case (respond b ident accept)
  then show ?case by (auto simp: ObexIncoming.respond_def incoming_named_def split: option.splits)
next
  case (cancel b ident)
  then show ?case by (auto simp: cancel_transfer_def incoming_named_def)
next
  case (cancel_authorizations b)
  then show ?case by (simp add: cancel_authorizations_def incoming_named_def)
next
  case (decide b ident)
  have "incoming_named (start_incoming ident a b)" for a
    using decide by (simp add: start_incoming_def reply_def end_task_def incoming_named_def)
  then show ?case using decide
    by (auto simp: decide_def intro: incoming_named_reject split: option.splits prod.splits phase.splits decision.splits)
next
  case (deadline b ident)
  then show ?case by (auto simp: deadline_def incoming_named_def split: option.splits prod.splits phase.splits)
next
  case (expire b ident)
  have "incoming_named (b\<lparr>ib_pending := x\<rparr>)" for x using expire by (simp add: incoming_named_def)
  then show ?case using expire
    by (auto simp: expire_def intro: incoming_named_reject split: option.splits prod.splits phase.splits)
next
  case (abandon b ident)
  have "incoming_named (drop_prompt ident a b)" for a
    using abandon by (auto simp: drop_prompt_def intro!: incoming_named_emit) (simp add: incoming_named_def)
  then show ?case using abandon
    by (auto simp: abandon_def drop_destination_def end_task_def incoming_named_def split: option.splits prod.splits phase.splits)
next
  case (transfer_ended b ident)
  then show ?case by (simp add: transfer_ended_def incoming_named_def)
qed

definition scan_named :: "coordinator \<Rightarrow> bool" where
  "scan_named c \<longleftrightarrow> (\<forall>ev \<in> set (sc_events c). se_event ev \<in> set (stream_events stream_scan))"

lemma scan_stop_named:
  "scan_named c \<Longrightarrow> scan_named (fst (scan_stop_selected stops latest rid owner ''cancelled'' c))"
  by (auto simp: scan_named_def scan_stop_selected_def Let_def stream_events_simps split: prod.split sum.split)

lemma scan_start_named:
  assumes "scan_named c"
  shows "scan_named (fst (scan_start started stops latest params owner c))"
proof (cases "\<exists>r. parse_scan params = Inr (Stop r)")
  case True
  then obtain r where "parse_scan params = Inr (Stop r)" by blast
  then show ?thesis using scan_stop_named [OF assms] by (simp add: scan_start_def case_prod_beta)
next
  case False
  then show ?thesis using assms
    by (auto simp: scan_start_def scan_named_def Let_def stream_events_simps
        split: sum.split prod.split scan_request.split)
qed

lemma stop_owner_named: "scan_named c \<Longrightarrow> scan_named (stop_owner stops latest owner c)"
proof -
  have "scan_named c \<Longrightarrow> scan_named (fold (\<lambda>id c. fst (scan_stop_selected stops latest (Some id) None ''cancelled'' c)) ids c)"
    for ids c by (induction ids arbitrary: c) (simp_all add: scan_stop_named)
  then show "scan_named c \<Longrightarrow> ?thesis" by (simp add: stop_owner_def)
qed

lemma timeout_turn_named: "scan_named c \<Longrightarrow> scan_named (fst (timeout_turn stops latest task_id a first c))"
  by (auto simp: timeout_turn_def scan_named_def terminal_event_def Let_def stream_events_simps split: prod.split sum.split)

lemma timeout_loop_named: "scan_named c \<Longrightarrow> scan_named (timeout_loop turns task_id a first c)"
proof (induction turns arbitrary: first c)
  case (Cons turn turns)
  obtain stops latest where t: "turn = (stops, latest)" by fastforce
  obtain c' again where c': "timeout_turn stops latest task_id a first c = (c', again)" by fastforce
  have "scan_named c'" using timeout_turn_named [OF Cons.prems, of stops latest task_id a first] c' by simp
  then show ?case using Cons.IH t c' by simp
qed simp

subsection \<open>Properties\<close>

text \<open>
  A subscriber only sees events that the registry lists for the stream. This covers the snapshot and audio
  streams, whatever the sources of prompts, operations, transfers and scans publish in any reachable state,
  and the gap that stands for events that were lost or could not be serialized.
\<close>
theorem subscribed_events_registered:
  shows "fst (snapshot_fields p (watch_event phase)) \<in> set (stream_events stream_changed)
    \<and> fst (audio_fields q (watch_event phase)) \<in> set (stream_events stream_audio)
    \<and> (set updates \<subseteq> Lagged ` UNIV \<union> Item ` set (br_events (fold broker_step es broker_new)) \<longrightarrow>
         fst ` set (forward_events serialize_prompt pe_event updates) \<subseteq> set (stream_events stream_pairing))
    \<and> (op_reachable ev slot \<and> set updates' \<subseteq> Lagged ` UNIV \<union> Item ` set (os_published slot) \<longrightarrow>
         fst ` set (forward_events_filtered serialize_operation Daemon.oe_event (visible_to (Some owner)) updates')
           \<subseteq> set (stream_events stream_operation))
    \<and> (incoming_step\<^sup>*\<^sup>* (incoming_new files) b
         \<and> set updates'' \<subseteq> Lagged ` UNIV \<union> Item ` (set (ib_events b) \<union> set (task_events describe transfer run)) \<longrightarrow>
         fst ` set (forward_events serialize_transfer Obex.oe_event updates'') \<subseteq> set (stream_events stream_obex))
    \<and> (scan_named c \<longrightarrow> scan_named (fst (scan_start started stops latest params client c))
         \<and> scan_named (stop_owner stops latest client c) \<and> scan_named (timeout_loop turns task_id a first c))"
proof (intro conjI impI)
  show "fst (snapshot_fields p (watch_event phase)) \<in> set (stream_events stream_changed)"
    by (cases phase) (auto simp: snapshot_fields_def stream_events_simps split: shared_snapshot.split)
  show "fst (audio_fields q (watch_event phase)) \<in> set (stream_events stream_audio)"
    by (cases phase) (auto simp: audio_fields_def stream_events_simps split: prod.split sum.split)
  have gap: "''gap'' \<in> set (stream_events s)" if "s \<in> {stream_pairing, stream_operation, stream_obex}" for s
    using that by (auto simp: stream_events_simps)
  show "fst ` set (forward_events serialize_prompt pe_event updates) \<subseteq> set (stream_events stream_pairing)"
    if "set updates \<subseteq> Lagged ` UNIV \<union> Item ` set (br_events (fold broker_step es broker_new))"
  proof -
    have "pe_event ev \<in> set (stream_events stream_pairing)" if "Item ev \<in> set updates" for ev
      using that \<open>set updates \<subseteq> _\<close> pairing_run_named [of es] unfolding pairing_named_def by blast
    then show ?thesis unfolding forward_events_def using forwarded_names gap by blast
  qed
  show "fst ` set (forward_events_filtered serialize_operation Daemon.oe_event (visible_to (Some owner)) updates')
      \<subseteq> set (stream_events stream_operation)"
    if "op_reachable ev slot \<and> set updates' \<subseteq> Lagged ` UNIV \<union> Item ` set (os_published slot)"
  proof -
    have "Daemon.oe_event e \<in> set (stream_events stream_operation)" if "Item e \<in> set updates'" for e
      using that \<open>op_reachable ev slot \<and> _\<close> operation_run_named [of ev slot] by blast
    then show ?thesis using forwarded_names gap by blast
  qed
  show "fst ` set (forward_events serialize_transfer Obex.oe_event updates'') \<subseteq> set (stream_events stream_obex)"
    if "incoming_step\<^sup>*\<^sup>* (incoming_new files) b
      \<and> set updates'' \<subseteq> Lagged ` UNIV \<union> Item ` (set (ib_events b) \<union> set (task_events describe transfer run))"
  proof -
    have run: "incoming_step\<^sup>*\<^sup>* (incoming_new files) b" using that by blast
    have "incoming_named b" using run
      by (induction rule: rtranclp_induct) (simp add: incoming_new_def incoming_named_def, rule incoming_events_named)
    then have "Obex.oe_event e \<in> set (stream_events stream_obex)" if "Item e \<in> set updates''" for e
      using that \<open>_ \<and> set updates'' \<subseteq> _\<close> transfer_events_named unfolding incoming_named_def by blast
    then show ?thesis unfolding forward_events_def using forwarded_names gap by blast
  qed
  assume "scan_named c"
  then show "scan_named (fst (scan_start started stops latest params client c))"
    and "scan_named (stop_owner stops latest client c)" and "scan_named (timeout_loop turns task_id a first c)"
    by (rule scan_start_named stop_owner_named timeout_loop_named)+
qed

text \<open>A prompt that is asked and withdrawn, seen with a lag before it.\<close>

definition demo_updates :: "pairing_event broadcast list" where
  "demo_updates = Lagged 3 # map Item (br_events (fold broker_step
     [AgentCall RequestPinCode ''d'', CancelAll ''shutdown''] broker_new))"

lemma subscribed_events_registered_witness:
  "map fst (forward_events Some pe_event demo_updates) = [''gap'', ''requested'', ''cancelled'']
    \<and> set [''gap'', ''requested'', ''cancelled''] \<subseteq> set (stream_events stream_pairing)"
proof -
  have names: "map fst (forward_events Some pe_event demo_updates) = [''gap'', ''requested'', ''cancelled'']" by code_simp
  have "set demo_updates \<subseteq> Lagged ` UNIV \<union> Item ` set (br_events (fold broker_step
      [AgentCall RequestPinCode ''d'', CancelAll ''shutdown''] broker_new))"
    unfolding demo_updates_def by auto
  then have "fst ` set (forward_events Some pe_event demo_updates) \<subseteq> set (stream_events stream_pairing)"
    by (rule subscribed_events_registered [THEN conjunct2, THEN conjunct2, THEN conjunct1, THEN mp])
  then show ?thesis using names by (metis image_set)
qed

text \<open>
  A subscriber and a reader of the same published state are told the same: the event carries the watermark
  of the response, the snapshot itself exactly when the response does, and an error only with the code and the
  message of the response. What a snapshot event shows is full state: two states with the same value give events
  that differ only in the watermark.
\<close>
theorem snapshot_event_matches_read:
  "(case (snapshot_fields p event, published_response p) of
      ((name, body, state), (response, state')) \<Rightarrow>
        state = state'
        \<and> (case response of
             Inr s \<Rightarrow> name = event \<and> body = SnapshotBody s
           | Inl e \<Rightarrow> name \<in> {''loading'', ''unavailable''} \<and> (name = ''unavailable'') = (body = ErrorBody e)))
    \<and> (pb_value r = pb_value p \<longrightarrow> fst (snd (snapshot_fields r event)) = fst (snd (snapshot_fields p event)))"
  by (cases "pb_value p") (auto simp: snapshot_fields_def published_response_def stamp_def)

lemma snapshot_event_matches_read_witness:
  "fst (snapshot_fields (published_new ''e'' (Unavailable ''gone'')) ''changed'') = ''unavailable''
    \<and> fst (published_response (published_new ''e'' (Unavailable ''gone'') :: nat shared_snapshot published))
      = Inl (api_error ''bluez-unavailable'' ''gone'')"
  using snapshot_event_matches_read [where p = "published_new ''e'' (Unavailable ''gone'') :: nat shared_snapshot published"
      and event = "''changed''" and r = "published_new ''f'' (Unavailable ''gone'')"]
  by (simp add: snapshot_fields_def published_response_def stamp_def published_new_def)

text \<open>
  A client's subscription to device operations shows no event of another owner, and loses none of its own:
  as many events come out as there are updates of its operations and reports of lag, each an update's data or
  a gap.
\<close>
theorem operation_events_private_and_complete:
  "(\<forall>(name, body) \<in> set (forward_events_filtered serialize Daemon.oe_event (visible_to (Some owner)) updates).
       case body of
         DataBody j \<Rightarrow> \<exists>ev. Item ev \<in> set updates \<and> Daemon.oe_owner ev = Some owner \<and> serialize ev = Some j
           \<and> name = Daemon.oe_event ev
       | GapBody g \<Rightarrow> name = ''gap'')
    \<and> length (forward_events_filtered serialize Daemon.oe_event (visible_to (Some owner)) updates)
      = length (filter (\<lambda>u. case u of Item ev \<Rightarrow> Daemon.oe_owner ev = Some owner | Lagged _ \<Rightarrow> True) updates)"
proof (intro conjI ballI)
  fix x assume "x \<in> set (forward_events_filtered serialize Daemon.oe_event (visible_to (Some owner)) updates)"
  then obtain u where u: "u \<in> set updates" "x = broadcast_fields serialize Daemon.oe_event u"
      "\<forall>ev. u = Item ev \<longrightarrow> visible_to (Some owner) ev" by (rule forwarded_origin)
  show "case x of (name, body) \<Rightarrow> (case body of
      DataBody j \<Rightarrow> \<exists>ev. Item ev \<in> set updates \<and> Daemon.oe_owner ev = Some owner \<and> serialize ev = Some j
        \<and> name = Daemon.oe_event ev
    | GapBody g \<Rightarrow> name = ''gap'')"
  proof (cases u)
    case (Item ev)
    then have "Item ev \<in> set updates" "Daemon.oe_owner ev = Some owner" using u by (simp_all add: visible_to_def)
    then show ?thesis using u(2) Item by (cases "serialize ev") (auto simp: broadcast_fields_def gap_fields_def)
  next
    case (Lagged n)
    then show ?thesis using u(2) by (simp add: broadcast_fields_def gap_fields_def)
  qed
next
  show "length (forward_events_filtered serialize Daemon.oe_event (visible_to (Some owner)) updates)
      = length (filter (\<lambda>u. case u of Item ev \<Rightarrow> Daemon.oe_owner ev = Some owner | Lagged _ \<Rightarrow> True) updates)"
    unfolding forward_events_filtered_def
    by (induction updates) (auto simp: List.map_filter_simps visible_to_def split: broadcast.split)
qed

definition demo_owned :: "string \<Rightarrow> (nat, string) operation_event" where
  "demo_owned owner = queued ''r'' ''d'' ''connect'' (Some owner)"

lemma operation_events_private_and_complete_witness:
  "list_all (\<lambda>(name, body). case body of DataBody j \<Rightarrow> Daemon.oe_owner j = Some ''a'' | GapBody g \<Rightarrow> name = ''gap'')
     (forward_events_filtered Some Daemon.oe_event (visible_to (Some ''a''))
       [Item (demo_owned ''a''), Item (demo_owned ''b''), Lagged 2])
   \<and> length (forward_events_filtered Some Daemon.oe_event (visible_to (Some ''a''))
       [Item (demo_owned ''a''), Item (demo_owned ''b''), Lagged 2]) = 2"
  using operation_events_private_and_complete [of Some "''a''" "[Item (demo_owned ''a''), Item (demo_owned ''b''), Lagged 2]"]
  by (auto simp: list_all_iff demo_owned_def queued_def split: event_body.splits)

end
