(* ===== verification/Routing.thy ===== *)
theory Routing
  imports Subscription
begin

text \<open>
  \<open>src/daemon.rs\<close>: how a call, a cancellation and a refresh reach the daemon's parts.

  The parts are operations on a world of their own: each takes the parameters and the caller as the code passes
  them. An answer is the JSON value of the envelope, of which only its success is looked at. Admission and the
  encoding of the reply belong to the daemon framework's boundary and are arguments.
\<close>

subsection \<open>Calls\<close>

record ('w, 'r) services =
  sv_describe :: 'r
  sv_scan :: "json \<Rightarrow> string \<Rightarrow> 'w \<Rightarrow> 'w \<times> 'r"
  sv_obex_send :: "json \<Rightarrow> string option \<Rightarrow> 'w \<Rightarrow> 'w \<times> 'r"
  sv_obex_respond :: "json \<Rightarrow> 'w \<Rightarrow> 'w \<times> 'r"
  sv_obex_snapshot :: "'w \<Rightarrow> 'w \<times> 'r"
  sv_audio_snapshot :: "'w \<Rightarrow> 'r"
  sv_audio_change :: "change \<Rightarrow> (string \<Rightarrow> string \<Rightarrow> 'w \<Rightarrow> 'w \<times> (failure + unit)) \<Rightarrow> json \<Rightarrow> 'w \<Rightarrow> 'w \<times> 'r"
  sv_remember_profile :: "string \<Rightarrow> string \<Rightarrow> 'w \<Rightarrow> 'w \<times> (failure + unit)"
  sv_requests :: "string option \<Rightarrow> 'w \<Rightarrow> 'w \<times> 'r"
  sv_operation_status :: "json \<Rightarrow> string option \<Rightarrow> 'w \<Rightarrow> 'w \<times> 'r"
  sv_operation_start :: "json \<Rightarrow> string option \<Rightarrow> 'w \<Rightarrow> 'w \<times> 'r"
  sv_snapshot :: "'w \<Rightarrow> 'r"
  sv_pairing_respond :: "json \<Rightarrow> 'w \<Rightarrow> 'w \<times> (failure + bool)"
  sv_backend :: "string \<Rightarrow> json \<Rightarrow> 'w \<Rightarrow> 'w \<times> 'r"
  sv_watch_owner :: "string \<Rightarrow> 'w \<Rightarrow> 'w"
  sv_ok :: "'r \<Rightarrow> bool"
  sv_accepted :: "bool \<Rightarrow> 'r"
  sv_error :: "envelope_error \<Rightarrow> 'r"

definition owner_or_internal :: "string option \<Rightarrow> string" where
  "owner_or_internal caller = (case caller of None \<Rightarrow> ''internal'' | Some c \<Rightarrow> c)"

text \<open>\<open>connected\<close>: the call came with a bus connection.\<close>

definition start_scan :: "('w, 'r) services \<Rightarrow> json \<Rightarrow> string option \<Rightarrow> bool \<Rightarrow> 'w \<Rightarrow> 'w \<times> 'r" where
  "start_scan sv params caller connected w =
     (case sv_scan sv params (owner_or_internal caller) w of
        (w1, r) \<Rightarrow> (if sv_ok sv r \<and> connected then sv_watch_owner sv (owner_or_internal caller) w1 else w1, r))"

definition start_operation :: "('w, 'r) services \<Rightarrow> json \<Rightarrow> string option \<Rightarrow> bool \<Rightarrow> 'w \<Rightarrow> 'w \<times> 'r" where
  "start_operation sv params caller connected w =
     (case sv_operation_start sv params caller w of
        (w1, r) \<Rightarrow>
          (case caller of
             Some c \<Rightarrow> (if sv_ok sv r \<and> connected then sv_watch_owner sv c w1 else w1, r)
           | None \<Rightarrow> (w1, r)))"

definition answer_prompt :: "('w, 'r) services \<Rightarrow> json \<Rightarrow> 'w \<Rightarrow> 'w \<times> 'r" where
  "answer_prompt sv params w =
     (case sv_pairing_respond sv params w of
        (w1, Inr accepted) \<Rightarrow> (w1, sv_accepted sv accepted)
      | (w1, Inl e) \<Rightarrow> (w1, sv_error sv (api_error ''pairing-response-rejected'' (error_chain e))))"

definition dispatch_call ::
    "('w, 'r) services \<Rightarrow> string \<Rightarrow> json \<Rightarrow> string option \<Rightarrow> bool \<Rightarrow> 'w \<Rightarrow> 'w \<times> 'r" where
  "dispatch_call sv m params caller connected w =
     (if m = ''bluetooth.protocol.describe'' then (w, sv_describe sv)
      else if m = ''bluetooth.scan'' then start_scan sv params caller connected w
      else if m = ''bluetooth.obex.send'' then sv_obex_send sv params caller w
      else if m = ''bluetooth.obex.respond'' then sv_obex_respond sv params w
      else if m = ''bluetooth.obex.snapshot'' then sv_obex_snapshot sv w
      else if m = ''bluetooth.audio.snapshot'' then (w, sv_audio_snapshot sv w)
      else if m = ''bluetooth.audio.setProfile'' then sv_audio_change sv PROFILE (sv_remember_profile sv) params w
      else if m = ''bluetooth.audio.setDefault'' then sv_audio_change sv DEFAULT (\<lambda>_ _ w. (w, Inr ())) params w
      else if m = ''bluetooth.requests.snapshot'' then sv_requests sv caller w
      else if m = ''bluetooth.operation.status'' then sv_operation_status sv params caller w
      else if m = ''bluetooth.device.operation'' then start_operation sv params caller connected w
      else if m = ''bluetooth.snapshot'' then (w, sv_snapshot sv w)
      else if m = ''bluetooth.pairing.respond'' then answer_prompt sv params w
      else sv_backend sv m params w)"

text \<open>\<open>call\<close>: \<open>admitted\<close> is the boundary's refusal, \<open>parse\<close> the JSON parser with its message.\<close>

definition call ::
    "('w, 'r) services \<Rightarrow> 'r option \<Rightarrow> (string \<Rightarrow> string + json) \<Rightarrow> string \<Rightarrow> string \<Rightarrow> string option \<Rightarrow> 'w \<Rightarrow> 'w \<times> 'r" where
  "call sv refused parse m params_json caller w =
     (case refused of
        Some r \<Rightarrow> (w, r)
      | None \<Rightarrow>
          (case parse params_json of
             Inl e \<Rightarrow> (w, sv_error sv (api_error ''validation-error'' (''invalid params JSON: '' @ e)))
           | Inr params \<Rightarrow> dispatch_call sv m params caller True w))"

subsection \<open>Cancellation\<close>

record ('w, 'r) cancellers =
  cn_subscriptions :: "string \<Rightarrow> string option \<Rightarrow> 'w \<Rightarrow> 'w \<times> bool"
  cn_scan_owned_by :: "string \<Rightarrow> string \<Rightarrow> 'w \<Rightarrow> bool"
  cn_scan_stop :: "string option \<Rightarrow> string \<Rightarrow> string \<Rightarrow> 'w \<Rightarrow> 'w \<times> 'r"
  cn_operations :: "string \<Rightarrow> string option \<Rightarrow> 'w \<Rightarrow> 'w \<times> bool"
  cn_outgoing :: "string \<Rightarrow> string option \<Rightarrow> 'w \<Rightarrow> 'w \<times> bool"
  cn_obex :: "string \<Rightarrow> 'w \<Rightarrow> 'w \<times> string option"

datatype 'r cancel_answer = CancelledAs string | ScanAnswer 'r | CancelFailed envelope_error

definition not_found :: "string \<Rightarrow> 'r cancel_answer" where
  "not_found rid = CancelFailed (api_error ''request-not-found'' (''No active subscription or operation named '' @ rid))"

definition cancel_owned ::
    "('w, 'r) cancellers \<Rightarrow> string \<Rightarrow> string option \<Rightarrow> 'w \<Rightarrow> 'w \<times> 'r cancel_answer" where
  "cancel_owned cn rid caller w =
     (case cn_subscriptions cn rid caller w of
        (w1, True) \<Rightarrow> (w1, CancelledAs ''subscription'')
      | (w1, False) \<Rightarrow>
          if cn_scan_owned_by cn rid (owner_or_internal caller) w1
          then (case cn_scan_stop cn (Some rid) (owner_or_internal caller) ''cancelled'' w1 of (w2, r) \<Rightarrow> (w2, ScanAnswer r))
          else (case cn_operations cn rid caller w1 of
              (w2, True) \<Rightarrow> (w2, CancelledAs ''operation'')
            | (w2, False) \<Rightarrow>
                (case cn_outgoing cn rid caller w2 of
                   (w3, True) \<Rightarrow> (w3, CancelledAs ''obex-outgoing'')
                 | (w3, False) \<Rightarrow>
                     (case caller of
                        Some _ \<Rightarrow> (w3, not_found rid)
                      | None \<Rightarrow>
                          (case cn_obex cn rid w3 of
                             (w4, Some kind) \<Rightarrow> (w4, CancelledAs kind)
                           | (w4, None) \<Rightarrow> (w4, not_found rid))))))"

subsection \<open>Refreshes\<close>

datatype refresh_signal = ChangeSignal | LaggedSignal | ClosedSignal

text \<open>
  \<open>receive_refresh\<close> over what the channel holds: the first signal, then those that arrived by the end of the
  delay, of which all up to the first error are taken. The rest stays in the channel.
\<close>

fun drain :: "refresh_signal list \<Rightarrow> refresh_signal list" where
  "drain (ChangeSignal # ss) = drain ss"
| "drain (LaggedSignal # ss) = ss"
| "drain ss = ss"

definition receive_refresh :: "refresh_signal \<Rightarrow> refresh_signal list \<Rightarrow> bool \<times> refresh_signal list" where
  "receive_refresh first arrived =
     (case first of ClosedSignal \<Rightarrow> (False, arrived) | _ \<Rightarrow> (True, drain arrived))"

subsection \<open>Properties\<close>

definition independent_of_backend :: "('w, 'r) services \<Rightarrow> string \<Rightarrow> bool" where
  "independent_of_backend sv m \<longleftrightarrow> (\<forall>f params caller connected w.
     dispatch_call (sv\<lparr>sv_backend := f\<rparr>) m params caller connected w = dispatch_call sv m params caller connected w)"

definition direct_names :: "string set" where
  "direct_names = {''bluetooth.protocol.describe'', ''bluetooth.scan'', ''bluetooth.obex.send'', ''bluetooth.obex.respond'',
     ''bluetooth.obex.snapshot'', ''bluetooth.audio.snapshot'', ''bluetooth.audio.setProfile'', ''bluetooth.audio.setDefault'',
     ''bluetooth.requests.snapshot'', ''bluetooth.operation.status'', ''bluetooth.device.operation'', ''bluetooth.snapshot'',
     ''bluetooth.pairing.respond''}"

definition backend_names :: "string set" where
  "backend_names = {''bluetooth.setPowered'', ''bluetooth.adapter.operation'', ''bluetooth.adapter.update'',
     ''bluetooth.management.update'', ''bluetooth.device.policy.update''}"

lemma method_names: "fst ` set METHODS = direct_names \<union> backend_names"
  unfolding METHODS_def direct_names_def backend_names_def by auto

lemma services_of_calls [simp]:
  "start_scan (sv\<lparr>sv_backend := f\<rparr>) = start_scan sv"
  "start_operation (sv\<lparr>sv_backend := f\<rparr>) = start_operation sv"
  "answer_prompt (sv\<lparr>sv_backend := f\<rparr>) = answer_prompt sv"
  by (auto simp: fun_eq_iff start_scan_def start_operation_def answer_prompt_def split: prod.split option.split sum.split)

lemma direct_methods: "m \<in> direct_names \<Longrightarrow> independent_of_backend sv m"
  unfolding independent_of_backend_def direct_names_def
  by (elim insertE emptyE) (simp_all add: dispatch_call_def)

lemma validated_code:
  "(case r of Inl e \<Rightarrow> Inl (validation_error e) | Inr x \<Rightarrow> Inr x) = Inl e \<Longrightarrow> ee_code e = ''validation-error''"
  by (auto simp: validation_error_def api_error_def split: sum.splits)

lemma backend_methods:
  assumes "m \<in> backend_names" and "m \<noteq> ''bluetooth.adapter.update''" and "parse_backend_request m params = Inl e"
  shows "ee_code e = ''validation-error''"
  using assms unfolding backend_names_def
  by (elim insertE emptyE) (simp_all add: parse_backend_request_def Let_def validated_code)

lemma unsupported_method:
  assumes "m \<notin> direct_names" and "m \<notin> backend_names" and "sv_backend sv = dispatch be"
  shows "dispatch_call sv m params caller connected b
    = (b, Failed (api_error ''unsupported-method'' (''Unsupported bt-api method: '' @ m)))"
proof -
  have "dispatch_call sv m params caller connected b = dispatch be m params b"
    using assms(1,3) by (simp add: dispatch_call_def direct_names_def)
  moreover have "parse_backend_request m params
      = Inl (api_error ''unsupported-method'' (''Unsupported bt-api method: '' @ m))"
    using assms(1,2) by (simp add: parse_backend_request_def backend_names_def direct_names_def)
  moreover have "m \<noteq> ''bluetooth.adapter.update''" using assms(2) by (simp add: backend_names_def)
  ultimately show ?thesis by (simp add: dispatch_def)
qed

text \<open>
  The registry and the router agree. A method that is not registered is refused as unsupported and changes
  nothing; a registered method is either answered by a part of the daemon, whatever the backend would say, or
  it is a backend request that can only be refused for its parameters.
\<close>
theorem registered_methods_are_routed:
  assumes "sv_backend sv = dispatch be"
  shows "(m \<notin> fst ` set METHODS \<longrightarrow> dispatch_call sv m params caller connected (b :: 'b)
      = (b, Failed (api_error ''unsupported-method'' (''Unsupported bt-api method: '' @ m))))
    \<and> (m \<in> fst ` set METHODS \<longrightarrow> independent_of_backend sv m \<or> m = ''bluetooth.adapter.update''
         \<or> (\<forall>e. parse_backend_request m params = Inl e \<longrightarrow> ee_code e = ''validation-error''))"
  unfolding method_names using direct_methods [of m sv] backend_methods [of m params] unsupported_method [OF _ _ assms, of m]
  by blast

definition demo_services :: "(nat, nat Api.response) services" where
  "demo_services = \<lparr>sv_describe = Snapshot 0, sv_scan = (\<lambda>_ _ w. (w, Snapshot 1)), sv_obex_send = (\<lambda>_ _ w. (w, Snapshot 2)),
     sv_obex_respond = (\<lambda>_ w. (w, Snapshot 3)), sv_obex_snapshot = (\<lambda>w. (w, Snapshot 4)), sv_audio_snapshot = (\<lambda>_. Snapshot 5),
     sv_audio_change = (\<lambda>_ _ _ w. (w, Snapshot 6)), sv_remember_profile = (\<lambda>_ _ w. (w, Inr ())),
     sv_requests = (\<lambda>_ w. (w, Snapshot 7)), sv_operation_status = (\<lambda>_ _ w. (w, Snapshot 8)),
     sv_operation_start = (\<lambda>_ _ w. (w, Snapshot 9)), sv_snapshot = (\<lambda>_. Snapshot 10),
     sv_pairing_respond = (\<lambda>_ w. (w, Inr True)), sv_backend = dispatch demo_ops, sv_watch_owner = (\<lambda>_ w. w),
     sv_ok = (\<lambda>_. True), sv_accepted = (\<lambda>_. Snapshot 11), sv_error = Failed\<rparr>"

lemma registered_methods_are_routed_witness:
  "dispatch_call demo_services ''bluetooth.dance'' JNull None False 0
     = (0, Failed (api_error ''unsupported-method'' ''Unsupported bt-api method: bluetooth.dance''))"
proof -
  have "sv_backend demo_services = dispatch demo_ops" by (simp add: demo_services_def)
  moreover have "''bluetooth.dance'' \<notin> fst ` set METHODS" unfolding method_names direct_names_def backend_names_def by simp
  moreover have "''Unsupported bt-api method: '' @ ''bluetooth.dance'' = ''Unsupported bt-api method: bluetooth.dance''" by simp
  ultimately show ?thesis using registered_methods_are_routed [of demo_services demo_ops "''bluetooth.dance''"] by metis
qed

text \<open>
  The registry's error codes are not all the codes that clients see: an unavailable profile is answered with a
  code that is not registered.
\<close>
theorem profile_unavailable_not_registered:
  "\<exists>digest a w params e. snd (apply_change digest (a :: (nat, unit) audio_world) (\<lambda>_ _ w. (w, Inr ())) PROFILE params w) = Inl e
    \<and> ee_code e = ''audio-profile-unavailable'' \<and> ee_code e \<notin> fst ` set registered_errors"
proof -
  let ?a = "audio_demo_world\<lparr>aw_ops := (aw_ops audio_demo_world)\<lparr>ao_probe := (\<lambda>w. (w, Inr []))\<rparr>\<rparr>"
  let ?e = "api_error ''audio-profile-unavailable'' ''Bluetooth audio profile is not available''"
  have "snd (apply_change (\<lambda>s. s) ?a (\<lambda>_ _ w. (w, Inr ())) PROFILE audio_demo_params 0) = Inl ?e"
    by code_simp
  moreover have "ee_code ?e = ''audio-profile-unavailable''" "ee_code ?e \<notin> fst ` set registered_errors"
    by (simp add: api_error_def, code_simp)
  ultimately show ?thesis by blast
qed

end
