(* ===== verification/OwnerWatch.thy ===== *)
theory OwnerWatch
  imports Prelude "HOL-Library.Multiset"
begin

text \<open>
  \<open>BluetoothDaemon::watch_request_owner\<close> of \<open>src/daemon.rs\<close>: the requests of a client that leaves the bus are
  cancelled. The state is that of one owner, a unique bus name that is never used again.

  A call registers an operation or a scan and then makes sure that its owner is watched. The set of watched
  owners is behind a lock; everything else of the calls and of the watching task interleaves. The steps that
  wait are separate: answering \<open>has_owner\<close>, the end of the watch, and each of the two cancellations.
\<close>

datatype request = Operation nat | Discovery nat

datatype call_phase =
    Registered  \<comment> \<open>admitted; \<open>watch_request_owner\<close> comes next\<close>
  | Checking  \<comment> \<open>the owner is watched; \<open>has_owner\<close> was asked\<close>
  | CancellingOperations
  | StoppingScans

datatype watch_phase = Watching | WatchCancelling | WatchStopping | WatchRemoving

record owner_state =
  ow_alive :: bool
  ow_operations :: "nat set"
  ow_scans :: "nat set"
  ow_watched :: bool  \<comment> \<open>the entry of \<open>scan_owner_watches\<close>\<close>
  ow_calls :: "call_phase multiset"
  ow_watch :: "watch_phase option"  \<comment> \<open>the spawned task\<close>

definition owner_new :: owner_state where
  "owner_new = \<lparr>ow_alive = True, ow_operations = {}, ow_scans = {}, ow_watched = False, ow_calls = {#}, ow_watch = None\<rparr>"

definition register_request :: "request \<Rightarrow> owner_state \<Rightarrow> owner_state" where
  "register_request r s =
     (case r of Operation n \<Rightarrow> s\<lparr>ow_operations := insert n (ow_operations s), ow_calls := add_mset Registered (ow_calls s)\<rparr>
      | Discovery n \<Rightarrow> s\<lparr>ow_scans := insert n (ow_scans s), ow_calls := add_mset Registered (ow_calls s)\<rparr>)"

definition end_request :: "request \<Rightarrow> owner_state \<Rightarrow> owner_state" where
  "end_request r s =
     (case r of Operation n \<Rightarrow> s\<lparr>ow_operations := ow_operations s - {n}\<rparr> | Discovery n \<Rightarrow> s\<lparr>ow_scans := ow_scans s - {n}\<rparr>)"

text \<open>A call's turn; \<open>present\<close> is what \<open>has_owner\<close> answers, an error counting as false.\<close>

fun call_turn :: "bool \<Rightarrow> call_phase \<Rightarrow> owner_state \<Rightarrow> owner_state \<times> call_phase option" where
  "call_turn present Registered s =
     (if ow_watched s then (s, Some Checking) else (s\<lparr>ow_watched := True, ow_watch := Some Watching\<rparr>, None))"
| "call_turn present Checking s = (s, if present then None else Some CancellingOperations)"
| "call_turn present CancellingOperations s = (s\<lparr>ow_operations := {}\<rparr>, Some StoppingScans)"
| "call_turn present StoppingScans s = (s\<lparr>ow_scans := {}\<rparr>, None)"

definition call_step :: "bool \<Rightarrow> call_phase \<Rightarrow> owner_state \<Rightarrow> owner_state" where
  "call_step present c s =
     (case call_turn present c s of
        (s', None) \<Rightarrow> s'\<lparr>ow_calls := ow_calls s - {#c#}\<rparr>
      | (s', Some c') \<Rightarrow> s'\<lparr>ow_calls := add_mset c' (ow_calls s - {#c#})\<rparr>)"

text \<open>The watching task's turn once the watch ended.\<close>

fun watch_turn :: "watch_phase \<Rightarrow> owner_state \<Rightarrow> owner_state" where
  "watch_turn Watching s = s\<lparr>ow_watch := Some WatchCancelling\<rparr>"
| "watch_turn WatchCancelling s = s\<lparr>ow_operations := {}, ow_watch := Some WatchStopping\<rparr>"
| "watch_turn WatchStopping s = s\<lparr>ow_scans := {}, ow_watch := Some WatchRemoving\<rparr>"
| "watch_turn WatchRemoving s = s\<lparr>ow_watched := False, ow_watch := None\<rparr>"

text \<open>
  \<open>faults\<close>: whether watching the owner may fail while it is there. Without faults the watch ends only when the
  owner has left, and \<open>has_owner\<close> tells the truth.
\<close>

inductive task_step :: "bool \<Rightarrow> owner_state \<Rightarrow> owner_state \<Rightarrow> bool" for faults where
  call: "c \<in># ow_calls s \<Longrightarrow> present = ow_alive s \<or> (faults \<and> \<not> present) \<Longrightarrow> task_step faults s (call_step present c s)"
| watch: "ow_watch s = Some ph \<Longrightarrow> (ph = Watching \<longrightarrow> \<not> ow_alive s \<or> faults) \<Longrightarrow> task_step faults s (watch_turn ph s)"

inductive owner_step :: "bool \<Rightarrow> owner_state \<Rightarrow> owner_state \<Rightarrow> bool" for faults where
  task: "task_step faults s s' \<Longrightarrow> owner_step faults s s'"
| register: "owner_step faults s (register_request r s)"
| ended: "owner_step faults s (end_request r s)"
| left: "owner_step faults s (s\<lparr>ow_alive := False\<rparr>)"

definition owner_reachable :: "bool \<Rightarrow> owner_state \<Rightarrow> bool" where
  "owner_reachable faults s \<longleftrightarrow> (owner_step faults)\<^sup>*\<^sup>* owner_new s"

text \<open>
  The invariant. The entry is there exactly while the task runs; a task past its watch, and a call that found
  nobody, mean that the owner has left; and a request is always in the care of a call or of the task.
\<close>

definition owner_inv :: "owner_state \<Rightarrow> bool" where
  "owner_inv s \<longleftrightarrow>
     ow_watched s = (ow_watch s \<noteq> None)
     \<and> (ow_alive s \<longrightarrow> ow_watch s \<in> {None, Some Watching} \<and> CancellingOperations \<notin># ow_calls s \<and> StoppingScans \<notin># ow_calls s
          \<and> (Checking \<in># ow_calls s \<longrightarrow> ow_watch s = Some Watching))
     \<and> (ow_operations s \<noteq> {} \<longrightarrow>
          Registered \<in># ow_calls s \<or> Checking \<in># ow_calls s \<or> CancellingOperations \<in># ow_calls s
          \<or> ow_watch s \<in> {Some Watching, Some WatchCancelling})
     \<and> (ow_scans s \<noteq> {} \<longrightarrow>
          Registered \<in># ow_calls s \<or> Checking \<in># ow_calls s \<or> CancellingOperations \<in># ow_calls s \<or> StoppingScans \<in># ow_calls s
          \<or> ow_watch s \<in> {Some Watching, Some WatchCancelling, Some WatchStopping})"

lemma remains: "c \<in># M \<Longrightarrow> c \<noteq> d \<Longrightarrow> c \<in># M - {#d#}"
  by (simp add: in_diff_count)

lemma owner_inv_call:
  assumes "owner_inv s" and "c \<in># ow_calls s" and "present = ow_alive s"
  shows "owner_inv (call_step present c s)"
proof (cases c)
  case Registered
  then show ?thesis using assms
    by (cases "ow_watched s") (auto simp: owner_inv_def call_step_def dest: in_diffD intro: remains)
next
  case Checking
  then show ?thesis using assms
    by (cases "ow_alive s") (auto simp: owner_inv_def call_step_def dest: in_diffD intro: remains)
next
  case CancellingOperations
  then show ?thesis using assms by (auto simp: owner_inv_def call_step_def dest: in_diffD intro: remains)
next
  case StoppingScans
  then show ?thesis using assms by (auto simp: owner_inv_def call_step_def dest: in_diffD intro: remains)
qed

lemma owner_inv_task: "task_step False s s' \<Longrightarrow> owner_inv s \<Longrightarrow> owner_inv s'"
proof (induction rule: task_step.induct)
  case (call c s present)
  then show ?case using owner_inv_call by simp
next
  case (watch s ph)
  then show ?case by (cases ph) (auto simp: owner_inv_def)
qed

lemma owner_inv_step: "owner_step False s s' \<Longrightarrow> owner_inv s \<Longrightarrow> owner_inv s'"
proof (induction rule: owner_step.induct)
  case (task s s')
  then show ?case by (rule owner_inv_task)
next
  case (register s r)
  then show ?case by (cases r) (auto simp: owner_inv_def register_request_def)
next
  case (ended s r)
  then show ?case by (cases r) (auto simp: owner_inv_def end_request_def)
next
  case (left s)
  then show ?case by (auto simp: owner_inv_def)
qed

lemma owner_reachable_new: "owner_reachable faults owner_new"
  by (simp add: owner_reachable_def)

lemma owner_reachable_step: "owner_reachable faults s \<Longrightarrow> owner_step faults s s' \<Longrightarrow> owner_reachable faults s'"
  unfolding owner_reachable_def by (rule rtranclp.rtrancl_into_rtrancl)

lemma owner_reachable_watch:
  "owner_reachable faults s \<Longrightarrow> ow_watch s = Some ph \<Longrightarrow> (ph = Watching \<Longrightarrow> \<not> ow_alive s \<or> faults) \<Longrightarrow>
    owner_reachable faults (watch_turn ph s)"
  by (rule owner_reachable_step, assumption, rule owner_step.task, rule task_step.watch) simp_all

lemma owner_reachable_call:
  "owner_reachable faults s \<Longrightarrow> ph \<in># ow_calls s \<Longrightarrow> owner_reachable faults (call_step (ow_alive s) ph s)"
  by (rule owner_reachable_step, assumption, rule owner_step.task, rule task_step.call) simp_all

interpretation owner_run: step_system "\<lambda>s. s = owner_new" "owner_step False" owner_inv
  by unfold_locales (simp add: owner_inv_def owner_new_def, rule owner_inv_step)

lemma owner_inv_reachable: "owner_reachable False s \<Longrightarrow> owner_inv s"
  unfolding owner_reachable_def by (rule owner_run.reachable_inv [OF _ refl])

text \<open>The tasks that are left run out.\<close>

fun call_weight :: "call_phase \<Rightarrow> nat" where
  "call_weight Registered = 5"
| "call_weight Checking = 3"
| "call_weight CancellingOperations = 2"
| "call_weight StoppingScans = 1"

fun watch_weight :: "watch_phase option \<Rightarrow> nat" where
  "watch_weight None = 0"
| "watch_weight (Some Watching) = 4"
| "watch_weight (Some WatchCancelling) = 3"
| "watch_weight (Some WatchStopping) = 2"
| "watch_weight (Some WatchRemoving) = 1"

definition work_left :: "owner_state \<Rightarrow> nat" where
  "work_left s = sum_mset (image_mset call_weight (ow_calls s)) + watch_weight (ow_watch s)"

lemma task_step_alive: "task_step faults s s' \<Longrightarrow> ow_alive s' = ow_alive s"
proof (induction rule: task_step.induct)
  case (call c s present)
  then show ?case by (cases c) (auto simp: call_step_def)
next
  case (watch s ph)
  then show ?case by (cases ph) auto
qed

lemma task_step_work:
  assumes "task_step False s s'" and "owner_inv s"
  shows "work_left s' < work_left s"
  using assms
proof (induction rule: task_step.induct)
  case (call c s present)
  then obtain M where M: "ow_calls s = add_mset c M" by (blast dest: multi_member_split)
  have "ow_watch s = None" if "\<not> ow_watched s" using that call.prems by (simp add: owner_inv_def)
  then show ?case using M by (cases c) (auto simp: call_step_def work_left_def)
next
  case (watch s ph)
  then show ?case by (cases ph) (auto simp: work_left_def)
qed

lemma task_steps_inv: "(task_step False)\<^sup>*\<^sup>* s t \<Longrightarrow> owner_inv s \<Longrightarrow> owner_inv t \<and> ow_alive t = ow_alive s"
  by (induction rule: rtranclp_induct) (auto simp: owner_inv_task task_step_alive)

lemma no_task_left:
  assumes "\<not> ow_alive t" and "\<nexists>t'. task_step False t t'"
  shows "ow_calls t = {#}" and "ow_watch t = None"
proof -
  have "c \<notin># ow_calls t" for c
  proof
    assume "c \<in># ow_calls t"
    then have "task_step False t (call_step False c t)" using assms(1) by (intro task_step.call) simp_all
    then show False using assms(2) by blast
  qed
  then show "ow_calls t = {#}" by (simp add: multiset_eq_iff not_in_iff)
  show "ow_watch t = None"
  proof (rule ccontr)
    assume "ow_watch t \<noteq> None"
    then obtain ph where "ow_watch t = Some ph" by blast
    then have "task_step False t (watch_turn ph t)" using assms(1) by (intro task_step.watch) simp_all
    then show False using assms(2) by blast
  qed
qed


text \<open>A call registers while the watching task is cancelling: the call itself reconciles its request.\<close>

definition demo_watched :: owner_state where
  "demo_watched = \<lparr>ow_alive = True, ow_operations = {0}, ow_scans = {}, ow_watched = True, ow_calls = {#},
     ow_watch = Some Watching\<rparr>"

lemma demo_watched_reachable: "owner_reachable faults demo_watched"
proof -
  let ?s = "register_request (Operation 0) owner_new"
  have "owner_reachable faults ?s" by (rule owner_reachable_step [OF owner_reachable_new owner_step.register])
  then have "owner_reachable faults (call_step (ow_alive ?s) Registered ?s)"
    by (rule owner_reachable_call) (simp add: register_request_def)
  then show ?thesis by (simp add: call_step_def register_request_def owner_new_def demo_watched_def)
qed

definition demo_departed :: owner_state where
  "demo_departed = \<lparr>ow_alive = False, ow_operations = {1}, ow_scans = {}, ow_watched = True, ow_calls = {#Registered#},
     ow_watch = Some WatchRemoving\<rparr>"

lemma demo_departed_reachable: "owner_reachable False demo_departed"
proof -
  have "owner_reachable False (demo_watched\<lparr>ow_alive := False\<rparr>)"
    by (rule owner_reachable_step [OF demo_watched_reachable owner_step.left])
  then have "owner_reachable False (watch_turn Watching (demo_watched\<lparr>ow_alive := False\<rparr>))"
    by (rule owner_reachable_watch) (simp_all add: demo_watched_def)
  then have "owner_reachable False (watch_turn WatchCancelling (watch_turn Watching (demo_watched\<lparr>ow_alive := False\<rparr>)))"
    by (rule owner_reachable_watch) simp_all
  then have "owner_reachable False
      (watch_turn WatchStopping (watch_turn WatchCancelling (watch_turn Watching (demo_watched\<lparr>ow_alive := False\<rparr>))))"
    by (rule owner_reachable_watch) simp_all
  from owner_reachable_step [OF this owner_step.register [of _ _ "Operation 1"]]
  show ?thesis by (simp add: demo_watched_def demo_departed_def register_request_def)
qed


text \<open>
  With faults it is otherwise. The watch fails while the owner is there; its task cancels what it finds, a new
  request's call still sees the entry and the owner, and then the task removes the entry. The owner leaves, no
  task is left, and the request stays.
\<close>
theorem failed_watch_loses_request:
  "\<exists>s. owner_reachable True s \<and> \<not> ow_alive s \<and> (\<nexists>t. task_step True s t) \<and> ow_operations s \<noteq> {}"
proof -
  define s1 where "s1 = \<lparr>ow_alive = True, ow_operations = {}, ow_scans = {}, ow_watched = True, ow_calls = {#},
    ow_watch = Some WatchRemoving\<rparr>"
  define s2 where "s2 = s1\<lparr>ow_operations := {1}, ow_calls := {#Checking#}\<rparr>"
  define s3 where "s3 = \<lparr>ow_alive = False, ow_operations = {1}, ow_scans = {}, ow_watched = False, ow_calls = {#},
    ow_watch = None\<rparr>"
  have "owner_reachable True (watch_turn Watching demo_watched)"
    by (rule owner_reachable_watch [OF demo_watched_reachable]) (simp_all add: demo_watched_def)
  then have "owner_reachable True (watch_turn WatchCancelling (watch_turn Watching demo_watched))"
    by (rule owner_reachable_watch) simp_all
  then have "owner_reachable True (watch_turn WatchStopping (watch_turn WatchCancelling (watch_turn Watching demo_watched)))"
    by (rule owner_reachable_watch) simp_all
  then have "owner_reachable True s1" by (simp add: s1_def demo_watched_def)
  from owner_reachable_step [OF this owner_step.register [of _ _ "Operation 1"]]
  have "owner_reachable True (call_step True Registered (register_request (Operation 1) s1))"
    using owner_reachable_call [of True "register_request (Operation 1) s1" Registered]
    by (simp add: register_request_def s1_def)
  then have "owner_reachable True s2" by (simp add: s2_def s1_def call_step_def register_request_def)
  from owner_reachable_call [OF this, of Checking]
  have "owner_reachable True (s1\<lparr>ow_operations := {1}\<rparr>)" by (simp add: s2_def s1_def call_step_def)
  then have "owner_reachable True (watch_turn WatchRemoving (s1\<lparr>ow_operations := {1}\<rparr>))"
    by (rule owner_reachable_watch) (simp_all add: s1_def)
  from owner_reachable_step [OF this owner_step.left]
  have "owner_reachable True s3" by (simp add: s3_def s1_def)
  moreover have "\<nexists>t. task_step True s3 t" by (auto simp: s3_def elim: task_step.cases)
  moreover have "\<not> ow_alive s3" "ow_operations s3 \<noteq> {}" by (simp_all add: s3_def)
  ultimately show ?thesis by blast
qed

end
