(* ===== verification/RssiHelper.thy ===== *)
theory RssiHelper
  imports Prelude
begin

text \<open>
  The privileged RSSI broker: the management packets of \<open>src/rssi_helper/mgmt.rs\<close>, the
  admission limits and request handling of \<open>src/rssi_helper.rs\<close>, and the client's decoding in
  \<open>src/rssi_helper/client.rs\<close>.

  The kernel's datagrams, PolicyKit's answer, BlueZ's answer and the address parser of the
  Bluetooth crate are arguments.
\<close>

subsection \<open>Management packets\<close>

datatype rssi_reply = Reading int | NotConnected | Unavailable | Denied

datatype io_error = PermissionDenied | TimedOut | WriteZero | UnexpectedEof | InvalidData | OtherIo

definition GET_CONN_INFO :: u16 where "GET_CONN_INFO = 0x0031"
definition COMMAND_COMPLETE :: u16 where "COMMAND_COMPLETE = 0x0001"
definition COMMAND_STATUS :: u16 where "COMMAND_STATUS = 0x0002"
definition NOT_CONNECTED :: u8 where "NOT_CONNECTED = 0x02"
definition PERMISSION_DENIED :: u8 where "PERMISSION_DENIED = 0x14"

lemmas mgmt_codes = GET_CONN_INFO_def COMMAND_COMPLETE_def COMMAND_STATUS_def NOT_CONNECTED_def
  PERMISSION_DENIED_def

definition mgmt_peer :: "address \<Rightarrow> u8 \<Rightarrow> bytes" where
  "mgmt_peer a kind = rev a @ [kind]"

definition mgmt_request :: "u16 \<Rightarrow> bytes \<Rightarrow> bytes" where
  "mgmt_request index p = le16_bytes GET_CONN_INFO @ le16_bytes index @ le16_bytes 7 @ p"

definition mgmt_reply :: "bytes \<Rightarrow> u16 \<Rightarrow> bytes \<Rightarrow> rssi_reply option" where
  "mgmt_reply packet index p =
     (if length packet < 9 then None
      else
        let w = (\<lambda>i. le16 (packet ! i) (packet ! (i + 1)));
            event = w 0; status = packet ! 8; body = drop 9 packet in
        if w 2 \<noteq> index \<or> unat (w 4) \<noteq> length packet - 6 \<or> w 6 \<noteq> GET_CONN_INFO
           \<or> (event \<noteq> COMMAND_COMPLETE \<and> event \<noteq> COMMAND_STATUS)
        then None
        else if status = 0 \<and> event = COMMAND_COMPLETE \<and> 3 \<le> length body
                \<and> take (length body - 3) body = p
        then (let rssi = body ! (length body - 3) in
              Some (if rssi = 127 then Unavailable else Reading (sint rssi)))
        else if status = 0 then None
        else if status = NOT_CONNECTED then Some NotConnected
        else if status = PERMISSION_DENIED then Some Denied
        else Some Unavailable)"

definition sent_request :: "nat \<Rightarrow> nat \<Rightarrow> io_error + unit" where
  "sent_request sent len = (if sent = 0 \<or> sent = len then Inr () else Inl WriteZero)"

text \<open>
  What the socket delivers after a request: datagrams or an error; when nothing more comes the
  two-second limit ends the read. A datagram longer than the buffer is truncated and skipped.
\<close>

datatype received = Datagram bytes | RecvError io_error

definition BUFFER :: nat where "BUFFER = 1024"

fun await_mgmt :: "received list \<Rightarrow> u16 \<Rightarrow> bytes \<Rightarrow> io_error + (rssi_reply \<times> received list)" where
  "await_mgmt [] index p = Inl TimedOut"
| "await_mgmt (RecvError e # rs) index p = Inl e"
| "await_mgmt (Datagram d # rs) index p =
     (if d = [] then Inl UnexpectedEof
      else if BUFFER < length d then await_mgmt rs index p
      else case mgmt_reply d index p of
          None \<Rightarrow> await_mgmt rs index p
        | Some r \<Rightarrow> Inr (r, rs))"

text \<open>\<open>exchange\<close>: \<open>send\<close> is the result of the send call; the packet it was given is recorded.\<close>

definition exchange ::
    "(bytes \<Rightarrow> io_error + nat) \<Rightarrow> received list \<Rightarrow> u16 \<Rightarrow> bytes \<Rightarrow> io_error + (rssi_reply \<times> received list)" where
  "exchange send rs index p =
     res_bind (send (mgmt_request index p)) (\<lambda>sent.
     res_bind (sent_request sent (length (mgmt_request index p))) (\<lambda>_. await_mgmt rs index p))"

text \<open>\<open>read_from\<close>: BR/EDR first for a public address, LE only after "not connected".\<close>

definition read_from ::
    "(bytes \<Rightarrow> io_error + nat) \<Rightarrow> received list \<Rightarrow> u16 \<Rightarrow> address \<Rightarrow> bool \<Rightarrow> io_error + (rssi_reply \<times> bool)" where
  "read_from send rs index a random =
     (let le = (\<lambda>rs. res_bind (exchange send rs index (mgmt_peer a (if random then 2 else 1)))
            (\<lambda>(r, _). Inr (r, False))) in
      if random then le rs
      else res_bind (exchange send rs index (mgmt_peer a 0)) (\<lambda>(r, rs').
        if r \<noteq> NotConnected then Inr (r, True) else le rs'))"

subsection \<open>Samples\<close>

record sample =
  sm_status :: string
  sm_rssi :: int
  sm_relative :: bool

definition status_sample :: "string \<Rightarrow> sample" where
  "status_sample status = \<lparr>sm_status = status, sm_rssi = 0, sm_relative = False\<rparr>"

fun from_read :: "io_error + (rssi_reply \<times> bool) \<Rightarrow> sample" where
  "from_read (Inr (Reading rssi, relative)) =
     \<lparr>sm_status = ''ok'', sm_rssi = rssi, sm_relative = relative\<rparr>"
| "from_read (Inr (NotConnected, _)) = status_sample ''not-connected''"
| "from_read (Inr (Denied, _)) = status_sample ''permission-denied''"
| "from_read (Inl PermissionDenied) = status_sample ''permission-denied''"
| "from_read (Inl TimedOut) = status_sample ''timeout''"
| "from_read _ = status_sample ''unavailable''"

definition client_decode :: "sample \<Rightarrow> io_error + (rssi_reply \<times> bool)" where
  "client_decode s =
     (if sm_status s = ''ok'' \<and> - 128 \<le> sm_rssi s \<and> sm_rssi s < 127
      then Inr (Reading (sm_rssi s), sm_relative s)
      else if sm_status s = ''not-connected'' then Inr (NotConnected, sm_relative s)
      else if sm_status s = ''permission-denied'' then Inl PermissionDenied
      else if sm_status s = ''timeout'' then Inl TimedOut
      else if sm_status s = ''unavailable'' then Inr (Unavailable, sm_relative s)
      else Inl InvalidData)"

subsection \<open>Admission\<close>

datatype fdo_error = LimitsExceeded | InvalidArgs | AccessDenied | Timeout | Failed string | NotSupported

definition TARGET_INTERVAL :: nat where "TARGET_INTERVAL = secs 2"

record limits =
  li_arrivals :: "instant list"
  li_targets :: "(u16 \<times> address, instant) hmap"

definition limits_default :: limits where
  "limits_default = \<lparr>li_arrivals = [], li_targets = []\<rparr>"

definition admit :: "instant \<Rightarrow> limits \<Rightarrow> limits \<times> (fdo_error + unit)" where
  "admit now s0 =
     (let s = s0\<lparr>li_arrivals := filter (\<lambda>t. elapsed now t < secs 1) (li_arrivals s0)\<rparr> in
      if 16 \<le> length (li_arrivals s) then (s, Inl LimitsExceeded)
      else (s\<lparr>li_arrivals := li_arrivals s @ [now]\<rparr>, Inr ()))"

definition limit_target :: "instant \<Rightarrow> u16 \<Rightarrow> address \<Rightarrow> limits \<Rightarrow> limits \<times> (fdo_error + unit)" where
  "limit_target now index a s0 =
     (let s = s0\<lparr>li_targets := hm_retain (\<lambda>_ t. elapsed now t < TARGET_INTERVAL) (li_targets s0)\<rparr> in
      if 64 \<le> length (li_targets s) \<or> hm_get (li_targets s) (index, a) \<noteq> None
      then (s, Inl LimitsExceeded)
      else (s\<lparr>li_targets := hm_insert (index, a) now (li_targets s)\<rparr>, Inr ()))"

definition parse_target ::
    "(string \<Rightarrow> address option) \<Rightarrow> u16 \<Rightarrow> string \<Rightarrow> fdo_error + address" where
  "parse_target parse index text =
     (if index = - 1 \<or> length text \<noteq> 17 then Inl InvalidArgs
      else option_err InvalidArgs (parse text))"

text \<open>
  \<open>execute\<close> with the answers of its environment: free permits, the sender's authorization,
  what BlueZ says of the connection (with "random address"), the hardware read, and whether the
  four seconds are over before the request is done (\<open>late\<close> names the step that does not finish).
  The result says which hardware read, if any, was made.
\<close>

datatype stage = Authorizing | Connecting_query | Reading_hardware | Done

record environment =
  en_permits :: nat
  en_authorize :: "fdo_error + unit"
  en_connected :: "fdo_error + bool option"
  en_read :: "u16 \<Rightarrow> address \<Rightarrow> bool \<Rightarrow> io_error + (rssi_reply \<times> bool)"
  en_stalled :: stage

definition helper_execute ::
    "(string \<Rightarrow> address option) \<Rightarrow> environment \<Rightarrow> instant \<Rightarrow> u16 \<Rightarrow> string \<Rightarrow> limits
     \<Rightarrow> limits \<times> (fdo_error + sample) \<times> (u16 \<times> address \<times> bool) option" where
  "helper_execute parse env now index text s =
     (if en_permits env = 0 then (s, Inl LimitsExceeded, None)
      else case admit now s of
        (s1, Inl e) \<Rightarrow> (s1, Inl e, None)
      | (s1, Inr _) \<Rightarrow>
          (case parse_target parse index text of
             Inl e \<Rightarrow> (s1, Inl e, None)
           | Inr a \<Rightarrow>
               if en_stalled env = Authorizing then (s1, Inl Timeout, None)
               else case en_authorize env of
                 Inl e \<Rightarrow> (s1, Inl e, None)
               | Inr _ \<Rightarrow>
                   (case limit_target now index a s1 of
                      (s2, Inl e) \<Rightarrow> (s2, Inl e, None)
                    | (s2, Inr _) \<Rightarrow>
                        if en_stalled env = Connecting_query then (s2, Inl Timeout, None)
                        else case en_connected env of
                          Inl e \<Rightarrow> (s2, Inl e, None)
                        | Inr None \<Rightarrow> (s2, Inr (status_sample ''not-connected''), None)
                        | Inr (Some random) \<Rightarrow>
                            if en_stalled env = Reading_hardware
                            then (s2, Inl Timeout, Some (index, a, random))
                            else (s2, Inr (from_read (en_read env index a random)),
                                  Some (index, a, random)))))"

subsection \<open>Correlation of replies\<close>

text \<open>The reading a kernel answer carries, as the wire has it.\<close>

definition complete_packet :: "u16 \<Rightarrow> bytes \<Rightarrow> u8 \<Rightarrow> u8 \<Rightarrow> u8 \<Rightarrow> bytes" where
  "complete_packet index p rssi tx max_tx =
     le16_bytes COMMAND_COMPLETE @ le16_bytes index @ le16_bytes 13 @ le16_bytes GET_CONN_INFO
       @ [0] @ p @ [rssi, tx, max_tx]"

lemma mgmt_reply_complete:
  assumes "length p = 7"
  shows "mgmt_reply (complete_packet index p rssi tx max_tx) index p
    = Some (if rssi = 127 then Unavailable else Reading (sint rssi))"
proof -
  have n: "le16 1 0 = 1" "le16 0x31 0 = 0x31" "le16 13 0 = 13" by (simp_all add: le16_def be16_def)
  show ?thesis
    using assms by (simp add: mgmt_reply_def complete_packet_def le16_bytes_def mgmt_codes byte_order
        Let_def nth_append n)
qed

lemma le16_bytes_le16: "le16_bytes (le16 a b) = [a, b]"
proof -
  have "ucast (le16 a b) = a"
    unfolding le16_def be16_def by (rule bit_word_eqI) (auto simp: bit_simps dest: bit_imp_le_length)
  moreover have "ucast (drop_bit 8 (le16 a b)) = b"
    unfolding le16_def be16_def by (rule bit_word_eqI) (auto simp: bit_simps dest: bit_imp_le_length)
  ultimately show ?thesis by (simp add: le16_bytes_def)
qed

lemma packet_split:
  assumes "9 \<le> length packet"
  shows "packet = le16_bytes (le16 (packet ! 0) (packet ! 1)) @ le16_bytes (le16 (packet ! 2) (packet ! 3))
    @ le16_bytes (le16 (packet ! 4) (packet ! 5)) @ le16_bytes (le16 (packet ! 6) (packet ! 7))
    @ [packet ! 8] @ drop 9 packet"
proof -
  obtain a b c d e f g h i tail where "packet = a # b # c # d # e # f # g # h # i # tail"
    using assms by (simp add: numeral_eq_Suc Suc_le_length_iff) blast
  then show ?thesis by (simp add: le16_bytes_le16)
qed

text \<open>A reading is accepted only from the answer to this request, for this controller and peer.\<close>

lemma mgmt_reply_reading:
  assumes "mgmt_reply packet index p = Some (Reading r)" and "length p = 7"
  shows "\<exists>rssi tx max_tx. packet = complete_packet index p rssi tx max_tx \<and> rssi \<noteq> 127 \<and> r = sint rssi"
proof -
  let ?body = "drop 9 packet"
  have long: "9 \<le> length packet" using assms(1) by (auto simp: mgmt_reply_def split: if_splits)
  have facts: "le16 (packet ! 2) (packet ! 3) = index" "le16 (packet ! 6) (packet ! 7) = GET_CONN_INFO"
      "unat (le16 (packet ! 4) (packet ! 5)) = length packet - 6" "packet ! 8 = 0"
      "le16 (packet ! 0) (packet ! 1) = COMMAND_COMPLETE" "3 \<le> length ?body"
      "take (length ?body - 3) ?body = p" "?body ! (length ?body - 3) \<noteq> 127"
      "r = sint (?body ! (length ?body - 3))"
    using assms(1) by (auto simp: mgmt_reply_def Let_def numeral_eq_Suc split: if_splits)
  obtain bd where bd: "drop 9 packet = bd" by simp
  have "length (take (length bd - 3) bd) = 7" using facts(7) assms(2) bd by simp
  then have body: "length bd = 10" using facts(6) bd by simp
  have three: "length zs = 3 \<Longrightarrow> \<exists>x y z. zs = [x, y, z]" for zs :: bytes
    by (auto simp: numeral_3_eq_3 length_Suc_conv)
  obtain x y z where xyz: "drop 7 bd = [x, y, z]"
    using three [of "drop 7 bd"] body by auto
  have "take 7 bd = p" using facts(7) body bd by simp
  then have b: "?body = p @ [x, y, z]" using xyz bd append_take_drop_id [of 7 bd] by simp
  have x: "?body ! (length ?body - 3) = x" using b assms(2) by (simp add: nth_append)
  have "length packet = 19" using body bd long by auto
  with facts(3) have "le16 (packet ! 4) (packet ! 5) = 13"
    using word_of_nat_unat [of "le16 (packet ! 4) (packet ! 5)"] by simp
  with packet_split [OF long] facts b have "packet = complete_packet index p x y z"
    by (simp add: complete_packet_def)
  with facts(8,9) x show ?thesis by auto
qed

text \<open>Stray datagrams before the answer are skipped, whatever they are.\<close>

definition stray :: "u16 \<Rightarrow> bytes \<Rightarrow> received \<Rightarrow> bool" where
  "stray index p r = (case r of RecvError _ \<Rightarrow> False
     | Datagram d \<Rightarrow> d \<noteq> [] \<and> (BUFFER < length d \<or> mgmt_reply d index p = None))"

lemma await_skips_stray:
  "\<forall>r \<in> set js. stray index p r \<Longrightarrow> await_mgmt (js @ rs) index p = await_mgmt rs index p"
proof (induction js)
  case Nil
  then show ?case by simp
next
  case (Cons j js)
  then show ?case by (cases j) (auto simp: stray_def)
qed

lemma await_reading_origin:
  "await_mgmt rs index p = Inr (Reading r, rest) \<Longrightarrow> length p = 7 \<Longrightarrow>
   \<exists>rssi tx max_tx. Datagram (complete_packet index p rssi tx max_tx) \<in> set rs \<and> rssi \<noteq> 127 \<and> r = sint rssi"
proof (induction rs index p rule: await_mgmt.induct)
  case (3 d rs index p)
  consider (skip) "await_mgmt rs index p = Inr (Reading r, rest)" "d \<noteq> []"
      "BUFFER < length d \<or> mgmt_reply d index p = None"
    | (hit) "mgmt_reply d index p = Some (Reading r)"
    using "3.prems"(1) by (fastforce split: if_splits option.splits)
  then show ?case
  proof cases
    case skip
    then show ?thesis using "3.IH" "3.prems"(2) by (cases "BUFFER < length d") auto
  next
    case hit
    then show ?thesis using mgmt_reply_reading [OF hit "3.prems"(2)] by auto
  qed
qed auto

lemma mgmt_peer_length: "length a = 6 \<Longrightarrow> length (mgmt_peer a k) = 7"
  by (simp add: mgmt_peer_def)

lemma sint_u8_bounds: "- 128 \<le> sint (w :: u8) \<and> sint w \<le> 127"
  using sint_greater_eq [of w] sint_less [of w] by simp

lemma reading_range:
  assumes "(w :: u8) \<noteq> 127"
  shows "- 128 \<le> sint w \<and> sint w < 127"
proof -
  have "sint w \<noteq> 127"
  proof
    assume "sint w = 127"
    then have "(word_of_int (sint w) :: u8) = word_of_int 127" by simp
    then show False using assms by simp
  qed
  then show ?thesis using sint_u8_bounds [of w] by simp
qed

lemma await_rest: "await_mgmt rs index p = Inr (x, rest) \<Longrightarrow> set rest \<subseteq> set rs"
  by (induction rs index p rule: await_mgmt.induct) (auto split: if_splits option.splits)

lemma exchange_await:
  "exchange send rs index p = Inr x \<Longrightarrow> await_mgmt rs index p = Inr x"
  by (auto simp: exchange_def)

text \<open>Every reading comes from an answer for the probed transport of this very peer.\<close>

lemma read_from_reading:
  assumes "read_from send rs index a random = Inr (Reading r, relative)" and "length a = 6"
  shows "\<exists>rssi tx max_tx. Datagram (complete_packet index
      (mgmt_peer a (if random then 2 else if relative then 0 else 1)) rssi tx max_tx) \<in> set rs
    \<and> rssi \<noteq> 127 \<and> r = sint rssi \<and> (random \<longrightarrow> \<not> relative)"
proof -
  note origin = await_reading_origin [OF exchange_await mgmt_peer_length [OF assms(2)]]
  show ?thesis
  proof (cases random)
    case True
    then obtain rest where "exchange send rs index (mgmt_peer a 2) = Inr (Reading r, rest)" "\<not> relative"
      using assms(1) by (auto simp: read_from_def Let_def)
    then show ?thesis using origin True by simp
  next
    case False
    then obtain x rest where x: "exchange send rs index (mgmt_peer a 0) = Inr (x, rest)"
      using assms(1) by (auto simp: read_from_def Let_def)
    show ?thesis
    proof (cases "x = NotConnected")
      case True
      then obtain rest' where "exchange send rest index (mgmt_peer a 1) = Inr (Reading r, rest')" "\<not> relative"
        using assms(1) False x by (auto simp: read_from_def Let_def)
      moreover have "set rest \<subseteq> set rs" using await_rest [OF exchange_await [OF x]] .
      ultimately show ?thesis using origin False by fastforce
    next
      case other: False
      then have "x = Reading r" "relative" using assms(1) False x by (auto simp: read_from_def Let_def)
      then show ?thesis using origin [of send rs index 0 r rest] x False by simp
    qed
  qed
qed

lemma read_from_no_le_probe:
  assumes "exchange send rs index (mgmt_peer a 0) = Inr (x, rest)" and "x \<noteq> NotConnected"
  shows "read_from send rs index a False = Inr (x, True)"
  using assms by (simp add: read_from_def)

text \<open>What the helper puts on the bus is what the client reads, within the range of a reading.\<close>

lemma client_from_read:
  "client_decode (from_read result) =
     (case result of
        Inr (Reading r, relative) \<Rightarrow>
          if - 128 \<le> r \<and> r < 127 then Inr (Reading r, relative) else Inl InvalidData
      | Inr (NotConnected, _) \<Rightarrow> Inr (NotConnected, False)
      | Inr (Denied, _) \<Rightarrow> Inl PermissionDenied
      | Inl PermissionDenied \<Rightarrow> Inl PermissionDenied
      | Inl TimedOut \<Rightarrow> Inl TimedOut
      | _ \<Rightarrow> Inr (Unavailable, False))"
  by (cases result rule: from_read.cases) (auto simp: client_decode_def status_sample_def)

subsection \<open>Admission windows\<close>

text \<open>The arrival times that are admitted when \<open>admit\<close> is called at the given times.\<close>

fun admitted :: "instant list \<Rightarrow> limits \<Rightarrow> instant list" where
  "admitted [] s = []"
| "admitted (t # ts) s =
     (case admit t s of (s', r) \<Rightarrow> if res_ok r then t # admitted ts s' else admitted ts s')"

definition in_window :: "instant \<Rightarrow> instant list \<Rightarrow> nat" where
  "in_window x ts = length (filter (\<lambda>t. x \<le> t \<and> t < x + secs 1) ts)"

text \<open>What the table remembers of the admitted times \<open>acc\<close> at time \<open>n\<close>.\<close>

definition remembers :: "instant \<Rightarrow> instant list \<Rightarrow> limits \<Rightarrow> bool" where
  "remembers n acc s \<longleftrightarrow> (\<forall>t \<in> set acc. t \<le> n)
     \<and> filter (\<lambda>t. elapsed n t < secs 1) (li_arrivals s) = filter (\<lambda>t. elapsed n t < secs 1) acc"

lemma filter_later:
  assumes "n \<le> m" and "filter (\<lambda>t. elapsed n t < d) xs = filter (\<lambda>t. elapsed n t < d) ys"
  shows "filter (\<lambda>t. elapsed m t < d) xs = filter (\<lambda>t. elapsed m t < d) ys"
proof -
  have f: "filter (\<lambda>t. elapsed m t < d) zs = filter (\<lambda>t. elapsed m t < d) (filter (\<lambda>t. elapsed n t < d) zs)" for zs
    using assms(1) by (auto simp: elapsed_def intro!: filter_cong)
  show ?thesis by (subst (1 2) f) (simp only: assms(2))
qed

lemma admit_remembers:
  assumes "remembers n acc s" and "n \<le> m" and "admit m s = (s', r)" and "\<And>x. in_window x acc \<le> 16"
  shows "remembers m (if res_ok r then acc @ [m] else acc) s'
    \<and> (\<forall>x. in_window x (if res_ok r then acc @ [m] else acc) \<le> 16)"
proof -
  let ?p = "\<lambda>t. elapsed m t < secs 1"
  have keep: "filter ?p (li_arrivals s) = filter ?p acc"
    using assms(1,2) filter_later unfolding remembers_def by blast
  have le: "\<forall>t \<in> set acc. t \<le> m" using assms(1,2) unfolding remembers_def by auto
  show ?thesis
  proof (cases "res_ok r")
    case False
    then have "li_arrivals s' = filter ?p (li_arrivals s)"
      using assms(3) by (auto simp: admit_def Let_def split: if_splits)
    then show ?thesis using False keep le assms(4) by (simp add: remembers_def)
  next
    case True
    then have s': "li_arrivals s' = filter ?p (li_arrivals s) @ [m]" and few: "length (filter ?p acc) < 16"
      using assms(3) keep by (auto simp: admit_def Let_def split: if_splits)
    have "in_window x (acc @ [m]) \<le> 16" for x
    proof (cases "x \<le> m \<and> m < x + secs 1")
      case True
      have "filter (\<lambda>t. x \<le> t \<and> t < x + secs 1) acc = filter (\<lambda>t. x \<le> t \<and> t < x + secs 1) (filter ?p acc)"
        using True le by (auto simp: elapsed_def intro!: filter_cong)
      then have "length (filter (\<lambda>t. x \<le> t \<and> t < x + secs 1) acc) \<le> length (filter ?p acc)"
        by (metis length_filter_le)
      with few True show ?thesis by (simp add: in_window_def)
    next
      case False
      then show ?thesis using assms(4) [of x] by (auto simp: in_window_def)
    qed
    moreover have "remembers m (acc @ [m]) s'"
      using le keep s' by (auto simp: remembers_def)
    ultimately show ?thesis using True by simp
  qed
qed

lemma admitted_window:
  "remembers n acc s \<Longrightarrow> sorted (n # ts) \<Longrightarrow> (\<And>x. in_window x acc \<le> 16) \<Longrightarrow>
   in_window x (acc @ admitted ts s) \<le> 16"
proof (induction ts arbitrary: n acc s)
  case Nil
  then show ?case by simp
next
  case (Cons t ts)
  obtain s' r where a: "admit t s = (s', r)" by force
  note step = admit_remembers [OF Cons.prems(1) _ a Cons.prems(3)]
  have "in_window x ((if res_ok r then acc @ [t] else acc) @ admitted ts s') \<le> 16"
    by (rule Cons.IH [of t]) (use step Cons.prems(2) in auto)
  then show ?case using a by (simp split: if_splits)
qed

lemma target_refuses_recent:
  assumes "hm_ok (li_targets s)" and "hm_get (li_targets s) (index, a) = Some t"
    and "elapsed now t < TARGET_INTERVAL"
  shows "snd (limit_target now index a s) = Inl LimitsExceeded"
  using assms by (simp add: limit_target_def Let_def)

lemma target_bounded:
  assumes "length (li_targets s) \<le> 64" and "limit_target now index a s = (s', r)"
  shows "length (li_targets s') \<le> 64"
proof -
  have "length (hm_retain (\<lambda>_ t. elapsed now t < TARGET_INTERVAL) (li_targets s)) \<le> 64"
    using assms(1) hm_length_retain_le le_trans by blast
  then show ?thesis
    using assms(2) by (auto simp: limit_target_def Let_def hm_length_insert split: if_splits)
qed

subsection \<open>Properties\<close>

text \<open>
  Whatever the request times, no second ever holds more than sixteen admitted requests.
\<close>

theorem admission_rate_bounded:
  assumes "sorted ts"
  shows "in_window x (admitted ts limits_default) \<le> 16"
proof (cases ts)
  case (Cons t ts')
  have "remembers 0 [] limits_default" by (simp add: remembers_def limits_default_def)
  from admitted_window [OF this, of ts x] assms show ?thesis by (simp add: in_window_def)
qed (simp add: in_window_def)

theorem admission_rate_bounded_witness:
  "in_window 0 (admitted [0, 0, 3] limits_default) \<le> 16 \<and> admitted [0, 0, 3] limits_default = [0, 0, 3]"
  using admission_rate_bounded [of "[0, 0, 3]" 0]
  by (simp add: admit_def limits_default_def elapsed_def secs_def millis_def Let_def)

text \<open>
  C20. A reading returned for a device always comes from the kernel's completion event for this
  request, this controller and this address on the transport that is reported, so stray, foreign
  or malformed datagrams never become a sample; the value lies in the range the client accepts.
\<close>

theorem reading_is_authentic:
  assumes "read_from send rs index a random = Inr (Reading r, relative)" and "length a = 6"
  shows "\<exists>rssi tx max_tx. Datagram (complete_packet index
      (mgmt_peer a (if random then 2 else if relative then 0 else 1)) rssi tx max_tx) \<in> set rs
    \<and> r = sint rssi \<and> client_decode (from_read (Inr (Reading r, relative))) = Inr (Reading r, relative)"
proof -
  from read_from_reading [OF assms] obtain rssi tx max_tx where
    "Datagram (complete_packet index (mgmt_peer a (if random then 2 else if relative then 0 else 1))
       rssi tx max_tx) \<in> set rs" "rssi \<noteq> 127" "r = sint rssi" by blast
  moreover from this have "- 128 \<le> r \<and> r < 127" using reading_range by blast
  then have "client_decode (from_read (Inr (Reading r, relative))) = Inr (Reading r, relative)"
    by (simp add: client_decode_def)
  ultimately show ?thesis by blast
qed

text \<open>
  The request/answer exchange: after any number of stray datagrams the matching completion is
  the answer, so a public address on BR/EDR is read without an LE probe.
\<close>

theorem stray_datagrams_are_skipped:
  assumes "length a = 6" and "\<forall>r \<in> set js. stray index (mgmt_peer a 0) r"
    and "send (mgmt_request index (mgmt_peer a 0)) = Inr 13" and "rssi \<noteq> 127"
  shows "read_from send (js @ [Datagram (complete_packet index (mgmt_peer a 0) rssi tx max_tx)]) index a False
    = Inr (Reading (sint rssi), True)"
proof -
  let ?p = "mgmt_peer a 0"
  have len: "length ?p = 7" using assms(1) by (rule mgmt_peer_length)
  have "await_mgmt [Datagram (complete_packet index ?p rssi tx max_tx)] index ?p = Inr (Reading (sint rssi), [])"
    using mgmt_reply_complete [OF len, of index rssi tx max_tx] assms(4) len
    by (simp add: complete_packet_def BUFFER_def)
  with await_skips_stray [OF assms(2)]
  have "exchange send (js @ [Datagram (complete_packet index ?p rssi tx max_tx)]) index ?p
      = Inr (Reading (sint rssi), [])"
    using assms(3) len by (simp add: exchange_def sent_request_def mgmt_request_def)
  then show ?thesis by (rule read_from_no_le_probe) simp
qed

theorem reading_is_authentic_witness:
  "\<exists>rssi tx max_tx. Datagram (complete_packet 0 (mgmt_peer [1, 2, 3, 4, 5, 6] 0) rssi tx max_tx)
      \<in> set [Datagram (complete_packet 0 (mgmt_peer [1, 2, 3, 4, 5, 6] 0) 12 127 127)] \<and> (12 :: int) = sint rssi"
proof -
  have "read_from (\<lambda>_. Inr 13) [Datagram (complete_packet 0 (mgmt_peer [1, 2, 3, 4, 5, 6] 0) 12 127 127)] 0
      [1, 2, 3, 4, 5, 6] False = Inr (Reading 12, True)"
    by code_simp
  from reading_is_authentic [OF this] show ?thesis by auto
qed

theorem stray_datagrams_are_skipped_witness:
  "read_from (\<lambda>_. Inr 13) ([Datagram [1, 2, 3]] @ [Datagram (complete_packet 5 (mgmt_peer [1, 2, 3, 4, 5, 6] 0) 0xd6 0 0)])
     5 [1, 2, 3, 4, 5, 6] False = Inr (Reading (- 42), True)"
proof -
  have "\<forall>r \<in> set [Datagram [1, 2, 3]]. stray 5 (mgmt_peer [1, 2, 3, 4, 5, 6] 0) r"
    by (simp add: stray_def mgmt_reply_def)
  from stray_datagrams_are_skipped [OF _ this, where send = "\<lambda>_. Inr 13" and rssi = "0xd6" and tx = 0 and max_tx = 0]
  show ?thesis by simp
qed



end
