(* ===== verification/Telemetry.thy ===== *)
theory Telemetry
  imports Model RssiHelper
begin

text \<open>
  Cached telemetry of the BlueZ backend: connected-link readings (\<open>src/bluez/link_signal.rs\<close>),
  discovery observations (\<open>src/bluez/observations.rs\<close>), disconnect diagnostics
  (\<open>src/bluez/disconnect.rs\<close>) and the radio switch (\<open>src/rfkill.rs\<close>).

  Attempts are integers, since an invalidated entry is dated back before the clock's reading.
\<close>

definition CACHE_TTL :: nat where "CACHE_TTL = secs 300"

subsection \<open>Link readings\<close>

definition FAILURE_BACKOFF :: nat where "FAILURE_BACKOFF = secs 30"
definition LIVE_TTL :: nat where "LIVE_TTL = secs 12"

datatype rssi_kind = Dbm | BrEdrRelative

record reading =
  rd_rssi :: int
  rd_kind :: rssi_kind
  rd_last_seen_ms :: u64
  rd_live :: bool

record entry =
  en_reading :: "reading option"
  en_observed :: instant
  en_attempted :: int
  en_succeeded :: bool

type_synonym sig_key = "string \<times> address"

record signals =
  sg_entries :: "(sig_key, entry) hmap"
  sg_epoch :: u64
  sg_invalid_devices :: "sig_key set"
  sg_invalid_adapters :: "string set"

definition signals_default :: signals where
  "signals_default = \<lparr>sg_entries = [], sg_epoch = 0, sg_invalid_devices = {}, sg_invalid_adapters = {}\<rparr>"

definition since :: "instant \<Rightarrow> int \<Rightarrow> nat" where
  "since now t = nat (int now - t)"

definition signals_get :: "instant \<Rightarrow> string \<Rightarrow> address \<Rightarrow> bool \<Rightarrow> signals \<Rightarrow> reading option" where
  "signals_get now adapter a connected s =
     (case hm_get (sg_entries s) (adapter, a) of
        None \<Rightarrow> None
      | Some e \<Rightarrow>
          (case en_reading e of
             None \<Rightarrow> None
           | Some r \<Rightarrow>
               if CACHE_TTL < elapsed now (en_observed e) then None
               else Some (r\<lparr>rd_live := connected \<and> en_succeeded e
                        \<and> elapsed now (en_observed e) \<le> LIVE_TTL\<rparr>)))"

definition retire_entry :: "instant \<Rightarrow> entry \<Rightarrow> entry" where
  "retire_entry now e = e\<lparr>en_attempted := int now - int FAILURE_BACKOFF, en_succeeded := False\<rparr>"

definition invalidate :: "instant \<Rightarrow> string \<Rightarrow> address option \<Rightarrow> signals \<Rightarrow> signals" where
  "invalidate now adapter addr s =
     s\<lparr>sg_entries := hm_map_values (\<lambda>(name, peer) e.
          if name = adapter \<and> (addr = None \<or> addr = Some peer) then retire_entry now e else e)
          (sg_entries s),
       sg_invalid_devices := (case addr of None \<Rightarrow> sg_invalid_devices s
          | Some a \<Rightarrow> insert (adapter, a) (sg_invalid_devices s)),
       sg_invalid_adapters := (case addr of None \<Rightarrow> insert adapter (sg_invalid_adapters s)
          | Some _ \<Rightarrow> sg_invalid_adapters s)\<rparr>"

definition suspend :: "instant \<Rightarrow> signals \<Rightarrow> signals" where
  "suspend now s =
     s\<lparr>sg_entries := hm_map_values (\<lambda>_ e. retire_entry now e) (sg_entries s),
       sg_epoch := sg_epoch s + 1\<rparr>"

definition begin_poll :: "signals \<Rightarrow> signals \<times> u64" where
  "begin_poll s =
     (s\<lparr>sg_epoch := sg_epoch s + 1, sg_invalid_devices := {}, sg_invalid_adapters := {}\<rparr>,
      sg_epoch s + 1)"

definition sig_current :: "sig_key \<Rightarrow> u64 \<Rightarrow> signals \<Rightarrow> bool" where
  "sig_current key epoch s \<longleftrightarrow> epoch = sg_epoch s \<and> key \<notin> sg_invalid_devices s
     \<and> fst key \<notin> sg_invalid_adapters s"

definition due :: "instant \<Rightarrow> sig_key \<Rightarrow> signals \<Rightarrow> bool" where
  "due now key s =
     (case hm_get (sg_entries s) key of None \<Rightarrow> True
      | Some e \<Rightarrow> en_succeeded e \<or> FAILURE_BACKOFF \<le> since now (en_attempted e))"

definition sig_accept ::
    "instant \<Rightarrow> u64 \<Rightarrow> sig_key \<Rightarrow> u64 \<Rightarrow> (int \<times> rssi_kind) option \<Rightarrow> signals \<Rightarrow> signals" where
  "sig_accept now now_ms key epoch result s =
     (if \<not> sig_current key epoch s then s
      else
        let e0 = (case hm_get (sg_entries s) key of
              None \<Rightarrow> \<lparr>en_reading = None, en_observed = now, en_attempted = int now, en_succeeded = False\<rparr>
            | Some e \<Rightarrow> e);
            e1 = e0\<lparr>en_attempted := int now, en_succeeded := result \<noteq> None\<rparr>;
            e2 = (case result of None \<Rightarrow> e1
              | Some (rssi, kind) \<Rightarrow> e1\<lparr>en_observed := now,
                  en_reading := Some \<lparr>rd_rssi = rssi, rd_kind = kind, rd_last_seen_ms = now_ms, rd_live = True\<rparr>\<rparr>)
        in s\<lparr>sg_entries := hm_insert key e2 (sg_entries s)\<rparr>)"

text \<open>What \<open>poll_peer\<close> makes of the helper's answer; it hands it to \<open>accept\<close> with the poll's epoch.\<close>

definition reading_of :: "('e + rssi_reply \<times> bool) \<Rightarrow> (int \<times> rssi_kind) option" where
  "reading_of result =
     (case result of
        Inr (Reading rssi, relative) \<Rightarrow> Some (rssi, if relative then BrEdrRelative else Dbm)
      | _ \<Rightarrow> None)"

text \<open>The sweep at each tick of \<open>run\<close>: old readings are forgotten, old entries removed.\<close>

definition sweep :: "instant \<Rightarrow> signals \<Rightarrow> signals" where
  "sweep now s =
     s\<lparr>sg_entries := hm_retain (\<lambda>_ e. since now (en_attempted e) \<le> CACHE_TTL)
         (hm_map_values (\<lambda>_ e. if CACHE_TTL < elapsed now (en_observed e) then e\<lparr>en_reading := None\<rparr> else e)
           (sg_entries s))\<rparr>"

datatype sig_event =
    SigInvalidate instant string "address option"
  | SigSuspend instant
  | SigBeginPoll
  | SigAccept instant u64 sig_key u64 "(int \<times> rssi_kind) option"
  | SigSweep instant

fun sig_step :: "sig_event \<Rightarrow> signals \<Rightarrow> signals" where
  "sig_step (SigInvalidate now adapter addr) s = invalidate now adapter addr s"
| "sig_step (SigSuspend now) s = suspend now s"
| "sig_step SigBeginPoll s = fst (begin_poll s)"
| "sig_step (SigAccept now ms key epoch r) s = sig_accept now ms key epoch r s"
| "sig_step (SigSweep now) s = sweep now s"

subsection \<open>Discovery observations\<close>

definition OBSERVED_LIVE_TTL :: nat where "OBSERVED_LIVE_TTL = secs 30"

record observation =
  ob_rssi :: "int option"
  ob_last_seen_ms :: u64
  ob_observed :: instant

definition observation_live :: "instant \<Rightarrow> bool \<Rightarrow> observation \<Rightarrow> bool" where
  "observation_live now discovering ob =
     (discovering \<and> elapsed now (ob_observed ob) \<le> OBSERVED_LIVE_TTL)"

type_synonym observations = "(sig_key, observation) hmap"

definition record_observation ::
    "instant \<Rightarrow> u64 \<Rightarrow> string \<Rightarrow> address \<Rightarrow> int option \<Rightarrow> observations \<Rightarrow> observations" where
  "record_observation now now_ms adapter a rssi m =
     hm_insert (adapter, a) \<lparr>ob_rssi = rssi, ob_last_seen_ms = now_ms, ob_observed = now\<rparr>
       (hm_retain (\<lambda>_ ob. elapsed now (ob_observed ob) \<le> CACHE_TTL) m)"

definition next_expiry :: "instant \<Rightarrow> observations \<Rightarrow> observations \<times> instant option" where
  "next_expiry now m =
     (let m' = hm_retain (\<lambda>_ ob. elapsed now (ob_observed ob) \<le> CACHE_TTL) m;
          ds = filter (\<lambda>d. now < d) (concat (map (\<lambda>(_, ob).
            [ob_observed ob + OBSERVED_LIVE_TTL, ob_observed ob + CACHE_TTL]) m'))
      in (m', case ds of [] \<Rightarrow> None | d # ds' \<Rightarrow> Some (foldr min ds' d)))"

definition observation_get :: "instant \<Rightarrow> string \<Rightarrow> address \<Rightarrow> observations \<Rightarrow> observation option" where
  "observation_get now adapter a m =
     (case hm_get m (adapter, a) of None \<Rightarrow> None
      | Some ob \<Rightarrow> if elapsed now (ob_observed ob) \<le> CACHE_TTL then Some ob else None)"

subsection \<open>Disconnect diagnostics\<close>

datatype disconnect_reason = UnknownReason | TimeoutReason | LocalReason | RemoteReason
  | AuthenticationReason | SuspendReason

record device_disconnect =
  dd_reason :: disconnect_reason
  dd_message :: ustring
  dd_observed_at_ms :: u64

definition MAX_HISTORY :: nat where "MAX_HISTORY = 256"

type_synonym history = "(sig_key, device_disconnect) hmap"

text \<open>\<open>min_by_key\<close>: the first of the entries with the least time, in iteration order.\<close>

fun oldest :: "history \<Rightarrow> sig_key option" where
  "oldest [] = None"
| "oldest ((k, r) # m) =
     (if \<forall>(_, r') \<in> set m. dd_observed_at_ms r \<le> dd_observed_at_ms r' then Some k else oldest m)"

definition history_record :: "string \<Rightarrow> address \<Rightarrow> device_disconnect \<Rightarrow> history \<Rightarrow> history" where
  "history_record adapter a report m =
     (let key = (adapter, a);
          m' = (if hm_get m key = None \<and> MAX_HISTORY \<le> length m
                then (case oldest m of None \<Rightarrow> m | Some k \<Rightarrow> hm_remove k m) else m)
      in hm_insert key report m')"

definition history_remove :: "string \<Rightarrow> address option \<Rightarrow> history \<Rightarrow> history" where
  "history_remove adapter addr m =
     hm_retain (\<lambda>(name, peer) _. name \<noteq> adapter \<or> (addr \<noteq> None \<and> addr \<noteq> Some peer)) m"

definition disconnect_report :: "u64 \<Rightarrow> string \<Rightarrow> ustring \<Rightarrow> device_disconnect" where
  "disconnect_report now_ms reason message =
     \<lparr>dd_reason =
        (if reason = ''org.bluez.Reason.Timeout'' then TimeoutReason
         else if reason = ''org.bluez.Reason.Local'' then LocalReason
         else if reason = ''org.bluez.Reason.Remote'' then RemoteReason
         else if reason = ''org.bluez.Reason.Authentication'' then AuthenticationReason
         else if reason = ''org.bluez.Reason.Suspend'' then SuspendReason
         else UnknownReason),
      dd_message = remote_text message 256, dd_observed_at_ms = now_ms\<rparr>"

subsection \<open>Radio switch\<close>

record radio_state =
  ra_available :: bool
  ra_adapter_count :: nat
  ra_powered :: bool
  ra_operational :: bool
  ra_rfkill_present :: bool
  ra_soft_blocked :: bool
  ra_hard_blocked :: bool

text \<open>
  A sysfs entry holds the trimmed contents of its files, each of which may be unreadable; the
  directory may be missing (\<open>Inl True\<close>) or unreadable (\<open>Inl False\<close>).
\<close>

record rfkill_entry =
  rk_type :: "string option"
  rk_soft :: "string option"
  rk_hard :: "string option"

definition read_flag :: "string option \<Rightarrow> bool option" where
  "read_flag f = map_option (\<lambda>t. t = ''1'') f"

fun fold_rfkill :: "rfkill_entry list \<Rightarrow> bool \<times> bool \<times> bool \<Rightarrow> (bool \<times> bool \<times> bool) option" where
  "fold_rfkill [] acc = Some acc"
| "fold_rfkill (e # es) (present, soft, hard) =
     (case rk_type e of
        None \<Rightarrow> None
      | Some t \<Rightarrow>
          if t \<noteq> ''bluetooth'' then fold_rfkill es (present, soft, hard)
          else case read_flag (rk_soft e) of
              None \<Rightarrow> None
            | Some s \<Rightarrow>
                (case read_flag (rk_hard e) of
                   None \<Rightarrow> None
                 | Some h \<Rightarrow> fold_rfkill es (True, soft \<or> s, hard \<or> h)))"

definition read_bluetooth_state :: "bool + rfkill_entry list \<Rightarrow> (bool \<times> bool \<times> bool) option" where
  "read_bluetooth_state root =
     (case root of
        Inl missing \<Rightarrow> if missing then Some (False, False, False) else None
      | Inr es \<Rightarrow> fold_rfkill es (False, False, False))"

definition radio_state :: "bool + rfkill_entry list \<Rightarrow> nat \<Rightarrow> bool \<Rightarrow> radio_state" where
  "radio_state root adapter_count powered =
     (case (case read_bluetooth_state root of None \<Rightarrow> (False, False, False) | Some x \<Rightarrow> x) of
        (present, soft, hard) \<Rightarrow>
          \<lparr>ra_available = 0 < adapter_count \<or> present, ra_adapter_count = adapter_count,
           ra_powered = powered,
           ra_operational = 0 < adapter_count \<and> powered \<and> \<not> soft \<and> \<not> hard,
           ra_rfkill_present = present, ra_soft_blocked = soft, ra_hard_blocked = hard\<rparr>)"

definition soft_block_event :: "bool \<Rightarrow> bytes" where
  "soft_block_event blocked = [0, 0, 0, 0, 2, 3, if blocked then 1 else 0, 0]"

subsection \<open>Fencing of polls\<close>

fun bumps :: "sig_event list \<Rightarrow> nat" where
  "bumps [] = 0"
| "bumps (SigBeginPoll # es) = Suc (bumps es)"
| "bumps (SigSuspend now # es) = Suc (bumps es)"
| "bumps (_ # es) = bumps es"

lemma word_diff_Suc:
  fixes a b :: u64
  assumes "unat (a - b) + 1 < 2 ^ 64"
  shows "unat (a + 1 - b) = unat (a - b) + 1"
proof -
  have "a - b \<noteq> - 1"
  proof
    assume "a - b = - 1"
    then have "unat (a - b) = 2 ^ 64 - 1"
      by (simp only: unsigned_minus_1_eq_mask) (simp add: mask_eq_exp_minus_1)
    with assms show False by simp
  qed
  then have "unat (a - b + 1) = Suc (unat (a - b))" by (rule unat_not_max_inc)
  then show ?thesis by (simp add: algebra_simps)
qed

lemma sig_accept_frame [simp]:
  "sg_epoch (sig_accept now ms key epoch r s) = sg_epoch s"
  "sg_invalid_devices (sig_accept now ms key epoch r s) = sg_invalid_devices s"
  "sg_invalid_adapters (sig_accept now ms key epoch r s) = sg_invalid_adapters s"
  by (simp_all add: sig_accept_def Let_def)

text \<open>A poll token that lost its right for a key does not get it back.\<close>

lemma retired_token_step:
  assumes "\<not> sig_current key e s" and "unat (sg_epoch s - e) + bumps (ev # es) < 2 ^ 64"
  shows "\<not> sig_current key e (sig_step ev s) \<and> unat (sg_epoch (sig_step ev s) - e) + bumps es < 2 ^ 64"
proof (cases ev)
  case (SigInvalidate now adapter addr)
  then show ?thesis using assms by (auto simp: sig_current_def invalidate_def split: option.splits)
next
  case (SigSuspend now)
  then have "unat (sg_epoch s + 1 - e) = unat (sg_epoch s - e) + 1"
    using assms(2) by (intro word_diff_Suc) simp
  moreover from this have "sg_epoch s + 1 \<noteq> e" by auto
  ultimately show ?thesis using SigSuspend assms(2) by (auto simp: sig_current_def suspend_def)
next
  case SigBeginPoll
  then have "unat (sg_epoch s + 1 - e) = unat (sg_epoch s - e) + 1"
    using assms(2) by (intro word_diff_Suc) simp
  moreover from this have "sg_epoch s + 1 \<noteq> e" by auto
  ultimately show ?thesis using SigBeginPoll assms(2) by (auto simp: sig_current_def begin_poll_def)
next
  case (SigAccept now ms k epoch r)
  then show ?thesis using assms by (simp add: sig_current_def)
next
  case (SigSweep now)
  then show ?thesis using assms by (simp add: sig_current_def sweep_def)
qed

lemma retired_token_run:
  "\<not> sig_current key e s \<Longrightarrow> unat (sg_epoch s - e) + bumps es < 2 ^ 64 \<Longrightarrow>
   \<not> sig_current key e (fold sig_step es s)"
proof (induction es arbitrary: s)
  case Nil
  then show ?case by simp
next
  case (Cons ev es)
  then show ?case using retired_token_step [OF Cons.prems] by simp
qed

subsection \<open>Liveness of readings\<close>

definition entry_failed :: "sig_key \<Rightarrow> signals \<Rightarrow> bool" where
  "entry_failed key s \<longleftrightarrow> (\<forall>e. hm_get (sg_entries s) key = Some e \<longrightarrow> \<not> en_succeeded e)"

definition fenced :: "sig_key \<Rightarrow> signals \<Rightarrow> bool" where
  "fenced key s \<longleftrightarrow> key \<in> sg_invalid_devices s \<or> fst key \<in> sg_invalid_adapters s"

lemma failed_not_live:
  "entry_failed (adapter, a) s \<Longrightarrow> signals_get now adapter a connected s = Some r \<Longrightarrow> \<not> rd_live r"
  by (auto simp: entry_failed_def signals_get_def split: option.splits if_splits)

lemma fenced_step:
  assumes "fenced key s" and "entry_failed key s" and "hm_ok (sg_entries s)" and "ev \<noteq> SigBeginPoll"
  shows "fenced key (sig_step ev s) \<and> entry_failed key (sig_step ev s) \<and> hm_ok (sg_entries (sig_step ev s))"
proof (cases ev)
  case (SigInvalidate now adapter addr)
  then show ?thesis using assms(1-3)
    by (cases key) (auto simp: fenced_def entry_failed_def invalidate_def retire_entry_def
        split: option.splits if_splits)
next
  case (SigSuspend now)
  then show ?thesis using assms(1-3)
    by (auto simp: fenced_def entry_failed_def suspend_def retire_entry_def)
next
  case (SigAccept now ms k epoch r)
  have "k = key \<Longrightarrow> \<not> sig_current k epoch s"
    using assms(1) by (auto simp: fenced_def sig_current_def)
  then show ?thesis using SigAccept assms(1-3)
    by (auto simp: fenced_def entry_failed_def sig_accept_def Let_def)
next
  case (SigSweep now)
  then show ?thesis using assms(1-3)
    by (auto simp: fenced_def entry_failed_def sweep_def split: option.splits if_splits)
qed (use assms(4) in simp)

lemma fenced_run:
  "fenced key s \<Longrightarrow> entry_failed key s \<Longrightarrow> hm_ok (sg_entries s) \<Longrightarrow> SigBeginPoll \<notin> set es \<Longrightarrow>
   entry_failed key (fold sig_step es s)"
proof (induction es arbitrary: s)
  case Nil
  then show ?case by simp
next
  case (Cons ev es)
  then show ?case using fenced_step [OF Cons.prems(1-3), of ev] by auto
qed

lemma invalidate_fences:
  assumes "hm_ok (sg_entries s)" and "addr = None \<or> addr = Some a"
  shows "fenced (adapter, a) (invalidate now adapter addr s)"
    and "entry_failed (adapter, a) (invalidate now adapter addr s)"
    and "hm_ok (sg_entries (invalidate now adapter addr s))"
  using assms by (auto simp: fenced_def entry_failed_def invalidate_def retire_entry_def split: option.splits)

subsection \<open>History\<close>

lemma oldest_Some: "m \<noteq> [] \<Longrightarrow> \<exists>k. oldest m = Some k"
proof (induction m)
  case (Cons x m)
  then show ?case by (cases x; cases "m = []") auto
qed simp

lemma oldest_in: "oldest m = Some k \<Longrightarrow> \<exists>r. (k, r) \<in> set m \<and> (\<forall>(k', r') \<in> set m. dd_observed_at_ms r \<le> dd_observed_at_ms r')"
proof (induction m rule: oldest.induct)
  case (2 k0 r0 m)
  show ?case
  proof (cases "\<forall>(_, r') \<in> set m. dd_observed_at_ms r0 \<le> dd_observed_at_ms r'")
    case True
    then show ?thesis using "2.prems" by auto
  next
    case False
    have "oldest m = Some k" using "2.prems" unfolding oldest.simps if_not_P [OF False] .
    then obtain r where r: "(k, r) \<in> set m" "\<forall>(k', r') \<in> set m. dd_observed_at_ms r \<le> dd_observed_at_ms r'"
      using "2.IH" [OF False] by blast
    from False obtain k1 r1 where "(k1, r1) \<in> set m" "dd_observed_at_ms r1 < dd_observed_at_ms r0"
      by (auto simp: not_le)
    with r(2) have "dd_observed_at_ms r \<le> dd_observed_at_ms r0" by fastforce
    with r show ?thesis by auto
  qed
qed simp

lemma history_record_props:
  assumes "hm_ok m" and "length m \<le> MAX_HISTORY"
  shows "hm_ok (history_record adapter a report m)"
    and "length (history_record adapter a report m) \<le> MAX_HISTORY"
    and "hm_get (history_record adapter a report m) (adapter, a) = Some report"
proof -
  let ?k = "(adapter, a)"
  show "hm_ok (history_record adapter a report m)"
    using assms(1) by (auto simp: history_record_def Let_def split: option.split)
  show "hm_get (history_record adapter a report m) ?k = Some report"
    by (simp add: history_record_def Let_def)
  show "length (history_record adapter a report m) \<le> MAX_HISTORY"
  proof (cases "hm_get m ?k = None \<and> MAX_HISTORY \<le> length m")
    case True
    then have "m \<noteq> []" by (auto simp: MAX_HISTORY_def)
    then obtain k where k: "oldest m = Some k" using oldest_Some by blast
    then have "hm_get m k \<noteq> None" using oldest_in [OF k] assms(1) by (auto simp: hm_in_set)
    then have "Suc (length (hm_remove k m)) = length m" using assms(1) by (intro hm_length_remove)
    then show ?thesis using True k assms(2)
      by (simp add: history_record_def Let_def hm_length_insert)
  next
    case False
    then show ?thesis using assms(2) by (auto simp: history_record_def Let_def hm_length_insert)
  qed
qed

text \<open>Recording evicts at most one other entry, the oldest of a full table.\<close>

lemma history_record_keeps:
  assumes "hm_ok m" and "k \<noteq> (adapter, a)" and "hm_get m k = Some r"
    and "hm_get (history_record adapter a report m) k \<noteq> Some r"
  shows "MAX_HISTORY \<le> length m \<and> hm_get m (adapter, a) = None
    \<and> (\<forall>k' r'. hm_get m k' = Some r' \<longrightarrow> dd_observed_at_ms r \<le> dd_observed_at_ms r')"
proof -
  have full: "hm_get m (adapter, a) = None \<and> MAX_HISTORY \<le> length m" and k: "oldest m = Some k"
    using assms(2-4) by (auto simp: history_record_def Let_def split: if_splits option.splits)
  obtain r0 where r0: "(k, r0) \<in> set m" "\<forall>(k', r') \<in> set m. dd_observed_at_ms r0 \<le> dd_observed_at_ms r'"
    using oldest_in [OF k] by blast
  then have "r0 = r" using assms(1,3) by (simp add: hm_in_set)
  moreover have "dd_observed_at_ms r0 \<le> dd_observed_at_ms r'" if "hm_get m k' = Some r'" for k' r'
    using r0(2) that hm_in_set [OF assms(1), of k' r'] by blast
  ultimately show ?thesis using full by blast
qed

subsection \<open>Properties\<close>

text \<open>
  A reply of a poll that lost its right to a device (the device or its adapter was
  invalidated, the system suspended, or a later poll began) changes nothing, in any later state,
  as long as fewer than \<open>2 ^ 64\<close> polls and suspensions follow.
\<close>

theorem late_poll_reply_ignored:
  assumes "\<not> sig_current key (sg_epoch s0) (fold sig_step es1 s0)"
    and "bumps es1 + bumps es2 < 2 ^ 64"
  shows "sig_accept now now_ms key (sg_epoch s0) result (fold sig_step (es1 @ es2) s0)
    = fold sig_step (es1 @ es2) s0"
proof -
  have count: "unat (sg_epoch (fold sig_step es s) - e) + n < 2 ^ 64"
    if "unat (sg_epoch s - e) + bumps es + n < 2 ^ 64" for s es e n
    using that
  proof (induction es arbitrary: s)
    case (Cons ev es)
    have "unat (sg_epoch (sig_step ev s) - e) + bumps es + n < 2 ^ 64"
      using Cons.prems word_diff_Suc [of "sg_epoch s" e]
      by (cases ev) (auto simp: invalidate_def suspend_def begin_poll_def sweep_def)
    then show ?case using Cons.IH by simp
  qed simp
  have "unat (sg_epoch (fold sig_step es1 s0) - sg_epoch s0) + bumps es2 < 2 ^ 64"
    using assms(2) by (intro count) simp
  from retired_token_run [OF assms(1) this]
  have "\<not> sig_current key (sg_epoch s0) (fold sig_step (es1 @ es2) s0)" by simp
  then show ?thesis by (simp add: sig_accept_def)
qed

theorem late_poll_reply_ignored_witness:
  "sig_accept 9 0 (''hci0'', [1]) 1 (Some (- 20, Dbm))
     (fold sig_step ([SigInvalidate 5 ''hci0'' (Some [1])] @ [SigBeginPoll]) (fst (begin_poll signals_default)))
   = fold sig_step ([SigInvalidate 5 ''hci0'' (Some [1])] @ [SigBeginPoll]) (fst (begin_poll signals_default))"
  using late_poll_reply_ignored [of "(''hci0'', [1])" "fst (begin_poll signals_default)"
      "[SigInvalidate 5 ''hci0'' (Some [1])]" "[SigBeginPoll]" 9 0 "Some (- 20, Dbm)"]
  by (simp add: begin_poll_def signals_default_def sig_current_def invalidate_def)

text \<open>
  After a device (or its whole adapter) is invalidated, its cached reading is never shown as
  live again before a new poll begins, whatever replies still arrive.
\<close>

theorem invalidated_reading_not_live:
  assumes "hm_ok (sg_entries s)" and "addr = None \<or> addr = Some a" and "SigBeginPoll \<notin> set es"
    and "signals_get now' adapter a connected (fold sig_step es (invalidate now adapter addr s)) = Some r"
  shows "\<not> rd_live r"
  using failed_not_live [OF fenced_run [OF invalidate_fences [OF assms(1,2)] assms(3)] assms(4)] .

theorem invalidated_reading_not_live_witness:
  "\<exists>r. signals_get 5 ''hci0'' [1] True
      (fold sig_step [SigAccept 4 0 (''hci0'', [1]) 1 (Some (- 50, Dbm))]
        (invalidate 3 ''hci0'' None (sig_accept 2 0 (''hci0'', [1]) 1 (Some (- 60, Dbm))
          (fst (begin_poll signals_default))))) = Some r \<and> rd_rssi r = - 60 \<and> \<not> rd_live r"
proof -
  let ?s = "sig_accept 2 0 (''hci0'', [1]) 1 (Some (- 60, Dbm)) (fst (begin_poll signals_default))"
  let ?es = "[SigAccept 4 0 (''hci0'', [1]) 1 (Some (- 50, Dbm))]"
  obtain r where r: "signals_get 5 ''hci0'' [1] True (fold sig_step ?es (invalidate 3 ''hci0'' None ?s)) = Some r"
      "rd_rssi r = - 60"
    by (simp add: signals_get_def begin_poll_def signals_default_def sig_accept_def sig_current_def
        invalidate_def hm_defs retire_entry_def elapsed_def CACHE_TTL_def secs_def millis_def)
  have ok: "hm_ok (sg_entries ?s)"
    by (simp add: begin_poll_def signals_default_def sig_accept_def sig_current_def)
  have "\<not> rd_live r"
    by (rule invalidated_reading_not_live [OF ok _ _ r(1)]) simp_all
  with r show ?thesis by blast
qed

text \<open>
  The disconnect history is bounded, always holds the newest report of a device, and drops
  another device's report only when it is full, and then the oldest one.
\<close>

theorem history_bounded_and_recent:
  assumes "hm_ok m" and "length m \<le> MAX_HISTORY"
  shows "length (history_record adapter a report m) \<le> MAX_HISTORY
    \<and> hm_get (history_record adapter a report m) (adapter, a) = Some report
    \<and> (\<forall>k r. k \<noteq> (adapter, a) \<longrightarrow> hm_get m k = Some r \<longrightarrow>
         hm_get (history_record adapter a report m) k \<noteq> Some r \<longrightarrow>
         length m = MAX_HISTORY \<and> (\<forall>k' r'. hm_get m k' = Some r' \<longrightarrow> dd_observed_at_ms r \<le> dd_observed_at_ms r'))"
  using history_record_props [OF assms] history_record_keeps [OF assms(1)] assms(2)
  by (meson le_antisym)

theorem history_bounded_and_recent_witness:
  "length (history_record ''hci0'' [1] (disconnect_report 7 ''org.bluez.Reason.Local'' []) []) \<le> MAX_HISTORY
   \<and> hm_get (history_record ''hci0'' [1] (disconnect_report 7 ''org.bluez.Reason.Local'' []) []) (''hci0'', [1])
     = Some \<lparr>dd_reason = LocalReason, dd_message = [], dd_observed_at_ms = 7\<rparr>"
  using history_bounded_and_recent [of "[]" "''hci0''" "[1]" "disconnect_report 7 ''org.bluez.Reason.Local'' []"]
  by (simp add: disconnect_report_def remote_text_def)

end
