(* ===== verification/DeviceOps.thy ===== *)
theory DeviceOps
  imports Audio Stores Telemetry
begin

text \<open>
  \<open>src/bluez/operations.rs\<close> and the device operations of \<open>src/bluez.rs\<close>: what an operation on a device does,
  in which order, and what it leaves behind when a step fails.

  BlueZ, the vendor providers, PipeWire and the stores act on a world \<open>'w\<close>. Each effect of the code is a field
  of \<open>device_io\<close> that gives the new world and BlueZ's answer. The device gate is held throughout (\<open>Api\<close>).
\<close>

subsection \<open>Effects that may fail\<close>

type_synonym ('w, 'a) act = "'w \<Rightarrow> 'w \<times> (failure + 'a)"

definition act_return :: "'a \<Rightarrow> ('w, 'a) act" where "act_return a w = (w, Inr a)"

definition act_fail :: "failure \<Rightarrow> ('w, 'a) act" where "act_fail e w = (w, Inl e)"

definition act_of :: "failure + 'a \<Rightarrow> ('w, 'a) act" where "act_of r w = (w, r)"

definition act_bind :: "('w, 'a) act \<Rightarrow> ('a \<Rightarrow> ('w, 'b) act) \<Rightarrow> ('w, 'b) act" where
  "act_bind m f w = (case m w of (w1, Inl e) \<Rightarrow> (w1, Inl e) | (w1, Inr a) \<Rightarrow> f a w1)"

definition act_then :: "('w, 'a) act \<Rightarrow> ('w, 'b) act \<Rightarrow> ('w, 'b) act" where
  "act_then m n = act_bind m (\<lambda>_. n)"

definition act_when :: "bool \<Rightarrow> ('w, unit) act \<Rightarrow> ('w, unit) act" where
  "act_when b m = (if b then m else act_return ())"

definition act_do :: "('w \<Rightarrow> 'w) \<Rightarrow> ('w, unit) act" where "act_do f w = (f w, Inr ())"

subsection \<open>BlueZ errors\<close>

datatype bluer_kind =
    AuthenticationCanceled | AuthenticationFailed | AuthenticationRejected | AuthenticationTimeout
  | NotAuthorized | NotPermitted | DoesNotExist | NotFound | NotAvailable | NotReady | Internal
  | InvalidArguments | InvalidLength | InvalidOffset | InvalidAddress | InvalidName | AlreadyConnected | OtherKind

type_synonym bluer_error = "bluer_kind \<times> string"

fun bluer_backend_kind :: "bluer_kind \<Rightarrow> backend_kind" where
  "bluer_backend_kind AuthenticationCanceled = KRejected"
| "bluer_backend_kind AuthenticationFailed = KRejected"
| "bluer_backend_kind AuthenticationRejected = KRejected"
| "bluer_backend_kind NotAuthorized = KRejected"
| "bluer_backend_kind NotPermitted = KRejected"
| "bluer_backend_kind AuthenticationTimeout = KTimeout"
| "bluer_backend_kind DoesNotExist = KDeviceUnavailable"
| "bluer_backend_kind NotFound = KDeviceUnavailable"
| "bluer_backend_kind NotAvailable = KUnavailable"
| "bluer_backend_kind NotReady = KUnavailable"
| "bluer_backend_kind Internal = KUnavailable"
| "bluer_backend_kind InvalidArguments = KInvalidInput"
| "bluer_backend_kind InvalidLength = KInvalidInput"
| "bluer_backend_kind InvalidOffset = KInvalidInput"
| "bluer_backend_kind InvalidAddress = KInvalidInput"
| "bluer_backend_kind InvalidName = KInvalidInput"
| "bluer_backend_kind AlreadyConnected = KOperationFailed"
| "bluer_backend_kind OtherKind = KOperationFailed"

definition bluez_result :: "bluer_error + 'a \<Rightarrow> string \<Rightarrow> failure + 'a" where
  "bluez_result r operation =
     (case r of Inr a \<Rightarrow> Inr a
      | Inl (kind, message) \<Rightarrow> Inl [Classified (bluer_backend_kind kind) (operation @ '': '' @ message)])"

datatype 'a timed = Elapsed | Finished "bluer_error + 'a"

definition operation_timeout :: "'a timed \<Rightarrow> string \<Rightarrow> failure + 'a" where
  "operation_timeout t operation =
     (case t of Elapsed \<Rightarrow> Inl [Classified KTimeout (operation @ '' timed out'')] | Finished r \<Rightarrow> bluez_result r operation)"

definition with_operation :: "string \<Rightarrow> ('w \<Rightarrow> 'w \<times> (bluer_error + 'a)) \<Rightarrow> ('w, 'a) act" where
  "with_operation operation io w = (case io w of (w1, r) \<Rightarrow> (w1, bluez_result r operation))"

definition with_timeout :: "string \<Rightarrow> ('w \<Rightarrow> 'w \<times> 'a timed) \<Rightarrow> ('w, 'a) act" where
  "with_timeout operation io w = (case io w of (w1, t) \<Rightarrow> (w1, operation_timeout t operation))"

subsection \<open>The device and its surroundings\<close>

record 'w device_io =
  io_adapter_powered :: "'w \<Rightarrow> 'w \<times> (bluer_error + bool)"
  io_power_adapter :: "'w \<Rightarrow> 'w \<times> (bluer_error + unit)"
  io_radio :: "('w, radio_state) act"  \<comment> \<open>a snapshot, of which the radio is read\<close>
  io_unblock :: "('w, unit) act"
  io_pair :: "'w \<Rightarrow> 'w \<times> unit timed"
  io_connect :: "'w \<Rightarrow> 'w \<times> unit timed"
  io_disconnect :: "'w \<Rightarrow> 'w \<times> unit timed"
  io_remove :: "'w \<Rightarrow> 'w \<times> (bluer_error + unit)"
  io_is_connected :: "'w \<Rightarrow> 'w \<times> (bluer_error + bool)"
  io_is_paired :: "'w \<Rightarrow> 'w \<times> (bluer_error + bool)"
  io_is_trusted :: "'w \<Rightarrow> 'w \<times> (bluer_error + bool)"
  io_services_resolved :: "'w \<Rightarrow> 'w \<times> (bluer_error + bool)"
  io_set_trusted :: "bool \<Rightarrow> 'w \<Rightarrow> 'w \<times> (bluer_error + unit)"
  io_set_blocked :: "bool \<Rightarrow> 'w \<Rightarrow> 'w \<times> (bluer_error + unit)"
  io_set_wake :: "bool \<Rightarrow> 'w \<Rightarrow> 'w \<times> (bluer_error + unit)"
  io_set_alias :: "string \<Rightarrow> 'w \<Rightarrow> 'w \<times> (bluer_error + unit)"
  io_progress :: "string \<Rightarrow> 'w \<Rightarrow> 'w"
  io_fast_pair :: bool  \<comment> \<open>whether the provider runs\<close>
  io_note_pairing :: "'w \<Rightarrow> 'w"
  io_provision_key :: "string \<Rightarrow> ('w, unit) act"
  io_provision_catalog :: "('w, unit) act"
  io_auto_provision :: "('w, unit) act"
  io_multipoint :: "bool \<Rightarrow> ('w, unit) act"
  io_noise_control :: "string \<Rightarrow> ('w, unit) act"
  io_forget_key :: "('w, unit) act"
  io_sony :: bool
  io_sony_noise :: "'w \<Rightarrow> 'w \<times> bool"  \<comment> \<open>whether the vendor channel reports noise control\<close>
  io_sony_set_noise :: "string \<Rightarrow> ('w, unit) act"
  io_audio_policy :: "policy_request \<Rightarrow> ('w, unit) act"
  io_adapter_name :: string
  io_address :: string
  io_service_polls :: nat  \<comment> \<open>how many polls fit before the ten seconds are over\<close>
  io_audio_attempts :: nat  \<comment> \<open>how many attempts end before the audio deadline\<close>

definition param :: "param_error + 'a \<Rightarrow> ('w, 'a) act" where
  "param r = act_of (checked r)"

definition progress_to :: "'w device_io \<Rightarrow> string \<Rightarrow> ('w, unit) act" where
  "progress_to io stage = act_do (io_progress io stage)"

subsection \<open>Power\<close>

definition rejected_by :: "string \<Rightarrow> failure" where "rejected_by message = [Classified KRejected message]"

definition unblock_rfkill :: "'w device_io \<Rightarrow> radio_state \<Rightarrow> bool \<Rightarrow> ('w, unit) act" where
  "unblock_rfkill io radio no_adapters w =
     (if \<not> ra_rfkill_present radio \<or> \<not> ra_soft_blocked radio then (w, Inr ())
      else case io_unblock io w of
        (w1, Inr _) \<Rightarrow> (w1, Inr ())
      | (w1, Inl e) \<Rightarrow>
          (w1, if no_adapters then Inl (rejected_by (''could not unblock Bluetooth through rfkill: '' @ error_chain e))
               else Inr ()))"

definition ensure_operation_adapter_powered :: "'w device_io \<Rightarrow> bool \<Rightarrow> ('w, unit) act" where
  "ensure_operation_adapter_powered io power_on =
     act_bind (with_operation ''read operation adapter power'' (io_adapter_powered io)) (\<lambda>powered.
       if powered then act_return ()
       else if \<not> power_on then act_fail (rejected_by ''Bluetooth adapter is powered off and power_on is disabled'')
       else act_then (progress_to io ''powering-on'')
         (act_bind (io_radio io) (\<lambda>radio.
           if ra_hard_blocked radio then act_fail (rejected_by ''Bluetooth is disabled by a hardware radio switch'')
           else act_then (unblock_rfkill io radio False)
             (with_operation ''power adapter for Bluetooth device operation'' (io_power_adapter io)))))"

subsection \<open>Connecting and pairing\<close>

definition connect_device :: "'w device_io \<Rightarrow> string \<Rightarrow> ('w, unit) act" where
  "connect_device io operation =
     with_timeout operation (\<lambda>w. case io_connect io w of
         (w1, Finished (Inl (AlreadyConnected, _))) \<Rightarrow> (w1, Finished (Inr ()))
       | r \<Rightarrow> r)"

fun wait_for_services :: "'w device_io \<Rightarrow> nat \<Rightarrow> 'w \<Rightarrow> 'w" where
  "wait_for_services io 0 w = w"
| "wait_for_services io (Suc n) w =
     (case io_services_resolved io w of
        (w1, Inr False) \<Rightarrow> wait_for_services io n w1
      | (w1, _) \<Rightarrow> w1)"

definition resolve_services :: "'w device_io \<Rightarrow> ('w, unit) act" where
  "resolve_services io = act_then (progress_to io ''resolving-services'') (act_do (wait_for_services io (io_service_polls io)))"

definition pair_device :: "'w device_io \<Rightarrow> bool \<Rightarrow> bool \<Rightarrow> ('w, unit) act" where
  "pair_device io trust_after_pair wait_for_service_resolution =
     act_then (progress_to io ''pairing'')
     (act_then (with_timeout ''pair Bluetooth device'' (io_pair io))
     (act_then (act_when (io_fast_pair io) (act_do (io_note_pairing io)))
     (act_then (act_when trust_after_pair
         (act_then (progress_to io ''trusting'') (with_operation ''trust paired Bluetooth device'' (io_set_trusted io True))))
     (act_bind (with_operation ''read device connected state'' (io_is_connected io)) (\<lambda>connected.
      act_then (act_when (\<not> connected)
         (act_then (progress_to io ''connecting'') (connect_device io ''connect paired Bluetooth device'')))
      (act_when wait_for_service_resolution (resolve_services io)))))))"

definition provision_after_pair :: "'w device_io \<Rightarrow> string option \<Rightarrow> ('w, unit) act" where
  "provision_after_pair io public_key =
     (case public_key of
        Some key \<Rightarrow>
          if io_fast_pair io then io_provision_key io key else act_fail [Context ''Fast Pair provider is unavailable'']
      | None \<Rightarrow>
          if io_fast_pair io then (\<lambda>w. (fst (io_auto_provision io w), Inr ())) else act_return ())"

definition pair_with_policy :: "'w device_io \<Rightarrow> json \<Rightarrow> bool \<Rightarrow> bool \<Rightarrow> ('w, unit) act" where
  "pair_with_policy io params default_trust default_wait =
     act_bind (param (optional_bool params ''trust_after_pair'')) (\<lambda>trust.
     act_bind (param (optional_string params ''fast_pair_anti_spoofing_public_key'')) (\<lambda>public_key.
       if public_key \<noteq> None \<and> \<not> io_fast_pair io then act_fail [Context ''Fast Pair provider is unavailable'']
       else act_then (pair_device io (unwrap_or default_trust trust) default_wait)
         (provision_after_pair io public_key)))"

definition trust_before_connecting :: "'w device_io \<Rightarrow> ('w, unit) act" where
  "trust_before_connecting io =
     act_bind (with_operation ''read connect device pairing state'' (io_is_paired io)) (\<lambda>paired.
       if \<not> paired then act_return ()
       else act_bind (with_operation ''read connect device trust state'' (io_is_trusted io)) (\<lambda>trusted.
         if trusted then act_return ()
         else act_then (progress_to io ''trusting'')
           (with_operation ''trust Bluetooth device before connecting'' (io_set_trusted io True))))"

definition connect_workflow :: "'w device_io \<Rightarrow> json \<Rightarrow> bool \<Rightarrow> ('w, unit) act" where
  "connect_workflow io params default_wait =
     act_bind (param (optional_bool params ''trust'')) (\<lambda>trust.
     act_then (act_when (unwrap_or False trust) (trust_before_connecting io))
     (act_then (progress_to io ''connecting'')
     (act_then (connect_device io ''connect Bluetooth device'')
     (act_bind (param (optional_bool params ''wait_for_services'')) (\<lambda>wait.
       act_when (unwrap_or default_wait wait) (resolve_services io))))))"

definition remove_device :: "'w device_io \<Rightarrow> ('w, unit) act" where
  "remove_device io =
     act_bind (with_operation ''read device connected state'' (io_is_connected io)) (\<lambda>connected.
     act_then (act_when connected (with_timeout ''disconnect Bluetooth device before removal'' (io_disconnect io)))
       (with_operation ''remove Bluetooth device'' (io_remove io)))"

definition run_property_operation :: "'w device_io \<Rightarrow> device_operation \<Rightarrow> json \<Rightarrow> ('w, unit) act" where
  "run_property_operation io operation params =
     (if operation = SetTrusted then act_bind (param (require_bool params ''trusted''))
        (\<lambda>v. with_operation ''set trusted state'' (io_set_trusted io v))
      else if operation = SetBlocked then act_bind (param (require_bool params ''blocked''))
        (\<lambda>v. with_operation ''set blocked state'' (io_set_blocked io v))
      else if operation = SetWakeAllowed then act_bind (param (require_bool params ''wake_allowed''))
        (\<lambda>v. with_operation ''set wake permission'' (io_set_wake io v))
      else if operation = DSetAlias then act_bind (param (require_string params ''alias''))
        (\<lambda>v. with_operation ''set device alias'' (io_set_alias io v))
      else if operation = ResetAlias then with_operation ''reset device alias'' (io_set_alias io [])
      else act_fail [Context ''invalid property operation group''])"

definition run_fast_pair_operation :: "'w device_io \<Rightarrow> device_operation \<Rightarrow> json \<Rightarrow> ('w, unit) act" where
  "run_fast_pair_operation io operation params =
     (if \<not> io_fast_pair io then act_fail [Context ''Fast Pair provider is unavailable'']
      else if operation = ProvisionFastPair
      then act_bind (param (optional_string params ''anti_spoofing_public_key'')) (\<lambda>key.
        case key of Some k \<Rightarrow> io_provision_key io k | None \<Rightarrow> io_provision_catalog io)
      else if operation = SetMultipoint then act_bind (param (require_bool params ''enabled'')) (io_multipoint io)
      else if operation = SetNoiseControl then act_bind (param (require_string params ''mode'')) (io_noise_control io)
      else act_fail [Context ''invalid Fast Pair operation group''])"

definition run_device_operation :: "'w device_io \<Rightarrow> device_operation \<Rightarrow> json \<Rightarrow> device_policy \<Rightarrow> ('w, unit) act" where
  "run_device_operation io operation params policy =
     (case operation of
        DPair \<Rightarrow> pair_with_policy io params (dp_trust_after_pair policy) (dp_wait_for_services policy)
      | Connect \<Rightarrow> connect_workflow io params (dp_wait_for_services policy)
      | Disconnect \<Rightarrow> with_timeout ''disconnect Bluetooth device'' (io_disconnect io)
      | Remove \<Rightarrow> remove_device io
      | ProvisionFastPair \<Rightarrow> run_fast_pair_operation io operation params
      | SetMultipoint \<Rightarrow> run_fast_pair_operation io operation params
      | SetNoiseControl \<Rightarrow> run_fast_pair_operation io operation params
      | _ \<Rightarrow> run_property_operation io operation params)"

subsection \<open>The plan\<close>

record plan =
  pl_operation :: device_operation
  pl_power_on :: "bool option"
  pl_route_audio :: bool

definition audio_route_required :: "bool \<Rightarrow> device_policy \<Rightarrow> bool" where
  "audio_route_required connects policy \<longleftrightarrow>
     connects \<and> (dp_audio_route_on_connect policy = ''switch'' \<or> dp_preferred_audio_profile_key policy \<noteq> None)"

definition plan_new :: "device_operation \<Rightarrow> json \<Rightarrow> device_policy \<Rightarrow> failure + plan" where
  "plan_new operation params policy =
     (let connects = (operation = DPair \<or> operation = Connect) in
      res_bind (if connects
          then res_bind (checked (optional_bool params ''power_on'')) (\<lambda>v. Inr (Some (unwrap_or (dp_power_on_connect policy) v)))
          else Inr None) (\<lambda>power_on.
      Inr \<lparr>pl_operation = operation, pl_power_on = power_on, pl_route_audio = audio_route_required connects policy\<rparr>))"

record 'w effects =
  ef_ensure_powered :: "bool \<Rightarrow> ('w, unit) act"
  ef_revoke_credentials :: "('w, unit) act"
  ef_run :: "device_operation \<Rightarrow> ('w, unit) act"
  ef_route_audio :: "('w, unit) act"

definition execute_plan :: "'w effects \<Rightarrow> plan \<Rightarrow> ('w, unit) act" where
  "execute_plan ef p =
     act_then (case pl_power_on p of None \<Rightarrow> act_return () | Some b \<Rightarrow> ef_ensure_powered ef b)
     (act_then (act_when (pl_operation p = Remove) (ef_revoke_credentials ef))
     (act_then (ef_run ef (pl_operation p))
       (act_when (pl_route_audio p) (ef_route_audio ef))))"

subsection \<open>The effects on a device\<close>

definition revoke_credentials :: "'w device_io \<Rightarrow> ('w, unit) act" where
  "revoke_credentials io = act_when (io_fast_pair io) (io_forget_key io)"

definition run_effect :: "'w device_io \<Rightarrow> json \<Rightarrow> device_policy \<Rightarrow> device_operation \<Rightarrow> ('w, unit) act" where
  "run_effect io params policy operation w =
     (if operation = SetNoiseControl \<and> io_sony io
      then (case io_sony_noise io w of
          (w1, True) \<Rightarrow> act_bind (param (require_string params ''mode'')) (io_sony_set_noise io) w1
        | (w1, False) \<Rightarrow> run_device_operation io operation params policy w1)
      else run_device_operation io operation params policy w)"

definition uncertain :: "failure \<Rightarrow> bool" where
  "uncertain e \<longleftrightarrow> hd (mutation_failed []) \<in> set e"

text \<open>The loop of \<open>route_audio\<close> while attempts fit before the deadline; the last one is past it.\<close>

fun audio_attempts :: "'w device_io \<Rightarrow> policy_request \<Rightarrow> nat \<Rightarrow> ('w, unit) act" where
  "audio_attempts io q n w =
     (case io_audio_policy io q w of
        (w1, Inr _) \<Rightarrow> (w1, Inr ())
      | (w1, Inl e) \<Rightarrow>
          (case n of
             Suc m \<Rightarrow>
               if \<not> uncertain e then audio_attempts io q m w1
               else (w1, Inl (Context ''apply Bluetooth per-device audio policy'' # e))
           | 0 \<Rightarrow> (w1, Inl (Context ''apply Bluetooth per-device audio policy'' # e))))"

declare audio_attempts.simps [simp del]

definition audio_request :: "'w device_io \<Rightarrow> string \<Rightarrow> device_policy \<Rightarrow> policy_request" where
  "audio_request io key policy =
     \<lparr>pq_device_key = key, pq_adapter = io_adapter_name io, pq_address = io_address io,
      pq_preferred_profile_key = dp_preferred_audio_profile_key policy,
      pq_switch_output = (dp_audio_route_on_connect policy = ''switch'')\<rparr>"

definition route_audio :: "'w device_io \<Rightarrow> string \<Rightarrow> device_policy \<Rightarrow> ('w, unit) act" where
  "route_audio io key policy =
     act_then (progress_to io ''waiting-for-audio'')
       (audio_attempts io (audio_request io key policy) (io_audio_attempts io))"

definition device_effects :: "'w device_io \<Rightarrow> string \<Rightarrow> json \<Rightarrow> device_policy \<Rightarrow> 'w effects" where
  "device_effects io key params policy =
     \<lparr>ef_ensure_powered = ensure_operation_adapter_powered io, ef_revoke_credentials = revoke_credentials io,
      ef_run = run_effect io params policy, ef_route_audio = route_audio io key policy\<rparr>"

subsection \<open>The backend's operation\<close>

record ('w, 's) backend_io =
  bi_find_device :: "string \<Rightarrow> ('w, unit) act"
  bi_policy :: "string \<Rightarrow> 'w \<Rightarrow> device_policy"
  bi_enable_controls :: "string \<Rightarrow> ('w, unit) act"
  bi_changed :: "'w \<Rightarrow> 'w"
  bi_drop_cached :: "string \<Rightarrow> 'w \<Rightarrow> 'w"
  bi_forget_presentation :: "string \<Rightarrow> 'w \<Rightarrow> 'w"
  bi_forget_policy :: "string \<Rightarrow> 'w \<Rightarrow> 'w"
  bi_snapshot :: "('w, 's) act"
  bi_remember :: "'s \<Rightarrow> 'w \<Rightarrow> 'w"

definition validate_control_policy :: "device_operation \<Rightarrow> device_policy \<Rightarrow> failure + unit" where
  "validate_control_policy operation policy =
     ensure (\<not> (\<not> dp_fast_pair_controls_enabled policy \<and> (operation = SetMultipoint \<or> operation = SetNoiseControl)))
       ''Fast Pair controls are disabled for this device''"

definition sony_noise_control :: "'w device_io \<Rightarrow> ('w, bool) act" where
  "sony_noise_control io w = (if io_sony io then (case io_sony_noise io w of (w1, b) \<Rightarrow> (w1, Inr b)) else (w, Inr False))"

definition check_control_policy :: "'w device_io \<Rightarrow> device_operation \<Rightarrow> device_policy \<Rightarrow> ('w, unit) act" where
  "check_control_policy io operation policy =
     act_bind (if operation = SetNoiseControl then sony_noise_control io else act_return False) (\<lambda>vendor.
       if vendor then act_return () else act_of (validate_control_policy operation policy))"

definition forget_device :: "('w, 's) backend_io \<Rightarrow> string \<Rightarrow> 'w \<Rightarrow> 'w" where
  "forget_device b key w = bi_forget_policy b key (bi_forget_presentation b key (bi_drop_cached b key w))"

definition device_operation ::
    "('w, 's) backend_io \<Rightarrow> 'w device_io \<Rightarrow> string \<Rightarrow> device_operation \<Rightarrow> json \<Rightarrow> ('w, 's) act" where
  "device_operation b io key operation params w =
     act_bind (bi_find_device b key) (\<lambda>_ w1.
       let policy = bi_policy b key w1 in
       act_then (check_control_policy io operation policy)
       (act_bind (act_of (plan_new operation params policy)) (\<lambda>plan.
        act_then (execute_plan (device_effects io key params policy) plan)
       (act_then (act_when (operation = ProvisionFastPair \<and> \<not> dp_fast_pair_controls_enabled policy)
           (act_then (bi_enable_controls b key) (act_do (bi_changed b))))
       (act_then (act_when (operation = Remove) (act_do (forget_device b key)))
       (act_bind (bi_snapshot b) (\<lambda>snap w2. (bi_remember b snap w2, Inr snap))))))) w1) w"

subsection \<open>A device that answers\<close>

definition demo_log :: "string \<Rightarrow> (string list, 'a) act" where
  "demo_log entry w = (w @ [entry], Inl [Context entry])"

definition demo_step :: "string \<Rightarrow> string list \<Rightarrow> string list \<times> (bluer_error + unit)" where
  "demo_step entry w = (w @ [entry], Inr ())"

definition demo_device_io :: "string list device_io" where
  "demo_device_io =
     \<lparr>io_adapter_powered = (\<lambda>w. (w, Inr True)), io_power_adapter = demo_step ''power'', io_radio = demo_log ''radio'',
      io_unblock = (\<lambda>w. (w @ [''unblock''], Inr ())), io_pair = (\<lambda>w. (w @ [''pair''], Finished (Inr ()))),
      io_connect = (\<lambda>w. (w @ [''connect''], Finished (Inr ()))), io_disconnect = (\<lambda>w. (w @ [''disconnect''], Finished (Inr ()))),
      io_remove = demo_step ''remove'', io_is_connected = (\<lambda>w. (w, Inr True)), io_is_paired = (\<lambda>w. (w, Inr True)),
      io_is_trusted = (\<lambda>w. (w, Inr True)), io_services_resolved = (\<lambda>w. (w, Inr True)),
      io_set_trusted = (\<lambda>_. demo_step ''trust''), io_set_blocked = (\<lambda>_. demo_step ''block''),
      io_set_wake = (\<lambda>_. demo_step ''wake''), io_set_alias = (\<lambda>_. demo_step ''alias''), io_progress = (\<lambda>stage w. w @ [stage]),
      io_fast_pair = True, io_note_pairing = (\<lambda>w. w), io_provision_key = (\<lambda>_ w. (w @ [''provision''], Inr ())),
      io_provision_catalog = demo_log ''catalog'', io_auto_provision = demo_log ''auto'',
      io_multipoint = (\<lambda>_. demo_log ''multipoint''), io_noise_control = (\<lambda>_. demo_log ''noise''),
      io_forget_key = (\<lambda>w. (w @ [''revoke''], Inr ())), io_sony = False, io_sony_noise = (\<lambda>w. (w, False)),
      io_sony_set_noise = (\<lambda>_. demo_log ''sony''), io_audio_policy = (\<lambda>_. demo_log ''audio''),
      io_adapter_name = ''hci0'', io_address = ''AA'', io_service_polls = 2, io_audio_attempts = 2\<rparr>"

definition demo_backend_io :: "(string list, nat) backend_io" where
  "demo_backend_io =
     \<lparr>bi_find_device = (\<lambda>_ w. (w, Inr ())),
      bi_policy = (\<lambda>_ _. \<lparr>dp_reconnect_on_resume = True, dp_trust_after_pair = True, dp_power_on_connect = True,
         dp_wait_for_services = False, dp_fast_pair_controls_enabled = True, dp_audio_route_on_connect = ''keep'',
         dp_preferred_audio_profile_key = None\<rparr>),
      bi_enable_controls = (\<lambda>_ w. (w, Inr ())), bi_changed = (\<lambda>w. w), bi_drop_cached = (\<lambda>_ w. w @ [''drop cached'']),
      bi_forget_presentation = (\<lambda>_ w. w @ [''forget presentation'']), bi_forget_policy = (\<lambda>_ w. w @ [''forget policy'']),
      bi_snapshot = (\<lambda>w. (w, Inr (List.length w))), bi_remember = (\<lambda>_ w. w @ [''remember''])\<rparr>"

lemmas demo_simps = demo_device_io_def demo_backend_io_def demo_step_def demo_log_def

subsection \<open>Removal\<close>

lemmas act_simps = act_bind_def act_then_def act_when_def act_return_def act_of_def act_do_def act_fail_def



subsection \<open>The audio policy after connecting\<close>

lemma policy_apply_retried_only_probes:
  assumes "policy_apply digest ops q w = (w', Inl e)" and "\<not> uncertain e"
  shows "w' = fst (ao_probe ops w)"
  using assms
  by (auto simp: policy_apply_def uncertain_def mutation_failed_def Let_def split: prod.splits sum.splits option.splits if_splits)

text \<open>
  C25. The audio policy is never replayed after a write may have happened. Attempts are repeated while the card is
  not ready, and all that the attempts before the last did was to probe PipeWire; the last attempt decides the
  result. An attempt whose write failed or is uncertain is the last, and without one the attempts go on until
  the deadline.
\<close>
theorem audio_policy_not_replayed:
  assumes "io_audio_policy io = policy_apply digest ops"
    and "audio_attempts io q n w = (w', r)"
  shows "\<exists>k \<le> n. \<exists>r0. policy_apply digest ops q (((\<lambda>w. fst (ao_probe ops w)) ^^ k) w) = (w', r0)
    \<and> r = (case r0 of Inr _ \<Rightarrow> Inr () | Inl e \<Rightarrow> Inl (Context ''apply Bluetooth per-device audio policy'' # e))
    \<and> (\<forall>e. r0 = Inl e \<and> \<not> uncertain e \<longrightarrow> k = n)"
  using assms(2)
proof (induction n arbitrary: w)
  case 0
  then show ?case using assms(1)
    by (cases "policy_apply digest ops q w") (auto simp: audio_attempts.simps split: sum.splits)
next
  case (Suc n)
  obtain w1 r1 where a: "policy_apply digest ops q w = (w1, r1)" by fastforce
  show ?case
  proof (cases "\<exists>e. r1 = Inl e \<and> \<not> uncertain e")
    case True
    then obtain e where e: "r1 = Inl e" "\<not> uncertain e" by blast
    then have "audio_attempts io q n w1 = (w', r)" using Suc.prems a assms(1) by (simp add: audio_attempts.simps [of io q "Suc n"])
    moreover have "w1 = fst (ao_probe ops w)" using policy_apply_retried_only_probes [OF _ e(2)] a e(1) by simp
    ultimately obtain k r0 where k: "k \<le> n"
        "policy_apply digest ops q (((\<lambda>w. fst (ao_probe ops w)) ^^ k) (fst (ao_probe ops w))) = (w', r0)"
        "r = (case r0 of Inr _ \<Rightarrow> Inr () | Inl e \<Rightarrow> Inl (Context ''apply Bluetooth per-device audio policy'' # e))"
        "\<forall>e. r0 = Inl e \<and> \<not> uncertain e \<longrightarrow> k = n"
      using Suc.IH by blast
    have "((\<lambda>w. fst (ao_probe ops w)) ^^ Suc k) w = ((\<lambda>w. fst (ao_probe ops w)) ^^ k) (fst (ao_probe ops w))"
      by (simp only: funpow_Suc_right comp_apply)
    then show ?thesis using k by (intro exI [of _ "Suc k"] conjI exI [of _ r0]) (simp_all only: Suc_le_mono simp_thms nat.inject)
  next
    case False
    have "(w', r) = (w1, case r1 of Inr _ \<Rightarrow> Inr () | Inl e \<Rightarrow> Inl (Context ''apply Bluetooth per-device audio policy'' # e))"
      using Suc.prems a False assms(1) by (auto simp: audio_attempts.simps [of io q "Suc n"] split: sum.splits)
    then show ?thesis using a False by (intro exI [of _ 0] conjI exI [of _ r1]) auto
  qed
qed

lemma audio_policy_not_replayed_witness:
  "\<exists>k \<le> 2. fst (audio_attempts (demo_device_io\<lparr>io_audio_policy := policy_apply (\<lambda>s. s)
      \<lparr>ao_probe = (\<lambda>w. (w @ [''probe''], Inr [])), ao_set_profile = (\<lambda>_ _ w. (w @ [''write''], Inr ())),
       ao_set_default_node = (\<lambda>_ _ w. (w @ [''write''], Inr (True, True)))\<rparr>\<rparr>)
      \<lparr>pq_device_key = ''k'', pq_adapter = ''hci0'', pq_address = ''AA'', pq_preferred_profile_key = None, pq_switch_output = True\<rparr>
      2 []) = ((\<lambda>w. w @ [''probe'']) ^^ Suc k) []"
  (is "\<exists>k \<le> 2. fst (audio_attempts ?io ?q 2 []) = _")
proof -
  let ?ops = "\<lparr>ao_probe = (\<lambda>w. (w @ [''probe''], Inr [])), ao_set_profile = (\<lambda>_ _ w. (w @ [''write''], Inr ())),
       ao_set_default_node = (\<lambda>_ _ w. (w @ [''write''], Inr (True, True)))\<rparr>"
  obtain w' r where run: "audio_attempts ?io ?q 2 [] = (w', r)" by fastforce
  have io: "io_audio_policy ?io = policy_apply (\<lambda>s. s) ?ops" by simp
  from audio_policy_not_replayed [OF io run] obtain k r0 where k: "k \<le> 2"
      "policy_apply (\<lambda>s. s) ?ops ?q (((\<lambda>w. fst (ao_probe ?ops w)) ^^ k) []) = (w', r0)"
    by blast
  then have "w' = ((\<lambda>w. w @ [''probe'']) ^^ Suc k) []"
    by (simp add: policy_apply_def find_device_def)
  then show ?thesis using k(1) run by (intro exI [of _ k]) simp
qed

text \<open>
  The registry documents \<open>wait_for_services\<close> among the parameters of pairing; pairing never looks at it.
\<close>
theorem pair_ignores_wait_for_services:
  assumes "json_get params ''trust_after_pair'' = json_get params' ''trust_after_pair''"
    and "json_get params ''fast_pair_anti_spoofing_public_key'' = json_get params' ''fast_pair_anti_spoofing_public_key''"
    and "json_get params ''power_on'' = json_get params' ''power_on''"
  shows "device_operation b io key DPair params = device_operation b io key DPair params'"
proof -
  have "pair_with_policy io params = pair_with_policy io params'"
    using assms(1,2) by (simp add: pair_with_policy_def optional_bool_def optional_string_def fun_eq_iff)
  then have run: "run_effect io params policy DPair = run_effect io params' policy DPair" for policy
    by (simp add: run_effect_def run_device_operation_def fun_eq_iff)
  have exec: "execute_plan (device_effects io key params policy) plan = execute_plan (device_effects io key params' policy) plan"
    if "pl_operation plan = DPair" for policy plan
    using that by (cases "pl_power_on plan") (simp_all add: execute_plan_def device_effects_def run)
  have plan: "plan_new DPair params policy = plan_new DPair params' policy" for policy
    using assms(3) by (simp add: plan_new_def optional_bool_def)
  have pairing: "pl_operation plan = DPair" if "plan_new DPair params' policy = Inr plan" for plan policy
    using that by (cases "checked (optional_bool params' ''power_on'')") (auto simp: plan_new_def)
  have body: "act_bind (act_of (plan_new DPair params policy)) (\<lambda>plan. act_then (execute_plan (device_effects io key params policy) plan) rest)
      = act_bind (act_of (plan_new DPair params' policy)) (\<lambda>plan. act_then (execute_plan (device_effects io key params' policy) plan) rest)"
    for policy and rest :: "('a, 'b) act"
    by (cases "plan_new DPair params' policy") (simp_all add: plan fun_eq_iff act_bind_def act_of_def exec pairing)
  show ?thesis
    by (intro ext) (simp add: device_operation_def Let_def body)
qed

lemma pair_ignores_wait_for_services_witness:
  "device_operation demo_backend_io demo_device_io ''k'' DPair (JObject [(''wait_for_services'', JBool True)]) []
     = device_operation demo_backend_io demo_device_io ''k'' DPair (JObject []) []
   \<and> ''resolving-services'' \<notin> set (fst (device_operation demo_backend_io demo_device_io ''k'' DPair (JObject []) []))"
proof -
  have "device_operation demo_backend_io demo_device_io ''k'' DPair (JObject [(''wait_for_services'', JBool True)])
      = device_operation demo_backend_io demo_device_io ''k'' DPair (JObject [])"
    by (rule pair_ignores_wait_for_services) simp_all
  moreover have "''resolving-services'' \<notin> set (fst (device_operation demo_backend_io demo_device_io ''k'' DPair (JObject []) []))"
    by code_simp
  ultimately show ?thesis by simp
qed

end
