(* ===== verification/Identity.thy ===== *)
theory Identity
  imports Model "HOL-Library.Multiset"
begin

text \<open>
  \<open>src/identity.rs\<close>: opaque device keys, kept in memory while a device is only discovered and on disk
  once it is paired, and the presentation remembered for a device. The thread that writes the registry is
  the subject of \<open>IdentityWriter\<close>.

  How an address prints (\<open>bluer\<close>'s \<open>Display\<close>) and the keys drawn from random UUIDs are parameters. A
  hash map's iteration order, which decides between equally old entries, is the order of the list.
\<close>

subsection \<open>Remembered presentation\<close>

record remembered =
  rm_icon :: "string option"
  rm_device_type :: "string option"
  rm_model_id :: "string option"
  rm_components :: "string list"
  rm_battery :: "battery list"

definition remembered_default :: remembered where
  "remembered_default = \<lparr>rm_icon = None, rm_device_type = None, rm_model_id = None, rm_components = [],
     rm_battery = []\<rparr>"

text \<open>\<open>char::is_whitespace\<close> on the characters of \<open>string\<close>.\<close>

definition is_whitespace :: "char \<Rightarrow> bool" where
  "is_whitespace c \<longleftrightarrow> (of_char c :: nat) \<in> {9, 10, 11, 12, 13, 32, 0x85, 0xa0}"

definition filled :: "string option \<Rightarrow> string option" where
  "filled v = (case v of None \<Rightarrow> None | Some t \<Rightarrow> if list_all is_whitespace t then None else Some t)"

definition update_text :: "string option \<Rightarrow> string option \<Rightarrow> string option \<times> bool" where
  "update_text target v =
     (let v' = filled v in if v' = None \<or> target = v' then (target, False) else (v', True))"

definition type_confidence :: "string \<Rightarrow> nat" where
  "type_confidence t =
     (if t = ''Earbuds'' then 3 else if t = ''Bluetooth device'' then 0
      else if t = ''Audio device'' then 1 else 2)"

definition remembered_type :: "remembered \<Rightarrow> string" where
  "remembered_type r =
     (case rm_device_type r of Some t \<Rightarrow> t | None \<Rightarrow> presentation_type (rm_icon r) (rm_battery r))"

definition resolved_type :: "remembered \<Rightarrow> string \<Rightarrow> string" where
  "resolved_type r observed =
     (if type_confidence (remembered_type r) < type_confidence observed then observed
      else remembered_type r)"

definition update_components :: "battery list \<Rightarrow> remembered \<Rightarrow> remembered \<times> bool" where
  "update_components battery r =
     (let observed = presentation_components battery in
      if observed = [] then (r, False)
      else
        let components = remdups_adj (sort_key presentation_component_order (rm_components r @ observed)) in
        if components = rm_components r then (r, False)
        else (r\<lparr>rm_components := components\<rparr>, True))"

definition update_battery :: "battery list \<Rightarrow> remembered \<Rightarrow> remembered \<times> bool" where
  "update_battery battery r =
     (if battery = [] \<or> rm_battery r = battery then (r, False) else (r\<lparr>rm_battery := battery\<rparr>, True))"

definition remembered_update ::
    "string option \<Rightarrow> string option \<Rightarrow> battery list \<Rightarrow> remembered \<Rightarrow> remembered \<times> bool" where
  "remembered_update icon0 model_id battery r0 =
     (let icon = filled icon0;
          resolved = resolved_type r0 (presentation_type icon battery);
          type_changed = (resolved \<noteq> ''Bluetooth device'' \<and> rm_device_type r0 \<noteq> Some resolved);
          r1 = (if type_changed then r0\<lparr>rm_device_type := Some resolved\<rparr> else r0);
          (i, icon_changed) = update_text (rm_icon r1) icon;
          (m, model_changed) = update_text (rm_model_id r1) model_id;
          (r2, components_changed) = update_components battery (r1\<lparr>rm_icon := i, rm_model_id := m\<rparr>);
          (r3, battery_changed) = update_battery battery r2
      in (r3, type_changed \<or> icon_changed \<or> model_changed \<or> components_changed \<or> battery_changed))"

record remembered_values =
  rv_icon :: "string option"
  rv_device_type :: string
  rv_model_id :: "string option"
  rv_components :: "string list"
  rv_battery :: "battery list"

definition values_of :: "remembered \<Rightarrow> remembered_values" where
  "values_of r = \<lparr>rv_icon = rm_icon r, rv_device_type = remembered_type r, rv_model_id = rm_model_id r,
     rv_components = rm_components r, rv_battery = rm_battery r\<rparr>"

subsection \<open>The registry\<close>

definition EPHEMERAL_LIMIT :: nat where "EPHEMERAL_LIMIT = 4096"

record registry =
  rg_adapters :: "(string, string) hmap"
  rg_devices :: "(string, string) hmap"
  rg_ephemeral :: "(string, string \<times> instant) hmap"
  rg_presentations :: "(string, remembered) hmap"

definition registry_default :: registry where
  "registry_default = \<lparr>rg_adapters = [], rg_devices = [], rg_ephemeral = [], rg_presentations = []\<rparr>"

definition device_identity :: "(address \<Rightarrow> string) \<Rightarrow> string \<Rightarrow> address \<Rightarrow> registry \<Rightarrow> string" where
  "device_identity fmt adapter a s =
     (case hm_get (rg_adapters s) adapter of None \<Rightarrow> adapter | Some stable_id \<Rightarrow> stable_id) @ '':'' @ fmt a"

fun oldest_seen :: "(string, string \<times> instant) hmap \<Rightarrow> string option" where
  "oldest_seen [] = None"
| "oldest_seen ((i, _, t) # m) =
     (case oldest_seen m of
        None \<Rightarrow> Some i
      | Some j \<Rightarrow> (case hm_get m j of
            None \<Rightarrow> Some i
          | Some (_, t') \<Rightarrow> if t \<le> t' then Some i else Some j))"

text \<open>\<open>RegistryFile::device_key\<close>; \<open>fresh\<close> is the key it would draw.\<close>

definition make_room :: "instant \<Rightarrow> (string, string \<times> instant) hmap \<Rightarrow> (string, string \<times> instant) hmap" where
  "make_room now m =
     (let live = hm_retain (\<lambda>_ (_, seen). elapsed now seen < secs 300) m in
      if EPHEMERAL_LIMIT \<le> length live
      then (case oldest_seen live of None \<Rightarrow> live | Some i \<Rightarrow> hm_remove i live)
      else live)"

definition registry_device_key :: "instant \<Rightarrow> string \<Rightarrow> string \<Rightarrow> registry \<Rightarrow> registry \<times> string" where
  "registry_device_key now fresh identity s =
     (case hm_get (rg_devices s) identity of
        Some key \<Rightarrow> (s, key)
      | None \<Rightarrow>
          (case hm_get (rg_ephemeral s) identity of
             Some (key, _) \<Rightarrow> (s\<lparr>rg_ephemeral := hm_insert identity (key, now) (rg_ephemeral s)\<rparr>, key)
           | None \<Rightarrow>
               (s\<lparr>rg_ephemeral := hm_insert identity (fresh, now) (make_room now (rg_ephemeral s))\<rparr>, fresh)))"

text \<open>\<open>entry(..).or_insert(..)\<close>\<close>

definition or_insert :: "string \<Rightarrow> string \<Rightarrow> (string, string) hmap \<Rightarrow> (string, string) hmap" where
  "or_insert k v m = (if hm_get m k = None then hm_insert k v m else m)"

definition migrate_legacy_devices :: "string \<Rightarrow> string \<Rightarrow> registry \<Rightarrow> registry" where
  "migrate_legacy_devices adapter stable_id s =
     (let prefix = adapter @ '':'';
          legacy = filter (\<lambda>(i, _). starts_with prefix i) (rg_devices s);
          kept = filter (\<lambda>(i, _). \<not> starts_with prefix i) (rg_devices s)
      in s\<lparr>rg_devices := foldl (\<lambda>m (i, key). or_insert (stable_id @ '':'' @ drop (length prefix) i) key m) kept legacy\<rparr>)"

text \<open>\<open>DeviceIdentityRegistry\<close>: the locked state, and the files handed to the writer.\<close>

record identities =
  id_state :: registry
  id_scheduled :: "registry list"

definition persist :: "identities \<Rightarrow> identities" where
  "persist s = s\<lparr>id_scheduled := id_scheduled s @ [(id_state s)\<lparr>rg_ephemeral := []\<rparr>]\<rparr>"

definition persist_if :: "bool \<Rightarrow> identities \<Rightarrow> identities" where
  "persist_if changed s = (if changed then persist s else s)"

definition register_adapter :: "string \<Rightarrow> string \<Rightarrow> identities \<Rightarrow> identities" where
  "register_adapter adapter stable_id s =
     (if hm_get (rg_adapters (id_state s)) adapter = Some stable_id then s
      else
        let first_registration = (hm_get (rg_adapters (id_state s)) adapter = None);
            r = (id_state s)\<lparr>rg_adapters := hm_insert adapter stable_id (rg_adapters (id_state s))\<rparr>
        in persist (s\<lparr>id_state := (if first_registration then migrate_legacy_devices adapter stable_id r else r)\<rparr>))"

definition device_key :: "(address \<Rightarrow> string) \<Rightarrow> instant \<Rightarrow> string \<Rightarrow> string \<Rightarrow> address \<Rightarrow> identities \<Rightarrow> identities \<times> string" where
  "device_key fmt now fresh adapter a s =
     (case registry_device_key now fresh (device_identity fmt adapter a (id_state s)) (id_state s) of
        (r, key) \<Rightarrow> (s\<lparr>id_state := r\<rparr>, key))"

definition promote_device :: "(address \<Rightarrow> string) \<Rightarrow> instant \<Rightarrow> string \<Rightarrow> string \<Rightarrow> address \<Rightarrow> identities \<Rightarrow> identities \<times> string" where
  "promote_device fmt now fresh adapter a s =
     (let identity = device_identity fmt adapter a (id_state s) in
      case registry_device_key now fresh identity (id_state s) of
        (r, key) \<Rightarrow>
          if hm_get (rg_ephemeral r) identity \<noteq> None
          then (persist (s\<lparr>id_state := r\<lparr>rg_ephemeral := hm_remove identity (rg_ephemeral r),
                  rg_devices := hm_insert identity key (rg_devices r)\<rparr>\<rparr>), key)
          else (s\<lparr>id_state := r\<rparr>, key))"

definition remember_presentation ::
    "string \<Rightarrow> string option \<Rightarrow> string option \<Rightarrow> battery list \<Rightarrow> identities \<Rightarrow> identities \<times> remembered_values" where
  "remember_presentation key icon model_id battery s =
     (let old = (case hm_get (rg_presentations (id_state s)) key of None \<Rightarrow> remembered_default | Some r \<Rightarrow> r) in
      case remembered_update icon model_id battery old of
        (new, changed) \<Rightarrow>
          (persist_if changed (s\<lparr>id_state := (id_state s)\<lparr>rg_presentations :=
              hm_insert key new (rg_presentations (id_state s))\<rparr>\<rparr>), values_of new))"

definition forget_presentation :: "string \<Rightarrow> identities \<Rightarrow> identities" where
  "forget_presentation key s =
     persist_if (hm_get (rg_presentations (id_state s)) key \<noteq> None)
       (s\<lparr>id_state := (id_state s)\<lparr>rg_presentations := hm_remove key (rg_presentations (id_state s))\<rparr>\<rparr>)"

datatype identity_event =
    RegisterAdapter string string
  | DeviceKey instant string string address
  | PromoteDevice instant string string address
  | RememberPresentation string "string option" "string option" "battery list"
  | ForgetPresentation string

fun identity_step :: "(address \<Rightarrow> string) \<Rightarrow> identity_event \<Rightarrow> identities \<Rightarrow> identities" where
  "identity_step fmt (RegisterAdapter adapter stable_id) s = register_adapter adapter stable_id s"
| "identity_step fmt (DeviceKey now fresh adapter a) s = fst (device_key fmt now fresh adapter a s)"
| "identity_step fmt (PromoteDevice now fresh adapter a) s = fst (promote_device fmt now fresh adapter a s)"
| "identity_step fmt (RememberPresentation key icon model_id battery) s =
     fst (remember_presentation key icon model_id battery s)"
| "identity_step fmt (ForgetPresentation key) s = forget_presentation key s"

subsection \<open>What the presentation remembers\<close>

lemma update_text_result: "update_text t v = (t', c) \<Longrightarrow> c = (t' \<noteq> t)"
  by (auto simp: update_text_def Let_def split: if_splits)

lemma update_components_result:
  "update_components b r = (r', c) \<Longrightarrow> c = (r' \<noteq> r) \<and> r' = r\<lparr>rm_components := rm_components r'\<rparr>"
  by (cases r) (auto simp: update_components_def Let_def split: if_splits)

lemma update_battery_result:
  "update_battery b r = (r', c) \<Longrightarrow> c = (r' \<noteq> r) \<and> r' = r\<lparr>rm_battery := rm_battery r'\<rparr>"
  by (cases r) (auto simp: update_battery_def split: if_splits)

lemma remembered_update_fields:
  assumes "remembered_update icon model_id battery r = (r', changed)"
  obtains resolved where "resolved = resolved_type r (presentation_type (filled icon) battery)"
    and "rm_device_type r' = (if resolved \<noteq> ''Bluetooth device'' then Some resolved else rm_device_type r)"
    and "rm_icon r' = fst (update_text (rm_icon r) (filled icon))"
    and "rm_model_id r' = fst (update_text (rm_model_id r) model_id)"
    and "rm_components r' = rm_components (fst (update_components battery r))"
    and "rm_battery r' = rm_battery (fst (update_battery battery r))"
    and "changed = (r' \<noteq> r)"
proof -
  let ?resolved = "resolved_type r (presentation_type (filled icon) battery)"
  obtain i ic where i: "update_text (rm_icon r) (filled icon) = (i, ic)" by force
  obtain m mc where m: "update_text (rm_model_id r) model_id = (m, mc)" by force
  note u = assms [unfolded remembered_update_def]
  have "r' = \<lparr>rm_icon = i,
      rm_device_type = (if ?resolved \<noteq> ''Bluetooth device'' then Some ?resolved else rm_device_type r),
      rm_model_id = m, rm_components = rm_components (fst (update_components battery r)),
      rm_battery = rm_battery (fst (update_battery battery r))\<rparr> \<and> changed = (r' \<noteq> r)"
    using u i m update_text_result [OF i] update_text_result [OF m]
    by (cases r) (auto simp: Let_def update_components_def update_battery_def split: if_splits)
  then show ?thesis using that [of ?resolved] i m by auto
qed

lemma resolved_confidence:
  "type_confidence (resolved_type r t) = max (type_confidence (remembered_type r)) (type_confidence t)"
  by (simp add: resolved_type_def)

lemma update_components_keeps:
  "set (rm_components r) \<union> set (presentation_components battery)
     \<subseteq> set (rm_components (fst (update_components battery r)))"
proof (cases "presentation_components battery = []")
  case False
  let ?new = "remdups_adj (sort_key presentation_component_order (rm_components r @ presentation_components battery))"
  have "set ?new = set (rm_components r) \<union> set (presentation_components battery)" by simp
  then show ?thesis using False by (cases "?new = rm_components r") (simp_all add: update_components_def Let_def)
qed (simp add: update_components_def)

text \<open>
  Remembered presentation only learns: an update says that something changed exactly when it did (and
  so is saved exactly then); the shown device type is never less certain than before or than what was
  just observed; and no component, icon or model seen once is forgotten.
\<close>

theorem presentation_only_learns:
  assumes "remembered_update icon model_id battery r = (r', changed)"
  shows "changed = (r' \<noteq> r)
    \<and> max (type_confidence (remembered_type r)) (type_confidence (presentation_type (filled icon) battery))
        \<le> type_confidence (remembered_type r')
    \<and> set (rm_components r) \<union> set (presentation_components battery) \<subseteq> set (rm_components r')
    \<and> (rm_icon r \<noteq> None \<longrightarrow> rm_icon r' \<noteq> None) \<and> (rm_model_id r \<noteq> None \<longrightarrow> rm_model_id r' \<noteq> None)"
proof -
  obtain resolved where r: "resolved = resolved_type r (presentation_type (filled icon) battery)"
    "rm_device_type r' = (if resolved \<noteq> ''Bluetooth device'' then Some resolved else rm_device_type r)"
    "rm_icon r' = fst (update_text (rm_icon r) (filled icon))"
    "rm_model_id r' = fst (update_text (rm_model_id r) model_id)"
    "rm_components r' = rm_components (fst (update_components battery r))" "changed = (r' \<noteq> r)"
    using remembered_update_fields [OF assms] by metis
  have "type_confidence resolved \<le> type_confidence (remembered_type r')"
    using r(2) by (cases "resolved = ''Bluetooth device''") (simp_all add: remembered_type_def type_confidence_def)
  then show ?thesis
    using r update_components_keeps [of r battery] resolved_confidence
    by (auto simp: update_text_def Let_def)
qed

theorem presentation_only_learns_witness:
  "3 \<le> type_confidence (remembered_type (fst (remembered_update (Some ''audio-headphones'') None [bluez_aggregate 79]
      (remembered_default\<lparr>rm_device_type := Some ''Earbuds'', rm_components := [''left'']\<rparr>))))"
proof -
  let ?r = "remembered_default\<lparr>rm_device_type := Some ''Earbuds'', rm_components := [''left'']\<rparr>"
  obtain r' c where u: "remembered_update (Some ''audio-headphones'') None [bluez_aggregate 79] ?r = (r', c)" by force
  show ?thesis
    using presentation_only_learns [OF u] u by (simp add: remembered_type_def type_confidence_def)
qed

subsection \<open>Keys\<close>

definition keys_of :: "registry \<Rightarrow> string list" where
  "keys_of s = map snd (rg_devices s) @ map (fst \<circ> snd) (rg_ephemeral s)"

definition registry_inv :: "registry \<Rightarrow> bool" where
  "registry_inv s \<longleftrightarrow> hm_ok (rg_devices s) \<and> hm_ok (rg_ephemeral s) \<and> distinct (keys_of s)
     \<and> length (rg_ephemeral s) \<le> EPHEMERAL_LIMIT"

lemma oldest_seen_in: "m \<noteq> [] \<Longrightarrow> \<exists>i. oldest_seen m = Some i \<and> i \<in> fst ` set m"
  by (induction m rule: oldest_seen.induct) (force split: option.splits prod.splits)+

lemma hm_insert_new: "hm_get m k = None \<Longrightarrow> hm_insert k v m = m @ [(k, v)]"
  by (induction m) (auto simp: hm_defs split: if_splits)

lemma hm_insert_same: "hm_get m k = Some v \<Longrightarrow> hm_insert k v m = m"
  by (induction m) (auto simp: hm_defs split: if_splits)

lemma hm_insert_touch:
  "hm_get m k = Some (x, t) \<Longrightarrow> map (fst \<circ> snd) (hm_insert k (x, t') m) = map (fst \<circ> snd) m"
  by (induction m) (auto simp: hm_defs split: if_splits)

lemma hm_remove_mset:
  assumes "hm_ok m" and "hm_get m k = Some v"
  shows "mset m = add_mset (k, v) (mset (hm_remove k m))"
  using assms
proof (induction m)
  case (Cons a m)
  show ?case
  proof (cases "fst a = k")
    case True
    then have "k \<notin> fst ` set m" using Cons.prems by (auto simp: hm_ok_def)
    then have "hm_remove k m = m" by (simp add: hm_remove_def delete_idem)
    with True Cons.prems show ?thesis by (cases a) (simp add: hm_defs)
  next
    case False
    with Cons show ?thesis by (cases a) (simp add: hm_defs)
  qed
qed (simp add: hm_get_def)

lemma hm_remove_subset: "mset (hm_remove k m) \<subseteq># mset m"
  by (simp add: hm_remove_def AList.delete_eq multiset_filter_subset)

lemma distinct_submset:
  assumes "mset xs \<subseteq># mset ys" and "distinct ys"
  shows "distinct xs"
proof -
  obtain zs where "mset ys = mset (xs @ zs)"
    using assms(1) ex_mset by (metis mset_append mset_subset_eq_exists_conv)
  then show ?thesis using assms(2) mset_eq_imp_distinct_iff by (metis distinct_append)
qed

lemma make_room:
  assumes "hm_ok m" and "length m \<le> EPHEMERAL_LIMIT"
  shows "length (make_room now m) < EPHEMERAL_LIMIT" and "hm_ok (make_room now m)"
    and "mset (make_room now m) \<subseteq># mset m"
proof -
  let ?live = "hm_retain (\<lambda>_ (_, seen). elapsed now seen < secs 300) m"
  have live: "hm_ok ?live" "length ?live \<le> EPHEMERAL_LIMIT" "mset ?live \<subseteq># mset m"
    using hm_ok_retain [OF assms(1)] order_trans [OF hm_length_retain_le assms(2)]
    by (simp_all add: hm_retain_def multiset_filter_subset)
  show "hm_ok (make_room now m)"
    using live(1) by (simp add: make_room_def Let_def split: option.split)
  show "mset (make_room now m) \<subseteq># mset m"
    using live(3) hm_remove_subset [of _ ?live] by (auto simp: make_room_def Let_def intro: subset_mset.order_trans split: option.split)
  show "length (make_room now m) < EPHEMERAL_LIMIT"
  proof (cases "EPHEMERAL_LIMIT \<le> length ?live")
    case True
    then have "?live \<noteq> []" by (auto simp: EPHEMERAL_LIMIT_def)
    then obtain i where i: "oldest_seen ?live = Some i" "hm_get ?live i \<noteq> None"
      using oldest_seen_in [of ?live] by (auto simp: hm_get_None_notin)
    then show ?thesis
      using hm_length_remove [OF live(1) i(2)] live(2) True by (simp add: make_room_def Let_def)
  qed (simp add: make_room_def Let_def)
qed

lemma registry_device_key_spec:
  assumes "registry_inv s" and "fresh \<notin> set (keys_of s)" and "registry_device_key now fresh i s = (s', key)"
  shows "registry_inv s'" and "set (keys_of s') \<subseteq> insert fresh (set (keys_of s))"
    and "rg_devices s' = rg_devices s" and "rg_adapters s' = rg_adapters s"
    and "(hm_get (rg_devices s') i = Some key) \<or> (hm_get (rg_devices s') i = None \<and> (\<exists>t. hm_get (rg_ephemeral s') i = Some (key, t)))"
proof -
  have inv: "hm_ok (rg_devices s)" "hm_ok (rg_ephemeral s)" "distinct (keys_of s)"
      "length (rg_ephemeral s) \<le> EPHEMERAL_LIMIT"
    using assms(1) by (simp_all add: registry_inv_def)
  have "registry_inv s' \<and> set (keys_of s') \<subseteq> insert fresh (set (keys_of s)) \<and> rg_devices s' = rg_devices s
    \<and> rg_adapters s' = rg_adapters s \<and> ((hm_get (rg_devices s') i = Some key)
      \<or> (hm_get (rg_devices s') i = None \<and> (\<exists>t. hm_get (rg_ephemeral s') i = Some (key, t))))"
  proof (cases "hm_get (rg_devices s) i")
    case (Some k)
    then show ?thesis using assms by (auto simp: registry_device_key_def)
  next
    case none: None
    show ?thesis
    proof (cases "hm_get (rg_ephemeral s) i")
      case (Some e)
      obtain k t where e: "e = (k, t)" by force
      have s': "s' = s\<lparr>rg_ephemeral := hm_insert i (k, now) (rg_ephemeral s)\<rparr>" "key = k"
        using assms(3) none Some e by (auto simp: registry_device_key_def)
      have "keys_of s' = keys_of s" using s' Some e hm_insert_touch [of "rg_ephemeral s" i k t now] by (simp add: keys_of_def)
      then show ?thesis using s' inv none Some by (simp add: registry_inv_def hm_length_insert subset_insertI)
    next
      case None
      let ?m = "make_room now (rg_ephemeral s)"
      note room = make_room [OF inv(2,4), of now]
      have s': "s' = s\<lparr>rg_ephemeral := hm_insert i (fresh, now) ?m\<rparr>" "key = fresh"
        using assms(3) none None by (auto simp: registry_device_key_def)
      have sub: "mset (map (fst \<circ> snd) ?m) \<subseteq># mset (map (fst \<circ> snd) (rg_ephemeral s))"
        using image_mset_subseteq_mono [OF room(3)] by simp
      have "set ?m \<subseteq> set (rg_ephemeral s)" using set_mset_mono [OF room(3)] by simp
      then have "i \<notin> fst ` set ?m" using None by (auto simp: hm_get_None_notin)
      then have keys: "keys_of s' = map snd (rg_devices s) @ map (fst \<circ> snd) ?m @ [fresh]"
        using s' by (simp add: keys_of_def hm_insert_new hm_get_None_notin)
      have ms: "mset (keys_of s') \<subseteq># add_mset fresh (mset (keys_of s))"
        unfolding keys using sub by (simp add: keys_of_def)
      moreover have "distinct (fresh # keys_of s)" using inv(3) assms(2) by simp
      ultimately have "distinct (keys_of s')" using distinct_submset [of "keys_of s'" "fresh # keys_of s"] by simp
      moreover have "set (keys_of s') \<subseteq> insert fresh (set (keys_of s))" using set_mset_mono [OF ms] by simp
      ultimately have "distinct (keys_of s')" "set (keys_of s') \<subseteq> insert fresh (set (keys_of s))" by simp_all
      then show ?thesis using s' inv room none by (simp add: registry_inv_def hm_length_insert)
    qed
  qed
  then show "registry_inv s'" and "set (keys_of s') \<subseteq> insert fresh (set (keys_of s))"
    and "rg_devices s' = rg_devices s" and "rg_adapters s' = rg_adapters s"
    and "(hm_get (rg_devices s') i = Some key) \<or> (hm_get (rg_devices s') i = None \<and> (\<exists>t. hm_get (rg_ephemeral s') i = Some (key, t)))"
    by blast+
qed

lemma or_insert_keys:
  "mset (map snd (or_insert k v m)) \<subseteq># add_mset v (mset (map snd m))" "hm_ok m \<Longrightarrow> hm_ok (or_insert k v m)"
  by (simp add: or_insert_def hm_insert_new) (simp add: or_insert_def)

lemma or_insert_fold:
  "hm_ok m \<Longrightarrow> hm_ok (foldl (\<lambda>m (i, key). or_insert (f i) key m) m ls)
    \<and> mset (map snd (foldl (\<lambda>m (i, key). or_insert (f i) key m) m ls)) \<subseteq># mset (map snd m) + mset (map snd ls)"
proof (induction ls arbitrary: m)
  case (Cons l ls)
  obtain i key where l: "l = (i, key)" by force
  have "mset (map snd (or_insert (f i) key m)) + mset (map snd ls) \<subseteq># mset (map snd m) + mset (map snd (l # ls))"
    using or_insert_keys(1) [of "f i" key m] l by simp
  then show ?case
    using Cons.IH [OF or_insert_keys(2) [OF Cons.prems], of "f i" key] l by (auto intro: subset_mset.order_trans)
qed simp

lemma filter_split_mset: "mset (map f (filter (\<lambda>x. \<not> P x) xs)) + mset (map f (filter P xs)) = mset (map f xs)"
  by (induction xs) simp_all

lemma migrate_keys:
  assumes "registry_inv s"
  shows "registry_inv (migrate_legacy_devices adapter stable_id s)"
    and "set (keys_of (migrate_legacy_devices adapter stable_id s)) \<subseteq> set (keys_of s)"
proof -
  let ?p = "\<lambda>(i, _). starts_with (adapter @ '':'') i"
  let ?s' = "migrate_legacy_devices adapter stable_id s"
  have ok: "hm_ok (filter (\<lambda>x. \<not> ?p x) (rg_devices s))"
    using assms hm_ok_retain [of "rg_devices s" "\<lambda>i _. \<not> starts_with (adapter @ '':'') i"]
    by (simp add: registry_inv_def hm_retain_def case_prod_unfold)
  have split: "mset (map snd (filter (\<lambda>x. \<not> ?p x) (rg_devices s))) + mset (map snd (filter ?p (rg_devices s)))
      = mset (map snd (rg_devices s))"
    by (rule filter_split_mset)
  have s': "rg_devices ?s' = foldl (\<lambda>m (i, key). or_insert (stable_id @ '':'' @ drop (length (adapter @ '':'')) i) key m)
      (filter (\<lambda>x. \<not> ?p x) (rg_devices s)) (filter ?p (rg_devices s))" "rg_ephemeral ?s' = rg_ephemeral s"
    by (simp_all add: migrate_legacy_devices_def case_prod_unfold Let_def)
  have f: "hm_ok (rg_devices ?s')" "mset (map snd (rg_devices ?s')) \<subseteq># mset (map snd (rg_devices s))"
    using or_insert_fold [OF ok, of "\<lambda>i. stable_id @ '':'' @ drop (length (adapter @ '':'')) i" "filter ?p (rg_devices s)"]
    unfolding s'(1) split by blast+
  then have sub: "mset (keys_of ?s') \<subseteq># mset (keys_of s)" using s'(2) by (simp add: keys_of_def)
  then have "distinct (keys_of ?s')"
    using assms distinct_submset by (auto simp: registry_inv_def)
  then show "registry_inv ?s'" using f(1) s'(2) assms by (simp add: registry_inv_def)
  show "set (keys_of ?s') \<subseteq> set (keys_of s)" using set_mset_mono [OF sub] by simp
qed

lemma promote_spec:
  assumes "registry_inv (id_state s)" and "fresh \<notin> set (keys_of (id_state s))"
    and "promote_device fmt now fresh adapter a s = (s', key)"
  shows "registry_inv (id_state s')" and "set (keys_of (id_state s')) \<subseteq> insert fresh (set (keys_of (id_state s)))"
proof -
  let ?i = "device_identity fmt adapter a (id_state s)"
  obtain r k where r: "registry_device_key now fresh ?i (id_state s) = (r, k)" by force
  note spec = registry_device_key_spec [OF assms(1,2) r]
  let ?r' = "r\<lparr>rg_ephemeral := hm_remove ?i (rg_ephemeral r), rg_devices := hm_insert ?i k (rg_devices r)\<rparr>"
  have inv: "hm_ok (rg_devices r)" "hm_ok (rg_ephemeral r)" "distinct (keys_of r)"
      "length (rg_ephemeral r) \<le> EPHEMERAL_LIMIT"
    using spec(1) by (simp_all add: registry_inv_def)
  have sub: "mset (keys_of ?r') \<subseteq># mset (keys_of r)" if "hm_get (rg_ephemeral r) ?i \<noteq> None"
  proof (cases "hm_get (rg_devices r) ?i = Some k")
    case True
    then show ?thesis
      using image_mset_subseteq_mono [OF hm_remove_subset [of ?i "rg_ephemeral r"], of "fst \<circ> snd"]
      by (simp add: keys_of_def hm_insert_same)
  next
    case False
    then obtain t where t: "hm_get (rg_devices r) ?i = None" "hm_get (rg_ephemeral r) ?i = Some (k, t)"
      using spec(5) by blast
    have "mset (map (fst \<circ> snd) (rg_ephemeral r)) = add_mset k (mset (map (fst \<circ> snd) (hm_remove ?i (rg_ephemeral r))))"
      using arg_cong [OF hm_remove_mset [OF inv(2) t(2)], of "image_mset (fst \<circ> snd)"] by simp
    then show ?thesis using t(1) by (simp add: keys_of_def hm_insert_new)
  qed
  have "registry_inv (id_state s') \<and> set (keys_of (id_state s')) \<subseteq> set (keys_of r)"
  proof (cases "hm_get (rg_ephemeral r) ?i = None")
    case True
    then show ?thesis using assms(3) r spec(1) by (auto simp: promote_device_def)
  next
    case False
    then have s': "id_state s' = ?r'" using assms(3) r by (auto simp: promote_device_def persist_def Let_def)
    have "distinct (keys_of ?r')" by (rule distinct_submset [OF sub [OF False] inv(3)])
    then show ?thesis
      using s' inv set_mset_mono [OF sub [OF False]] order_trans [OF hm_length_remove_le inv(4)]
      by (simp add: registry_inv_def)
  qed
  then show "registry_inv (id_state s')" and "set (keys_of (id_state s')) \<subseteq> insert fresh (set (keys_of (id_state s)))"
    using spec(2) by blast+
qed

fun fresh_keys :: "identity_event \<Rightarrow> string list" where
  "fresh_keys (DeviceKey now fresh adapter a) = [fresh]"
| "fresh_keys (PromoteDevice now fresh adapter a) = [fresh]"
| "fresh_keys _ = []"

lemma registry_inv_other:
  "registry_inv (r\<lparr>rg_adapters := x\<rparr>) = registry_inv r" "registry_inv (r\<lparr>rg_presentations := y\<rparr>) = registry_inv r"
  "keys_of (r\<lparr>rg_adapters := x\<rparr>) = keys_of r" "keys_of (r\<lparr>rg_presentations := y\<rparr>) = keys_of r"
  by (simp_all add: registry_inv_def keys_of_def)

lemma identity_step_inv:
  assumes "registry_inv (id_state s)" and "set (fresh_keys e) \<inter> set (keys_of (id_state s)) = {}"
  shows "registry_inv (id_state (identity_step fmt e s))
    \<and> set (keys_of (id_state (identity_step fmt e s))) \<subseteq> set (fresh_keys e) \<union> set (keys_of (id_state s))"
proof (cases e)
  case (RegisterAdapter adapter stable_id)
  let ?r = "(id_state s)\<lparr>rg_adapters := hm_insert adapter stable_id (rg_adapters (id_state s))\<rparr>"
  have "registry_inv ?r" using assms(1) by (simp add: registry_inv_other)
  note m = migrate_keys [OF this, of adapter stable_id]
  show ?thesis
    using RegisterAdapter assms(1) m by (auto simp: register_adapter_def persist_def Let_def registry_inv_other)
next
  case (DeviceKey now fresh adapter a)
  obtain r k where r: "registry_device_key now fresh (device_identity fmt adapter a (id_state s)) (id_state s) = (r, k)"
    by force
  then show ?thesis
    using registry_device_key_spec(1,2) [OF assms(1) _ r] assms(2) DeviceKey by (auto simp: device_key_def)
next
  case (PromoteDevice now fresh adapter a)
  obtain s' k where p: "promote_device fmt now fresh adapter a s = (s', k)" by force
  then show ?thesis using promote_spec [OF assms(1) _ p] assms(2) PromoteDevice by auto
next
  case (RememberPresentation key icon model_id battery)
  then show ?thesis
    using assms(1) by (auto simp: remember_presentation_def persist_if_def persist_def Let_def registry_inv_other split: prod.split)
next
  case (ForgetPresentation key)
  then show ?thesis using assms(1) by (auto simp: forget_presentation_def persist_if_def persist_def registry_inv_other)
qed

lemma identity_run_inv:
  assumes "registry_inv (id_state s)" and "distinct (concat (map fresh_keys es))"
    and "set (concat (map fresh_keys es)) \<inter> set (keys_of (id_state s)) = {}"
  shows "registry_inv (id_state (fold (identity_step fmt) es s))"
  using assms
proof (induction es arbitrary: s)
  case (Cons e es)
  have "set (fresh_keys e) \<inter> set (keys_of (id_state s)) = {}" using Cons.prems(3) by auto
  note step = identity_step_inv [OF Cons.prems(1) this, of fmt]
  have "set (concat (map fresh_keys es)) \<inter> set (keys_of (id_state (identity_step fmt e s))) = {}"
    using step Cons.prems(2,3) by fastforce
  then show ?case using Cons.IH [of "identity_step fmt e s"] step Cons.prems(2) by simp
qed simp

definition identities_new :: identities where
  "identities_new = \<lparr>id_state = registry_default, id_scheduled = []\<rparr>"

text \<open>C16.
  Whatever happens to the registry, including the migration of old entries when an adapter is
  registered, two device identities never share a key as long as the drawn keys are distinct, and at
  most \<open>EPHEMERAL_LIMIT\<close> merely discovered devices are remembered.
\<close>

theorem device_keys_unambiguous:
  assumes "distinct (concat (map fresh_keys es))"
  shows "distinct (keys_of (id_state (fold (identity_step fmt) es identities_new)))
    \<and> length (rg_ephemeral (id_state (fold (identity_step fmt) es identities_new))) \<le> EPHEMERAL_LIMIT"
proof -
  have "registry_inv (id_state (fold (identity_step fmt) es identities_new))"
    using assms by (intro identity_run_inv) (simp_all add: identities_new_def registry_default_def registry_inv_def keys_of_def)
  then show ?thesis by (simp add: registry_inv_def)
qed

theorem device_keys_unambiguous_witness:
  "distinct (keys_of (id_state (fold (identity_step (\<lambda>_. ''AA''))
      [DeviceKey 0 ''device-1'' ''hci0'' [1], PromoteDevice 5 ''device-2'' ''hci0'' [1], RegisterAdapter ''hci0'' ''00'',
       DeviceKey 7 ''device-3'' ''hci0'' [1]] identities_new)))"
  by (rule device_keys_unambiguous [THEN conjunct1]) simp

subsection \<open>Stability and privacy\<close>

fun is_registration :: "identity_event \<Rightarrow> bool" where
  "is_registration (RegisterAdapter adapter stable_id) = True"
| "is_registration _ = False"

definition promoted :: "(address \<Rightarrow> string) \<Rightarrow> registry \<Rightarrow> identity_event list \<Rightarrow> string set" where
  "promoted fmt r es = {device_identity fmt adapter a r | now fresh adapter a. PromoteDevice now fresh adapter a \<in> set es}"

lemma registry_device_key_frame:
  "rg_devices (fst (registry_device_key now fresh i r)) = rg_devices r"
  "rg_adapters (fst (registry_device_key now fresh i r)) = rg_adapters r"
  "hm_get (rg_devices r) i = Some k \<Longrightarrow> snd (registry_device_key now fresh i r) = k"
  by (auto simp: registry_device_key_def split: option.split)

text \<open>Every operation but a registration extends the durable devices by the promoted one, if any.\<close>

lemma identity_step_devices:
  assumes "\<not> is_registration e" and "identity_step fmt e s = s'"
  shows "rg_adapters (id_state s') = rg_adapters (id_state s)"
    and "hm_get (rg_devices (id_state s)) i = Some k \<Longrightarrow> hm_get (rg_devices (id_state s')) i = Some k"
    and "hm_get (rg_devices (id_state s')) i \<noteq> None \<Longrightarrow>
      hm_get (rg_devices (id_state s)) i \<noteq> None \<or> i \<in> promoted fmt (id_state s) [e]"
    and "id_scheduled s' = id_scheduled s \<or> id_scheduled s' = id_scheduled s @ [(id_state s')\<lparr>rg_ephemeral := []\<rparr>]"
proof -
  have "rg_adapters (id_state s') = rg_adapters (id_state s)
    \<and> (hm_get (rg_devices (id_state s)) i = Some k \<longrightarrow> hm_get (rg_devices (id_state s')) i = Some k)
    \<and> (hm_get (rg_devices (id_state s')) i \<noteq> None \<longrightarrow>
      hm_get (rg_devices (id_state s)) i \<noteq> None \<or> i \<in> promoted fmt (id_state s) [e])
    \<and> (id_scheduled s' = id_scheduled s \<or> id_scheduled s' = id_scheduled s @ [(id_state s')\<lparr>rg_ephemeral := []\<rparr>])"
  proof (cases e)
    case (RegisterAdapter adapter stable_id)
    with assms(1) show ?thesis by simp
  next
    case (DeviceKey now fresh adapter a)
    then have "s' = s\<lparr>id_state := fst (registry_device_key now fresh (device_identity fmt adapter a (id_state s)) (id_state s))\<rparr>"
      using assms(2) by (auto simp: device_key_def case_prod_beta)
    then show ?thesis by (simp add: registry_device_key_frame)
  next
    case (PromoteDevice now fresh adapter a)
    let ?i = "device_identity fmt adapter a (id_state s)"
    obtain r key where r: "registry_device_key now fresh ?i (id_state s) = (r, key)" by force
    have f: "rg_devices r = rg_devices (id_state s)" "rg_adapters r = rg_adapters (id_state s)"
        "hm_get (rg_devices (id_state s)) ?i = Some k \<Longrightarrow> key = k" for k
      using registry_device_key_frame [where now = now and fresh = fresh and i = ?i and r = "id_state s"] r by auto
    have "?i \<in> promoted fmt (id_state s) [e]" using PromoteDevice by (auto simp: promoted_def)
    then show ?thesis
      using PromoteDevice assms(2) r f by (auto simp: promote_device_def persist_def Let_def split: if_splits)
  next
    case (RememberPresentation key icon model_id battery)
    then show ?thesis
      using assms(2) by (auto simp: remember_presentation_def persist_if_def persist_def Let_def split: prod.splits if_splits)
  next
    case (ForgetPresentation key)
    then show ?thesis using assms(2) by (auto simp: forget_presentation_def persist_if_def persist_def split: if_splits)
  qed
  then show "rg_adapters (id_state s') = rg_adapters (id_state s)"
    and "hm_get (rg_devices (id_state s)) i = Some k \<Longrightarrow> hm_get (rg_devices (id_state s')) i = Some k"
    and "hm_get (rg_devices (id_state s')) i \<noteq> None \<Longrightarrow>
      hm_get (rg_devices (id_state s)) i \<noteq> None \<or> i \<in> promoted fmt (id_state s) [e]"
    and "id_scheduled s' = id_scheduled s \<or> id_scheduled s' = id_scheduled s @ [(id_state s')\<lparr>rg_ephemeral := []\<rparr>]"
    by blast+
qed

lemma promoted_same_adapters:
  "rg_adapters r' = rg_adapters r \<Longrightarrow> promoted fmt r' es = promoted fmt r es"
  by (simp add: promoted_def device_identity_def)

lemma promoted_Cons: "promoted fmt r (e # es) = promoted fmt r [e] \<union> promoted fmt r es"
  by (auto simp: promoted_def)

lemma identity_run_devices:
  assumes "\<forall>e \<in> set es. \<not> is_registration e"
  shows "rg_adapters (id_state (fold (identity_step fmt) es s)) = rg_adapters (id_state s)
    \<and> (hm_get (rg_devices (id_state s)) i = Some k \<longrightarrow> hm_get (rg_devices (id_state (fold (identity_step fmt) es s))) i = Some k)"
  using assms
proof (induction es arbitrary: s)
  case (Cons e es)
  have "\<not> is_registration e" using Cons.prems by simp
  note step = identity_step_devices(1,2) [OF this refl, where fmt = fmt and s = s]
  show ?case using Cons.IH [of "identity_step fmt e s"] Cons.prems step(1) step(2) [of i k] by auto
qed simp

lemma promote_durable:
  assumes "promote_device fmt now fresh adapter a s = (s', key)"
  shows "hm_get (rg_devices (id_state s')) (device_identity fmt adapter a (id_state s)) = Some key"
    and "rg_adapters (id_state s') = rg_adapters (id_state s)"
    and "key = snd (device_key fmt now fresh adapter a s)"
    and "id_scheduled s' = id_scheduled s @ [(id_state s')\<lparr>rg_ephemeral := []\<rparr>] \<or>
      id_scheduled s' = id_scheduled s \<and> hm_get (rg_devices (id_state s)) (device_identity fmt adapter a (id_state s)) = Some key"
proof -
  let ?i = "device_identity fmt adapter a (id_state s)"
  obtain r k where r: "registry_device_key now fresh ?i (id_state s) = (r, k)" by force
  have f: "rg_devices r = rg_devices (id_state s)" "rg_adapters r = rg_adapters (id_state s)"
      "hm_get (rg_ephemeral r) ?i = None \<longrightarrow> hm_get (rg_devices (id_state s)) ?i = Some k"
    using registry_device_key_frame [where now = now and fresh = fresh and i = ?i and r = "id_state s"] r
    by (auto simp: registry_device_key_def split: option.splits)
  show "hm_get (rg_devices (id_state s')) ?i = Some key"
    and "rg_adapters (id_state s') = rg_adapters (id_state s)"
    and "key = snd (device_key fmt now fresh adapter a s)"
    and "id_scheduled s' = id_scheduled s @ [(id_state s')\<lparr>rg_ephemeral := []\<rparr>] \<or>
      id_scheduled s' = id_scheduled s \<and> hm_get (rg_devices (id_state s)) ?i = Some key"
    using assms r f
    by (cases "hm_get (rg_ephemeral r) ?i = None"; auto simp: promote_device_def persist_def device_key_def Let_def)+
qed

text \<open>
  Pairing makes a device's key permanent: promotion returns the key the device already had, hands it
  to the writer (unless it was durable before), and every later lookup returns the same key, whatever
  is discovered, promoted, remembered or forgotten in between.
\<close>

theorem promoted_key_is_stable:
  assumes "promote_device fmt now fresh adapter a s = (s', key)"
    and "\<forall>e \<in> set es. \<not> is_registration e"
  shows "key = snd (device_key fmt now fresh adapter a s)
    \<and> snd (device_key fmt now' fresh' adapter a (fold (identity_step fmt) es s')) = key
    \<and> (hm_get (rg_devices (id_state s)) (device_identity fmt adapter a (id_state s)) = Some key
       \<or> hm_get (rg_devices (last (id_scheduled s'))) (device_identity fmt adapter a (id_state s)) = Some key)"
proof -
  note p = promote_durable [OF assms(1)]
  let ?s = "fold (identity_step fmt) es s'"
  note run = identity_run_devices [OF assms(2), of fmt s' "device_identity fmt adapter a (id_state s)" key]
  have i: "device_identity fmt adapter a (id_state ?s) = device_identity fmt adapter a (id_state s)"
    using run p(2) by (simp add: device_identity_def)
  have "hm_get (rg_devices (id_state ?s)) (device_identity fmt adapter a (id_state ?s)) = Some key"
    using run p(1) i by simp
  then have "snd (device_key fmt now' fresh' adapter a ?s) = key"
    using registry_device_key_frame(3) by (simp add: device_key_def case_prod_beta)
  then show ?thesis using p by auto
qed

theorem promoted_key_is_stable_witness:
  "snd (device_key (\<lambda>_. ''AA'') 99 ''device-9'' ''hci0'' [1] (fold (identity_step (\<lambda>_. ''AA''))
      [DeviceKey 50 ''device-2'' ''hci1'' [2], ForgetPresentation ''device-1'']
      (fst (promote_device (\<lambda>_. ''AA'') 5 ''device-1'' ''hci0'' [1] identities_new)))) = ''device-1''"
proof -
  have "promote_device (\<lambda>_. ''AA'') 5 ''device-1'' ''hci0'' [1] identities_new
      = (fst (promote_device (\<lambda>_. ''AA'') 5 ''device-1'' ''hci0'' [1] identities_new), ''device-1'')"
    by (simp add: promote_device_def registry_device_key_def identities_new_def registry_default_def persist_def Let_def
        make_room_def hm_retain_def)
  from promoted_key_is_stable [OF this, of "[DeviceKey 50 ''device-2'' ''hci1'' [2], ForgetPresentation ''device-1'']"
      99 "''device-9''"]
  show ?thesis by (simp only: list.simps(15) set_simps ball_simps is_registration.simps simp_thms)
qed

lemma promoted_snoc: "promoted fmt r (es @ [e]) = promoted fmt r es \<union> promoted fmt r [e]"
  by (auto simp: promoted_def)

definition known_or_promoted :: "(address \<Rightarrow> string) \<Rightarrow> registry \<Rightarrow> identity_event list \<Rightarrow> registry \<Rightarrow> bool" where
  "known_or_promoted fmt r es r' \<longleftrightarrow>
     (\<forall>i. hm_get (rg_devices r') i \<noteq> None \<longrightarrow> hm_get (rg_devices r) i \<noteq> None \<or> i \<in> promoted fmt r es)"

lemma identity_run_files:
  assumes "\<forall>e \<in> set es. \<not> is_registration e"
  shows "known_or_promoted fmt (id_state s) es (id_state (fold (identity_step fmt) es s))
    \<and> (\<exists>new. id_scheduled (fold (identity_step fmt) es s) = id_scheduled s @ new
        \<and> (\<forall>f \<in> set new. rg_ephemeral f = [] \<and> known_or_promoted fmt (id_state s) es f))"
  using assms
proof (induction es rule: rev_induct)
  case Nil
  then show ?case by (simp add: known_or_promoted_def)
next
  case (snoc e es)
  let ?s = "fold (identity_step fmt) es s" and ?s' = "identity_step fmt e (fold (identity_step fmt) es s)"
  have e: "\<not> is_registration e" and es: "\<forall>e \<in> set es. \<not> is_registration e" using snoc.prems by simp_all
  obtain new where IH: "known_or_promoted fmt (id_state s) es (id_state ?s)" "id_scheduled ?s = id_scheduled s @ new"
      "\<forall>f \<in> set new. rg_ephemeral f = [] \<and> known_or_promoted fmt (id_state s) es f"
    using snoc.IH [OF es] by blast
  note step = identity_step_devices(3,4) [OF e refl, where fmt = fmt and s = ?s]
  have "promoted fmt (id_state ?s) [e] = promoted fmt (id_state s) [e]"
    by (rule promoted_same_adapters) (rule identity_run_devices [OF es, THEN conjunct1])
  then have now: "known_or_promoted fmt (id_state s) (es @ [e]) (id_state ?s')"
    using step(1) IH(1) unfolding known_or_promoted_def promoted_snoc by blast
  have old: "\<forall>f \<in> set new. rg_ephemeral f = [] \<and> known_or_promoted fmt (id_state s) (es @ [e]) f"
    using IH(3) unfolding known_or_promoted_def promoted_snoc by blast
  have "known_or_promoted fmt (id_state s) (es @ [e]) ((id_state ?s')\<lparr>rg_ephemeral := []\<rparr>)"
    using now by (simp add: known_or_promoted_def)
  then have "\<exists>new. id_scheduled ?s' = id_scheduled s @ new
      \<and> (\<forall>f \<in> set new. rg_ephemeral f = [] \<and> known_or_promoted fmt (id_state s) (es @ [e]) f)"
    using step(2) IH(2) old
    by (elim disjE) (auto intro!: exI [of _ new] exI [of _ "new @ [(id_state ?s')\<lparr>rg_ephemeral := []\<rparr>]"])
  then show ?case using now by simp
qed



subsection \<open>Migration\<close>

lemma or_insert_get: "hm_get (or_insert k v m) t = (if t = k \<and> hm_get m t = None then Some v else hm_get m t)"
  by (auto simp: or_insert_def)

lemma or_insert_fold_get:
  assumes "hm_get m t = Some k \<or> hm_get m t = None \<and> (i, k) \<in> set ls \<and> f i = t"
    and "\<forall>(j, x) \<in> set ls. f j = t \<longrightarrow> x = k"
  shows "hm_get (foldl (\<lambda>m (j, key). or_insert (f j) key m) m ls) t = Some k"
  using assms
proof (induction ls arbitrary: m)
  case (Cons l ls)
  obtain j x where l: "l = (j, x)" by force
  show ?case using Cons.IH [of "or_insert (f j) x m"] Cons.prems l by (auto simp: or_insert_get)
qed simp

text \<open>
  A device known under its adapter's name keeps its key when the adapter's permanent identity is
  registered for the first time (unless the permanent identity already has a key for that address).
\<close>

theorem legacy_key_survives_registration:
  assumes "hm_ok (rg_devices (id_state s))" and "hm_get (rg_adapters (id_state s)) adapter = None"
    and "hm_get (rg_devices (id_state s)) (adapter @ '':'' @ fmt a) = Some key"
    and "hm_get (rg_devices (id_state s)) (stable_id @ '':'' @ fmt a) = None"
  shows "snd (device_key fmt now fresh adapter a (register_adapter adapter stable_id s)) = key"
proof -
  let ?t = "stable_id @ '':'' @ fmt a" and ?pre = "adapter @ '':''"
  let ?f = "\<lambda>i. stable_id @ '':'' @ drop (length ?pre) i"
  let ?legacy = "filter (\<lambda>(i, _). starts_with ?pre i) (rg_devices (id_state s))"
  let ?kept = "filter (\<lambda>(i, _). \<not> starts_with ?pre i) (rg_devices (id_state s))"
  have own: "(?pre @ fmt a, key) \<in> set ?legacy"
    using assms(1,3) by (auto simp: hm_in_set starts_with_append)
  have only: "\<forall>(j, x) \<in> set ?legacy. ?f j = ?t \<longrightarrow> x = key"
    using assms(1,3) by (auto simp: hm_in_set starts_with_append)
  have none: "hm_get ?kept ?t = None" using assms(4) by (auto simp: hm_get_None_notin)
  have target: "?f (?pre @ fmt a) = ?t" by simp
  have "hm_get (foldl (\<lambda>m (j, x). or_insert (?f j) x m) ?kept ?legacy) ?t = Some key"
    by (rule or_insert_fold_get [OF _ only]) (use none own target in blast)
  then have "hm_get (rg_devices (id_state (register_adapter adapter stable_id s))) ?t = Some key"
    using assms(2) by (simp add: register_adapter_def migrate_legacy_devices_def persist_def Let_def)
  moreover have "device_identity fmt adapter a (id_state (register_adapter adapter stable_id s)) = ?t"
    using assms(2) by (simp add: register_adapter_def migrate_legacy_devices_def persist_def device_identity_def Let_def)
  ultimately show ?thesis by (simp add: device_key_def registry_device_key_def)
qed

theorem legacy_key_survives_registration_witness:
  "snd (device_key (\<lambda>_. ''AA'') 9 ''device-2'' ''hci0'' [1]
     (register_adapter ''hci0'' ''00:11'' (identities_new\<lparr>id_state := registry_default\<lparr>rg_devices := [(''hci0:AA'', ''device-1'')]\<rparr>\<rparr>)))
   = ''device-1''"
  by (rule legacy_key_survives_registration) (simp_all add: registry_default_def hm_defs)

end
