(* ===== verification/FastPairWire.thy ===== *)
theory FastPairWire
  imports Model
begin

text \<open>
  The wire formats of \<open>src/fast_pair.rs\<close>, \<open>fast_pair/audio_switch.rs\<close>,
  \<open>fast_pair/metadata.rs\<close> (advertisements) and \<open>fast_pair/commands.rs\<close> (authenticated frames).

  SHA-256 comes from a third-party crate and is the parameter \<open>sha\<close>.
\<close>

datatype fp_error =
    BadLength nat nat | BadPercentage u8 | ActiveModeCount | UnsupportedMode string
  | AncVersion u8 | NotSettable string | PsmOutOfRange u16 | BadPsmState u8 | FramePayloadTooLong
  | FrameTooLarge nat | SwitchTooShort | BadUtf8

text \<open>\<open>decode_fixed::<N>\<close>: the payload has to have exactly \<open>N\<close> bytes.\<close>

definition decode_fixed :: "nat \<Rightarrow> bytes \<Rightarrow> fp_error + bytes" where
  "decode_fixed n payload =
     (if length payload = n then Inr payload else Inl (BadLength (length payload) n))"

lemma decode_fixed_Inr [simp]: "decode_fixed n p = Inr q \<longleftrightarrow> q = p \<and> length p = n"
  by (auto simp: decode_fixed_def)

subsection \<open>Batteries\<close>

record battery_report =
  br_left :: "u8 option"
  br_right :: "u8 option"
  br_case :: "u8 option"
  br_charging :: "bool \<times> bool \<times> bool"

definition decode_component :: "u8 \<Rightarrow> fp_error + u8 option" where
  "decode_component v =
     (let percentage = v AND 0x7f in
      if percentage = 0x7f then Inr None
      else if 100 < percentage then Inl (BadPercentage percentage)
      else Inr (Some percentage))"

definition battery_from_payload :: "bytes \<Rightarrow> fp_error + battery_report" where
  "battery_from_payload payload =
     res_bind (decode_fixed 3 payload) (\<lambda>bs.
       let l = bs ! 0; r = bs ! 1; c = bs ! 2 in
       res_bind (decode_component l) (\<lambda>left.
       res_bind (decode_component r) (\<lambda>right.
       res_bind (decode_component c) (\<lambda>case'.
         Inr \<lparr>br_left = left, br_right = right, br_case = case',
              br_charging = (l AND 0x80 \<noteq> 0, r AND 0x80 \<noteq> 0, c AND 0x80 \<noteq> 0)\<rparr>))))"

definition fp_battery :: "string \<Rightarrow> string \<Rightarrow> string \<Rightarrow> u8 option \<Rightarrow> bool \<Rightarrow> battery list" where
  "fp_battery ident label component reading charging =
     (case reading of None \<Rightarrow> []
      | Some percentage \<Rightarrow>
          [\<lparr>b_id = ident, b_label = label, b_component = component, b_percentage = percentage,
            b_charging = Some charging, b_source = ''google-fast-pair-message-stream'',
            b_confidence = ''high''\<rparr>])"

definition model_batteries :: "battery_report \<Rightarrow> battery list" where
  "model_batteries r =
     (case br_charging r of (cl, cr, cc) \<Rightarrow>
        fp_battery ''fast-pair-left'' ''Left'' ''left'' (br_left r) cl
      @ fp_battery ''fast-pair-right'' ''Right'' ''right'' (br_right r) cr
      @ fp_battery ''fast-pair-case'' ''Case'' ''case'' (br_case r) cc)"

lemma decode_component_le: "decode_component v = Inr (Some p) \<Longrightarrow> p \<le> 100 \<and> p = v AND 0x7f"
  by (auto simp: decode_component_def Let_def not_less split: if_splits)

lemma model_batteries_le:
  assumes "battery_from_payload p = Inr r" and "b \<in> set (model_batteries r)"
  shows "b_percentage b \<le> 100"
  using assms decode_component_le
  by (auto simp: battery_from_payload_def Let_def model_batteries_def fp_battery_def
      split: option.splits)

subsection \<open>Audio Switch and Hearable Controls\<close>

record multipoint =
  mu_version :: u16
  mu_supported :: bool
  mu_configurable :: bool
  mu_enabled :: bool
  mu_audio_switch_enabled :: bool

definition decode_audio_switch_capability :: "bytes \<Rightarrow> fp_error + multipoint" where
  "decode_audio_switch_capability payload =
     res_bind (decode_fixed 4 payload) (\<lambda>bs.
       let version = be16 (bs ! 0) (bs ! 1); flags = bs ! 2 in
       Inr \<lparr>mu_version = version, mu_supported = (version \<noteq> 0),
            mu_configurable = (flags AND 0x40 \<noteq> 0), mu_enabled = (flags AND 0x20 \<noteq> 0),
            mu_audio_switch_enabled = (flags AND 0x80 \<noteq> 0)\<rparr>)"

definition ANC_MODES :: "(u8 \<times> string) list" where
  "ANC_MODES = [(0x80, ''transparent''), (0x40, ''adaptive''), (0x20, ''off''),
     (0x08, ''noise-cancelling'')]"

definition anc_modes :: "u8 \<Rightarrow> string list" where
  "anc_modes flags = map snd (filter (\<lambda>(flag, _). flags AND flag \<noteq> 0) ANC_MODES)"

definition anc_mode_flag :: "string \<Rightarrow> fp_error + u8" where
  "anc_mode_flag mode =
     (case find (\<lambda>(_, name). name = mode) ANC_MODES of
        None \<Rightarrow> Inl (UnsupportedMode mode) | Some (flag, _) \<Rightarrow> Inr flag)"

record fp_noise_control =
  fn_version :: u8
  fn_available :: "string list"
  fn_settable :: "string list"
  fn_active :: "string option"

definition decode_anc_state :: "bytes \<Rightarrow> fp_error + fp_noise_control" where
  "decode_anc_state payload =
     res_bind (decode_fixed 4 payload) (\<lambda>bs.
       let active = anc_modes (bs ! 3) in
       if length active \<noteq> 1 then Inl ActiveModeCount
       else Inr \<lparr>fn_version = bs ! 0, fn_available = anc_modes (bs ! 1),
                 fn_settable = anc_modes (bs ! 2), fn_active = Some (hd active)\<rparr>)"

fun mode_flags :: "u8 \<Rightarrow> string list \<Rightarrow> fp_error + u8" where
  "mode_flags flags [] = Inr flags"
| "mode_flags flags (mode # modes) =
     res_bind (anc_mode_flag mode) (\<lambda>f. mode_flags (flags OR f) modes)"

definition noise_control_payload :: "fp_noise_control \<Rightarrow> string \<Rightarrow> fp_error + bytes" where
  "noise_control_payload state mode =
     (if fn_version state \<noteq> 1 \<and> fn_version state \<noteq> 2 then Inl (AncVersion (fn_version state))
      else res_bind (anc_mode_flag mode) (\<lambda>mode_flag.
        if mode \<notin> set (fn_settable state) then Inl (NotSettable mode)
        else res_bind (mode_flags 0 (fn_available state)) (\<lambda>available.
          res_bind (mode_flags 0 (fn_settable state)) (\<lambda>settable.
            Inr [fn_version state, available, settable, mode_flag]))))"

lemma anc_mode_flag_simps [simp]:
  "anc_mode_flag ''transparent'' = Inr 0x80" "anc_mode_flag ''adaptive'' = Inr 0x40"
  "anc_mode_flag ''off'' = Inr 0x20" "anc_mode_flag ''noise-cancelling'' = Inr 0x08"
  by (simp_all add: anc_mode_flag_def ANC_MODES_def)

lemma anc_modes_subset: "set (anc_modes f) \<subseteq> {''transparent'', ''adaptive'', ''off'', ''noise-cancelling''}"
  by (auto simp: anc_modes_def ANC_MODES_def)

text \<open>Re-encoding decoded modes keeps exactly the known flags, so it decodes to the same modes.\<close>

lemma mode_flags_anc_modes: "\<exists>g. mode_flags 0 (anc_modes f) = Inr g \<and> anc_modes g = anc_modes f"
proof -
  have "mode_flags 0 (anc_modes f) = Inr
      ((if f AND 0x80 \<noteq> 0 then 0x80 else 0) OR (if f AND 0x40 \<noteq> 0 then 0x40 else 0)
       OR (if f AND 0x20 \<noteq> 0 then 0x20 else 0) OR (if f AND 0x08 \<noteq> 0 then 0x08 else 0))"
    by (simp add: anc_modes_def ANC_MODES_def)
  moreover have "anc_modes ((if f AND 0x80 \<noteq> 0 then 0x80 else 0) OR (if f AND 0x40 \<noteq> 0 then 0x40 else 0)
       OR (if f AND 0x20 \<noteq> 0 then 0x20 else 0) OR (if f AND 0x08 \<noteq> 0 then 0x08 else 0)) = anc_modes f"
    by (simp add: anc_modes_def ANC_MODES_def)
  ultimately show ?thesis by blast
qed

lemma noise_control_round:
  assumes "decode_anc_state payload = Inr state" and "fn_version state \<in> {1, 2}"
    and "mode \<in> set (fn_settable state)"
  shows "\<exists>p. noise_control_payload state mode = Inr p \<and> length p = 4
    \<and> decode_anc_state p = Inr (state\<lparr>fn_active := Some mode\<rparr>)"
proof -
  obtain bs where bs: "fn_available state = anc_modes (bs ! 1)" "fn_settable state = anc_modes (bs ! 2)"
    using assms(1) by (auto simp: decode_anc_state_def Let_def split: if_splits)
  obtain a s where a: "mode_flags 0 (fn_available state) = Inr a" "anc_modes a = fn_available state"
      and s: "mode_flags 0 (fn_settable state) = Inr s" "anc_modes s = fn_settable state"
    using mode_flags_anc_modes bs by metis
  have "mode \<in> {''transparent'', ''adaptive'', ''off'', ''noise-cancelling''}"
    by (rule subsetD [OF anc_modes_subset]) (use assms(3) bs(2) in simp)
  then obtain flag where flag: "anc_mode_flag mode = Inr flag" "anc_modes flag = [mode]"
    by (auto simp: anc_modes_def ANC_MODES_def)
  have "noise_control_payload state mode = Inr [fn_version state, a, s, flag]"
    using assms(2,3) a s flag by (auto simp: noise_control_payload_def)
  moreover have "decode_anc_state [fn_version state, a, s, flag] = Inr (state\<lparr>fn_active := Some mode\<rparr>)"
    using a s flag by (simp add: decode_anc_state_def Let_def)
  ultimately show ?thesis by auto
qed

subsection \<open>The dynamic PSM\<close>

datatype psm_availability = PsmUnknown | PsmReady u16 | PsmUnavailable

text \<open>The range of dynamic LE PSMs is the Bluetooth crate's; it is a parameter.\<close>

definition decode_message_stream_psm :: "u16 \<Rightarrow> u16 \<Rightarrow> bytes \<Rightarrow> fp_error + psm_availability" where
  "decode_message_stream_psm dyn_start le_max payload =
     res_bind (decode_fixed 3 payload) (\<lambda>bs.
       if bs ! 0 = 0x00 then Inr PsmUnknown
       else if bs ! 0 = 0x01 then
         (let psm = le16 (bs ! 1) (bs ! 2) in
          if dyn_start \<le> psm \<and> psm \<le> le_max then Inr (PsmReady psm) else Inl (PsmOutOfRange psm))
       else if bs ! 0 = 0x02 then Inr PsmUnavailable
       else Inl (BadPsmState (bs ! 0)))"

subsection \<open>Message Stream frames\<close>

record fp_frame =
  fr_group :: u8
  fr_code :: u8
  fr_payload :: bytes

definition frame_encoded :: "u8 \<Rightarrow> u8 \<Rightarrow> bytes \<Rightarrow> fp_error + bytes" where
  "frame_encoded grp code payload =
     (case (word_try_from (length payload) :: u16 option) of
        None \<Rightarrow> Inl FramePayloadTooLong
      | Some len \<Rightarrow> Inr ([grp, code] @ be16_bytes len @ payload))"

definition MAX_FRAME_PAYLOAD :: nat where "MAX_FRAME_PAYLOAD = 4096"

text \<open>The loop of \<open>FrameDecoder::push\<close> over the unconsumed bytes: frames and what is left.\<close>

function fp_split :: "bytes \<Rightarrow> fp_error + fp_frame list \<times> bytes" where
  "fp_split bs =
     (case bs of
        g # c # h # l # body \<Rightarrow>
          (let n = unat (be16 h l) in
           if MAX_FRAME_PAYLOAD < n then Inl (FrameTooLarge n)
           else if length body < n then Inr ([], bs)
           else res_bind (fp_split (drop n body)) (\<lambda>(fs, rest).
             Inr (\<lparr>fr_group = g, fr_code = c, fr_payload = take n body\<rparr> # fs, rest)))
      | _ \<Rightarrow> Inr ([], bs))"
  by pat_completeness auto
termination
  by (relation "measure length") auto

declare fp_split.simps [simp del]

definition fp_push :: "bytes \<Rightarrow> bytes \<Rightarrow> bytes \<times> (fp_error + fp_frame list)" where
  "fp_push buffered bs =
     (case fp_split (buffered @ bs) of
        Inl e \<Rightarrow> ([], Inl e)
      | Inr (fs, rest) \<Rightarrow> (rest, Inr fs))"

lemma fp_split_short: "length bs < 4 \<Longrightarrow> fp_split bs = Inr ([], bs)"
  by (subst fp_split.simps) (auto split: list.splits)

lemma length_ge_4D: "4 \<le> length bs \<Longrightarrow> \<exists>a b c d tail. bs = a # b # c # d # tail"
  by (simp add: numeral_eq_Suc Suc_le_length_iff) blast

text \<open>The frame at the front of the buffer: incomplete, too large, or cut off whole.\<close>

lemma fp_split_cases:
  obtains (wait) "fp_split bs = Inr ([], bs)"
  | (large) g c h l body where "bs = g # c # h # l # body" "MAX_FRAME_PAYLOAD < unat (be16 h l)"
      "fp_split bs = Inl (FrameTooLarge (unat (be16 h l)))"
  | (frame) g c h l body where "bs = g # c # h # l # body" "unat (be16 h l) \<le> MAX_FRAME_PAYLOAD"
      "unat (be16 h l) \<le> length body"
      "fp_split bs = res_bind (fp_split (drop (unat (be16 h l)) body)) (\<lambda>(fs, rest).
         Inr (\<lparr>fr_group = g, fr_code = c, fr_payload = take (unat (be16 h l)) body\<rparr> # fs, rest))"
proof (cases "4 \<le> length bs")
  case False
  then show ?thesis using wait by (simp add: fp_split_short)
next
  case True
  then obtain g c h l body where bs: "bs = g # c # h # l # body"
    using length_ge_4D by blast
  show ?thesis
    using bs wait large [of g c h l body] frame [of g c h l body] fp_split.simps [of bs]
    by (cases "MAX_FRAME_PAYLOAD < unat (be16 h l)"; cases "length body < unat (be16 h l)")
      (simp_all add: Let_def not_less)
qed

lemma fp_split_induct [case_names wait large frame]:
  assumes "\<And>bs. fp_split bs = Inr ([], bs) \<Longrightarrow> P bs"
    and "\<And>bs e. fp_split bs = Inl e \<Longrightarrow> (\<And>ys. fp_split (bs @ ys) = Inl e) \<Longrightarrow> P bs"
    and "\<And>bs f tail. P tail \<Longrightarrow>
      (\<And>ys. fp_split (bs @ ys) = res_bind (fp_split (tail @ ys)) (\<lambda>(fs, rest). Inr (f # fs, rest))) \<Longrightarrow> P bs"
  shows "P bs"
proof (induction bs rule: length_induct)
  case (1 bs)
  show ?case
  proof (cases bs rule: fp_split_cases)
    case wait
    then show ?thesis by (rule assms(1))
  next
    case (large g c h l body)
    then have "fp_split (bs @ ys) = Inl (FrameTooLarge (unat (be16 h l)))" for ys
      by (simp add: fp_split.simps [of "g # c # h # l # body @ ys"] Let_def)
    with assms(2) [OF large(3)] show ?thesis by blast
  next
    case (frame g c h l body)
    let ?n = "unat (be16 h l)"
    have "fp_split (bs @ ys) = res_bind (fp_split (drop ?n body @ ys)) (\<lambda>(fs, rest).
        Inr (\<lparr>fr_group = g, fr_code = c, fr_payload = take ?n body\<rparr> # fs, rest))" for ys
      using frame by (simp add: fp_split.simps [of "g # c # h # l # body @ ys"] Let_def)
    moreover have "P (drop ?n body)" using 1 frame(1) by auto
    ultimately show ?thesis using assms(3) by blast
  qed
qed

lemma res_bind_pair_id: "res_bind m (\<lambda>(gs, r). Inr (gs, r)) = m"
  by (cases m) auto

lemma fp_split_append:
  "fp_split xs = Inr (fs, rest) \<Longrightarrow>
   fp_split (xs @ ys) = res_bind (fp_split (rest @ ys)) (\<lambda>(gs, r). Inr (fs @ gs, r))"
proof (induction xs arbitrary: fs rule: fp_split_induct)
  case (wait bs)
  then show ?case by (auto simp: res_bind_pair_id [unfolded case_prod_eta] split: sum.splits)
next
  case (large bs e)
  then show ?case by simp
next
  case (frame bs f tail)
  from frame(2) [of "[]"] frame(3) obtain gs where gs: "fp_split tail = Inr (gs, rest)" "fs = f # gs"
    by (cases "fp_split tail") auto
  from frame(1) [OF gs(1)] gs(2) frame(2) show ?case by (cases "fp_split (rest @ ys)") auto
qed

lemma fp_split_error: "fp_split xs = Inl e \<Longrightarrow> fp_split (xs @ ys) = Inl e"
proof (induction xs rule: fp_split_induct)
  case (wait bs)
  then show ?case by simp
next
  case (large bs e')
  then show ?case by simp
next
  case (frame bs f tail)
  from frame(2) [of "[]"] frame(3) have "fp_split tail = Inl e"
    by (cases "fp_split tail") auto
  then show ?case using frame(1,2) by simp
qed

lemma fp_split_rest_stable: "fp_split bs = Inr (fs, rest) \<Longrightarrow> fp_split rest = Inr ([], rest)"
proof (induction bs arbitrary: fs rule: fp_split_induct)
  case (wait bs)
  then show ?case by simp
next
  case (large bs e)
  then show ?case by simp
next
  case (frame bs f tail)
  from frame(2) [of "[]"] frame(3) obtain gs where "fp_split tail = Inr (gs, rest)"
    by (cases "fp_split tail") auto
  then show ?case by (rule frame(1))
qed

lemma fp_split_rest:
  assumes "fp_split bs = Inr (fs, rest)"
  shows "length rest < 4 + MAX_FRAME_PAYLOAD"
proof -
  have "fp_split rest = Inr ([], rest)" by (rule fp_split_rest_stable [OF assms])
  then show ?thesis
  proof (cases rest rule: fp_split_cases)
    case wait
    show ?thesis
    proof (cases "length rest < 4")
      case False
      then obtain g c h l body where r: "rest = g # c # h # l # body"
        using length_ge_4D [of rest] by (meson not_less)
      with wait have "length body < unat (be16 h l) \<and> unat (be16 h l) \<le> MAX_FRAME_PAYLOAD"
        by (auto simp: fp_split.simps [of "g # c # h # l # body"] Let_def split: if_splits)
      with r show ?thesis by simp
    qed (simp add: MAX_FRAME_PAYLOAD_def)
  next
    case (large g c h l body)
    with \<open>fp_split rest = Inr ([], rest)\<close> show ?thesis by simp
  next
    case (frame g c h l body)
    with \<open>fp_split rest = Inr ([], rest)\<close> show ?thesis
      by (cases "fp_split (drop (unat (be16 h l)) body)") auto
  qed
qed

definition frame_wire :: "fp_frame \<Rightarrow> bytes" where
  "frame_wire f = [fr_group f, fr_code f] @ be16_bytes (word_of_nat (length (fr_payload f))) @ fr_payload f"

lemma frame_encoded_wire:
  assumes "length (fr_payload f) < 2 ^ 16"
  shows "frame_encoded (fr_group f) (fr_code f) (fr_payload f) = Inr (frame_wire f)"
  using assms by (simp add: frame_encoded_def frame_wire_def word_try_from_def)

lemma fp_split_frame:
  assumes "length (fr_payload f) \<le> MAX_FRAME_PAYLOAD"
  shows "fp_split (frame_wire f @ rest) = res_bind (fp_split rest) (\<lambda>(fs, r). Inr (f # fs, r))"
proof -
  have "unat (word_of_nat (length (fr_payload f)) :: u16) = length (fr_payload f)"
    using assms by (simp add: unat_of_nat take_bit_nat_eq_self MAX_FRAME_PAYLOAD_def)
  then show ?thesis
    using assms by (cases f, subst fp_split.simps)
      (simp add: frame_wire_def be16_bytes_def byte_order Let_def)
qed

lemma fp_split_frames:
  assumes "\<forall>f \<in> set fs. length (fr_payload f) \<le> MAX_FRAME_PAYLOAD"
  shows "fp_split (concat (map frame_wire fs) @ rest)
    = res_bind (fp_split rest) (\<lambda>(gs, r). Inr (fs @ gs, r))"
  using assms
proof (induction fs)
  case Nil
  show ?case by (cases "fp_split rest") auto
next
  case (Cons f fs)
  then show ?case by (cases "fp_split rest") (auto simp: fp_split_frame)
qed

text \<open>Feeding a stream chunk by chunk, as \<open>read_transport\<close> does with its reads.\<close>

fun fp_feed :: "bytes \<Rightarrow> bytes list \<Rightarrow> fp_error + fp_frame list" where
  "fp_feed buffered [] = Inr []"
| "fp_feed buffered (c # cs) =
     (case fp_push buffered c of
        (_, Inl e) \<Rightarrow> Inl e
      | (b, Inr fs) \<Rightarrow> res_bind (fp_feed b cs) (\<lambda>gs. Inr (fs @ gs)))"

lemma fp_feed_concat:
  assumes "fp_split (buffered @ concat cs) = Inr (fs, rest)"
    and "fp_split buffered = Inr ([], buffered)"
  shows "fp_feed buffered cs = Inr fs"
  using assms
proof (induction cs arbitrary: buffered fs)
  case Nil
  then show ?case by simp
next
  case (Cons c cs)
  show ?case
  proof (cases "fp_split (buffered @ c)")
    case (Inl e)
    have "fp_split ((buffered @ c) @ concat cs) = Inl e"
      using Inl by (rule fp_split_error)
    with Cons.prems(1) show ?thesis by simp
  next
    case (Inr p)
    obtain gs b where p: "p = (gs, b)" by force
    have split: "fp_split (buffered @ c) = Inr (gs, b)" using Inr p by simp
    from fp_split_append [OF this, of "concat cs"] Cons.prems(1)
    obtain hs where hs: "fp_split (b @ concat cs) = Inr (hs, rest)" "fs = gs @ hs"
      by auto
    have "fp_split b = Inr ([], b)" by (rule fp_split_rest_stable [OF split])
    with Cons.IH [OF hs(1)] split hs(2) show ?thesis by (simp add: fp_push_def)
  qed
qed

subsection \<open>Audio Switch notifications\<close>

record switch_event =
  sw_reason :: string
  sw_target :: string
  sw_target_name :: "ustring option"
  sw_observed_at_ms :: u64

definition switch_notification :: "u64 \<Rightarrow> bytes \<Rightarrow> fp_error + switch_event" where
  "switch_notification now_ms payload =
     (if length payload < 2 then Inl SwitchTooShort
      else
        let reason = (if payload ! 0 = 0 then ''unspecified'' else if payload ! 0 = 1 then ''media''
              else if payload ! 0 = 2 then ''call'' else ''unknown'');
            target = (if payload ! 1 = 1 then ''this-device''
              else if payload ! 1 = 2 then ''another-device'' else ''unknown'') in
        case utf8_decode (drop 2 payload) of
          None \<Rightarrow> Inl BadUtf8
        | Some text \<Rightarrow>
            (let name = remote_text text 128 in
             Inr \<lparr>sw_reason = reason, sw_target = target,
                  sw_target_name = (if name = [] then None else Some name),
                  sw_observed_at_ms = now_ms\<rparr>))"

text \<open>The displayed name is bounded and free of control and bidirectional formatting characters.\<close>

lemma switch_name_clean:
  assumes "switch_notification now payload = Inr e" and "sw_target_name e = Some name"
  shows "name \<noteq> [] \<and> length name \<le> 128
    \<and> (\<forall>c \<in> set name. \<not> is_control c \<and> \<not> is_bidi_format c)"
proof -
  obtain t where "name = remote_text t 128" "name \<noteq> []"
    using assms by (auto simp: switch_notification_def Let_def split: if_splits option.splits)
  then show ?thesis using remote_text_bounded remote_text_plain by metis
qed

lemma switch_notification_known:
  assumes "switch_notification now payload = Inr e"
  shows "sw_reason e \<in> {''unspecified'', ''media'', ''call'', ''unknown''}
    \<and> sw_target e \<in> {''this-device'', ''another-device'', ''unknown''}"
  using assms by (auto simp: switch_notification_def Let_def split: if_splits option.splits)

subsection \<open>Authenticated frames\<close>

text \<open>
  \<open>message_mac\<close> is HMAC-SHA256 over the nonces and the message, truncated to eight bytes:
  the key block is the account key padded with zeros, xor-ed with the two pads.
\<close>

definition message_mac :: "(bytes \<Rightarrow> bytes) \<Rightarrow> bytes \<Rightarrow> bytes \<Rightarrow> bytes \<Rightarrow> bytes \<Rightarrow> bytes" where
  "message_mac sha account_key session_nonce message_nonce message =
     (let pad = (\<lambda>p. map (\<lambda>i. if i < length account_key then p XOR (account_key ! i) else p) [0..<64]);
          inner = sha (pad 0x36 @ session_nonce @ message_nonce @ message)
      in take 8 (sha (pad 0x5c @ inner)))"

definition derive_aes_key :: "(bytes \<Rightarrow> bytes) \<Rightarrow> bytes \<Rightarrow> bytes" where
  "derive_aes_key sha shared_secret = take 16 (sha shared_secret)"

definition authenticated_frame ::
    "(bytes \<Rightarrow> bytes) \<Rightarrow> u8 \<Rightarrow> u8 \<Rightarrow> bytes \<Rightarrow> bytes \<Rightarrow> bytes \<Rightarrow> bytes \<Rightarrow> fp_error + bytes" where
  "authenticated_frame sha grp code message account_key session_nonce message_nonce =
     frame_encoded grp code
       (message @ message_nonce @ message_mac sha account_key session_nonce message_nonce message)"

text \<open>HMAC of RFC 2104 with a 64-byte block, for keys no longer than the block.\<close>

definition hmac :: "(bytes \<Rightarrow> bytes) \<Rightarrow> bytes \<Rightarrow> bytes \<Rightarrow> bytes" where
  "hmac hash key text =
     (let block = key @ replicate (64 - length key) 0 in
      hash (map (\<lambda>b. b XOR 0x5c) block @ hash (map (\<lambda>b. b XOR 0x36) block @ text)))"

lemma pad_block:
  assumes "length key \<le> 64"
  shows "map (\<lambda>i. if i < length key then p XOR (key ! i) else p) [0..<64]
    = map (\<lambda>b. b XOR p) (key @ replicate (64 - length key) (0 :: u8))"
  using assms by (auto intro!: nth_equalityI simp: nth_append xor.commute [of p])

lemma message_mac_hmac:
  assumes "length account_key \<le> 64"
  shows "message_mac sha account_key session_nonce message_nonce message
    = take 8 (hmac sha account_key (session_nonce @ message_nonce @ message))"
  by (simp only: message_mac_def hmac_def Let_def pad_block [OF assms])

subsection \<open>Advertised service data\<close>

record advertisement =
  ad_model_id :: bytes
  ad_le_audio_sharing :: "bool option"
  ad_factory_new :: "bool option"

text \<open>The field loop of \<open>advertisement\<close>; capabilities are (LE audio sharing, factory new).\<close>

function adv_fields :: "bytes \<Rightarrow> bytes option \<Rightarrow> (bool \<times> bool) option
    \<Rightarrow> (bytes option \<times> (bool \<times> bool) option) option" where
  "adv_fields [] model_id capabilities = Some (model_id, capabilities)"
| "adv_fields (header # tail) model_id capabilities =
     (let n = unat (drop_bit 4 header); v = take n tail; remaining = drop n tail;
          kind = header AND 0x0f in
      if n = 0 \<or> length tail < n then None
      else if kind = 0 \<or> kind = 2 then None
      else if kind = 7 then
        (if length v \<noteq> 3 \<or> model_id \<noteq> None then None
         else adv_fields remaining (Some v) capabilities)
      else if kind = 8 then
        (if capabilities \<noteq> None then None
         else adv_fields remaining model_id (Some (v ! 0 AND 2 \<noteq> 0, v ! 0 AND 1 \<noteq> 0)))
      else adv_fields remaining model_id capabilities)"
  by pat_completeness auto
termination
  by (relation "measure (\<lambda>(bs, _, _). length bs)") auto

declare adv_fields.simps(2) [simp del]

definition advertisement :: "bytes \<Rightarrow> advertisement option" where
  "advertisement data =
     (if length data = 3
      then Some \<lparr>ad_model_id = data, ad_le_audio_sharing = None, ad_factory_new = None\<rparr>
      else case data of
        [] \<Rightarrow> None
      | version_flags # fields' \<Rightarrow>
          (if version_flags \<noteq> 0 then None
           else case adv_fields fields' None None of
             Some (Some model_id, Some (sharing, fresh)) \<Rightarrow>
               Some \<lparr>ad_model_id = model_id, ad_le_audio_sharing = Some sharing,
                     ad_factory_new = Some fresh\<rparr>
           | _ \<Rightarrow> None))"

text \<open>
  The format it has to read: a version byte and type-length-value fields, the length and the
  type in the two halves of the header byte. \<open>adv_expected\<close> says what a field list means.
\<close>

type_synonym tlv = "u8 \<times> bytes"

definition tlv_ok :: "tlv \<Rightarrow> bool" where
  "tlv_ok t \<longleftrightarrow> fst t \<le> 15 \<and> 0 < length (snd t) \<and> length (snd t) \<le> 15"

definition tlv_wire :: "tlv \<Rightarrow> bytes" where
  "tlv_wire t = (push_bit 4 (word_of_nat (length (snd t))) OR fst t) # snd t"

definition adv_expected :: "tlv list \<Rightarrow> advertisement option" where
  "adv_expected ts =
     (if \<exists>t \<in> set ts. fst t = 0 \<or> fst t = 2 then None
      else case (filter (\<lambda>t. fst t = 7) ts, filter (\<lambda>t. fst t = 8) ts) of
        ([m], [c]) \<Rightarrow>
          (if length (snd m) \<noteq> 3 then None
           else Some \<lparr>ad_model_id = snd m, ad_le_audio_sharing = Some (snd c ! 0 AND 2 \<noteq> 0),
                      ad_factory_new = Some (snd c ! 0 AND 1 \<noteq> 0)\<rparr>)
      | _ \<Rightarrow> None)"

lemma nibbles:
  assumes "unat (k :: u8) \<le> 15" and "n \<le> 15"
  shows "drop_bit 4 (push_bit 4 (word_of_nat n) OR k) = word_of_nat n"
    and "(push_bit 4 (word_of_nat n) OR k) AND 0x0f = k"
proof -
  have k: "bit k i \<Longrightarrow> i < 4" for i using bit_less_exp [of k 4 i] assms(1) by simp
  have "unat (word_of_nat n :: u8) < 2 ^ 4"
    using assms(2) by (simp add: unat_of_nat take_bit_nat_eq_self)
  then have n: "bit (word_of_nat n :: u8) i \<Longrightarrow> i < 4" for i by (rule bit_less_exp)
  show "drop_bit 4 (push_bit 4 (word_of_nat n) OR k) = word_of_nat n"
    using k n by (intro bit_word_eqI) (fastforce simp: bit_simps)
  have m: "(0x0f :: u8) = mask 4" by (simp add: mask_eq_exp_minus_1)
  show "(push_bit 4 (word_of_nat n) OR k) AND 0x0f = k"
    unfolding m using k by (intro bit_word_eqI) (auto simp: bit_simps)
qed

text \<open>One field changes the two slots, or rejects the advertisement.\<close>

definition adv_step :: "tlv \<Rightarrow> bytes option \<Rightarrow> (bool \<times> bool) option
    \<Rightarrow> (bytes option \<times> (bool \<times> bool) option) option" where
  "adv_step t model_id capabilities =
     (if fst t = 0 \<or> fst t = 2 then None
      else if fst t = 7 then
        (if length (snd t) \<noteq> 3 \<or> model_id \<noteq> None then None else Some (Some (snd t), capabilities))
      else if fst t = 8 then
        (if capabilities \<noteq> None then None
         else Some (model_id, Some (snd t ! 0 AND 2 \<noteq> 0, snd t ! 0 AND 1 \<noteq> 0)))
      else Some (model_id, capabilities))"

lemma adv_fields_tlv:
  assumes "tlv_ok t"
  shows "adv_fields (tlv_wire t @ tail) m c =
    (case adv_step t m c of None \<Rightarrow> None | Some (m', c') \<Rightarrow> adv_fields tail m' c')"
proof -
  have k: "unat (fst t) \<le> 15" using assms by (simp add: tlv_ok_def word_le_nat_alt)
  have n: "length (snd t) \<le> 15" "length (snd t) \<noteq> 0" using assms by (auto simp: tlv_ok_def)
  from n(1) have u: "unat (word_of_nat (length (snd t)) :: u8) = length (snd t)"
    by (simp add: unat_of_nat take_bit_nat_eq_self)
  show ?thesis
    unfolding tlv_wire_def append_Cons adv_fields.simps(2) nibbles [OF k n(1)] u Let_def
    using n(2) by (simp add: adv_step_def)
qed

fun slot :: "'a option \<Rightarrow> 'a list" where
  "slot None = []"
| "slot (Some a) = [a]"

definition caps_of :: "bytes \<Rightarrow> bool \<times> bool" where
  "caps_of v = (v ! 0 AND 2 \<noteq> 0, v ! 0 AND 1 \<noteq> 0)"

definition of_kind :: "u8 \<Rightarrow> tlv list \<Rightarrow> bytes list" where
  "of_kind k ts = map snd (filter (\<lambda>t. fst t = k) ts)"

lemma adv_fields_wire:
  assumes "\<forall>t \<in> set ts. tlv_ok t"
  shows "adv_fields (concat (map tlv_wire ts)) m c = Some (m', c') \<longleftrightarrow>
    (\<forall>t \<in> set ts. fst t \<noteq> 0 \<and> fst t \<noteq> 2) \<and> (\<forall>v \<in> set (of_kind 7 ts). length v = 3)
    \<and> slot m' = slot m @ of_kind 7 ts \<and> slot c' = slot c @ map caps_of (of_kind 8 ts)"
  using assms
proof (induction ts arbitrary: m c)
  case Nil
  show ?case by (cases m; cases m'; cases c; cases c') (auto simp: of_kind_def)
next
  case (Cons t ts)
  have long: "slot (x :: 'z option) \<noteq> a # b # zs" "slot x = [a] \<longleftrightarrow> x = Some a" for x a b zs
    by (cases x; auto)+
  show ?case
    using Cons
    by (cases m; cases c)
      (auto simp: adv_fields_tlv adv_step_def of_kind_def caps_of_def long split: if_splits)
qed

lemma adv_expected_Some:
  "adv_expected ts = Some a \<longleftrightarrow> (\<forall>t \<in> set ts. fst t \<noteq> 0 \<and> fst t \<noteq> 2) \<and>
    (\<exists>v w. of_kind 7 ts = [v] \<and> of_kind 8 ts = [w] \<and> length v = 3 \<and>
      a = \<lparr>ad_model_id = v, ad_le_audio_sharing = Some (fst (caps_of w)),
           ad_factory_new = Some (snd (caps_of w))\<rparr>)"
  by (auto simp: adv_expected_def of_kind_def caps_of_def split: list.splits)

lemma advertisement_fields:
  assumes "\<forall>t \<in> set ts. tlv_ok t" and "length (concat (map tlv_wire ts)) \<noteq> 2"
  shows "advertisement (0 # concat (map tlv_wire ts)) = adv_expected ts"
proof -
  have single: "slot x = [y] \<longleftrightarrow> x = Some y" for x :: "'z option" and y by (cases x) auto
  have "advertisement (0 # concat (map tlv_wire ts)) = Some a \<longleftrightarrow> adv_expected ts = Some a" for a
  proof -
    have "advertisement (0 # concat (map tlv_wire ts)) = Some a \<longleftrightarrow> (\<exists>v sharing fresh.
        adv_fields (concat (map tlv_wire ts)) None None = Some (Some v, Some (sharing, fresh))
        \<and> a = \<lparr>ad_model_id = v, ad_le_audio_sharing = Some sharing, ad_factory_new = Some fresh\<rparr>)"
      using assms(2) by (auto simp: advertisement_def split: option.splits)
    also have "\<dots> \<longleftrightarrow> adv_expected ts = Some a"
      unfolding adv_fields_wire [OF assms(1)] adv_expected_Some
      by (auto simp: caps_of_def dest: sym [of "[_]"])
    finally show ?thesis .
  qed
  then show ?thesis by (metis not_Some_eq)
qed

text \<open>Nothing but a sequence of well-formed fields is accepted.\<close>

lemma header_split: "push_bit 4 (drop_bit 4 h) OR (h AND 0x0f) = (h :: u8)"
proof -
  have m: "(0x0f :: u8) = mask 4" by (simp add: mask_eq_exp_minus_1)
  show ?thesis unfolding m by (intro bit_word_eqI) (auto simp: bit_simps)
qed

lemma adv_fields_sound:
  "adv_fields bs m c = Some r \<Longrightarrow> \<exists>ts. (\<forall>t \<in> set ts. tlv_ok t) \<and> bs = concat (map tlv_wire ts)"
proof (induction bs m c rule: adv_fields.induct)
  case (1 m c)
  show ?case by (rule exI [of _ "[]"]) simp
next
  case (2 h tail m c)
  let ?n = "unat (drop_bit 4 h)" and ?k = "h AND 0x0f"
  have n: "0 < ?n" "?n \<le> length tail"
    using "2.prems" by (auto simp: adv_fields.simps(2) Let_def split: if_splits)
  have "?k \<le> 15" by (simp add: word_and_le1)
  moreover have "?n \<le> 15"
    using unat_less_width [of h] by (simp add: unat_drop_bit_div less_mult_imp_div_less)
  ultimately have ok: "tlv_ok (?k, take ?n tail)" using n by (simp add: tlv_ok_def)
  have "\<exists>ts. (\<forall>t \<in> set ts. tlv_ok t) \<and> drop ?n tail = concat (map tlv_wire ts)"
    using "2.prems" "2.IH" by (auto simp: adv_fields.simps(2) Let_def split: if_splits)
  then obtain ts where ts: "\<forall>t \<in> set ts. tlv_ok t" "drop ?n tail = concat (map tlv_wire ts)" by blast
  have "h # tail = tlv_wire (?k, take ?n tail) @ drop ?n tail"
    using n by (simp add: tlv_wire_def header_split)
  with ok ts show ?case by (intro exI [of _ "(?k, take ?n tail) # ts"]) simp
qed

lemma advertisement_sound:
  assumes "advertisement data = Some a"
  shows "length (ad_model_id a) = 3 \<and> (length data = 3 \<or>
    (\<exists>ts. (\<forall>t \<in> set ts. tlv_ok t) \<and> data = 0 # concat (map tlv_wire ts) \<and> adv_expected ts = Some a))"
proof (cases "length data = 3")
  case True
  then show ?thesis using assms by (auto simp: advertisement_def)
next
  case False
  with assms obtain tail v k where d: "data = 0 # tail" "adv_fields tail None None = Some (Some v, Some k)"
    by (auto simp: advertisement_def split: list.splits if_splits option.splits)
  obtain ts where ts: "\<forall>t \<in> set ts. tlv_ok t" "tail = concat (map tlv_wire ts)"
    using adv_fields_sound [OF d(2)] by blast
  with False d(1) assms have "adv_expected ts = Some a"
    using advertisement_fields [OF ts(1)] by simp
  moreover from this have "length (ad_model_id a) = 3" by (auto simp: adv_expected_Some)
  ultimately show ?thesis using ts d(1) by blast
qed

subsection \<open>Properties\<close>



text \<open>
  Advertised service data is accepted only in two shapes: a bare three-byte model identifier, or a
  version byte followed by well-formed length-type-value fields, none of them an account-key filter,
  exactly one of them a three-byte model and exactly one the capabilities, whose bits are the ones
  reported.
\<close>

theorem fast_pair_advertisement_sound:
  assumes "advertisement data = Some a"
  shows "length (ad_model_id a) = 3 \<and> (length data = 3 \<or>
    (\<exists>ts. (\<forall>t \<in> set ts. tlv_ok t) \<and> data = 0 # concat (map tlv_wire ts) \<and> adv_expected ts = Some a))"
  by (rule advertisement_sound [OF assms])

theorem fast_pair_advertisement_sound_witness:
  "\<exists>ts. (\<forall>t \<in> set ts. tlv_ok t) \<and> [0, 0x37, 1, 2, 3, 0x18, 2] = 0 # concat (map tlv_wire ts)
    \<and> adv_expected ts = Some \<lparr>ad_model_id = [1, 2, 3], ad_le_audio_sharing = Some True, ad_factory_new = Some False\<rparr>"
proof -
  have "advertisement [0, 0x37, 1, 2, 3, 0x18, 2]
      = Some \<lparr>ad_model_id = [1, 2, 3], ad_le_audio_sharing = Some True, ad_factory_new = Some False\<rparr>"
    by code_simp
  from fast_pair_advertisement_sound [OF this] show ?thesis by simp
qed

end
