(* ===== verification/VendorLinks.thy ===== *)
theory VendorLinks
  imports Prelude
begin

text \<open>
  \<open>src/vendor_channel.rs\<close>: which peers have an attempt in flight, an accepted channel or a
  retry deadline, and the reconciler's pass over an adapter's devices.

  Each operation gets the clock's reading as \<open>now\<close>. The locale \<open>attempt_fence\<close> is the contract
  the link tables of this file and of \<open>src/fast_pair.rs\<close> share: an attempt number that has
  been retired never becomes current again, so a late failure cannot touch its replacement.
\<close>

subsection \<open>Errors of a connection attempt\<close>

datatype bluer_kind = InProgress | FailedKind | OtherKind

record bluer_error =
  be_kind :: bluer_kind
  be_message :: string

text \<open>
  An \<open>anyhow::Error\<close> is described by the typed Bluetooth error it downcasts to, if it does.
\<close>

definition is_connection_busy :: "bluer_error option \<Rightarrow> bool" where
  "is_connection_busy error =
     (case error of None \<Rightarrow> False
      | Some e \<Rightarrow> be_kind e = InProgress
          \<or> be_kind e = FailedKind \<and> be_message e = ''br-connection-busy'')"

subsection \<open>Links\<close>

definition STALE_CONNECT :: nat where "STALE_CONNECT = secs 30"
definition BUSY_RETRIES :: u32 where "BUSY_RETRIES = 6"

record attempt =
  at_id :: u64
  at_started :: instant

record retry =
  rt_failures :: u32
  rt_busy :: u32
  rt_after :: instant

record links =
  lk_connecting :: "(address, attempt) hmap"
  lk_connected :: "(address, instant) hmap"
  lk_retry :: "(address, retry) hmap"
  lk_next_attempt :: u64

definition links_default :: links where
  "links_default = \<lparr>lk_connecting = [], lk_connected = [], lk_retry = [], lk_next_attempt = 0\<rparr>"

definition retry_state :: "instant \<Rightarrow> address \<Rightarrow> links \<Rightarrow> retry" where
  "retry_state now a s =
     (case hm_get (lk_retry s) a of
        None \<Rightarrow> \<lparr>rt_failures = 0, rt_busy = 0, rt_after = now\<rparr> | Some r \<Rightarrow> r)"

text \<open>\<open>15 << failures.min(5)\<close> seconds, at most five minutes.\<close>

definition back_off_delay :: "u32 \<Rightarrow> nat" where
  "back_off_delay failures = secs (min (15 * 2 ^ min (unat failures) 5) 300)"

definition back_off :: "instant \<Rightarrow> address \<Rightarrow> links \<Rightarrow> links" where
  "back_off now a s =
     (let r = retry_state now a s in
      s\<lparr>lk_retry := hm_insert a (r\<lparr>rt_failures := saturating_inc (rt_failures r),
            rt_after := now + back_off_delay (rt_failures r)\<rparr>) (lk_retry s)\<rparr>)"

text \<open>An attempt with no stream after thirty seconds is retired with a failure.\<close>

definition expire :: "instant \<Rightarrow> address \<Rightarrow> links \<Rightarrow> links" where
  "expire now a s =
     (case hm_get (lk_connecting s) a of
        None \<Rightarrow> s
      | Some t \<Rightarrow> if STALE_CONNECT \<le> elapsed now (at_started t)
          then back_off now a (s\<lparr>lk_connecting := hm_remove a (lk_connecting s)\<rparr>) else s)"

definition links_begin :: "instant \<Rightarrow> address \<Rightarrow> links \<Rightarrow> links \<times> u64 option" where
  "links_begin now a s0 =
     (let s = expire now a s0 in
      if hm_get (lk_connected s) a \<noteq> None \<or> hm_get (lk_connecting s) a \<noteq> None
         \<or> (case hm_get (lk_retry s) a of None \<Rightarrow> False | Some r \<Rightarrow> now < rt_after r)
      then (s, None)
      else case checked_inc (lk_next_attempt s) of
          None \<Rightarrow> (s, None)
        | Some n \<Rightarrow>
            (s\<lparr>lk_connecting := hm_insert a \<lparr>at_id = n, at_started = now\<rparr> (lk_connecting s),
               lk_next_attempt := n\<rparr>, Some n))"

definition links_accept :: "instant \<Rightarrow> address \<Rightarrow> links \<Rightarrow> links \<times> bool" where
  "links_accept now a s0 =
     (let s = s0\<lparr>lk_connecting := hm_remove a (lk_connecting s0)\<rparr> in
      if hm_get (lk_connected s) a \<noteq> None then (s, False)
      else (s\<lparr>lk_connected := hm_insert a now (lk_connected s)\<rparr>, True))"

definition links_connect_failed :: "instant \<Rightarrow> address \<Rightarrow> u64 \<Rightarrow> bool \<Rightarrow> links \<Rightarrow> links" where
  "links_connect_failed now a n busy s =
     (case hm_get (lk_connecting s) a of
        None \<Rightarrow> s
      | Some current \<Rightarrow>
          if at_id current \<noteq> n then s
          else
            let s' = s\<lparr>lk_connecting := hm_remove a (lk_connecting s)\<rparr>;
                r = retry_state now a s' in
            if busy \<and> rt_busy r < BUSY_RETRIES
            then s'\<lparr>lk_retry := hm_insert a
                     (r\<lparr>rt_busy := rt_busy r + 1, rt_after := now + secs 1\<rparr>) (lk_retry s')\<rparr>
            else back_off now a s')"

definition links_ended :: "instant \<Rightarrow> address \<Rightarrow> links \<Rightarrow> links" where
  "links_ended now a s =
     (case hm_get (lk_connected s) a of
        None \<Rightarrow> s
      | Some start \<Rightarrow>
          let s1 = s\<lparr>lk_connected := hm_remove a (lk_connected s)\<rparr>;
              s2 = (if secs 60 \<le> elapsed now start
                    then s1\<lparr>lk_retry := hm_remove a (lk_retry s1)\<rparr> else s1)
          in back_off now a s2)"

definition links_reset :: "address \<Rightarrow> links \<Rightarrow> links" where
  "links_reset a s =
     s\<lparr>lk_connecting := hm_remove a (lk_connecting s), lk_retry := hm_remove a (lk_retry s)\<rparr>"

subsection \<open>The calls the tasks make\<close>

datatype link_event =
    LinkBegin instant address
  | LinkAccept instant address
  | LinkFailed instant address u64 bool
  | LinkEnded instant address
  | LinkReset address

fun link_step :: "link_event \<Rightarrow> links \<Rightarrow> links" where
  "link_step (LinkBegin now a) s = fst (links_begin now a s)"
| "link_step (LinkAccept now a) s = fst (links_accept now a s)"
| "link_step (LinkFailed now a n busy) s = links_connect_failed now a n busy s"
| "link_step (LinkEnded now a) s = links_ended now a s"
| "link_step (LinkReset a) s = links_reset a s"

text \<open>
  \<open>reconcile_adapter\<close>: each device with the answers of its property reads (an error ends the
  pass), and the attempts that were started.
\<close>

record 'e device_view =
  dv_address :: address
  dv_connected :: "'e + bool"
  dv_uuids :: "'e + string set option"

fun reconcile_adapter :: "instant \<Rightarrow> string \<Rightarrow> 'e device_view list \<Rightarrow> links
    \<Rightarrow> links \<times> (address \<times> u64) list \<times> ('e + unit)" where
  "reconcile_adapter now uuid [] s = (s, [], Inr ())"
| "reconcile_adapter now uuid (d # ds) s =
     (case dv_connected d of
        Inl e \<Rightarrow> (s, [], Inl e)
      | Inr False \<Rightarrow> reconcile_adapter now uuid ds (links_reset (dv_address d) s)
      | Inr True \<Rightarrow>
          (case dv_uuids d of
             Inl e \<Rightarrow> (s, [], Inl e)
           | Inr uuids \<Rightarrow>
               if (case uuids of None \<Rightarrow> False | Some us \<Rightarrow> uuid \<in> us)
               then (case links_begin now (dv_address d) s of
                   (s', None) \<Rightarrow> reconcile_adapter now uuid ds s'
                 | (s', Some n) \<Rightarrow>
                     (case reconcile_adapter now uuid ds s' of
                        (s'', started, r) \<Rightarrow> (s'', (dv_address d, n) # started, r)))
               else reconcile_adapter now uuid ds s))"

subsection \<open>The attempt fence\<close>

text \<open>
  \<open>current s a\<close> is the number of the attempt in flight to \<open>a\<close>, \<open>issued s\<close> the last number
  handed out, \<open>room n s\<close> that \<open>n\<close> more calls cannot make the counter wrap.
\<close>

locale attempt_fence =
  fixes step :: "'ev \<Rightarrow> 'st \<Rightarrow> 'st"
    and fails :: "'er \<Rightarrow> address \<Rightarrow> u64 \<Rightarrow> 'st \<Rightarrow> 'st"
    and current :: "'st \<Rightarrow> address \<Rightarrow> u64 option"
    and issued :: "'st \<Rightarrow> u64"
    and room :: "nat \<Rightarrow> 'st \<Rightarrow> bool"
  assumes issued_mono: "room (Suc n) s \<Longrightarrow> unat (issued s) \<le> unat (issued (step e s))"
    and room_step: "room (Suc n) s \<Longrightarrow> room n (step e s)"
    and fresh_step: "room (Suc n) s \<Longrightarrow> current (step e s) a = Some i \<Longrightarrow>
      current s a = Some i \<or> unat (issued s) < unat i"
    and stale_failure: "current s a \<noteq> Some i \<Longrightarrow> fails x a i s = s"
begin

lemma retired_stays_retired:
  assumes "room (length es) s" and "unat i \<le> unat (issued s)" and "current s a \<noteq> Some i"
  shows "current (fold step es s) a \<noteq> Some i \<and> unat i \<le> unat (issued (fold step es s))"
  using assms
proof (induction es arbitrary: s)
  case Nil
  then show ?case by simp
next
  case (Cons e es)
  have r: "room (Suc (length es)) s" using Cons.prems(1) by simp
  have "current (step e s) a \<noteq> Some i"
    using fresh_step [OF r, of e a i] Cons.prems(2,3) by auto
  moreover have "unat i \<le> unat (issued (step e s))"
    using issued_mono [OF r, of e] Cons.prems(2) by linarith
  ultimately show ?case using Cons.IH [OF room_step [OF r]] by simp
qed

lemma late_failure_ignored:
  assumes "room (length es) s" and "unat i \<le> unat (issued s)" and "current s a \<noteq> Some i"
  shows "fails x a i (fold step es s) = fold step es s"
  using retired_stays_retired [OF assms] stale_failure by blast

end

definition links_current :: "links \<Rightarrow> address \<Rightarrow> u64 option" where
  "links_current s a = map_option at_id (hm_get (lk_connecting s) a)"

lemmas link_defs = links_begin_def links_accept_def links_connect_failed_def links_ended_def
  links_reset_def back_off_def expire_def Let_def

lemma links_begin_current:
  assumes "links_begin now a s = (s', r)"
  shows "unat (lk_next_attempt s') = unat (lk_next_attempt s) + (if r = None then 0 else 1)
    \<and> (\<forall>n. r = Some n \<longrightarrow> lk_next_attempt s' = n \<and> links_current s' a = Some n)
    \<and> (\<forall>b i. links_current s' b = Some i \<longrightarrow> links_current s b = Some i \<or> b = a \<and> r = Some i)"
proof -
  have e: "lk_next_attempt (expire now a s) = lk_next_attempt s"
    "\<And>b t. hm_get (lk_connecting (expire now a s)) b = Some t \<Longrightarrow> hm_get (lk_connecting s) b = Some t"
    by (auto simp: expire_def back_off_def Let_def split: option.splits if_splits)
  obtain x where x: "expire now a s = x" by simp
  show ?thesis
    using assms e unfolding links_begin_def x Let_def
    by (auto simp: links_current_def split: if_splits option.splits dest: checked_inc_Some)
qed

lemma link_step_issued: "unat (lk_next_attempt s) \<le> unat (lk_next_attempt (link_step e s))"
proof (cases e)
  case (LinkBegin now a)
  then show ?thesis using links_begin_current [of now a s] by (cases "links_begin now a s") auto
qed (auto simp: link_defs split: option.splits if_splits)

lemma link_step_current:
  assumes "links_current (link_step e s) a = Some i"
  shows "links_current s a = Some i \<or> unat (lk_next_attempt s) < unat i"
proof (cases e)
  case (LinkBegin now b)
  obtain s' r where b: "links_begin now b s = (s', r)" by force
  then show ?thesis
    using assms LinkBegin links_begin_current [OF b] by (cases r) fastforce+
qed (use assms in \<open>auto simp: link_defs links_current_def split: option.splits if_splits\<close>)

interpretation vendor: attempt_fence link_step "\<lambda>(now, busy) a n. links_connect_failed now a n busy"
    links_current lk_next_attempt "\<lambda>_ _. True"
proof
  show "links_current s a \<noteq> Some i \<Longrightarrow> (case x of (now, busy) \<Rightarrow>
      \<lambda>a n. links_connect_failed now a n busy) a i s = s" for s a i x
    by (cases x) (auto simp: links_connect_failed_def links_current_def split: option.splits)
qed (use link_step_issued link_step_current in auto)

text \<open>The lifecycle invariant: a peer is never connecting and connected at once, and quick retries
  are bounded.\<close>

definition links_inv :: "links \<Rightarrow> bool" where
  "links_inv s \<longleftrightarrow> hm_ok (lk_connecting s) \<and> hm_ok (lk_connected s) \<and> hm_ok (lk_retry s)
     \<and> (\<forall>a. hm_get (lk_connected s) a \<noteq> None \<longrightarrow> hm_get (lk_connecting s) a = None)
     \<and> (\<forall>a r. hm_get (lk_retry s) a = Some r \<longrightarrow> rt_busy r \<le> BUSY_RETRIES)
     \<and> (\<forall>a i. links_current s a = Some i \<longrightarrow> unat i \<le> unat (lk_next_attempt s))"

lemma busy_bound:
  "(b :: u32) \<le> BUSY_RETRIES \<Longrightarrow> b < BUSY_RETRIES \<Longrightarrow> b + 1 \<le> BUSY_RETRIES"
  by (simp add: inc_le)

lemma links_inv_default: "links_inv links_default"
  by (simp add: links_inv_def links_default_def links_current_def)

lemma links_inv_back_off:
  assumes "links_inv s"
  shows "links_inv (back_off now a s)"
  using assms
  by (auto simp: links_inv_def back_off_def retry_state_def links_current_def Let_def BUSY_RETRIES_def
      split: option.splits if_splits)

lemma links_inv_retire:
  assumes "links_inv s"
  shows "links_inv (s\<lparr>lk_connecting := hm_remove a (lk_connecting s)\<rparr>)"
    and "links_inv (s\<lparr>lk_connected := hm_remove a (lk_connected s)\<rparr>)"
    and "links_inv (s\<lparr>lk_retry := hm_remove a (lk_retry s)\<rparr>)"
  using assms by (auto simp: links_inv_def links_current_def split: if_splits)

lemma links_inv_expire: "links_inv s \<Longrightarrow> links_inv (expire now a s)"
  by (auto simp: expire_def intro: links_inv_back_off links_inv_retire split: option.splits)

lemma links_inv_begin:
  assumes "links_inv s"
  shows "links_inv (fst (links_begin now a s))"
proof -
  obtain x where x: "expire now a s = x" by simp
  have i: "links_inv x" using links_inv_expire [OF assms] x by blast
  show ?thesis
  proof (cases "snd (links_begin now a s)")
    case None
    then show ?thesis using i
      by (auto simp: links_begin_def x Let_def split: if_splits option.splits)
  next
    case (Some n)
    then have "fst (links_begin now a s) = x\<lparr>lk_connecting :=
          hm_insert a \<lparr>at_id = n, at_started = now\<rparr> (lk_connecting x), lk_next_attempt := n\<rparr>"
        and "hm_get (lk_connected x) a = None" and "checked_inc (lk_next_attempt x) = Some n"
      by (auto simp: links_begin_def x Let_def split: if_splits option.splits)
    then show ?thesis
      using i checked_inc_Some [of "lk_next_attempt x" n]
      by (fastforce simp: links_inv_def links_current_def)
  qed
qed

lemma links_inv_step:
  assumes "links_inv s"
  shows "links_inv (link_step e s)"
proof (cases e)
  case (LinkBegin now a)
  then show ?thesis using links_inv_begin [OF assms] by simp
next
  case (LinkAccept now a)
  then show ?thesis using assms
    by (auto simp: links_accept_def Let_def links_inv_def links_current_def split: if_splits)
next
  case (LinkFailed now a n busy)
  have q: "links_inv s' \<Longrightarrow> rt_busy (retry_state now a s') < BUSY_RETRIES \<Longrightarrow>
      links_inv (s'\<lparr>lk_retry := hm_insert a ((retry_state now a s')\<lparr>rt_busy :=
        rt_busy (retry_state now a s') + 1, rt_after := now + secs 1\<rparr>) (lk_retry s')\<rparr>)" for s'
    using busy_bound by (auto simp: links_inv_def links_current_def split: if_splits)
  obtain s1 where s1: "s\<lparr>lk_connecting := hm_remove a (lk_connecting s)\<rparr> = s1" by simp
  have "links_inv s1" using links_inv_retire(1) [OF assms] s1 by blast
  then show ?thesis
    unfolding LinkFailed link_step.simps links_connect_failed_def Let_def s1
    using q [of s1] links_inv_back_off [of s1] assms by (simp split: option.splits)
next
  case (LinkEnded now a)
  obtain s1 where s1: "s\<lparr>lk_connected := hm_remove a (lk_connected s)\<rparr> = s1" by simp
  have "links_inv s1" using links_inv_retire(2) [OF assms] s1 by blast
  then show ?thesis
    unfolding LinkEnded link_step.simps links_ended_def Let_def s1
    using links_inv_retire(3) [of s1 a] links_inv_back_off assms by (simp split: option.splits)
next
  case (LinkReset a)
  have "links_reset a s = (s\<lparr>lk_connecting := hm_remove a (lk_connecting s)\<rparr>)
      \<lparr>lk_retry := hm_remove a (lk_retry (s\<lparr>lk_connecting := hm_remove a (lk_connecting s)\<rparr>))\<rparr>"
    by (simp add: links_reset_def)
  then show ?thesis using LinkReset links_inv_retire(3) [OF links_inv_retire(1) [OF assms]] by simp
qed

lemma links_inv_run: "links_inv s \<Longrightarrow> links_inv (fold link_step es s)"
  by (induction es arbitrary: s) (auto simp: links_inv_step)

subsection \<open>Backoff\<close>

lemma back_off_delay_bounds: "secs 15 \<le> back_off_delay f \<and> back_off_delay f \<le> secs 300"
proof -
  have "(15 :: nat) \<le> 15 * 2 ^ min (unat f) 5" by simp
  then show ?thesis by (simp add: back_off_delay_def)
qed

lemma back_off_delay_mono: "unat f \<le> unat g \<Longrightarrow> back_off_delay f \<le> back_off_delay g"
proof -
  assume "unat f \<le> unat g"
  then have "(2 :: nat) ^ min (unat f) 5 \<le> 2 ^ min (unat g) 5"
    by (intro power_increasing) auto
  then show ?thesis unfolding back_off_delay_def secs_mono by (intro min.mono mult_left_mono) auto
qed

lemma back_off_retry:
  "hm_get (lk_retry (back_off now a s)) a = Some ((retry_state now a s)\<lparr>
     rt_failures := saturating_inc (rt_failures (retry_state now a s)),
     rt_after := now + back_off_delay (rt_failures (retry_state now a s))\<rparr>)"
  by (simp add: back_off_def Let_def)

text \<open>What a caller sees of the deadline: until it passes, no attempt starts.\<close>

lemma links_begin_waits:
  assumes "hm_get (lk_retry s) a = Some r" and "now < rt_after r"
  shows "snd (links_begin now a s) = None"
proof -
  have "\<exists>r'. hm_get (lk_retry (expire now a s)) a = Some r' \<and> now < rt_after r'"
  proof (cases "expire now a s = s")
    case False
    then obtain s1 where "expire now a s = back_off now a s1"
      by (auto simp: expire_def split: option.splits if_splits)
    moreover have "0 < back_off_delay f" for f
      using back_off_delay_bounds [of f] by (simp add: secs_def millis_def)
    ultimately show ?thesis using back_off_retry by auto
  qed (use assms in auto)
  then show ?thesis by (auto simp: links_begin_def Let_def)
qed

text \<open>\<open>begin\<close> starts an attempt exactly when the peer is idle, its deadline is over and
  the counter is not exhausted.\<close>

lemma links_begin_iff:
  "snd (links_begin now a s) \<noteq> None \<longleftrightarrow>
    hm_get (lk_connected s) a = None \<and> hm_get (lk_connecting s) a = None
    \<and> (\<forall>r. hm_get (lk_retry s) a = Some r \<longrightarrow> rt_after r \<le> now) \<and> lk_next_attempt s \<noteq> - 1"
proof (cases "expire now a s = s")
  case True
  then show ?thesis
    by (auto simp: links_begin_def Let_def checked_inc_def not_less split: option.splits)
next
  case False
  then have busy: "hm_get (lk_connecting s) a \<noteq> None"
    by (auto simp: expire_def split: option.splits)
  obtain s1 where s1: "expire now a s = back_off now a s1"
    using False by (auto simp: expire_def split: option.splits if_splits)
  have "0 < back_off_delay f" for f
    using back_off_delay_bounds [of f] by (simp add: secs_def millis_def)
  then have "snd (links_begin now a s) = None"
    using back_off_retry [of now a s1] by (auto simp: links_begin_def Let_def s1)
  with busy show ?thesis by simp
qed

text \<open>An accepted channel keeps its start time and blocks attempts until it ends.\<close>

lemma links_live_blocks:
  assumes "hm_get (lk_connected s) a = Some t"
  shows "links_accept now a s = (s\<lparr>lk_connecting := hm_remove a (lk_connecting s)\<rparr>, False)"
    and "snd (links_begin now a s) = None"
    and "\<forall>e. (\<forall>now'. e \<noteq> LinkEnded now' a) \<longrightarrow> hm_get (lk_connected (link_step e s)) a = Some t"
proof -
  show "links_accept now a s = (s\<lparr>lk_connecting := hm_remove a (lk_connecting s)\<rparr>, False)"
    using assms by (simp add: links_accept_def Let_def)
  show "snd (links_begin now a s) = None"
    using assms links_begin_iff [of now a s] by (cases "snd (links_begin now a s)") auto
  have "hm_get (lk_connected (link_step e s)) a = Some t" if "\<forall>now'. e \<noteq> LinkEnded now' a" for e
    using that assms by (cases e) (auto simp: link_defs split: option.splits if_splits)
  then show "\<forall>e. (\<forall>now'. e \<noteq> LinkEnded now' a) \<longrightarrow> hm_get (lk_connected (link_step e s)) a = Some t"
    by blast
qed

text \<open>The reconciler starts attempts only for connected devices that offer the profile.\<close>

lemma reconcile_adapter_started:
  "reconcile_adapter now uuid ds s = (s', started, r) \<Longrightarrow> (a, n) \<in> set started \<Longrightarrow>
   \<exists>d \<in> set ds. dv_address d = a \<and> dv_connected d = Inr True
     \<and> (\<exists>us. dv_uuids d = Inr (Some us) \<and> uuid \<in> us)"
proof (induction ds arbitrary: s started)
  case Nil
  then show ?case by simp
next
  case (Cons d ds)
  then show ?case
    by (auto split: sum.splits bool.splits option.splits prod.splits if_splits) blast+
qed

lemma reconcile_adapter_inv:
  "links_inv s \<Longrightarrow> links_inv (fst (reconcile_adapter now uuid ds s))"
proof (induction ds arbitrary: s)
  case Nil
  then show ?case by simp
next
  case (Cons d ds)
  have "links_inv (links_reset a s)" for a using links_inv_step [OF Cons.prems, of "LinkReset a"] by simp
  moreover have "links_inv s'" if "links_begin now a s = (s', r)" for a s' r
    using links_inv_begin [OF Cons.prems, of now a] that by simp
  ultimately show ?case using Cons
    by (auto split: sum.splits bool.splits option.splits prod.splits) (metis fst_conv)+
qed

subsection \<open>Properties\<close>

text \<open>
  C11. A failure report of an attempt that is no longer the one in flight (it expired, was reset
  by a disconnect, or its stream was accepted) changes nothing, however many calls follow: it
  cannot retire the replacement or push back its retry deadline.
\<close>

theorem vendor_late_failure_ignored:
  assumes "links_current (fold link_step es1 links_default) a = Some old"
    and "links_current (fold link_step (es1 @ es2) links_default) a \<noteq> Some old"
  shows "links_connect_failed now a old busy (fold link_step (es1 @ es2 @ es3) links_default)
    = fold link_step (es1 @ es2 @ es3) links_default"
proof -
  let ?s = "fold link_step es1 links_default"
  have "unat old \<le> unat (lk_next_attempt ?s)"
    using links_inv_run [OF links_inv_default, of es1] assms(1) by (simp add: links_inv_def)
  also have "\<dots> \<le> unat (lk_next_attempt (fold link_step es2 ?s))"
    using link_step_issued by (induction es2 rule: rev_induct) (auto intro: order_trans)
  finally show ?thesis
    using vendor.late_failure_ignored [where es = es3 and s = "fold link_step es2 ?s" and i = old
        and a = a and x = "(now, busy)"] assms(2)
    by simp
qed

theorem vendor_late_failure_ignored_witness:
  "links_connect_failed 9 [1] 1 True (fold link_step ([LinkBegin 0 [1]] @ [LinkReset [1]] @ [LinkBegin 5 [1]])
       links_default)
    = fold link_step ([LinkBegin 0 [1]] @ [LinkReset [1]] @ [LinkBegin 5 [1]]) links_default
   \<and> links_current (fold link_step ([LinkBegin 0 [1]] @ [LinkReset [1]] @ [LinkBegin 5 [1]])
       links_default) [1] = Some 2"
  using vendor_late_failure_ignored [of "[LinkBegin 0 [1]]" "[1]" 1 "[LinkReset [1]]" 9 True
      "[LinkBegin 5 [1]]"]
  by (simp add: link_defs links_default_def links_current_def hm_defs checked_inc_def)

text \<open>
  From the empty table, whatever the tasks call: a peer is never connecting and connected
  at once, each has at most six quick busy retries, and attempt numbers in flight were issued.
\<close>

theorem vendor_links_invariant: "links_inv (fold link_step es links_default)"
  by (rule links_inv_run [OF links_inv_default])

text \<open>
  \<open>begin\<close> starts an attempt exactly when the peer has no channel and no attempt (an
  expired one included), its retry deadline has passed and the counter is not exhausted.
\<close>

theorem vendor_begin_starts_iff:
  "(snd (links_begin now a s) \<noteq> None) =
    (hm_get (lk_connected s) a = None \<and> hm_get (lk_connecting s) a = None
     \<and> (case hm_get (lk_retry s) a of None \<Rightarrow> True | Some r \<Rightarrow> rt_after r \<le> now)
     \<and> lk_next_attempt s \<noteq> - 1)"
  using links_begin_iff [of now a s] by (simp split: option.split)

end
