(* ===== verification/FastPairLinks.thy ===== *)
theory FastPairLinks
  imports FastPairWire VendorLinks
begin

text \<open>
  Connection attempts of \<open>src/fast_pair.rs\<close> (\<open>ConnectionState\<close>) with the retry policy of
  \<open>fast_pair/retry.rs\<close>, and the pending commands of \<open>fast_pair/commands.rs\<close>.

  \<open>jitter\<close> is the random byte a failure draws; writers are named by channel numbers.
\<close>

subsection \<open>Retry policy\<close>

definition BUSY_RETRY_MS :: "nat list" where
  "BUSY_RETRY_MS = [250, 500, 1000, 1000, 1000, 1000]"

record peer_retry =
  pr_failures :: u32
  pr_busy_attempts :: nat
  pr_after :: "instant option"
  pr_unknown_psm :: u8
  pr_unavailable_psm :: bool

type_synonym retry_policy = "(address, peer_retry) hmap"

definition peer_retry_default :: peer_retry where
  "peer_retry_default = \<lparr>pr_failures = 0, pr_busy_attempts = 0, pr_after = None,
     pr_unknown_psm = 0, pr_unavailable_psm = False\<rparr>"

definition peer_entry :: "address \<Rightarrow> retry_policy \<Rightarrow> peer_retry" where
  "peer_entry a r = (case hm_get r a of None \<Rightarrow> peer_retry_default | Some p \<Rightarrow> p)"

definition retry_delay :: "u8 \<Rightarrow> u32 \<Rightarrow> nat" where
  "retry_delay jitter failures =
     (let seconds = min (15 * 2 ^ min (unat failures) 5) 300
      in secs (seconds + unat jitter mod (seconds div 5 + 1)))"

definition peer_failed :: "instant \<Rightarrow> u8 \<Rightarrow> peer_retry \<Rightarrow> peer_retry" where
  "peer_failed now jitter p =
     p\<lparr>pr_failures := saturating_inc (pr_failures p),
       pr_after := Some (now + retry_delay jitter (pr_failures p))\<rparr>"

definition retry_ready :: "instant \<Rightarrow> address \<Rightarrow> retry_policy \<Rightarrow> bool" where
  "retry_ready now a r =
     (case hm_get r a of None \<Rightarrow> True
      | Some p \<Rightarrow> (case pr_after p of None \<Rightarrow> True | Some deadline \<Rightarrow> deadline \<le> now))"

definition retry_deadlines :: "retry_policy \<Rightarrow> instant list" where
  "retry_deadlines r = List.map_filter (\<lambda>(_, p). pr_after p) r"

definition retry_next_deadline :: "retry_policy \<Rightarrow> instant option" where
  "retry_next_deadline r =
     (case retry_deadlines r of [] \<Rightarrow> None | d # ds \<Rightarrow> Some (foldr min ds d))"

definition retry_clear_due :: "instant \<Rightarrow> retry_policy \<Rightarrow> retry_policy" where
  "retry_clear_due now r =
     hm_map_values (\<lambda>_ p. p\<lparr>pr_after := (case pr_after p of None \<Rightarrow> None
        | Some deadline \<Rightarrow> if now < deadline then Some deadline else None)\<rparr>) r"

definition retry_connection_failed ::
    "instant \<Rightarrow> u8 \<Rightarrow> address \<Rightarrow> bluer_error option \<Rightarrow> retry_policy \<Rightarrow> retry_policy" where
  "retry_connection_failed now jitter a error r =
     (let p = peer_entry a r in
      if is_connection_busy error \<and> pr_busy_attempts p < length BUSY_RETRY_MS
      then hm_insert a (p\<lparr>pr_busy_attempts := pr_busy_attempts p + 1,
             pr_after := Some (now + millis (BUSY_RETRY_MS ! pr_busy_attempts p))\<rparr>) r
      else hm_insert a (peer_failed now jitter p) r)"

definition retry_failed :: "instant \<Rightarrow> u8 \<Rightarrow> address \<Rightarrow> retry_policy \<Rightarrow> retry_policy" where
  "retry_failed now jitter a r = hm_insert a (peer_failed now jitter (peer_entry a r)) r"

definition retry_connected :: "address \<Rightarrow> retry_policy \<Rightarrow> retry_policy" where
  "retry_connected a r =
     (case hm_get r a of None \<Rightarrow> r | Some p \<Rightarrow> hm_insert a (p\<lparr>pr_after := None\<rparr>) r)"

definition l2cap_allowed :: "address \<Rightarrow> retry_policy \<Rightarrow> bool" where
  "l2cap_allowed a r =
     (case hm_get r a of None \<Rightarrow> True | Some p \<Rightarrow> \<not> pr_unavailable_psm p)"

definition psm_unknown :: "address \<Rightarrow> retry_policy \<Rightarrow> retry_policy" where
  "psm_unknown a r =
     (let p = peer_entry a r; n = saturating_inc (pr_unknown_psm p) in
      hm_insert a (p\<lparr>pr_unknown_psm := n,
        pr_unavailable_psm := (pr_unavailable_psm p \<or> 3 \<le> n)\<rparr>) r)"

definition psm_unavailable :: "address \<Rightarrow> retry_policy \<Rightarrow> retry_policy" where
  "psm_unavailable a r = hm_insert a ((peer_entry a r)\<lparr>pr_unavailable_psm := True\<rparr>) r"

definition retry_reset_session :: "address \<Rightarrow> retry_policy \<Rightarrow> retry_policy" where
  "retry_reset_session a r = hm_remove a r"

subsection \<open>Connection state\<close>

datatype transport = Rfcomm | L2cap

definition select_transport :: "bool \<Rightarrow> bool \<Rightarrow> bool \<Rightarrow> transport option" where
  "select_transport rfcomm_available supports_rfcomm supports_l2cap =
     (if rfcomm_available \<and> supports_rfcomm then Some Rfcomm
      else if supports_l2cap then Some L2cap
      else None)"

datatype link_state = Connecting u64 instant | Connected instant

record conn_state =
  cn_links :: "(address, link_state) hmap"
  cn_writers :: "(address, nat) hmap"
  cn_retry :: retry_policy
  cn_next_attempt :: u64

definition conn_default :: conn_state where
  "conn_default = \<lparr>cn_links = [], cn_writers = [], cn_retry = [], cn_next_attempt = 0\<rparr>"

definition conn_expire :: "instant \<Rightarrow> u8 \<Rightarrow> address \<Rightarrow> conn_state \<Rightarrow> conn_state" where
  "conn_expire now jitter a s =
     (case hm_get (cn_links s) a of
        Some (Connecting _ started) \<Rightarrow>
          if STALE_CONNECT \<le> elapsed now started
          then s\<lparr>cn_links := hm_remove a (cn_links s), cn_retry := retry_failed now jitter a (cn_retry s)\<rparr>
          else s
      | _ \<Rightarrow> s)"

definition conn_begin ::
    "instant \<Rightarrow> u8 \<Rightarrow> address \<Rightarrow> transport \<Rightarrow> conn_state \<Rightarrow> conn_state \<times> u64 option" where
  "conn_begin now jitter a transport s0 =
     (let s = conn_expire now jitter a s0 in
      if hm_get (cn_links s) a \<noteq> None \<or> \<not> retry_ready now a (cn_retry s)
         \<or> transport = L2cap \<and> \<not> l2cap_allowed a (cn_retry s)
      then (s, None)
      else
        let n = cn_next_attempt s + 1 in
        (s\<lparr>cn_links := hm_insert a (Connecting n now) (cn_links s), cn_next_attempt := n\<rparr>, Some n))"

definition is_current_attempt :: "address \<Rightarrow> u64 \<Rightarrow> conn_state \<Rightarrow> bool" where
  "is_current_attempt a n s =
     (case hm_get (cn_links s) a of Some (Connecting m _) \<Rightarrow> m = n | _ \<Rightarrow> False)"

definition conn_note_change :: "address \<Rightarrow> bool \<Rightarrow> conn_state \<Rightarrow> conn_state" where
  "conn_note_change a connected s0 =
     (let s = s0\<lparr>cn_retry := retry_reset_session a (cn_retry s0)\<rparr> in
      if \<not> connected \<and> (case hm_get (cn_links s) a of Some (Connecting _ _) \<Rightarrow> True | _ \<Rightarrow> False)
      then s\<lparr>cn_links := hm_remove a (cn_links s)\<rparr> else s)"

definition mark_connected :: "instant \<Rightarrow> address \<Rightarrow> conn_state \<Rightarrow> conn_state \<times> bool" where
  "mark_connected now a s =
     (case hm_get (cn_links s) a of
        Some (Connected _) \<Rightarrow> (s, False)
      | _ \<Rightarrow> (s\<lparr>cn_links := hm_insert a (Connected now) (cn_links s),
               cn_retry := retry_connected a (cn_retry s)\<rparr>, True))"

definition connect_completed :: "instant \<Rightarrow> address \<Rightarrow> u64 \<Rightarrow> conn_state \<Rightarrow> conn_state \<times> bool" where
  "connect_completed now a n s =
     (if is_current_attempt a n s then mark_connected now a s else (s, False))"

definition conn_ended :: "instant \<Rightarrow> u8 \<Rightarrow> address \<Rightarrow> conn_state \<Rightarrow> conn_state" where
  "conn_ended now jitter a s =
     (let stable = (case hm_get (cn_links s) a of
          Some (Connected start) \<Rightarrow> secs 60 \<le> elapsed now start | _ \<Rightarrow> False);
          retry = (if stable then retry_reset_session a (cn_retry s) else cn_retry s)
      in s\<lparr>cn_links := hm_remove a (cn_links s), cn_writers := hm_remove a (cn_writers s),
           cn_retry := retry_failed now jitter a retry\<rparr>)"

definition connection_failed ::
    "instant \<Rightarrow> u8 \<Rightarrow> address \<Rightarrow> u64 \<Rightarrow> bluer_error option \<Rightarrow> conn_state \<Rightarrow> conn_state" where
  "connection_failed now jitter a n error s =
     (if is_current_attempt a n s
      then s\<lparr>cn_links := hm_remove a (cn_links s),
             cn_retry := retry_connection_failed now jitter a error (cn_retry s)\<rparr>
      else s)"

definition conn_install_writer :: "address \<Rightarrow> nat \<Rightarrow> conn_state \<Rightarrow> conn_state" where
  "conn_install_writer a w s = s\<lparr>cn_writers := hm_insert a w (cn_writers s)\<rparr>"

text \<open>The calls the tasks make on the locked connection state.\<close>

datatype conn_event =
    ConnBegin instant u8 address transport
  | ConnNote address bool
  | ConnMark instant address
  | ConnCompleted instant address u64
  | ConnFailed instant u8 address u64 "bluer_error option"
  | ConnEnded instant u8 address
  | ConnWriter address nat
  | ConnPsmUnknown address
  | ConnPsmUnavailable address
  | ConnClearDue instant

fun conn_step :: "conn_event \<Rightarrow> conn_state \<Rightarrow> conn_state" where
  "conn_step (ConnBegin now j a t) s = fst (conn_begin now j a t s)"
| "conn_step (ConnNote a c) s = conn_note_change a c s"
| "conn_step (ConnMark now a) s = fst (mark_connected now a s)"
| "conn_step (ConnCompleted now a n) s = fst (connect_completed now a n s)"
| "conn_step (ConnFailed now j a n e) s = connection_failed now j a n e s"
| "conn_step (ConnEnded now j a) s = conn_ended now j a s"
| "conn_step (ConnWriter a w) s = conn_install_writer a w s"
| "conn_step (ConnPsmUnknown a) s = s\<lparr>cn_retry := psm_unknown a (cn_retry s)\<rparr>"
| "conn_step (ConnPsmUnavailable a) s = s\<lparr>cn_retry := psm_unavailable a (cn_retry s)\<rparr>"
| "conn_step (ConnClearDue now) s = s\<lparr>cn_retry := retry_clear_due now (cn_retry s)\<rparr>"

subsection \<open>The attempt fence again\<close>

definition conn_current :: "conn_state \<Rightarrow> address \<Rightarrow> u64 option" where
  "conn_current s a =
     (case hm_get (cn_links s) a of Some (Connecting n _) \<Rightarrow> Some n | _ \<Rightarrow> None)"

lemmas conn_defs = conn_begin_def conn_expire_def conn_note_change_def mark_connected_def
  connect_completed_def conn_ended_def connection_failed_def conn_install_writer_def Let_def

lemma is_current_attempt_iff: "is_current_attempt a n s \<longleftrightarrow> conn_current s a = Some n"
  by (simp add: is_current_attempt_def conn_current_def split: option.splits link_state.splits)

lemma conn_begin_result:
  assumes "conn_begin now j a t s = (s', r)"
  shows "cn_next_attempt s' = (case r of None \<Rightarrow> cn_next_attempt s | Some n \<Rightarrow> cn_next_attempt s + 1)
    \<and> (\<forall>n. r = Some n \<longrightarrow> n = cn_next_attempt s + 1 \<and> conn_current s' a = Some n)
    \<and> (\<forall>b i. conn_current s' b = Some i \<longrightarrow> conn_current s b = Some i \<or> b = a \<and> r = Some i)"
proof -
  have e: "cn_next_attempt (conn_expire now j a s) = cn_next_attempt s"
    "\<And>b l. hm_get (cn_links (conn_expire now j a s)) b = Some l \<Longrightarrow> hm_get (cn_links s) b = Some l"
    by (auto simp: conn_expire_def split: option.splits link_state.splits if_splits)
  obtain x where x: "conn_expire now j a s = x" by simp
  show ?thesis
    using assms e unfolding conn_begin_def x Let_def
    by (auto simp: conn_current_def split: if_splits option.splits link_state.splits)
qed

definition conn_room :: "nat \<Rightarrow> conn_state \<Rightarrow> bool" where
  "conn_room n s \<longleftrightarrow> unat (cn_next_attempt s) + n < 2 ^ 64"

lemma conn_room_inc:
  assumes "conn_room (Suc n) s"
  shows "unat (cn_next_attempt s + 1) = Suc (unat (cn_next_attempt s))"
proof -
  have "cn_next_attempt s \<noteq> - 1"
  proof
    assume "cn_next_attempt s = - 1"
    then have "unat (cn_next_attempt s) = 2 ^ 64 - 1"
      by (simp only: unsigned_minus_1_eq_mask) (simp add: mask_eq_exp_minus_1)
    then show False using assms by (simp add: conn_room_def)
  qed
  then show ?thesis by (rule unat_not_max_inc)
qed

lemma conn_step_issued:
  assumes "conn_room (Suc n) s"
  shows "unat (cn_next_attempt s) \<le> unat (cn_next_attempt (conn_step e s)) \<and> conn_room n (conn_step e s)"
proof (cases e)
  case (ConnBegin now j a t)
  obtain s' r where b: "conn_begin now j a t s = (s', r)" by force
  then show ?thesis
    using ConnBegin assms conn_begin_result [OF b] conn_room_inc [OF assms]
    by (auto simp: conn_room_def split: option.splits)
qed (use assms in \<open>auto simp: conn_room_def conn_defs split: option.splits link_state.splits\<close>)

lemma conn_step_current:
  assumes "conn_room (Suc n) s" and "conn_current (conn_step e s) a = Some i"
  shows "conn_current s a = Some i \<or> unat (cn_next_attempt s) < unat i"
proof (cases e)
  case (ConnBegin now j b t)
  obtain s' r where b: "conn_begin now j b t s = (s', r)" by force
  then show ?thesis
    using assms ConnBegin conn_begin_result [OF b] conn_room_inc [OF assms(1)]
    by (cases r) fastforce+
qed (use assms(2) in \<open>auto simp: conn_defs conn_current_def
      split: option.splits link_state.splits if_splits\<close>)

text \<open>Late reports are failures and completions alike.\<close>

datatype late_report = LateFailure instant u8 "bluer_error option" | LateCompletion instant

fun report_late :: "late_report \<Rightarrow> address \<Rightarrow> u64 \<Rightarrow> conn_state \<Rightarrow> conn_state" where
  "report_late (LateFailure now j e) a n s = connection_failed now j a n e s"
| "report_late (LateCompletion now) a n s = fst (connect_completed now a n s)"

interpretation fast_pair: attempt_fence conn_step report_late conn_current cn_next_attempt conn_room
proof
  show "conn_current s a \<noteq> Some i \<Longrightarrow> report_late x a i s = s" for s a i x
    by (cases x) (simp_all add: connection_failed_def connect_completed_def is_current_attempt_iff)
qed (use conn_step_issued conn_step_current in blast)+

subsection \<open>Backoff\<close>

lemma retry_delay_bounds: "secs 15 \<le> retry_delay j f \<and> retry_delay j f \<le> secs 360"
proof -
  let ?s = "min (15 * 2 ^ min (unat f) 5) 300 :: nat"
  have s: "15 \<le> ?s" "?s \<le> 300" by simp_all
  have "unat j mod (?s div 5 + 1) < ?s div 5 + 1" by (rule mod_less_divisor) simp
  with s have "?s + unat j mod (?s div 5 + 1) \<le> 360" by linarith
  moreover have "15 \<le> ?s + unat j mod (?s div 5 + 1)" using s by linarith
  ultimately show ?thesis unfolding retry_delay_def Let_def secs_mono by blast
qed

lemma busy_retry_bounds:
  assumes "n < length BUSY_RETRY_MS"
  shows "millis 250 \<le> millis (BUSY_RETRY_MS ! n) \<and> millis (BUSY_RETRY_MS ! n) \<le> secs 1"
proof -
  have "BUSY_RETRY_MS ! n \<in> set BUSY_RETRY_MS" using assms by (rule nth_mem)
  then have "250 \<le> BUSY_RETRY_MS ! n \<and> BUSY_RETRY_MS ! n \<le> 1000"
    by (auto simp: BUSY_RETRY_MS_def)
  then show ?thesis by (simp add: millis_def secs_def)
qed

text \<open>
  Every failure of the attempt in flight frees the peer's slot and leaves a retry deadline between a
  quarter of a second and six minutes away, for every kind of error and every random jitter.
\<close>

theorem connection_failure_schedules_retry:
  assumes "is_current_attempt a n s"
  shows "\<exists>p d. hm_get (cn_retry (connection_failed now j a n e s)) a = Some p \<and> pr_after p = Some d
    \<and> now + millis 250 \<le> d \<and> d \<le> now + secs 360 \<and> hm_get (cn_links (connection_failed now j a n e s)) a = None"
proof -
  have "millis 250 \<le> secs 15" "secs 1 \<le> secs 360" by (simp_all add: millis_def secs_def)
  then have b: "millis 250 \<le> millis (BUSY_RETRY_MS ! n) \<and> millis (BUSY_RETRY_MS ! n) \<le> secs 360"
      if "n < length BUSY_RETRY_MS" for n
    using busy_retry_bounds [OF that] by linarith
  have r: "millis 250 \<le> retry_delay j f \<and> retry_delay j f \<le> secs 360" for f
    using retry_delay_bounds [of j f] \<open>millis 250 \<le> secs 15\<close> by linarith
  show ?thesis
    using assms b r
    by (auto simp: connection_failed_def retry_connection_failed_def peer_failed_def Let_def)
qed

theorem connection_failure_schedules_retry_witness:
  "\<exists>p d. hm_get (cn_retry (connection_failed 100 7 [1] 1 None (fst (conn_begin 0 0 [1] Rfcomm conn_default)))) [1]
      = Some p \<and> pr_after p = Some d \<and> 100 + millis 250 \<le> d \<and> d \<le> 100 + secs 360"
  using connection_failure_schedules_retry [of "[1]" 1 "fst (conn_begin 0 0 [1] Rfcomm conn_default)" 100 7 None]
  by (auto simp: is_current_attempt_def conn_begin_def conn_expire_def conn_default_def retry_ready_def hm_defs Let_def)

subsection \<open>Invariants\<close>

definition peer_ok :: "peer_retry \<Rightarrow> bool" where
  "peer_ok p \<longleftrightarrow> pr_busy_attempts p \<le> 6 \<and> (3 \<le> pr_unknown_psm p \<longrightarrow> pr_unavailable_psm p)"

definition retry_ok :: "retry_policy \<Rightarrow> bool" where
  "retry_ok r \<longleftrightarrow> hm_ok r \<and> (\<forall>a p. hm_get r a = Some p \<longrightarrow> peer_ok p)"

definition conn_inv :: "conn_state \<Rightarrow> bool" where
  "conn_inv s \<longleftrightarrow> hm_ok (cn_links s) \<and> hm_ok (cn_writers s) \<and> retry_ok (cn_retry s)"

lemma conn_inv_default: "conn_inv conn_default"
  by (simp add: conn_inv_def conn_default_def retry_ok_def)

lemma peer_entry_ok: "retry_ok r \<Longrightarrow> peer_ok (peer_entry a r)"
  by (auto simp: peer_entry_def retry_ok_def peer_ok_def peer_retry_default_def split: option.splits)

lemma retry_ok_insert: "retry_ok r \<Longrightarrow> peer_ok p \<Longrightarrow> retry_ok (hm_insert a p r)"
  by (auto simp: retry_ok_def split: if_splits)

lemma peer_ok_updates:
  assumes "peer_ok p"
  shows "peer_ok (peer_failed now j p)" and "peer_ok (p\<lparr>pr_after := d\<rparr>)"
    and "peer_ok (p\<lparr>pr_unavailable_psm := True\<rparr>)"
    and "pr_busy_attempts p < length BUSY_RETRY_MS \<Longrightarrow>
      peer_ok (p\<lparr>pr_busy_attempts := pr_busy_attempts p + 1, pr_after := d\<rparr>)"
    and "peer_ok (p\<lparr>pr_unknown_psm := n, pr_unavailable_psm := (pr_unavailable_psm p \<or> 3 \<le> n)\<rparr>)"
  using assms by (auto simp: peer_ok_def peer_failed_def BUSY_RETRY_MS_def)

lemma retry_ok_ops:
  assumes "retry_ok r"
  shows "retry_ok (retry_failed now j a r)" and "retry_ok (retry_connection_failed now j a e r)"
    and "retry_ok (retry_connected a r)" and "retry_ok (psm_unknown a r)"
    and "retry_ok (psm_unavailable a r)" and "retry_ok (retry_reset_session a r)"
    and "retry_ok (retry_clear_due now r)"
proof -
  note e = peer_entry_ok [OF assms, of a]
  show "retry_ok (retry_failed now j a r)"
    by (simp add: retry_failed_def retry_ok_insert assms peer_ok_updates(1) e)
  show "retry_ok (retry_connection_failed now j a err r)" for err
    using retry_ok_insert [OF assms] peer_ok_updates(1,4) [OF e]
    by (simp add: retry_connection_failed_def Let_def)
  show "retry_ok (retry_connected a r)"
    using assms by (auto simp: retry_connected_def retry_ok_def intro: peer_ok_updates
        split: option.splits if_splits)
  show "retry_ok (psm_unknown a r)"
    using retry_ok_insert [OF assms] peer_ok_updates(5) [OF e] by (simp add: psm_unknown_def Let_def)
  show "retry_ok (psm_unavailable a r)"
    using retry_ok_insert [OF assms] peer_ok_updates(3) [OF e] by (simp add: psm_unavailable_def)
  show "retry_ok (retry_reset_session a r)"
    using assms by (auto simp: retry_reset_session_def retry_ok_def split: if_splits)
  show "retry_ok (retry_clear_due now r)"
    using assms by (auto simp: retry_clear_due_def retry_ok_def intro: peer_ok_updates)
qed

lemma conn_inv_step:
  assumes "conn_inv s"
  shows "conn_inv (conn_step e s)"
proof (cases e)
  case (ConnBegin now j a t)
  then show ?thesis using assms
    by (auto simp: conn_inv_def conn_begin_def conn_expire_def Let_def intro: retry_ok_ops
        split: option.splits link_state.splits)
qed (use assms in \<open>auto simp: conn_inv_def conn_defs intro: retry_ok_ops
      split: option.splits link_state.splits\<close>)

lemma conn_inv_run: "conn_inv s \<Longrightarrow> conn_inv (fold conn_step es s)"
  by (induction es arbitrary: s) (auto simp: conn_inv_step)

text \<open>A stream keeps its slot, and its start, until its own teardown.\<close>

lemma conn_live_blocks:
  assumes "hm_get (cn_links s) a = Some (Connected t)" and "\<forall>now j. e \<noteq> ConnEnded now j a"
  shows "hm_get (cn_links (conn_step e s)) a = Some (Connected t)"
proof (cases e)
  case (ConnBegin now j b u)
  then show ?thesis using assms
    by (auto simp: conn_begin_def conn_expire_def Let_def split: option.splits link_state.splits)
qed (use assms in \<open>auto simp: conn_defs is_current_attempt_def split: option.splits link_state.splits\<close>)

lemma conn_begin_iff:
  "snd (conn_begin now j a t s) \<noteq> None \<longleftrightarrow> hm_get (cn_links s) a = None
    \<and> retry_ready now a (cn_retry s) \<and> (t = L2cap \<longrightarrow> l2cap_allowed a (cn_retry s))"
proof (cases "conn_expire now j a s = s")
  case True
  then show ?thesis by (auto simp: conn_begin_def Let_def)
next
  case False
  then have busy: "hm_get (cn_links s) a \<noteq> None"
    by (auto simp: conn_expire_def split: option.splits)
  have r: "cn_retry (conn_expire now j a s) = retry_failed now j a (cn_retry s)"
    using False by (auto simp: conn_expire_def split: option.splits link_state.splits if_splits)
  have "0 < retry_delay j f" for f
    using retry_delay_bounds [of j f] by (simp add: secs_def millis_def)
  then have "\<not> retry_ready now a (cn_retry (conn_expire now j a s))"
    by (simp add: r retry_ready_def retry_failed_def peer_failed_def)
  with busy show ?thesis by (simp add: conn_begin_def Let_def)
qed

subsection \<open>Properties\<close>

lemma conn_current_issued_step:
  assumes "conn_room (Suc n) s" and "\<forall>b i. conn_current s b = Some i \<longrightarrow> unat i \<le> unat (cn_next_attempt s)"
    and "conn_current (conn_step e s) a = Some i"
  shows "unat i \<le> unat (cn_next_attempt (conn_step e s))"
proof -
  note mono = conn_step_issued [OF assms(1), of e, THEN conjunct1]
  show ?thesis
  proof (cases "conn_current s a = Some i")
    case True
    then show ?thesis using assms(2) mono le_trans by blast
  next
    case new: False
    then show ?thesis
    proof (cases e)
      case (ConnBegin now j b t)
      obtain s' r where b: "conn_begin now j b t s = (s', r)" by force
      have "r = Some i" using new assms(3) ConnBegin b conn_begin_result [OF b] by auto
      then show ?thesis using ConnBegin b conn_begin_result [OF b] by simp
    qed (use new assms(3) in \<open>auto simp: conn_defs conn_current_def
      split: option.splits link_state.splits if_splits\<close>)
  qed
qed

lemma conn_room_run: "conn_room (length es + n) s \<Longrightarrow> conn_room n (fold conn_step es s)"
proof (induction es arbitrary: s)
  case (Cons e es)
  then show ?case using conn_step_issued [of "length es + n" s e] by simp
qed simp

lemma conn_current_issued:
  assumes "length es < 2 ^ 64" and "conn_current (fold conn_step es conn_default) a = Some i"
  shows "unat i \<le> unat (cn_next_attempt (fold conn_step es conn_default))"
  using assms
proof (induction es arbitrary: a i rule: rev_induct)
  case Nil
  then show ?case by (simp add: conn_default_def conn_current_def)
next
  case (snoc e es)
  have "conn_room (length es + Suc 0) conn_default" using snoc.prems(1) by (simp add: conn_room_def conn_default_def)
  then have room: "conn_room (Suc 0) (fold conn_step es conn_default)" by (rule conn_room_run)
  show ?case using conn_current_issued_step [OF room, of e a i] snoc by simp
qed

text \<open>C10.
  A Fast Pair attempt that is no longer in flight (it expired, was dropped by a disconnect, or its
  stream was accepted) can neither fail nor complete any more: its late report changes nothing,
  whatever was called in between, as long as fewer than 2^64 calls were made, so that the wrapping
  attempt counter has not come around.
\<close>

theorem fast_pair_late_report_ignored:
  assumes "length (es1 @ es2 @ es3) < 2 ^ 64"
    and "conn_current (fold conn_step es1 conn_default) a = Some old"
    and "conn_current (fold conn_step (es1 @ es2) conn_default) a \<noteq> Some old"
  shows "report_late r a old (fold conn_step (es1 @ es2 @ es3) conn_default)
    = fold conn_step (es1 @ es2 @ es3) conn_default"
proof -
  let ?s1 = "fold conn_step es1 conn_default" and ?s2 = "fold conn_step (es1 @ es2) conn_default"
  have room: "conn_room (length (es1 @ es2 @ es3)) conn_default"
    using assms(1) by (simp add: conn_room_def conn_default_def)
  have r1: "conn_room (length es2) ?s1" and r2: "conn_room (length es3) ?s2"
    using conn_room_run [of es1 "length es2" conn_default] conn_room_run [of "es1 @ es2" "length es3" conn_default] room
    by (simp_all add: conn_room_def)
  have "unat old \<le> unat (cn_next_attempt ?s1)" using conn_current_issued assms(1,2) by simp
  also have "\<dots> \<le> unat (cn_next_attempt (fold conn_step es2 ?s1))"
    using r1
  proof (induction es2 arbitrary: rule: rev_induct)
    case (snoc e es)
    have "conn_room (length es) ?s1" using snoc.prems by (simp add: conn_room_def)
    moreover have "conn_room (Suc 0) (fold conn_step es ?s1)" using conn_room_run [of es "Suc 0" ?s1] snoc.prems by simp
    ultimately show ?case using snoc.IH conn_step_issued [of 0 "fold conn_step es ?s1" e] by simp
  qed simp
  finally have "unat old \<le> unat (cn_next_attempt ?s2)" by simp
  then show ?thesis
    using fast_pair.late_failure_ignored [where es = es3 and s = ?s2 and i = old and a = a and x = r] r2 assms(3)
    by simp
qed

theorem fast_pair_late_report_ignored_witness:
  "report_late (LateFailure 9 0 None) [1] 1
      (fold conn_step ([ConnBegin 0 0 [1] Rfcomm] @ [ConnNote [1] False] @ [ConnBegin 5 0 [1] Rfcomm]) conn_default)
    = fold conn_step ([ConnBegin 0 0 [1] Rfcomm] @ [ConnNote [1] False] @ [ConnBegin 5 0 [1] Rfcomm]) conn_default
   \<and> conn_current (fold conn_step ([ConnBegin 0 0 [1] Rfcomm] @ [ConnNote [1] False] @ [ConnBegin 5 0 [1] Rfcomm])
        conn_default) [1] = Some 2"
  using fast_pair_late_report_ignored [of "[ConnBegin 0 0 [1] Rfcomm]" "[ConnNote [1] False]"
      "[ConnBegin 5 0 [1] Rfcomm]" "[1]" 1 "LateFailure 9 0 None"]
  by (simp add: conn_defs conn_default_def conn_current_def hm_defs retry_ready_def retry_reset_session_def)

end
