(* ===== verification/FastPairCommands.thy ===== *)
theory FastPairCommands
  imports Prelude
begin

text \<open>
  \<open>PendingCommands\<close> of \<open>src/fast_pair/commands.rs\<close>: one slot per (address, group, code),
  guarded by generations. The one-shot reply channel of a reservation is named by its
  generation and its state is \<open>outcome\<close>; removing an entry drops its sender, which cancels
  a receiver that has no reply yet.
\<close>

type_synonym command_key = "address \<times> u8 \<times> u8"
type_synonym reply = "string + unit"

datatype outcome = Waiting | Replied reply | Cancelled

record pending =
  pc_sequence :: u64
  pc_entries :: "(command_key, u64) hmap"
  pc_outcomes :: "u64 \<Rightarrow> outcome"

definition pending_default :: pending where
  "pending_default = \<lparr>pc_sequence = 0, pc_entries = [], pc_outcomes = (\<lambda>_. Cancelled)\<rparr>"

datatype command_error =
    AlreadyPending | GenerationExhausted | SendFailed string | AckCancelled | AckRejected string
  | AckTimeout

definition cancel :: "u64 set \<Rightarrow> (u64 \<Rightarrow> outcome) \<Rightarrow> u64 \<Rightarrow> outcome" where
  "cancel gs out = (\<lambda>g. if g \<in> gs \<and> out g = Waiting then Cancelled else out g)"

definition reserve :: "command_key \<Rightarrow> pending \<Rightarrow> pending \<times> (command_error + u64)" where
  "reserve key s =
     (if hm_get (pc_entries s) key \<noteq> None then (s, Inl AlreadyPending)
      else case checked_inc (pc_sequence s) of
          None \<Rightarrow> (s, Inl GenerationExhausted)
        | Some n \<Rightarrow>
            (let g = pc_sequence s in
             (s\<lparr>pc_sequence := n, pc_entries := hm_insert key g (pc_entries s),
                pc_outcomes := (pc_outcomes s)(g := Waiting)\<rparr>, Inr g)))"

definition resolve :: "command_key \<Rightarrow> reply \<Rightarrow> pending \<Rightarrow> pending" where
  "resolve key r s =
     (case hm_get (pc_entries s) key of
        None \<Rightarrow> s
      | Some g \<Rightarrow> s\<lparr>pc_entries := hm_remove key (pc_entries s),
                    pc_outcomes := (pc_outcomes s)(g := Replied r)\<rparr>)"

definition pending_disconnect :: "address \<Rightarrow> pending \<Rightarrow> pending" where
  "pending_disconnect a s =
     s\<lparr>pc_entries := hm_retain (\<lambda>(peer, _, _) _. peer \<noteq> a) (pc_entries s),
       pc_outcomes := cancel {g. \<exists>(k, g') \<in> set (pc_entries s). g' = g \<and> fst k = a} (pc_outcomes s)\<rparr>"

definition pending_clear :: "pending \<Rightarrow> pending" where
  "pending_clear s = s\<lparr>pc_entries := [], pc_outcomes := cancel (snd ` set (pc_entries s)) (pc_outcomes s)\<rparr>"

text \<open>\<open>Drop for Reservation\<close>: only the entry of the same generation is released.\<close>

definition drop_reservation :: "command_key \<Rightarrow> u64 \<Rightarrow> pending \<Rightarrow> pending" where
  "drop_reservation key g s =
     (if hm_get (pc_entries s) key = Some g
      then s\<lparr>pc_entries := hm_remove key (pc_entries s), pc_outcomes := cancel {g} (pc_outcomes s)\<rparr>
      else s)"

text \<open>What can happen to the table while a command waits.\<close>

datatype pending_event =
    PReserve command_key
  | PResolve command_key reply
  | PDisconnect address
  | PClear
  | PDrop command_key u64

fun pending_step :: "pending_event \<Rightarrow> pending \<Rightarrow> pending" where
  "pending_step (PReserve key) s = fst (reserve key s)"
| "pending_step (PResolve key r) s = resolve key r s"
| "pending_step (PDisconnect a) s = pending_disconnect a s"
| "pending_step PClear s = pending_clear s"
| "pending_step (PDrop key g) s = drop_reservation key g s"

text \<open>
  \<open>execute\<close>: reserve the slot, send, wait for the reply while \<open>es\<close> happens, then drop the
  reservation. A reply that has not come when the two seconds end is a timeout.
\<close>

definition await_reply :: "u64 \<Rightarrow> pending \<Rightarrow> command_error + unit" where
  "await_reply g s =
     (case pc_outcomes s g of
        Waiting \<Rightarrow> Inl AckTimeout
      | Cancelled \<Rightarrow> Inl AckCancelled
      | Replied (Inl reason) \<Rightarrow> Inl (AckRejected reason)
      | Replied (Inr _) \<Rightarrow> Inr ())"

definition execute ::
    "command_key \<Rightarrow> command_error + unit \<Rightarrow> pending_event list \<Rightarrow> pending
     \<Rightarrow> pending \<times> (command_error + unit)" where
  "execute key send es s =
     (case reserve key s of
        (s0, Inl e) \<Rightarrow> (s0, Inl e)
      | (s0, Inr g) \<Rightarrow>
          let s1 = fold pending_step es s0
          in (drop_reservation key g s1, res_bind send (\<lambda>_. await_reply g s1)))"

subsection \<open>Generations\<close>

text \<open>
  Every generation in the table was handed out before, no two entries share one, and the
  entries are exactly the reservations that still wait.
\<close>

definition pending_inv :: "pending \<Rightarrow> bool" where
  "pending_inv s \<longleftrightarrow> hm_ok (pc_entries s)
     \<and> (\<forall>k g. hm_get (pc_entries s) k = Some g \<longrightarrow> unat g < unat (pc_sequence s) \<and> pc_outcomes s g = Waiting)
     \<and> (\<forall>k k' g. hm_get (pc_entries s) k = Some g \<longrightarrow> hm_get (pc_entries s) k' = Some g \<longrightarrow> k = k')"

lemma pending_inv_default: "pending_inv pending_default"
  by (simp add: pending_inv_def pending_default_def)

lemma pending_invD:
  assumes "pending_inv s"
  shows "hm_ok (pc_entries s)"
    and "hm_get (pc_entries s) k = Some g \<Longrightarrow> unat g < unat (pc_sequence s)"
    and "hm_get (pc_entries s) k = Some g \<Longrightarrow> pc_outcomes s g = Waiting"
    and "hm_get (pc_entries s) k = Some g \<Longrightarrow> hm_get (pc_entries s) k' = Some g \<Longrightarrow> k = k'"
  using assms unfolding pending_inv_def by blast+

lemma pending_invI:
  assumes "pc_entries s = m" and "pc_sequence s = n" and "pc_outcomes s = out" and "hm_ok m"
    and "\<And>k g. hm_get m k = Some g \<Longrightarrow> unat g < unat n \<and> out g = Waiting"
    and "\<And>k k' g. hm_get m k = Some g \<Longrightarrow> hm_get m k' = Some g \<Longrightarrow> k = k'"
  shows "pending_inv s"
  unfolding pending_inv_def assms(1-3) using assms(4-6) by blast

lemma pending_inv_subset:
  assumes "pending_inv s" and "hm_ok m"
    and "\<And>k g. hm_get m k = Some g \<Longrightarrow> hm_get (pc_entries s) k = Some g \<and> out g = Waiting"
  shows "pending_inv (s\<lparr>pc_entries := m, pc_outcomes := out\<rparr>)"
proof -
  have "unat g < unat (pc_sequence s) \<and> out g = Waiting" if "hm_get m k = Some g" for k g
    using assms(3) [OF that] pending_invD(2) [OF assms(1)] by blast
  moreover have "k = k'" if "hm_get m k = Some g" "hm_get m k' = Some g" for k k' g
    using assms(3) [OF that(1)] assms(3) [OF that(2)] pending_invD(4) [OF assms(1)] by blast
  ultimately show ?thesis
    by (intro pending_invI [of _ m "pc_sequence s" out]) (simp, simp, simp, rule assms(2), blast+)
qed

lemma pending_inv_remove:
  assumes "pending_inv s" and "hm_get (pc_entries s) key = Some g"
  shows "pending_inv (s\<lparr>pc_entries := hm_remove key (pc_entries s), pc_outcomes := (pc_outcomes s)(g := x)\<rparr>)"
proof (rule pending_inv_subset [OF assms(1)])
  show "hm_ok (hm_remove key (pc_entries s))" using assms(1) by (simp add: pending_inv_def)
  fix k g' assume "hm_get (hm_remove key (pc_entries s)) k = Some g'"
  then have k: "k \<noteq> key" "hm_get (pc_entries s) k = Some g'" by (auto split: if_splits)
  with assms have "g' \<noteq> g" using pending_invD(4) by blast
  with k pending_invD(3) [OF assms(1)]
  show "hm_get (pc_entries s) k = Some g' \<and> ((pc_outcomes s)(g := x)) g' = Waiting" by simp
qed

lemma pending_inv_reserve:
  assumes "pending_inv s"
  shows "pending_inv (pending_step (PReserve key) s)"
proof -
  have old: "hm_get (pc_entries s) k = Some g \<Longrightarrow> unat g < unat (pc_sequence s) \<and> g \<noteq> pc_sequence s" for k g
    using pending_invD(2) [OF assms, of k g] by auto
  show ?thesis
  proof (cases "snd (reserve key s)")
    case (Inl err)
    then have "fst (reserve key s) = s"
      by (auto simp: reserve_def Let_def split: if_splits option.splits)
    then show ?thesis using assms by simp
  next
    case (Inr g)
    then obtain n where n: "checked_inc (pc_sequence s) = Some n" and free: "hm_get (pc_entries s) key = None"
        and s': "fst (reserve key s) = s\<lparr>pc_sequence := n, pc_entries := hm_insert key (pc_sequence s) (pc_entries s),
          pc_outcomes := (pc_outcomes s)(pc_sequence s := Waiting)\<rparr>"
      by (auto simp: reserve_def Let_def split: if_splits option.splits)
    have "unat n = Suc (unat (pc_sequence s))" by (rule checked_inc_Some [OF n])
    then have less: "hm_get (hm_insert key (pc_sequence s) (pc_entries s)) k = Some g \<Longrightarrow>
        unat g < unat n \<and> ((pc_outcomes s)(pc_sequence s := Waiting)) g = Waiting" for k g
      using old [of k g] pending_invD(3) [OF assms, of k g] by (cases "k = key") auto
    have inj: "k = k'" if "hm_get (hm_insert key (pc_sequence s) (pc_entries s)) k = Some g"
        "hm_get (hm_insert key (pc_sequence s) (pc_entries s)) k' = Some g" for k k' g
      using that old [of k g] old [of k' g] pending_invD(4) [OF assms, of k g k']
      by (cases "k = key"; cases "k' = key") auto
    show ?thesis
      unfolding pending_step.simps s'
      by (rule pending_invI [of _ "hm_insert key (pc_sequence s) (pc_entries s)" n
            "(pc_outcomes s)(pc_sequence s := Waiting)"])
        (simp, simp, simp, rule hm_ok_insert [OF pending_invD(1) [OF assms]], (use less inj in blast)+)
  qed
qed

lemma pending_inv_resolve:
  assumes "pending_inv s"
  shows "pending_inv (pending_step (PResolve key r) s)"
proof -
  show ?thesis
  proof (cases "hm_get (pc_entries s) key")
    case None
    then show ?thesis using assms by (simp add: resolve_def)
  next
    case (Some g)
    have "pending_inv (s\<lparr>pc_entries := hm_remove key (pc_entries s),
        pc_outcomes := (pc_outcomes s)(g := Replied r)\<rparr>)"
      using pending_inv_remove [OF assms Some] .
    then show ?thesis using Some by (simp add: resolve_def)
  qed
qed

lemma pending_inv_disconnect:
  assumes "pending_inv s"
  shows "pending_inv (pending_step (PDisconnect a) s)"
proof -
  have ok: "hm_ok (pc_entries s)" using assms by (simp add: pending_inv_def)
  have "pending_inv (s\<lparr>pc_entries := hm_retain (\<lambda>(peer, _, _) _. peer \<noteq> a) (pc_entries s),
      pc_outcomes := cancel {g. \<exists>(k, g') \<in> set (pc_entries s). g' = g \<and> fst k = a} (pc_outcomes s)\<rparr>)"
  proof (rule pending_inv_subset [OF assms])
    show "hm_ok (hm_retain (\<lambda>(peer, _, _) _. peer \<noteq> a) (pc_entries s))" using ok by simp
    fix k g assume "hm_get (hm_retain (\<lambda>(peer, _, _) _. peer \<noteq> a) (pc_entries s)) k = Some g"
    then have k: "hm_get (pc_entries s) k = Some g" "fst k \<noteq> a"
      by (cases k; simp add: ok split: option.splits if_splits)+
    have "\<not> (\<exists>(k', g') \<in> set (pc_entries s). g' = g \<and> fst k' = a)"
    proof
      assume "\<exists>(k', g') \<in> set (pc_entries s). g' = g \<and> fst k' = a"
      then obtain k' where "(k', g) \<in> set (pc_entries s)" "fst k' = a" by blast
      then show False using pending_invD(4) [OF assms k(1), of k'] k(2) ok by (simp add: hm_in_set)
    qed
    with k(1) pending_invD(3) [OF assms k(1)]
    show "hm_get (pc_entries s) k = Some g \<and>
        cancel {g. \<exists>(k, g') \<in> set (pc_entries s). g' = g \<and> fst k = a} (pc_outcomes s) g = Waiting"
      by (simp only: cancel_def mem_Collect_eq if_False simp_thms)
  qed
  then show ?thesis by (simp add: pending_disconnect_def)
qed

lemma pending_inv_clear:
  assumes "pending_inv s"
  shows "pending_inv (pending_step PClear s)"
proof -
  have "pending_inv (s\<lparr>pc_entries := [], pc_outcomes := cancel (snd ` set (pc_entries s)) (pc_outcomes s)\<rparr>)"
    by (rule pending_inv_subset [OF assms]) auto
  then show ?thesis by (simp add: pending_clear_def)
qed

lemma pending_inv_drop:
  assumes "pending_inv s"
  shows "pending_inv (pending_step (PDrop key g) s)"
proof -
  show ?thesis
  proof (cases "hm_get (pc_entries s) key = Some g")
    case True
    have "cancel {g} (pc_outcomes s) = (pc_outcomes s)(g := Cancelled)"
      using pending_invD(3) [OF assms True] unfolding cancel_def by auto
    then have "pending_inv (s\<lparr>pc_entries := hm_remove key (pc_entries s), pc_outcomes := cancel {g} (pc_outcomes s)\<rparr>)"
      using pending_inv_remove [OF assms True] by simp
    then show ?thesis using True by (simp add: drop_reservation_def)
  qed (use assms in \<open>simp add: drop_reservation_def\<close>)
qed

lemma pending_inv_step: "pending_inv s \<Longrightarrow> pending_inv (pending_step e s)"
  by (cases e) (simp_all only: pending_inv_reserve pending_inv_resolve pending_inv_disconnect
    pending_inv_clear pending_inv_drop)

lemma pending_inv_run: "pending_inv s \<Longrightarrow> pending_inv (fold pending_step es s)"
  by (induction es arbitrary: s) (auto simp: pending_inv_step)

subsection \<open>What a command is told\<close>

text \<open>The first event that concerns the reservation decides; later ones cannot change it.\<close>

fun first_reply :: "command_key \<Rightarrow> u64 \<Rightarrow> pending_event list \<Rightarrow> outcome" where
  "first_reply key g [] = Waiting"
| "first_reply key g (PResolve k r # es) = (if k = key then Replied r else first_reply key g es)"
| "first_reply key g (PDisconnect a # es) = (if fst key = a then Cancelled else first_reply key g es)"
| "first_reply key g (PClear # es) = Cancelled"
| "first_reply key g (PDrop k h # es) = (if k = key \<and> h = g then Cancelled else first_reply key g es)"
| "first_reply key g (PReserve k # es) = first_reply key g es"

definition settled :: "u64 \<Rightarrow> pending \<Rightarrow> bool" where
  "settled g s \<longleftrightarrow> unat g < unat (pc_sequence s) \<and> (\<forall>k. hm_get (pc_entries s) k \<noteq> Some g)
     \<and> pc_outcomes s g \<noteq> Waiting"

lemma settled_step:
  assumes "pending_inv s" and "settled g s"
  shows "settled g (pending_step e s) \<and> pc_outcomes (pending_step e s) g = pc_outcomes s g"
proof (cases e)
  case (PReserve key)
  have "pc_sequence s \<noteq> g" using assms(2) by (auto simp: settled_def)
  moreover have "checked_inc (pc_sequence s) = Some n \<Longrightarrow> unat g < unat n" for n
    using assms(2) checked_inc_Some by (fastforce simp: settled_def)
  ultimately show ?thesis
    using PReserve assms(2) by (auto simp: reserve_def settled_def Let_def split: option.splits)
next
  case (PResolve key r)
  have "hm_get (pc_entries s) key \<noteq> Some g" using assms(2) unfolding settled_def by blast
  then show ?thesis
    using PResolve assms(2) by (auto simp: resolve_def settled_def split: option.splits)
next
  case (PDisconnect a)
  then show ?thesis
    using assms(2) pending_invD(1) [OF assms(1)]
    by (auto simp: pending_disconnect_def settled_def cancel_def split: option.splits)
next
  case PClear
  then show ?thesis using assms(2) by (simp add: pending_clear_def settled_def cancel_def)
next
  case (PDrop key h)
  then show ?thesis
    using assms(2) by (auto simp: drop_reservation_def settled_def cancel_def)
qed

lemma settled_run:
  "pending_inv s \<Longrightarrow> settled g s \<Longrightarrow> settled g (fold pending_step es s)
     \<and> pc_outcomes (fold pending_step es s) g = pc_outcomes s g"
proof (induction es arbitrary: s)
  case Nil
  then show ?case by simp
next
  case (Cons e es)
  then show ?case using settled_step [OF Cons.prems, of e] pending_inv_step [of s e] by fastforce
qed

lemma removed_settled:
  assumes "pending_inv s" and "hm_get (pc_entries s) key = Some g" and "x \<noteq> Waiting"
    and "\<And>k h. hm_get m k = Some h \<Longrightarrow> k \<noteq> key \<and> hm_get (pc_entries s) k = Some h" and "out g = x"
  shows "settled g (s\<lparr>pc_entries := m, pc_outcomes := out\<rparr>)"
  using assms(3-5) pending_invD(2) [OF assms(1,2)] pending_invD(4) [OF assms(1,2)]
  unfolding settled_def by fastforce

text \<open>One event on a held reservation: it stays held, or it is settled with this event's verdict.\<close>

lemma held_step:
  assumes "pending_inv s" and "hm_get (pc_entries s) key = Some g"
  shows "(hm_get (pc_entries (pending_step e s)) key = Some g \<and> (\<forall>es. first_reply key g (e # es) = first_reply key g es))
    \<or> (settled g (pending_step e s) \<and> (\<forall>es. first_reply key g (e # es) = pc_outcomes (pending_step e s) g))"
proof (cases e)
  case (PReserve k)
  then show ?thesis using assms(2) by (auto simp: reserve_def Let_def split: option.splits)
next
  case (PResolve k r)
  have "settled g (resolve key r s)"
    unfolding resolve_def assms(2) option.case
    by (rule removed_settled [OF assms, of "Replied r"]) (auto split: if_splits)
  then show ?thesis
    using PResolve assms(2) by (cases "k = key") (auto simp: resolve_def split: option.splits)
next
  case (PDisconnect a)
  have in_set: "(key, g) \<in> set (pc_entries s)"
    using assms(2) pending_invD(1) [OF assms(1)] by (simp add: hm_in_set)
  show ?thesis
  proof (cases "fst key = a")
    case True
    have out: "cancel {g. \<exists>(k, g') \<in> set (pc_entries s). g' = g \<and> fst k = a} (pc_outcomes s) g = Cancelled"
      using in_set True pending_invD(3) [OF assms] by (auto simp: cancel_def)
    have "settled g (pending_disconnect a s)"
      unfolding pending_disconnect_def
      by (rule removed_settled [OF assms, of Cancelled])
        (use out True pending_invD(1) [OF assms(1)] in \<open>auto split: option.splits if_splits prod.splits\<close>)
    with out show ?thesis using PDisconnect True by (simp add: pending_disconnect_def)
  next
    case False
    then show ?thesis
      using PDisconnect assms(2) pending_invD(1) [OF assms(1)]
      by (cases key) (simp add: pending_disconnect_def)
  qed
next
  case PClear
  have "(key, g) \<in> set (pc_entries s)"
    using assms(2) pending_invD(1) [OF assms(1)] by (simp add: hm_in_set)
  then have out: "cancel (snd ` set (pc_entries s)) (pc_outcomes s) g = Cancelled"
    using pending_invD(3) [OF assms] by (force simp: cancel_def)
  have "settled g (pending_clear s)"
    unfolding pending_clear_def by (rule removed_settled [OF assms, of Cancelled]) (use out in auto)
  with out show ?thesis using PClear by (simp add: pending_clear_def)
next
  case (PDrop k h)
  show ?thesis
  proof (cases "k = key \<and> h = g")
    case True
    have out: "cancel {g} (pc_outcomes s) g = Cancelled"
      using pending_invD(3) [OF assms] by (simp add: cancel_def)
    have "settled g (drop_reservation key g s)"
      unfolding drop_reservation_def
      using assms(2) by (simp, intro removed_settled [OF assms, of Cancelled])
        (use out in \<open>auto split: if_splits\<close>)
    with out show ?thesis using PDrop True assms(2) by (simp add: drop_reservation_def)
  next
    case False
    then show ?thesis using PDrop assms(2) by (auto simp: drop_reservation_def)
  qed
qed

lemma held_outcome:
  "pending_inv s \<Longrightarrow> hm_get (pc_entries s) key = Some g \<Longrightarrow>
   pc_outcomes (fold pending_step es s) g = first_reply key g es"
proof (induction es arbitrary: s)
  case Nil
  then show ?case using pending_invD(3) by simp
next
  case (Cons e es)
  from held_step [OF Cons.prems, of e] show ?case
  proof
    assume "hm_get (pc_entries (pending_step e s)) key = Some g \<and>
      (\<forall>es. first_reply key g (e # es) = first_reply key g es)"
    then show ?thesis using Cons.IH [OF pending_inv_step [OF Cons.prems(1)], of e] by simp
  next
    assume "settled g (pending_step e s) \<and>
      (\<forall>es. first_reply key g (e # es) = pc_outcomes (pending_step e s) g)"
    then show ?thesis using settled_run [OF pending_inv_step [OF Cons.prems(1)], of g e es] by simp
  qed
qed

lemma reserve_ok:
  assumes "pending_inv s" and "reserve key s = (s0, Inr g)"
  shows "pending_inv s0" and "hm_get (pc_entries s0) key = Some g" and "g = pc_sequence s"
    and "hm_get (pc_entries s) key = None"
  using assms(2) pending_inv_step [OF assms(1), of "PReserve key"]
  by (auto simp: reserve_def Let_def split: if_splits option.splits)

lemma drop_releases:
  "hm_get (pc_entries (drop_reservation key g s)) k
    = (if k = key \<and> hm_get (pc_entries s) key = Some g then None else hm_get (pc_entries s) k)"
  by (simp add: drop_reservation_def)

fun verdict :: "outcome \<Rightarrow> command_error + unit" where
  "verdict Waiting = Inl AckTimeout"
| "verdict Cancelled = Inl AckCancelled"
| "verdict (Replied (Inl reason)) = Inl (AckRejected reason)"
| "verdict (Replied (Inr _)) = Inr ()"

lemma await_reply_verdict: "await_reply g s = verdict (pc_outcomes s g)"
  by (auto simp: await_reply_def split: outcome.splits sum.splits)

subsection \<open>Properties\<close>

text \<open>
  C1. A control command whose slot was free returns what the first event concerning its
  reservation says: success only for a positive acknowledgement of the same address, group and
  code, rejection for a negative one, cancellation for a disconnect, a clear or a drop, and a
  timeout when none comes; a failed send wins. Its slot is released and no other slot changes.
\<close>

theorem execute_command_result:
  assumes "pending_inv s" and "hm_get (pc_entries s) key = None" and "pc_sequence s \<noteq> - 1"
  shows "snd (execute key send es s) = res_bind send (\<lambda>_. verdict (first_reply key (pc_sequence s) es))
    \<and> hm_get (pc_entries (fst (execute key send es s))) key \<noteq> Some (pc_sequence s)
    \<and> (\<forall>k. k = key \<or> hm_get (pc_entries (fst (execute key send es s))) k
          = hm_get (pc_entries (fold pending_step es (fst (reserve key s)))) k)"
proof -
  obtain s0 where r: "reserve key s = (s0, Inr (pc_sequence s))"
    using assms(2,3) by (simp add: reserve_def checked_inc_def Let_def)
  note ok = reserve_ok [OF assms(1) r]
  have "execute key send es s = (drop_reservation key (pc_sequence s) (fold pending_step es s0),
      res_bind send (\<lambda>_. await_reply (pc_sequence s) (fold pending_step es s0)))"
    using r by (simp add: execute_def Let_def)
  then show ?thesis
    using held_outcome [OF ok(1,2)] r by (simp add: await_reply_verdict drop_releases)
qed

theorem execute_command_result_witness:
  "snd (execute ([1], 8, 0x12) (Inr ())
     [PResolve ([2], 8, 0x12) (Inr ()), PResolve ([1], 8, 0x12) (Inl ''busy'')] pending_default)
   = Inl (AckRejected ''busy'')"
  using execute_command_result [OF pending_inv_default, of "([1], 8, 0x12)" "Inr ()"
    "[PResolve ([2], 8, 0x12) (Inr ()), PResolve ([1], 8, 0x12) (Inl ''busy'')]"]
  by (simp add: pending_default_def)

text \<open>
  An old reservation's late drop cannot release the slot of the command that replaced it:
  after its own slot was answered and reserved again, dropping it changes nothing.
\<close>

theorem stale_reservation_drop:
  assumes "pending_inv s" and "reserve key s = (s0, Inr g)"
    and "settled g (fold pending_step es s0)"
  shows "drop_reservation key g (fold pending_step (es @ es') s0) = fold pending_step (es @ es') s0"
proof -
  have "pending_inv (fold pending_step es s0)"
    using pending_inv_run reserve_ok(1) [OF assms(1,2)] by blast
  then have "settled g (fold pending_step (es @ es') s0)"
    using settled_run [OF _ assms(3), of es'] by simp
  then show ?thesis unfolding settled_def drop_reservation_def by (simp del: split_paired_All)
qed

theorem stale_reservation_drop_witness:
  "let s0 = fst (reserve ([1], 8, 0x12) pending_default);
       s = fold pending_step ([PResolve ([1], 8, 0x12) (Inr ())] @ [PReserve ([1], 8, 0x12)]) s0
   in drop_reservation ([1], 8, 0x12) 0 s = s \<and> hm_get (pc_entries s) ([1], 8, 0x12) = Some 1"
proof -
  let ?s0 = "fst (reserve ([1], 8, 0x12) pending_default)"
  have s0: "reserve ([1], 8, 0x12) pending_default = (?s0, Inr 0)"
    by (simp add: reserve_def pending_default_def checked_inc_def Let_def)
  have settled: "settled 0 (fold pending_step [PResolve ([1], 8, 0x12) (Inr ())] ?s0)"
    by (simp add: settled_def resolve_def reserve_def pending_default_def checked_inc_def Let_def)
  show ?thesis
    using stale_reservation_drop [OF pending_inv_default s0 settled, of "[PReserve ([1], 8, 0x12)]"]
    by (simp add: resolve_def reserve_def pending_default_def checked_inc_def Let_def)
qed

end
