(* ===== verification/FastPairProvider.thy ===== *)
theory FastPairProvider
  imports FastPairLinks FastPairCommands
begin

text \<open>
  \<open>FastPairBatteryProvider\<close> of \<open>src/fast_pair.rs\<close>: the reports kept per peer, how decoded
  frames change them, teardown, the control guards, the pairing window, and the presentation of
  \<open>fast_pair/capabilities.rs\<close>.

  \<open>pv_changes\<close> counts the change notifications, \<open>pv_sent\<close> lists the frames handed to writers and
  \<open>pv_answers\<close> the peers whose capability query started a worker. Whether a writer still takes
  a frame is the argument \<open>sent\<close>.
\<close>

definition DEVICE_INFORMATION_GROUP :: u8 where "DEVICE_INFORMATION_GROUP = 0x03"
definition MODEL_ID_CODE :: u8 where "MODEL_ID_CODE = 0x01"
definition BLE_ADDRESS_CODE :: u8 where "BLE_ADDRESS_CODE = 0x02"
definition BATTERY_UPDATED_CODE :: u8 where "BATTERY_UPDATED_CODE = 0x03"
definition SESSION_NONCE_CODE :: u8 where "SESSION_NONCE_CODE = 0x0a"
definition AUDIO_SWITCH_GROUP :: u8 where "AUDIO_SWITCH_GROUP = 0x07"
definition GET_AUDIO_SWITCH_CAPABILITY_CODE :: u8 where "GET_AUDIO_SWITCH_CAPABILITY_CODE = 0x10"
definition AUDIO_SWITCH_CAPABILITY_CODE :: u8 where "AUDIO_SWITCH_CAPABILITY_CODE = 0x11"
definition SET_MULTIPOINT_CODE :: u8 where "SET_MULTIPOINT_CODE = 0x12"
definition HEARABLE_CONTROLS_GROUP :: u8 where "HEARABLE_CONTROLS_GROUP = 0x08"
definition GET_ANC_STATE_CODE :: u8 where "GET_ANC_STATE_CODE = 0x11"
definition SET_ANC_STATE_CODE :: u8 where "SET_ANC_STATE_CODE = 0x12"
definition ANC_STATE_CODE :: u8 where "ANC_STATE_CODE = 0x13"
definition ACKNOWLEDGEMENT_GROUP :: u8 where "ACKNOWLEDGEMENT_GROUP = 0xff"
definition ACK_CODE :: u8 where "ACK_CODE = 0x01"
definition NAK_CODE :: u8 where "NAK_CODE = 0x02"

lemmas fp_codes = DEVICE_INFORMATION_GROUP_def MODEL_ID_CODE_def BLE_ADDRESS_CODE_def
  BATTERY_UPDATED_CODE_def SESSION_NONCE_CODE_def AUDIO_SWITCH_GROUP_def
  GET_AUDIO_SWITCH_CAPABILITY_CODE_def AUDIO_SWITCH_CAPABILITY_CODE_def SET_MULTIPOINT_CODE_def
  HEARABLE_CONTROLS_GROUP_def GET_ANC_STATE_CODE_def SET_ANC_STATE_CODE_def ANC_STATE_CODE_def
  ACKNOWLEDGEMENT_GROUP_def ACK_CODE_def NAK_CODE_def

record runtime_report =
  rr_session_nonce :: "bytes option"
  rr_model_id :: "bytes option"
  rr_ble_address :: "address option"
  rr_multipoint :: "multipoint option"
  rr_noise_control :: "fp_noise_control option"
  rr_last_switch :: "switch_event option"

definition runtime_default :: runtime_report where
  "runtime_default = \<lparr>rr_session_nonce = None, rr_model_id = None, rr_ble_address = None,
     rr_multipoint = None, rr_noise_control = None, rr_last_switch = None\<rparr>"

record fp_provider =
  pv_reports :: "(address, battery_report) hmap"
  pv_runtime :: "(address, runtime_report) hmap"
  pv_conn :: conn_state
  pv_pending :: pending
  pv_changes :: nat
  pv_sent :: "(address \<times> bytes) list"
  pv_answers :: "address list"

definition provider_default :: fp_provider where
  "provider_default = \<lparr>pv_reports = [], pv_runtime = [], pv_conn = conn_default,
     pv_pending = pending_default, pv_changes = 0, pv_sent = [], pv_answers = []\<rparr>"

datatype provider_error = Wire fp_error | StreamNotConnected | WriterStalled | NotReported
  | NotSupported | NotConfigurable | DeviceState | ControlsDisabled | NoSessionNonce | NoAccountKey
  | Command command_error | DeviceRead string

definition notify :: "fp_provider \<Rightarrow> fp_provider" where
  "notify p = p\<lparr>pv_changes := pv_changes p + 1\<rparr>"

subsection \<open>Frames\<close>

definition send_frame :: "bool \<Rightarrow> address \<Rightarrow> bytes \<Rightarrow> fp_provider \<Rightarrow> fp_provider \<times> (provider_error + unit)" where
  "send_frame sent a frame p =
     (if hm_get (cn_writers (pv_conn p)) a = None then (p, Inl StreamNotConnected)
      else if sent then (p\<lparr>pv_sent := pv_sent p @ [(a, frame)]\<rparr>, Inr ())
      else (p, Inl WriterStalled))"

text \<open>\<open>update_runtime\<close>: the entry is created, and a value that is already there is no change.\<close>

definition update_runtime ::
    "address \<Rightarrow> (runtime_report \<Rightarrow> 'a option) \<Rightarrow> ('a \<Rightarrow> runtime_report \<Rightarrow> runtime_report) \<Rightarrow> 'a
     \<Rightarrow> fp_provider \<Rightarrow> fp_provider" where
  "update_runtime a get put v p =
     (let r = (case hm_get (pv_runtime p) a of None \<Rightarrow> runtime_default | Some r \<Rightarrow> r) in
      if get r = Some v then p\<lparr>pv_runtime := hm_insert a r (pv_runtime p)\<rparr>
      else notify (p\<lparr>pv_runtime := hm_insert a (put v r) (pv_runtime p)\<rparr>))"

definition update_report :: "address \<Rightarrow> battery_report \<Rightarrow> fp_provider \<Rightarrow> fp_provider" where
  "update_report a report p =
     (let p' = p\<lparr>pv_reports := hm_insert a report (pv_reports p)\<rparr> in
      if hm_get (pv_reports p) a \<noteq> Some report then notify p' else p')"

definition remove_report :: "address \<Rightarrow> fp_provider \<Rightarrow> fp_provider" where
  "remove_report a p =
     (let p' = p\<lparr>pv_reports := hm_remove a (pv_reports p)\<rparr> in
      if hm_get (pv_reports p) a \<noteq> None then notify p' else p')"

definition apply_device_information ::
    "address \<Rightarrow> u8 \<Rightarrow> bytes \<Rightarrow> fp_provider \<Rightarrow> fp_provider \<times> (provider_error + unit)" where
  "apply_device_information a code payload p =
     (if code = BATTERY_UPDATED_CODE then
        (case battery_from_payload payload of
           Inl e \<Rightarrow> (p, Inl (Wire e)) | Inr r \<Rightarrow> (update_report a r p, Inr ()))
      else if code = SESSION_NONCE_CODE then
        (case decode_fixed 8 payload of
           Inl e \<Rightarrow> (p, Inl (Wire e))
         | Inr v \<Rightarrow> (update_runtime a rr_session_nonce (\<lambda>v r. r\<lparr>rr_session_nonce := Some v\<rparr>) v p, Inr ()))
      else if code = MODEL_ID_CODE then
        (case decode_fixed 3 payload of
           Inl e \<Rightarrow> (p, Inl (Wire e))
         | Inr v \<Rightarrow> (update_runtime a rr_model_id (\<lambda>v r. r\<lparr>rr_model_id := Some v\<rparr>) v p, Inr ()))
      else if code = BLE_ADDRESS_CODE then
        (case decode_fixed 6 payload of
           Inl e \<Rightarrow> (p, Inl (Wire e))
         | Inr v \<Rightarrow> (update_runtime a rr_ble_address (\<lambda>v r. r\<lparr>rr_ble_address := Some v\<rparr>) v p, Inr ()))
      else (p, Inr ()))"

definition nak_reason :: "u8 \<Rightarrow> string" where
  "nak_reason reason =
     (if reason = 0x00 then ''not supported''
      else if reason = 0x01 then ''device busy''
      else if reason = 0x02 then ''not allowed in the current state''
      else if reason = 0x03 then ''message authentication failed''
      else if reason = 0x04 then ''redundant device action''
      else ''unknown provider rejection'')"

definition decode_acknowledgement :: "u8 \<Rightarrow> bytes \<Rightarrow> (u8 \<times> u8 \<times> reply) option" where
  "decode_acknowledgement code payload =
     (if code = ACK_CODE then
        (case payload of g # m # _ \<Rightarrow> Some (g, m, Inr ()) | _ \<Rightarrow> None)
      else if code = NAK_CODE then
        (case payload of reason # g # m # _ \<Rightarrow> Some (g, m, Inl (nak_reason reason)) | _ \<Rightarrow> None)
      else None)"

definition apply_acknowledgement :: "address \<Rightarrow> u8 \<Rightarrow> bytes \<Rightarrow> fp_provider \<Rightarrow> fp_provider" where
  "apply_acknowledgement a code payload p =
     (case decode_acknowledgement code payload of
        None \<Rightarrow> p
      | Some (g, m, r) \<Rightarrow> p\<lparr>pv_pending := resolve (a, g, m) r (pv_pending p)\<rparr>)"

text \<open>The capability notification is acknowledged before it is recorded.\<close>

definition apply_switch_capability ::
    "bool \<Rightarrow> address \<Rightarrow> bytes \<Rightarrow> fp_provider \<Rightarrow> fp_provider \<times> (provider_error + unit)" where
  "apply_switch_capability sent a payload p =
     (case decode_audio_switch_capability payload of
        Inl e \<Rightarrow> (p, Inl (Wire e))
      | Inr v \<Rightarrow>
          (case frame_encoded ACKNOWLEDGEMENT_GROUP ACK_CODE
              [AUDIO_SWITCH_GROUP, AUDIO_SWITCH_CAPABILITY_CODE] of
             Inl e \<Rightarrow> (p, Inl (Wire e))
           | Inr ack \<Rightarrow>
               (case send_frame sent a ack p of
                  (p', Inl e) \<Rightarrow> (p', Inl e)
                | (p', Inr _) \<Rightarrow>
                    (update_runtime a rr_multipoint (\<lambda>v r. r\<lparr>rr_multipoint := Some v\<rparr>) v p', Inr ()))))"

definition apply_frame ::
    "u64 \<Rightarrow> bool \<Rightarrow> address \<Rightarrow> fp_frame \<Rightarrow> fp_provider \<Rightarrow> fp_provider \<times> (provider_error + unit)" where
  "apply_frame now_ms sent a f p =
     (if fr_group f = DEVICE_INFORMATION_GROUP then
        apply_device_information a (fr_code f) (fr_payload f) p
      else if fr_group f = AUDIO_SWITCH_GROUP \<and> fr_code f = GET_AUDIO_SWITCH_CAPABILITY_CODE then
        (p\<lparr>pv_answers := pv_answers p @ [a]\<rparr>, Inr ())
      else if fr_group f = AUDIO_SWITCH_GROUP \<and> fr_code f = 0x32 then
        (case switch_notification now_ms (fr_payload f) of
           Inl e \<Rightarrow> (p, Inl (Wire e))
         | Inr v \<Rightarrow> (update_runtime a rr_last_switch (\<lambda>v r. r\<lparr>rr_last_switch := Some v\<rparr>) v p, Inr ()))
      else if fr_group f = AUDIO_SWITCH_GROUP \<and> fr_code f = AUDIO_SWITCH_CAPABILITY_CODE then
        apply_switch_capability sent a (fr_payload f) p
      else if fr_group f = HEARABLE_CONTROLS_GROUP \<and> fr_code f = ANC_STATE_CODE then
        (case decode_anc_state (fr_payload f) of
           Inl e \<Rightarrow> (p, Inl (Wire e))
         | Inr v \<Rightarrow> (update_runtime a rr_noise_control (\<lambda>v r. r\<lparr>rr_noise_control := Some v\<rparr>) v p, Inr ()))
      else if fr_group f = ACKNOWLEDGEMENT_GROUP then
        (apply_acknowledgement a (fr_code f) (fr_payload f) p, Inr ())
      else (p, Inr ()))"

text \<open>\<open>apply_frames\<close>: a rejected message is logged and the stream goes on.\<close>

fun apply_frames :: "address \<Rightarrow> (u64 \<times> bool \<times> fp_frame) list \<Rightarrow> fp_provider \<Rightarrow> fp_provider" where
  "apply_frames a [] p = p"
| "apply_frames a ((now_ms, sent, f) # fs) p = apply_frames a fs (fst (apply_frame now_ms sent a f p))"

definition install_writer :: "address \<Rightarrow> nat \<Rightarrow> fp_provider \<Rightarrow> fp_provider" where
  "install_writer a w p =
     notify (p\<lparr>pv_conn := conn_install_writer a w (pv_conn p),
       pv_runtime := (if hm_get (pv_runtime p) a = None
          then hm_insert a runtime_default (pv_runtime p) else pv_runtime p)\<rparr>)"

definition connection_ended :: "instant \<Rightarrow> u8 \<Rightarrow> address \<Rightarrow> fp_provider \<Rightarrow> fp_provider" where
  "connection_ended now jitter a p =
     (let p1 = p\<lparr>pv_conn := conn_ended now jitter a (pv_conn p),
                 pv_pending := pending_disconnect a (pv_pending p)\<rparr>;
          changed = hm_get (pv_runtime p1) a \<noteq> None;
          p2 = remove_report a (p1\<lparr>pv_runtime := hm_remove a (pv_runtime p1)\<rparr>)
      in if changed then notify p2 else p2)"

definition fp_batteries :: "address \<Rightarrow> fp_provider \<Rightarrow> battery list" where
  "fp_batteries a p = (case hm_get (pv_reports p) a of None \<Rightarrow> [] | Some r \<Rightarrow> model_batteries r)"

subsection \<open>Controls\<close>

text \<open>
  What a control reads of the device: its property reads and its identity key. \<open>enabled\<close> is the
  operator's policy for that key and \<open>keys\<close> the account keys; \<open>nonce\<close> is the random message nonce.
\<close>

record fp_device =
  fd_address :: address
  fd_paired :: "string + bool"
  fd_connected :: "string + bool"
  fd_blocked :: "string + bool"
  fd_key :: string

fun read_property :: "string + bool \<Rightarrow> provider_error + bool" where
  "read_property (Inl e) = Inl (DeviceRead e)"
| "read_property (Inr b) = Inr b"

text \<open>\<open>&&\<close> of fallible reads: the right operand is read only when the left one is true.\<close>

definition and_then :: "provider_error + bool \<Rightarrow> provider_error + bool \<Rightarrow> provider_error + bool" where
  "and_then x y = res_bind x (\<lambda>b. if b then y else Inr False)"

definition validate_control :: "(string \<Rightarrow> bool) \<Rightarrow> fp_device \<Rightarrow> provider_error + string" where
  "validate_control enabled d =
     res_bind (and_then (and_then (read_property (fd_paired d)) (read_property (fd_connected d)))
         (res_bind (read_property (fd_blocked d)) (\<lambda>b. Inr (\<not> b)))) (\<lambda>ready.
       if \<not> ready then Inl DeviceState
       else if \<not> enabled (fd_key d) then Inl ControlsDisabled
       else Inr (fd_key d))"

definition noise_control_frame :: "fp_noise_control \<Rightarrow> string \<Rightarrow> fp_error + bytes" where
  "noise_control_frame state mode =
     res_bind (noise_control_payload state mode)
       (frame_encoded HEARABLE_CONTROLS_GROUP SET_ANC_STATE_CODE)"

fun lift_command :: "command_error + unit \<Rightarrow> provider_error + unit" where
  "lift_command (Inl e) = Inl (Command e)"
| "lift_command (Inr u) = Inr u"

text \<open>
  \<open>pending_commands.execute(key, send_frame(..))\<close>: a busy slot sends nothing, otherwise the
  frame is queued and the reply awaited while \<open>es\<close> happens to the pending table.
\<close>

definition execute_frame ::
    "command_key \<Rightarrow> bool \<Rightarrow> bytes \<Rightarrow> pending_event list \<Rightarrow> fp_provider
     \<Rightarrow> fp_provider \<times> (provider_error + unit)" where
  "execute_frame key sent frame es p =
     (case reserve key (pv_pending p) of
        (_, Inl e) \<Rightarrow> (p, Inl (Command e))
      | (_, Inr _) \<Rightarrow>
          (case send_frame sent (fst key) frame p of
             (p', Inl e) \<Rightarrow>
               (p'\<lparr>pv_pending := fst (execute key (Inl (SendFailed ''send'')) es (pv_pending p'))\<rparr>, Inl e)
           | (p', Inr _) \<Rightarrow>
               (let (q, r) = execute key (Inr ()) es (pv_pending p')
                in (p'\<lparr>pv_pending := q\<rparr>, lift_command r))))"

definition set_noise_control ::
    "(string \<Rightarrow> bool) \<Rightarrow> bool \<Rightarrow> pending_event list \<Rightarrow> fp_device \<Rightarrow> string \<Rightarrow> fp_provider
     \<Rightarrow> fp_provider \<times> (provider_error + unit)" where
  "set_noise_control enabled sent es d mode p =
     (case validate_control enabled d of
        Inl e \<Rightarrow> (p, Inl e)
      | Inr _ \<Rightarrow>
          (case Option.bind (hm_get (pv_runtime p) (fd_address d)) rr_noise_control of
             None \<Rightarrow> (p, Inl NotReported)
           | Some state \<Rightarrow>
               (case noise_control_frame state mode of
                  Inl e \<Rightarrow> (p, Inl (Wire e))
                | Inr frame \<Rightarrow>
                    execute_frame (fd_address d, HEARABLE_CONTROLS_GROUP, SET_ANC_STATE_CODE)
                      sent frame es p)))"

definition send_authenticated ::
    "(bytes \<Rightarrow> bytes) \<Rightarrow> (string \<Rightarrow> bool) \<Rightarrow> (string \<Rightarrow> bytes option) \<Rightarrow> bytes \<Rightarrow> bool
     \<Rightarrow> pending_event list \<Rightarrow> fp_device \<Rightarrow> u8 \<Rightarrow> u8 \<Rightarrow> bytes \<Rightarrow> fp_provider
     \<Rightarrow> fp_provider \<times> (provider_error + unit)" where
  "send_authenticated sha enabled keys nonce sent es d grp code message p =
     (case validate_control enabled d of
        Inl e \<Rightarrow> (p, Inl e)
      | Inr device_key \<Rightarrow>
          (case Option.bind (hm_get (pv_runtime p) (fd_address d)) rr_session_nonce of
             None \<Rightarrow> (p, Inl NoSessionNonce)
           | Some session_nonce \<Rightarrow>
               (case keys device_key of
                  None \<Rightarrow> (p, Inl NoAccountKey)
                | Some account_key \<Rightarrow>
                    (case authenticated_frame sha grp code message account_key session_nonce nonce of
                       Inl e \<Rightarrow> (p, Inl (Wire e))
                     | Inr frame \<Rightarrow> execute_frame (fd_address d, grp, code) sent frame es p))))"

definition set_multipoint ::
    "(bytes \<Rightarrow> bytes) \<Rightarrow> (string \<Rightarrow> bool) \<Rightarrow> (string \<Rightarrow> bytes option) \<Rightarrow> bytes \<Rightarrow> bool
     \<Rightarrow> pending_event list \<Rightarrow> fp_device \<Rightarrow> bool \<Rightarrow> fp_provider
     \<Rightarrow> fp_provider \<times> (provider_error + unit)" where
  "set_multipoint sha enabled keys nonce sent es d on p =
     (case Option.bind (hm_get (pv_runtime p) (fd_address d)) rr_multipoint of
        None \<Rightarrow> (p, Inl NotReported)
      | Some capability \<Rightarrow>
          if \<not> mu_supported capability then (p, Inl NotSupported)
          else if \<not> mu_configurable capability then (p, Inl NotConfigurable)
          else send_authenticated sha enabled keys nonce sent es d AUDIO_SWITCH_GROUP
                 SET_MULTIPOINT_CODE [if on then 1 else 0] p)"

subsection \<open>The pairing window and what is presented\<close>

definition WINDOW :: nat where "WINDOW = secs 60"

text \<open>\<open>note_pairing\<close>: expired windows go, an open one is not restarted.\<close>

definition note_pairing :: "instant \<Rightarrow> string \<Rightarrow> bool \<Rightarrow> (string, instant) hmap \<Rightarrow> (string, instant) hmap" where
  "note_pairing now key paired windows0 =
     (let windows = hm_retain (\<lambda>_ start. elapsed now start < WINDOW) windows0 in
      if paired then (if hm_get windows key = None then hm_insert key now windows else windows)
      else hm_remove key windows)"

definition recently_paired :: "instant \<Rightarrow> string \<Rightarrow> (string, instant) hmap \<Rightarrow> bool" where
  "recently_paired now key windows =
     (case hm_get windows key of None \<Rightarrow> False | Some start \<Rightarrow> elapsed now start < WINDOW)"

definition provisioning_reason :: "bool \<Rightarrow> bool \<Rightarrow> bool \<Rightarrow> string option" where
  "provisioning_reason has_key trusted_model recent_pairing =
     (if has_key then Some ''Account key already provisioned''
      else if \<not> trusted_model then
        Some ''Trusted model metadata is missing; configure fast-pair-models.json''
      else if \<not> recent_pairing then
        Some ''Re-pair this device to open its one-minute Fast Pair provisioning window''
      else None)"

text \<open>The fields of \<open>FastPairFeatures\<close>; identifiers stay bytes, their hex form is presentation.\<close>

record fp_features =
  ff_model_id :: "bytes option"
  ff_advertised :: "(bool \<times> bool) option"
  ff_ble_address :: "address option"
  ff_controls_available :: bool
  ff_authenticated_controls :: bool
  ff_account_key_available :: bool
  ff_provisioning_available :: bool
  ff_provisioning_reason :: "string option"
  ff_trusted_model_name :: "string option"
  ff_multipoint :: "multipoint option"
  ff_noise_control :: "fp_noise_control option"
  ff_last_switch :: "switch_event option"
  ff_audio_switch_seeker_supported :: bool

definition describe :: "runtime_report \<Rightarrow> bool \<Rightarrow> string option \<Rightarrow> bool \<Rightarrow> fp_features" where
  "describe runtime account_key_available trusted_model_name recent =
     (let reason = provisioning_reason account_key_available (trusted_model_name \<noteq> None) recent in
      \<lparr>ff_model_id = rr_model_id runtime, ff_advertised = None, ff_ble_address = rr_ble_address runtime,
       ff_controls_available = False, ff_authenticated_controls = False,
       ff_account_key_available = account_key_available, ff_provisioning_available = (reason = None),
       ff_provisioning_reason = reason, ff_trusted_model_name = trusted_model_name,
       ff_multipoint = rr_multipoint runtime, ff_noise_control = rr_noise_control runtime,
       ff_last_switch = rr_last_switch runtime, ff_audio_switch_seeker_supported = False\<rparr>)"

text \<open>
  \<open>features\<close>: \<open>service_data\<close> is the device's Fast Pair service data if there is any, \<open>catalog\<close>
  the display names of the trusted models. An advertised model stands in for a missing one, and
  advertised capabilities count only for the model shown.
\<close>

definition shown_runtime :: "runtime_report option \<Rightarrow> advertisement option \<Rightarrow> runtime_report" where
  "shown_runtime reported ad =
     (let runtime = (case reported of None \<Rightarrow> runtime_default | Some r \<Rightarrow> r) in
      if rr_model_id runtime = None then runtime\<lparr>rr_model_id := map_option ad_model_id ad\<rparr> else runtime)"

definition shown_capabilities :: "advertisement option \<Rightarrow> runtime_report \<Rightarrow> (bool \<times> bool) option" where
  "shown_capabilities ad runtime =
     (case ad of
        None \<Rightarrow> None
      | Some d \<Rightarrow>
          if Some (ad_model_id d) = rr_model_id runtime
          then (case (ad_le_audio_sharing d, ad_factory_new d) of
              (Some l, Some n) \<Rightarrow> Some (l, n) | _ \<Rightarrow> None)
          else None)"

definition features ::
    "instant \<Rightarrow> (string \<Rightarrow> bool) \<Rightarrow> (string \<Rightarrow> bytes option) \<Rightarrow> (bytes \<Rightarrow> string option)
     \<Rightarrow> (string, instant) hmap \<Rightarrow> address \<Rightarrow> string \<Rightarrow> bytes option \<Rightarrow> bool \<Rightarrow> fp_provider
     \<Rightarrow> fp_features option" where
  "features now enabled keys catalog paired_at a device_key service_data connected p =
     (let reported = hm_get (pv_runtime p) a;
          ad = Option.bind service_data advertisement;
          runtime = shown_runtime reported ad;
          has_key = keys device_key \<noteq> None;
          controls = connected \<and> enabled device_key \<and> hm_get (cn_writers (pv_conn p)) a \<noteq> None in
      if reported = None \<and> rr_model_id runtime = None \<and> \<not> has_key then None
      else Some ((describe runtime has_key (Option.bind (rr_model_id runtime) catalog)
               (recently_paired now device_key paired_at))\<lparr>
             ff_advertised := shown_capabilities ad runtime, ff_controls_available := controls,
             ff_authenticated_controls := (controls \<and> rr_session_nonce runtime \<noteq> None \<and> has_key)\<rparr>))"

subsection \<open>Behaviour of frames\<close>

lemma device_information_rejected:
  "apply_device_information a code payload p = (p', Inl e) \<Longrightarrow> p' = p"
  by (auto simp: apply_device_information_def split: if_splits sum.splits)

lemma send_frame_rejected: "send_frame sent a frame p = (p', Inl e) \<Longrightarrow> p' = p"
  by (auto simp: send_frame_def split: if_splits)

lemma switch_capability_rejected: "apply_switch_capability sent a payload p = (p', Inl e) \<Longrightarrow> p' = p"
  by (auto simp: apply_switch_capability_def dest: send_frame_rejected split: sum.splits prod.splits)

lemma apply_frame_rejected: "apply_frame now_ms sent a f p = (p', Inl e) \<Longrightarrow> p' = p"
  unfolding apply_frame_def
  by (auto dest: device_information_rejected switch_capability_rejected split: if_splits sum.splits)

text \<open>The battery report is the last valid battery message of the stream.\<close>

definition battery_message :: "fp_frame \<Rightarrow> battery_report option" where
  "battery_message f =
     (if fr_group f = DEVICE_INFORMATION_GROUP \<and> fr_code f = BATTERY_UPDATED_CODE
      then (case battery_from_payload (fr_payload f) of Inl _ \<Rightarrow> None | Inr r \<Rightarrow> Some r) else None)"

lemma update_runtime_frame [simp]:
  "pv_reports (update_runtime a get put v p) = pv_reports p"
  "pv_conn (update_runtime a get put v p) = pv_conn p"
  "pv_pending (update_runtime a get put v p) = pv_pending p"
  by (simp_all add: update_runtime_def notify_def Let_def)

lemma update_report_get [simp]:
  "hm_get (pv_reports (update_report a r p)) b = (if b = a then Some r else hm_get (pv_reports p) b)"
  "pv_runtime (update_report a r p) = pv_runtime p"
  by (simp_all add: update_report_def notify_def Let_def)

lemma device_information_reports:
  "hm_get (pv_reports (fst (apply_device_information a code payload p))) b =
     (if code = BATTERY_UPDATED_CODE \<and> b = a
      then (case battery_from_payload payload of Inl _ \<Rightarrow> hm_get (pv_reports p) b | Inr r \<Rightarrow> Some r)
      else hm_get (pv_reports p) b)"
  unfolding apply_device_information_def by (simp split: sum.split)

lemma send_frame_reports: "send_frame sent a frame p = (p', r) \<Longrightarrow> pv_reports p' = pv_reports p"
  by (auto simp: send_frame_def split: if_splits)

lemma apply_acknowledgement_reports [simp]: "pv_reports (apply_acknowledgement a code payload p) = pv_reports p"
  by (simp add: apply_acknowledgement_def split: option.split prod.split)

lemma switch_capability_reports [simp]:
  "pv_reports (fst (apply_switch_capability sent a payload p)) = pv_reports p"
  by (auto simp: apply_switch_capability_def dest: send_frame_reports split: sum.split prod.split)

lemma other_groups_reports:
  "fr_group f \<noteq> DEVICE_INFORMATION_GROUP \<Longrightarrow> pv_reports (fst (apply_frame now_ms sent a f p)) = pv_reports p"
  unfolding apply_frame_def by (simp split: sum.split)

lemma apply_frame_reports:
  "hm_get (pv_reports (fst (apply_frame now_ms sent a f p))) b =
     (case battery_message f of
        Some r \<Rightarrow> if b = a then Some r else hm_get (pv_reports p) b
      | None \<Rightarrow> hm_get (pv_reports p) b)"
proof (cases "fr_group f = DEVICE_INFORMATION_GROUP")
  case True
  then show ?thesis
    by (simp add: apply_frame_def device_information_reports battery_message_def split: sum.split)
next
  case False
  then show ?thesis by (simp add: other_groups_reports battery_message_def)
qed

fun last_battery :: "battery_report option \<Rightarrow> fp_frame list \<Rightarrow> battery_report option" where
  "last_battery r [] = r"
| "last_battery r (f # fs) =
     last_battery (case battery_message f of None \<Rightarrow> r | Some r' \<Rightarrow> Some r') fs"

lemma apply_frames_reports:
  "hm_get (pv_reports (apply_frames a fs p)) b =
     (if b = a then last_battery (hm_get (pv_reports p) a) (map (\<lambda>(_, _, f). f) fs)
      else hm_get (pv_reports p) b)"
proof (induction fs arbitrary: p)
  case Nil
  then show ?case by simp
next
  case (Cons x fs)
  then show ?case by (cases x) (auto simp: apply_frame_reports split: option.splits)
qed

subsection \<open>Teardown\<close>

lemma remove_report_simps [simp]:
  "pv_reports (remove_report a p) = hm_remove a (pv_reports p)"
  "pv_runtime (remove_report a p) = pv_runtime p"
  "pv_conn (remove_report a p) = pv_conn p"
  "pv_pending (remove_report a p) = pv_pending p"
  by (simp_all add: remove_report_def notify_def Let_def)

lemma connection_ended_state:
  shows "pv_reports (connection_ended now j a p) = hm_remove a (pv_reports p)"
    and "pv_runtime (connection_ended now j a p) = hm_remove a (pv_runtime p)"
    and "pv_conn (connection_ended now j a p) = conn_ended now j a (pv_conn p)"
    and "pv_pending (connection_ended now j a p) = pending_disconnect a (pv_pending p)"
  by (simp_all add: connection_ended_def notify_def Let_def)

lemma pending_disconnect_entries:
  "pending_inv q \<Longrightarrow> hm_get (pc_entries (pending_disconnect a q)) k =
    (if fst k = a then None else hm_get (pc_entries q) k)"
  using pending_invD(1) [of q]
  by (cases k) (simp add: pending_disconnect_def split: option.split)

subsection \<open>Controls\<close>

lemma validate_control_ok:
  "validate_control enabled d = Inr k \<longleftrightarrow> fd_paired d = Inr True \<and> fd_connected d = Inr True
     \<and> fd_blocked d = Inr False \<and> enabled (fd_key d) \<and> k = fd_key d"
  by (cases "fd_paired d"; cases "fd_connected d"; cases "fd_blocked d")
    (auto simp: validate_control_def and_then_def split: if_splits)

lemma execute_frame_sent:
  assumes "execute_frame key sent frame es p = (p', r)" and "pv_sent p' \<noteq> pv_sent p"
  shows "pv_sent p' = pv_sent p @ [(fst key, frame)] \<and> hm_get (cn_writers (pv_conn p)) (fst key) \<noteq> None
    \<and> hm_get (pc_entries (pv_pending p)) key = None"
  using assms
  by (auto simp: execute_frame_def send_frame_def reserve_def Let_def
      split: prod.splits sum.splits if_splits option.splits)

lemma set_noise_control_sent:
  assumes "set_noise_control enabled sent es d mode p = (p', r)" and "pv_sent p' \<noteq> pv_sent p"
  obtains state frame where "validate_control enabled d = Inr (fd_key d)"
    and "Option.bind (hm_get (pv_runtime p) (fd_address d)) rr_noise_control = Some state"
    and "noise_control_frame state mode = Inr frame"
    and "pv_sent p' = pv_sent p @ [(fd_address d, frame)]"
    and "hm_get (cn_writers (pv_conn p)) (fd_address d) \<noteq> None"
proof -
  obtain k where k: "validate_control enabled d = Inr k"
    using assms by (cases "validate_control enabled d") (auto simp: set_noise_control_def)
  obtain state where st: "Option.bind (hm_get (pv_runtime p) (fd_address d)) rr_noise_control = Some state"
    using assms k by (cases "Option.bind (hm_get (pv_runtime p) (fd_address d)) rr_noise_control")
      (auto simp: set_noise_control_def)
  obtain frame where fr: "noise_control_frame state mode = Inr frame"
    using assms k st by (cases "noise_control_frame state mode") (auto simp: set_noise_control_def)
  have "execute_frame (fd_address d, HEARABLE_CONTROLS_GROUP, SET_ANC_STATE_CODE) sent frame es p = (p', r)"
    using assms(1) k st fr by (simp add: set_noise_control_def)
  from execute_frame_sent [OF this assms(2)] that [OF _ st fr] k show ?thesis
    by (simp add: validate_control_ok)
qed

lemma noise_control_payload_ok:
  "noise_control_payload state mode = Inr p \<Longrightarrow>
   (fn_version state = 1 \<or> fn_version state = 2) \<and> mode \<in> set (fn_settable state)"
  by (auto simp: noise_control_payload_def split: if_splits)

text \<open>Every recorded noise-control state came from a decoded message.\<close>

definition runtime_inv :: "fp_provider \<Rightarrow> bool" where
  "runtime_inv p \<longleftrightarrow> (\<forall>a r. hm_get (pv_runtime p) a = Some r \<longrightarrow>
     (\<forall>n. rr_noise_control r = Some n \<longrightarrow> (\<exists>payload. decode_anc_state payload = Inr n))
     \<and> (\<forall>v. rr_session_nonce r = Some v \<longrightarrow> length v = 8)
     \<and> (\<forall>v. rr_model_id r = Some v \<longrightarrow> length v = 3))"

lemma update_runtime_inv:
  assumes "runtime_inv p"
    and "\<And>r n. rr_noise_control (put v r) = Some n \<Longrightarrow> rr_noise_control r = Some n \<or> (\<exists>q. decode_anc_state q = Inr n)"
    and "\<And>r w. rr_session_nonce (put v r) = Some w \<Longrightarrow> rr_session_nonce r = Some w \<or> length w = 8"
    and "\<And>r w. rr_model_id (put v r) = Some w \<Longrightarrow> rr_model_id r = Some w \<or> length w = 3"
  shows "runtime_inv (update_runtime a get put v p)"
proof -
  have d: "rr_noise_control runtime_default = None" "rr_session_nonce runtime_default = None"
    "rr_model_id runtime_default = None" by (simp_all add: runtime_default_def)
  show ?thesis
    using assms(1) assms(2) [of "case hm_get (pv_runtime p) a of None \<Rightarrow> runtime_default | Some r \<Rightarrow> r"]
      assms(3) [of "case hm_get (pv_runtime p) a of None \<Rightarrow> runtime_default | Some r \<Rightarrow> r"]
      assms(4) [of "case hm_get (pv_runtime p) a of None \<Rightarrow> runtime_default | Some r \<Rightarrow> r"]
    unfolding runtime_inv_def update_runtime_def notify_def Let_def
    by (auto simp: d split: option.splits if_splits)
qed

lemma runtime_inv_same: "runtime_inv p \<Longrightarrow> pv_runtime q = pv_runtime p \<Longrightarrow> runtime_inv q"
  by (simp add: runtime_inv_def)

lemma runtime_inv_put:
  assumes "runtime_inv p"
  shows "runtime_inv (update_runtime a rr_last_switch (\<lambda>v r. r\<lparr>rr_last_switch := Some v\<rparr>) e p)"
    and "runtime_inv (update_runtime a rr_multipoint (\<lambda>v r. r\<lparr>rr_multipoint := Some v\<rparr>) m p)"
    and "runtime_inv (update_runtime a rr_ble_address (\<lambda>v r. r\<lparr>rr_ble_address := Some v\<rparr>) b p)"
    and "decode_anc_state q = Inr n \<Longrightarrow>
      runtime_inv (update_runtime a rr_noise_control (\<lambda>v r. r\<lparr>rr_noise_control := Some v\<rparr>) n p)"
    and "length v = 8 \<Longrightarrow>
      runtime_inv (update_runtime a rr_session_nonce (\<lambda>v r. r\<lparr>rr_session_nonce := Some v\<rparr>) v p)"
    and "length v = 3 \<Longrightarrow>
      runtime_inv (update_runtime a rr_model_id (\<lambda>v r. r\<lparr>rr_model_id := Some v\<rparr>) v p)"
  by (rule update_runtime_inv [OF assms]; auto)+

lemma device_information_inv:
  assumes "runtime_inv p"
  shows "runtime_inv (fst (apply_device_information a code payload p))"
proof -
  have "runtime_inv (update_report a r p)" for r using runtime_inv_same [OF assms] by simp
  then show ?thesis
    unfolding apply_device_information_def
    using assms runtime_inv_put(3,5,6) [OF assms] by (simp split: sum.split)
qed

lemma send_frame_runtime: "send_frame sent a frame p = (p', r) \<Longrightarrow> pv_runtime p' = pv_runtime p"
  by (auto simp: send_frame_def split: if_splits)

lemma switch_capability_inv:
  assumes "runtime_inv p"
  shows "runtime_inv (fst (apply_switch_capability sent a payload p))"
proof -
  have "runtime_inv p'" if "send_frame sent a fr p = (p', r)" for fr p' r
    using runtime_inv_same [OF assms] send_frame_runtime [OF that] by blast
  then show ?thesis
    using assms by (auto simp: apply_switch_capability_def intro: runtime_inv_put split: sum.split prod.split)
qed

lemma apply_frame_inv:
  assumes "runtime_inv p"
  shows "runtime_inv (fst (apply_frame now_ms sent a f p))"
proof -
  have ack: "runtime_inv (apply_acknowledgement a c pl p)" for c pl
    by (rule runtime_inv_same [OF assms])
      (simp add: apply_acknowledgement_def split: option.split prod.split)
  have answers: "runtime_inv (p\<lparr>pv_answers := x\<rparr>)" for x
    by (rule runtime_inv_same [OF assms]) simp
  show ?thesis
    unfolding apply_frame_def
    using assms device_information_inv [OF assms] switch_capability_inv [OF assms] ack answers
      runtime_inv_put(1,4) [OF assms]
    by (simp split: sum.split)
qed

lemma apply_frames_inv: "runtime_inv p \<Longrightarrow> runtime_inv (apply_frames a fs p)"
proof (induction fs arbitrary: p)
  case Nil
  then show ?case by simp
next
  case (Cons x fs)
  then show ?case using apply_frame_inv by (cases x) simp
qed

subsection \<open>Properties\<close>

text \<open>
  An invalid message of the stream leaves the whole provider as it was, and however valid
  and invalid messages are mixed, the batteries shown for a peer are those of its last valid
  battery message; no other peer's batteries change.
\<close>

theorem batteries_follow_last_valid_message:
  "fp_batteries b (apply_frames a fs p) =
     (if b = a
      then (case last_battery (hm_get (pv_reports p) a) (map (\<lambda>(_, _, f). f) fs) of
          None \<Rightarrow> [] | Some r \<Rightarrow> model_batteries r)
      else fp_batteries b p)"
  by (simp add: fp_batteries_def apply_frames_reports)

text \<open>
  A frame that is rejected changes nothing: no report, no state, no frame sent.\<close>

theorem rejected_frame_changes_nothing:
  assumes "snd (apply_frame now_ms sent a f p) = Inl e"
  shows "fst (apply_frame now_ms sent a f p) = p"
  using apply_frame_rejected [of now_ms sent a f p "fst (apply_frame now_ms sent a f p)" e] assms
  by (metis prod.collapse)

theorem rejected_frame_changes_nothing_witness:
  "fst (apply_frame 0 True [1] \<lparr>fr_group = 3, fr_code = 3, fr_payload = [0x7e, 50, 0xff]\<rparr> provider_default)
     = provider_default"
proof (rule rejected_frame_changes_nothing)
  show "snd (apply_frame 0 True [1] \<lparr>fr_group = 3, fr_code = 3, fr_payload = [0x7e, 50, 0xff]\<rparr>
      provider_default) = Inl (Wire (BadPercentage 0x7e))"
    by (simp add: apply_frame_def apply_device_information_def fp_codes battery_from_payload_def
        decode_fixed_def decode_component_def Let_def)
qed

text \<open>
  When a stream ends, everything the peer reported, its writer, its link and its pending
  commands are gone, and the tables of every other peer are untouched.
\<close>

theorem stream_end_forgets_exactly_the_peer:
  assumes "pending_inv (pv_pending p)"
  shows "hm_get (pv_reports (connection_ended now j a p)) b = (if b = a then None else hm_get (pv_reports p) b)
    \<and> hm_get (pv_runtime (connection_ended now j a p)) b = (if b = a then None else hm_get (pv_runtime p) b)
    \<and> hm_get (cn_links (pv_conn (connection_ended now j a p))) b
        = (if b = a then None else hm_get (cn_links (pv_conn p)) b)
    \<and> hm_get (cn_writers (pv_conn (connection_ended now j a p))) b
        = (if b = a then None else hm_get (cn_writers (pv_conn p)) b)
    \<and> hm_get (pc_entries (pv_pending (connection_ended now j a p))) (b, g, c)
        = (if b = a then None else hm_get (pc_entries (pv_pending p)) (b, g, c))"
  using pending_disconnect_entries [OF assms, of a "(b, g, c)"]
  by (simp add: connection_ended_state conn_ended_def Let_def)

theorem stream_end_forgets_exactly_the_peer_witness:
  "let r = \<lparr>br_left = Some 80, br_right = None, br_case = None, br_charging = (False, False, False)\<rparr>;
       p = update_report [2] r (update_report [1] r provider_default)
   in hm_get (pv_reports (connection_ended 0 0 [1] p)) [1] = None
    \<and> hm_get (pv_reports (connection_ended 0 0 [1] p)) [2] = Some r"
proof -
  let ?r = "\<lparr>br_left = Some 80, br_right = None, br_case = None, br_charging = (False, False, False)\<rparr>"
  let ?p = "update_report [2] ?r (update_report [1] ?r provider_default)"
  have "pending_inv (pv_pending ?p)"
    by (simp add: update_report_def notify_def Let_def provider_default_def pending_inv_default)
  from stream_end_forgets_exactly_the_peer [OF this, of 0 0 "[1]" "[1]"]
    stream_end_forgets_exactly_the_peer [OF this, of 0 0 "[1]" "[2]"]
  show ?thesis by (simp add: Let_def)
qed

text \<open>
  C3. \<open>set_noise_control\<close> puts a frame on the wire only for a paired, connected, unblocked device
  with controls enabled and a live stream, and then exactly one frame: a four-byte state
  which decodes to the last reported state with the requested, settable mode made active.
\<close>

theorem noise_control_frames_are_guarded:
  assumes "runtime_inv p"
    and "pv_sent (fst (set_noise_control enabled sent es d mode p)) \<noteq> pv_sent p"
  shows "fd_paired d = Inr True \<and> fd_connected d = Inr True \<and> fd_blocked d = Inr False
    \<and> enabled (fd_key d) \<and> hm_get (cn_writers (pv_conn p)) (fd_address d) \<noteq> None
    \<and> (\<exists>state payload. Option.bind (hm_get (pv_runtime p) (fd_address d)) rr_noise_control = Some state
        \<and> mode \<in> set (fn_settable state)
        \<and> decode_anc_state payload = Inr (state\<lparr>fn_active := Some mode\<rparr>)
        \<and> pv_sent (fst (set_noise_control enabled sent es d mode p))
            = pv_sent p @ [(fd_address d, [0x08, 0x12, 0, 4] @ payload)])"
proof -
  obtain p' r where e: "set_noise_control enabled sent es d mode p = (p', r)" by force
  with assms(2) have "pv_sent p' \<noteq> pv_sent p" by simp
  then obtain state frame where v: "validate_control enabled d = Inr (fd_key d)"
    and st: "Option.bind (hm_get (pv_runtime p) (fd_address d)) rr_noise_control = Some state"
    and fr: "noise_control_frame state mode = Inr frame"
    and sent: "pv_sent p' = pv_sent p @ [(fd_address d, frame)]"
    and w: "hm_get (cn_writers (pv_conn p)) (fd_address d) \<noteq> None"
    using set_noise_control_sent [OF e] by blast
  obtain rt where "hm_get (pv_runtime p) (fd_address d) = Some rt" "rr_noise_control rt = Some state"
    using st by (auto simp: bind_eq_Some_conv)
  then obtain q where q: "decode_anc_state q = Inr state"
    using assms(1) unfolding runtime_inv_def by blast
  obtain payload where pl: "noise_control_payload state mode = Inr payload"
    using fr by (auto simp: noise_control_frame_def)
  have ok: "fn_version state \<in> {1, 2}" "mode \<in> set (fn_settable state)"
    using noise_control_payload_ok [OF pl] by auto
  obtain pl' where "noise_control_payload state mode = Inr pl'" "length pl' = 4"
      "decode_anc_state pl' = Inr (state\<lparr>fn_active := Some mode\<rparr>)"
    using noise_control_round [OF q ok] by blast
  then have len: "length payload = 4" and dec: "decode_anc_state payload = Inr (state\<lparr>fn_active := Some mode\<rparr>)"
    using pl by auto
  have "frame = [0x08, 0x12, 0, 4] @ payload"
    using fr pl len by (simp add: noise_control_frame_def frame_encoded_def word_try_from_def
        be16_bytes_def fp_codes)
  then show ?thesis
    using v w st ok(2) dec sent e by (auto simp: validate_control_ok)
qed

text \<open>A peer with a stream that reported its noise-control state.\<close>

definition demo_noise :: fp_noise_control where
  "demo_noise = \<lparr>fn_version = 2, fn_available = [''transparent'', ''off''],
     fn_settable = [''transparent'', ''off''], fn_active = Some ''off''\<rparr>"

definition demo_provider :: fp_provider where
  "demo_provider = provider_default\<lparr>pv_conn := conn_default\<lparr>cn_writers := [([1], 7)]\<rparr>,
     pv_runtime := [([1], runtime_default\<lparr>rr_noise_control := Some demo_noise\<rparr>)]\<rparr>"

definition demo_device :: fp_device where
  "demo_device = \<lparr>fd_address = [1], fd_paired = Inr True, fd_connected = Inr True, fd_blocked = Inr False,
     fd_key = ''k''\<rparr>"

lemma demo_provider_inv: "runtime_inv demo_provider"
proof -
  have "decode_anc_state [2, 0xa0, 0xa0, 0x20] = Inr demo_noise"
    by (simp add: decode_anc_state_def demo_noise_def anc_modes_def ANC_MODES_def decode_fixed_def)
  then show ?thesis
    by (auto simp: runtime_inv_def demo_provider_def runtime_default_def hm_get_def split: if_splits)
qed

lemma demo_frame:
  "noise_control_frame demo_noise ''transparent'' = Inr [0x08, 0x12, 0, 4, 2, 0xa0, 0xa0, 0x80]"
  by (simp add: noise_control_frame_def noise_control_payload_def demo_noise_def anc_mode_flag_def
      ANC_MODES_def frame_encoded_def word_try_from_def be16_bytes_def fp_codes)

lemma demo_sent:
  "pv_sent (fst (set_noise_control (\<lambda>_. True) True [] demo_device ''transparent'' demo_provider))
     = [([1], [0x08, 0x12, 0, 4, 2, 0xa0, 0xa0, 0x80])]"
proof -
  have v: "validate_control (\<lambda>_. True) demo_device = Inr ''k''"
    by (simp add: validate_control_ok demo_device_def)
  have st: "Option.bind (hm_get (pv_runtime demo_provider) (fd_address demo_device)) rr_noise_control = Some demo_noise"
    by (simp add: demo_provider_def demo_device_def hm_get_def)
  show ?thesis
    unfolding set_noise_control_def v st demo_frame sum.case option.case
    by (simp add: execute_frame_def send_frame_def demo_provider_def
        demo_device_def provider_default_def conn_default_def pending_default_def reserve_def checked_inc_def
        hm_get_def Let_def split: prod.split)
qed

theorem noise_control_frames_are_guarded_witness:
  "hm_get (cn_writers (pv_conn demo_provider)) [1] \<noteq> None
   \<and> pv_sent (fst (set_noise_control (\<lambda>_. True) True [] demo_device ''transparent'' demo_provider))
     = [([1], [0x08, 0x12, 0, 4, 2, 0xa0, 0xa0, 0x80])]"
proof -
  have "pv_sent (fst (set_noise_control (\<lambda>_. True) True [] demo_device ''transparent'' demo_provider))
      \<noteq> pv_sent demo_provider"
    unfolding demo_sent by (simp add: demo_provider_def provider_default_def)
  from noise_control_frames_are_guarded [OF demo_provider_inv this] demo_sent
  show ?thesis by (simp add: demo_device_def)
qed

lemma features_Some:
  "features now enabled keys catalog paired_at a device_key service_data connected p = Some f \<Longrightarrow>
   \<exists>rt adv. f = (describe rt (keys device_key \<noteq> None) (Option.bind (rr_model_id rt) catalog)
        (recently_paired now device_key paired_at))\<lparr>ff_advertised := adv,
        ff_controls_available := connected \<and> enabled device_key \<and> hm_get (cn_writers (pv_conn p)) a \<noteq> None,
        ff_authenticated_controls := (connected \<and> enabled device_key
          \<and> hm_get (cn_writers (pv_conn p)) a \<noteq> None) \<and> rr_session_nonce rt \<noteq> None \<and> keys device_key \<noteq> None\<rparr>
    \<and> rt = shown_runtime (hm_get (pv_runtime p) a) (Option.bind service_data advertisement)"
  unfolding features_def Let_def by (metis option.distinct(1) option.inject)

lemma shown_runtime_nonce:
  "rr_session_nonce (shown_runtime reported ad) \<noteq> None \<Longrightarrow> \<exists>r. reported = Some r \<and> rr_session_nonce r \<noteq> None"
  by (cases reported) (auto simp: shown_runtime_def Let_def runtime_default_def split: if_splits)

text \<open>
  The features shown for a device never offer more than its state allows: authenticated
  controls need a connected device, enabled controls, a live stream, a session nonce and an
  account key; provisioning is offered exactly for a trusted model without key in its
  one-minute window, with a reason shown otherwise.
\<close>

theorem features_are_earned:
  assumes "features now enabled keys catalog paired_at a device_key service_data connected p = Some f"
  shows "(ff_controls_available f \<longrightarrow> connected \<and> enabled device_key \<and> hm_get (cn_writers (pv_conn p)) a \<noteq> None)
    \<and> (ff_authenticated_controls f \<longrightarrow> ff_controls_available f \<and> keys device_key \<noteq> None
         \<and> (\<exists>r. hm_get (pv_runtime p) a = Some r \<and> rr_session_nonce r \<noteq> None))
    \<and> (ff_provisioning_available f \<longleftrightarrow> keys device_key = None \<and> ff_trusted_model_name f \<noteq> None
         \<and> recently_paired now device_key paired_at)
    \<and> (ff_provisioning_available f \<longleftrightarrow> ff_provisioning_reason f = None)
    \<and> (\<forall>n. ff_trusted_model_name f = Some n \<longrightarrow> (\<exists>m. ff_model_id f = Some m \<and> catalog m = Some n))"
proof -
  let ?c = "connected \<and> enabled device_key \<and> hm_get (cn_writers (pv_conn p)) a \<noteq> None"
  obtain rt adv where f: "f = (describe rt (keys device_key \<noteq> None) (Option.bind (rr_model_id rt) catalog)
        (recently_paired now device_key paired_at))\<lparr>ff_advertised := adv, ff_controls_available := ?c,
        ff_authenticated_controls := ?c \<and> rr_session_nonce rt \<noteq> None \<and> keys device_key \<noteq> None\<rparr>"
      and rt: "rt = shown_runtime (hm_get (pv_runtime p) a) (Option.bind service_data advertisement)"
    using features_Some [OF assms] by blast
  have n: "\<exists>r. hm_get (pv_runtime p) a = Some r \<and> rr_session_nonce r \<noteq> None" if "rr_session_nonce rt \<noteq> None"
    using that unfolding rt by (rule shown_runtime_nonce)
  have m: "\<exists>i. rr_model_id rt = Some i \<and> catalog i = Some x"
    if "Option.bind (rr_model_id rt) catalog = Some x" for x
    using that by (simp add: bind_eq_Some_conv)
  show ?thesis
    unfolding f using n m by (simp add: describe_def provisioning_reason_def Let_def del: not_None_eq)
qed

theorem features_are_earned_witness:
  "\<exists>f. features 0 (\<lambda>_. True) (\<lambda>_. None) (\<lambda>_. Some ''Buds'') [(''k'', 0)] [1] ''k'' (Some [1, 2, 3]) True
      provider_default = Some f \<and> ff_provisioning_available f \<and> \<not> ff_authenticated_controls f"
proof -
  let ?f = "features 0 (\<lambda>_. True) (\<lambda>_. None) (\<lambda>_. Some ''Buds'') [(''k'', 0)] [1] ''k'' (Some [1, 2, 3]) True
      provider_default"
  obtain f where f: "?f = Some f" and name: "ff_trusted_model_name f = Some ''Buds''"
    by (simp add: features_def Let_def describe_def provider_default_def runtime_default_def advertisement_def
        shown_runtime_def)
  have "recently_paired 0 ''k'' [(''k'', 0)]"
    by (simp add: recently_paired_def hm_get_def elapsed_def WINDOW_def secs_def millis_def)
  with features_are_earned [OF f] f name show ?thesis by auto
qed

text \<open>
  A repeated pairing notice does not extend a provisioning window that is still open, and
  the window is closed one minute after it opened.\<close>

theorem pairing_window_not_extended:
  assumes "hm_ok windows" and "hm_get windows key = Some start" and "elapsed now start < WINDOW"
  shows "hm_get (note_pairing now key True windows) key = Some start
    \<and> \<not> recently_paired (start + WINDOW) key (note_pairing now key True windows)"
  using assms by (simp add: note_pairing_def recently_paired_def elapsed_def Let_def)

theorem pairing_window_not_extended_witness:
  "hm_get (note_pairing (secs 59) ''k'' True [(''k'', 0)]) ''k'' = Some 0"
  using pairing_window_not_extended [of "[(''k'', 0)]" "''k''" 0 "secs 59"]
  by (simp add: hm_ok_def hm_get_def elapsed_def WINDOW_def)

end
