(* ===== verification/Framing.thy ===== *)
theory Framing
  imports Prelude
begin

text \<open>
  \<open>src/framing.rs\<close>: byte stuffing, the delimiter-driven frame splitter shared by the Sony
  and Maestro channels, and the buffered frame reader.

  The decoder of a vendor and its byte mapping are parameters here; \<open>byte_stuffing\<close> and
  \<open>chunk_decoder\<close> are the contracts a vendor has to meet, and they are interpreted in the
  vendors' own theories.
\<close>

subsection \<open>Byte stuffing\<close>

definition stuff_byte :: "u8 \<times> u8 \<Rightarrow> u8 \<Rightarrow> (u8 \<Rightarrow> u8) \<Rightarrow> u8 \<Rightarrow> bytes" where
  "stuff_byte markers esc encode b =
     (if b \<in> {fst markers, snd markers, esc} then [esc, encode b] else [b])"

definition stuff :: "u8 \<times> u8 \<Rightarrow> u8 \<Rightarrow> (u8 \<Rightarrow> u8) \<Rightarrow> bytes \<Rightarrow> bytes" where
  "stuff markers esc encode body = concat (map (stuff_byte markers esc encode) body)"

lemma length_stuff_le: "length (stuff markers esc encode body) \<le> 2 * length body"
  by (induction body) (auto simp: stuff_def stuff_byte_def)

definition escape :: "bytes \<Rightarrow> u8 \<times> u8 \<Rightarrow> u8 \<Rightarrow> (u8 \<Rightarrow> u8) \<Rightarrow> bytes" where
  "escape body markers esc encode =
     [fst markers] @ stuff markers esc encode body @ [snd markers]"

datatype escape_error = EndsInsideEscape

fun unescape :: "bytes \<Rightarrow> u8 \<Rightarrow> (u8 \<Rightarrow> u8) \<Rightarrow> escape_error + bytes" where
  "unescape [] esc decode = Inr []"
| "unescape (b # bs) esc decode =
     (if b = esc then
        (case bs of [] \<Rightarrow> Inl EndsInsideEscape
         | x # rest \<Rightarrow> res_bind (unescape rest esc decode) (\<lambda>r. Inr (decode x # r)))
      else res_bind (unescape bs esc decode) (\<lambda>r. Inr (b # r)))"

lemma stuff_simps [simp]:
  "stuff m esc encode [] = []"
  "stuff m esc encode (b # bs) = stuff_byte m esc encode b @ stuff m esc encode bs"
  by (simp_all add: stuff_def)

lemma length_stuff: "length bs \<le> length (stuff m esc encode bs)"
    "length (stuff m esc encode bs) \<le> 2 * length bs"
  by (induction bs) (auto simp: stuff_byte_def)

lemma unescape_length: "unescape bs esc decode = Inr body \<Longrightarrow> length body \<le> length bs"
proof (induction bs esc decode arbitrary: body rule: unescape.induct)
  case (2 b bs esc decode)
  show ?case
  proof (cases "b = esc")
    case True
    with 2 show ?thesis by (fastforce split: list.splits)
  next
    case False
    with 2 show ?thesis by fastforce
  qed
qed simp

subsection \<open>The delimiter-driven splitter\<close>

text \<open>\<open>MAX_FRAME\<close> counts the opening delimiter and the encoded body.\<close>

definition MAX_FRAME :: nat where "MAX_FRAME = 4096"

datatype 'e frame_error = Oversize | BadFrame 'e

fun lift_frame :: "'e + 't \<Rightarrow> 'e frame_error + 't" where
  "lift_frame (Inl e) = Inl (BadFrame e)"
| "lift_frame (Inr t) = Inr t"

record delimited =
  df_body :: bytes
  df_open :: bool

definition df_default :: delimited where
  "df_default = \<lparr>df_body = [], df_open = False\<rparr>"

definition df_byte ::
  "u8 \<times> u8 \<Rightarrow> (bytes \<Rightarrow> 'e + 't) \<Rightarrow> delimited \<Rightarrow> u8 \<Rightarrow> delimited \<times> ('e frame_error + 't) list"
where
  "df_byte markers decode s byte =
    (case markers of (start, fin) \<Rightarrow>
     if \<not> df_open s then (s\<lparr>df_open := (byte = start)\<rparr>, [])
     else if byte = fin then
       (s\<lparr>df_body := [], df_open := (start = fin)\<rparr>,
        if start \<noteq> fin \<or> df_body s \<noteq> [] then [lift_frame (decode (df_body s))] else [])
     else if MAX_FRAME - 1 \<le> length (df_body s) then
       (s\<lparr>df_body := [], df_open := False\<rparr>, [Inl Oversize])
     else (s\<lparr>df_body := df_body s @ [byte]\<rparr>, []))"

fun df_push ::
  "u8 \<times> u8 \<Rightarrow> (bytes \<Rightarrow> 'e + 't) \<Rightarrow> delimited \<Rightarrow> bytes \<Rightarrow> delimited \<times> ('e frame_error + 't) list"
where
  "df_push markers decode s [] = (s, [])"
| "df_push markers decode s (b # bs) =
     (let (s', fs) = df_byte markers decode s b;
          (s'', gs) = df_push markers decode s' bs
      in (s'', fs @ gs))"

text \<open>The invariant: a closed splitter holds no bytes, an open one fewer than \<open>MAX_FRAME\<close>.\<close>

definition df_inv :: "delimited \<Rightarrow> bool" where
  "df_inv s \<longleftrightarrow> length (df_body s) < MAX_FRAME \<and> (\<not> df_open s \<longrightarrow> df_body s = [])"

lemma df_inv_default [simp]: "df_inv df_default"
  by (simp add: df_inv_def df_default_def MAX_FRAME_def)

lemma df_byte_inv: "df_inv s \<Longrightarrow> df_inv (fst (df_byte m decode s b))"
  by (auto simp: df_byte_def df_inv_def MAX_FRAME_def split: prod.splits)

lemma df_push_inv: "df_inv s \<Longrightarrow> df_inv (fst (df_push m decode s bs))"
proof (induction bs arbitrary: s)
  case (Cons b bs)
  from Cons.prems have "df_inv (fst (df_byte m decode s b))" by (rule df_byte_inv)
  from Cons.IH [OF this] show ?case by (simp add: case_prod_beta Let_def)
qed simp

lemma df_push_append:
  "df_push m decode s (xs @ ys) =
     (let (s', fs) = df_push m decode s xs; (s'', gs) = df_push m decode s' ys in (s'', fs @ gs))"
  by (induction xs arbitrary: s) (simp_all add: case_prod_beta Let_def)

text \<open>Bytes without the closing delimiter accumulate, up to the limit.\<close>

lemma df_push_accumulate:
  assumes "df_open s" and "snd m \<notin> set xs" and "length (df_body s) + length xs < MAX_FRAME"
  shows "df_push m decode s xs = (s\<lparr>df_body := df_body s @ xs\<rparr>, [])"
  using assms
proof (induction xs arbitrary: s)
  case (Cons x xs)
  have "df_byte m decode s x = (s\<lparr>df_body := df_body s @ [x]\<rparr>, [])"
    using Cons.prems by (auto simp: df_byte_def split: prod.splits)
  moreover have "df_push m decode (s\<lparr>df_body := df_body s @ [x]\<rparr>) xs =
      (s\<lparr>df_body := df_body s @ [x] @ xs\<rparr>, [])"
    using Cons.prems by (subst Cons.IH) auto
  ultimately show ?case by simp
qed simp

text \<open>One byte too many: exactly one error, and the splitter waits for an opening delimiter.\<close>

lemma df_byte_oversize:
  assumes "df_open s" and "b \<noteq> snd m" and "MAX_FRAME - 1 \<le> length (df_body s)"
  shows "df_byte m decode s b = (s\<lparr>df_body := [], df_open := False\<rparr>, [Inl Oversize])"
  using assms by (auto simp: df_byte_def split: prod.splits)

lemma df_push_closed_noise:
  assumes "\<not> df_open s" and "fst m \<notin> set xs"
  shows "df_push m decode s xs = (s, [])"
  using assms
proof (induction xs)
  case (Cons x xs)
  then have "df_byte m decode s x = (s, [])"
    by (auto simp: df_byte_def split: prod.splits)
  with Cons show ?case by simp
qed simp

lemma df_push_frame:
  assumes "\<not> df_open s" and "df_body s = []"
    and "snd m \<notin> set xs" and "length xs < MAX_FRAME" and "fst m = snd m \<longrightarrow> xs \<noteq> []"
  shows "df_push m decode s ([fst m] @ xs @ [snd m]) =
    (s\<lparr>df_open := (fst m = snd m)\<rparr>, [lift_frame (decode xs)])"
proof -
  obtain a b where m: "m = (a, b)" by force
  have 1: "df_push m decode s [fst m] = (s\<lparr>df_open := True\<rparr>, [])"
    using assms by (simp add: df_byte_def m)
  have 2: "df_push m decode (s\<lparr>df_open := True\<rparr>) xs = (s\<lparr>df_body := xs, df_open := True\<rparr>, [])"
    using assms by (subst df_push_accumulate) auto
  have 3: "df_push m decode (s\<lparr>df_body := xs, df_open := True\<rparr>) [snd m] =
      (s\<lparr>df_open := (fst m = snd m)\<rparr>, [lift_frame (decode xs)])"
    using assms by (simp add: df_byte_def m)
  show ?thesis
    by (simp only: df_push_append 1 2 3 Let_def case_prod_conv append_Nil)
qed

text \<open>
  With one flag for both ends (HDLC) any flag byte synchronises the splitter, whatever it
  held before: the closing flag of one frame opens the next.
\<close>

lemma df_byte_flag_sync:
  assumes "df_inv s"
  shows "fst (df_byte (f, f) decode s f) = \<lparr>df_body = [], df_open = True\<rparr>"
  using assms by (cases s) (auto simp: df_byte_def df_inv_def)

lemma df_push_hdlc_resync:
  assumes "df_inv s" and "f \<notin> set xs" and "xs \<noteq> []" and "length xs < MAX_FRAME"
  shows "\<exists>fs. df_push (f, f) decode s (garbage @ [f] @ xs @ [f]) =
    (\<lparr>df_body = [], df_open = True\<rparr>, fs @ [lift_frame (decode xs)])"
proof -
  obtain s1 fs1 where 1: "df_push (f, f) decode s garbage = (s1, fs1)" by force
  have inv: "df_inv s1" using df_push_inv [OF assms(1), of "(f, f)" decode garbage] 1 by simp
  obtain fs2 where 2: "df_byte (f, f) decode s1 f = (\<lparr>df_body = [], df_open = True\<rparr>, fs2)"
    using df_byte_flag_sync [OF inv, of f decode] by (cases "df_byte (f, f) decode s1 f") auto
  have 3: "df_push (f, f) decode \<lparr>df_body = [], df_open = True\<rparr> xs =
      (\<lparr>df_body = xs, df_open = True\<rparr>, [])"
    using assms by (subst df_push_accumulate) auto
  have 4: "df_byte (f, f) decode \<lparr>df_body = xs, df_open = True\<rparr> f =
      (\<lparr>df_body = [], df_open = True\<rparr>, [lift_frame (decode xs)])"
    using assms(3) by (simp add: df_byte_def)
  show ?thesis
    unfolding df_push_append 1 by (simp add: df_push_append 2 3 4)
qed

subsection \<open>Contract of a vendor's byte mapping\<close>

locale byte_stuffing =
  fixes start fin esc :: u8 and encode decode :: "u8 \<Rightarrow> u8"
  assumes esc_distinct: "esc \<noteq> start" "esc \<noteq> fin"
    and encode_no_marker: "b \<in> {start, fin, esc} \<Longrightarrow> encode b \<notin> {start, fin}"
    and decode_encode: "b \<in> {start, fin, esc} \<Longrightarrow> decode (encode b) = b"
begin

lemma stuff_no_markers: "start \<notin> set (stuff (start, fin) esc encode body)"
    "fin \<notin> set (stuff (start, fin) esc encode body)"
proof -
  have "set (stuff_byte (start, fin) esc encode b) \<inter> {start, fin} = {}" for b
    using encode_no_marker [of b] esc_distinct by (auto simp: stuff_byte_def)
  then have "set (stuff (start, fin) esc encode body) \<inter> {start, fin} = {}"
    by (induction body) (simp_all add: Int_Un_distrib2)
  then show "start \<notin> set (stuff (start, fin) esc encode body)"
      "fin \<notin> set (stuff (start, fin) esc encode body)"
    by blast+
qed

lemma unescape_stuff: "unescape (stuff (start, fin) esc encode body) esc decode = Inr body"
  using decode_encode by (induction body) (auto simp: stuff_byte_def)

text \<open>A complete frame is delivered to the vendor's decoder as its stuffed body.\<close>

lemma push_escape:
  assumes "df_inv s" and "\<not> df_open s"
    and "length (stuff (start, fin) esc encode body) < MAX_FRAME"
    and "start = fin \<longrightarrow> body \<noteq> []"
  shows "df_push (start, fin) dec s (escape body (start, fin) esc encode) =
    (\<lparr>df_body = [], df_open = (start = fin)\<rparr>,
     [lift_frame (dec (stuff (start, fin) esc encode body))])"
proof -
  have body: "df_body s = []" using assms(1,2) by (simp add: df_inv_def)
  have "length body \<le> length (stuff (start, fin) esc encode body)" by (rule length_stuff)
  then have nonempty: "start = fin \<longrightarrow> stuff (start, fin) esc encode body \<noteq> []"
    using assms(4) by auto
  have "df_push (start, fin) dec s
      ([fst (start, fin)] @ stuff (start, fin) esc encode body @ [snd (start, fin)]) =
    (s\<lparr>df_open := (fst (start, fin) = snd (start, fin))\<rparr>,
     [lift_frame (dec (stuff (start, fin) esc encode body))])"
    by (rule df_push_frame) (use assms body nonempty stuff_no_markers in auto)
  then show ?thesis
    using body by (cases s) (simp add: escape_def)
qed

end

subsection \<open>The buffered reader\<close>

text \<open>
  \<open>Reader\<close>: decoded frames wait in \<open>pending\<close>; a corrupt one is handed to \<open>invalid\<close> and
  skipped. The transport is the list of results of its successive reads; a read of no bytes,
  or the end of the list, is end of file.
\<close>

record ('d, 'e, 't) reader =
  rd_decoder :: 'd
  rd_pending :: "('e + 't) list"
  rd_invalid :: "'e list"

fun find_ok :: "('e + 't) list \<Rightarrow> 'e list \<times> ('t \<times> ('e + 't) list) option" where
  "find_ok [] = ([], None)"
| "find_ok (Inl e # rs) = (let (es, r) = find_ok rs in (e # es, r))"
| "find_ok (Inr t # rs) = ([], Some (t, rs))"

fun reader_next ::
  "('d \<Rightarrow> bytes \<Rightarrow> 'd \<times> ('e + 't) list) \<Rightarrow> ('d, 'e, 't) reader \<Rightarrow> ('io + bytes) list
   \<Rightarrow> ('io + 't option) \<times> ('d, 'e, 't) reader \<times> ('io + bytes) list"
where
  "reader_next push rd src =
     (case find_ok (rd_pending rd) of
        (es, Some (t, rest)) \<Rightarrow>
          (Inr (Some t), rd\<lparr>rd_pending := rest, rd_invalid := rd_invalid rd @ es\<rparr>, src)
      | (es, None) \<Rightarrow>
          (let rd' = rd\<lparr>rd_pending := [], rd_invalid := rd_invalid rd @ es\<rparr> in
           case src of
             [] \<Rightarrow> (Inr None, rd', [])
           | Inl io # src' \<Rightarrow> (Inl io, rd', src')
           | Inr [] # src' \<Rightarrow> (Inr None, rd', src')
           | Inr (b # bs) # src' \<Rightarrow>
               (let (d, fs) = push (rd_decoder rd') (b # bs)
                in reader_next push (rd'\<lparr>rd_decoder := d, rd_pending := fs\<rparr>) src')))"

declare reader_next.simps [simp del]

definition reader_new :: "'d \<Rightarrow> ('d, 'e, 't) reader" where
  "reader_new decoder = \<lparr>rd_decoder = decoder, rd_pending = [], rd_invalid = []\<rparr>"

lemma find_ok_shorter: "find_ok rs = (es, Some (t, rest)) \<Longrightarrow> length rest < length rs"
  by (induction rs arbitrary: es rule: find_ok.induct) (fastforce split: prod.splits)+

lemma reader_next_progress:
  assumes "reader_next push rd src = (Inr (Some t), rd', src')"
  shows "length src' < length src \<or>
    (length src' = length src \<and> length (rd_pending rd') < length (rd_pending rd))"
  using assms
proof (induction src arbitrary: rd)
  case Nil
  then show ?case
    by (auto simp: reader_next.simps [of push rd] Let_def find_ok_shorter
        split: prod.splits option.splits)
next
  case (Cons c src)
  obtain es r where f: "find_ok (rd_pending rd) = (es, r)" by force
  show ?case
  proof (cases r)
    case None
    with Cons.prems f obtain b bs where c: "c = Inr (b # bs)"
      by (auto simp: reader_next.simps [of push rd] Let_def split: sum.splits list.splits)
    obtain d fs where d: "push (rd_decoder rd) (b # bs) = (d, fs)" by force
    from Cons.prems None f c d have "reader_next push
        (rd\<lparr>rd_invalid := rd_invalid rd @ es, rd_decoder := d, rd_pending := fs\<rparr>) src
      = (Inr (Some t), rd', src')"
      by (simp add: reader_next.simps [of push rd])
    from Cons.IH [OF this] show ?thesis by auto
  next
    case (Some p)
    with Cons.prems f show ?thesis
      by (cases p) (auto simp: reader_next.simps [of push rd] find_ok_shorter)
  qed
qed

text \<open>The consumers' loop \<open>while let Some(frame) = frames.next().await?\<close>.\<close>

function drain ::
  "('d \<Rightarrow> bytes \<Rightarrow> 'd \<times> ('e + 't) list) \<Rightarrow> ('d, 'e, 't) reader \<Rightarrow> ('io + bytes) list
   \<Rightarrow> 't list \<times> 'io option"
where
  "drain push rd src =
     (case reader_next push rd src of
        (Inr (Some t), rd', src') \<Rightarrow> (let (ts, e) = drain push rd' src' in (t # ts, e))
      | (Inr None, rd', src') \<Rightarrow> ([], None)
      | (Inl io, rd', src') \<Rightarrow> ([], Some io))"
  by pat_completeness auto
termination
  by (relation "measures [\<lambda>(push, rd, src). length src, \<lambda>(push, rd, src). length (rd_pending rd)]")
    (auto dest!: sym [THEN reader_next_progress])

declare drain.simps [simp del]

definition oks :: "('e + 't) list \<Rightarrow> 't list" where
  "oks rs = concat (map (\<lambda>r. case r of Inl e \<Rightarrow> [] | Inr t \<Rightarrow> [t]) rs)"

lemma oks_simps [simp]:
  "oks [] = []" "oks (Inl e # rs) = oks rs" "oks (Inr t # rs) = t # oks rs"
  "oks (rs @ qs) = oks rs @ oks qs"
  by (simp_all add: oks_def)

lemma find_ok_oks:
  "find_ok rs = (es, None) \<Longrightarrow> oks rs = []"
  "find_ok rs = (es, Some (t, rest)) \<Longrightarrow> oks rs = t # oks rest"
  by (induction rs arbitrary: es rule: find_ok.induct) (auto split: prod.splits)

text \<open>The contract of a stream decoder: how the input is cut into reads does not matter.\<close>

locale chunk_decoder =
  fixes push :: "'d \<Rightarrow> bytes \<Rightarrow> 'd \<times> ('e + 't) list"
  assumes push_nil: "push d [] = (d, [])"
    and push_append: "push d (xs @ ys) =
      (let (d', fs) = push d xs; (d'', gs) = push d' ys in (d'', fs @ gs))"
begin

lemma snd_push_append: "snd (push d (xs @ ys)) = snd (push d xs) @ snd (push (fst (push d xs)) ys)"
  by (simp add: push_append case_prod_beta Let_def)

lemma reader_next_stream:
  assumes "\<forall>c \<in> set cs. c \<noteq> []" and "tail = [] \<or> tail = [Inl io]"
  shows "(\<exists>t rd' cs'. reader_next push rd (map Inr cs @ tail) = (Inr (Some t), rd', map Inr cs' @ tail)
      \<and> (\<forall>c \<in> set cs'. c \<noteq> [])
      \<and> oks (rd_pending rd) @ oks (snd (push (rd_decoder rd) (concat cs)))
        = t # oks (rd_pending rd') @ oks (snd (push (rd_decoder rd') (concat cs'))))
    \<or> (\<exists>rd' src'. reader_next push rd (map Inr cs @ tail)
        = (if tail = [] then Inr None else Inl io, rd', src')
      \<and> oks (rd_pending rd) @ oks (snd (push (rd_decoder rd) (concat cs))) = [])"
  using assms(1)
proof (induction cs arbitrary: rd)
  case Nil
  obtain es r where f: "find_ok (rd_pending rd) = (es, r)" by force
  show ?case
  proof (cases r)
    case None
    with f assms(2) show ?thesis
      by (auto simp: reader_next.simps [of push rd] find_ok_oks push_nil)
  next
    case (Some p)
    with f show ?thesis
      by (cases p) (auto simp: reader_next.simps [of push rd] find_ok_oks push_nil
          intro!: exI [where x = "[]"])
  qed
next
  case (Cons c cs)
  obtain es r where f: "find_ok (rd_pending rd) = (es, r)" by force
  show ?case
  proof (cases r)
    case None
    obtain b bs where c: "c = b # bs" using Cons.prems by (cases c) auto
    obtain d fs where d: "push (rd_decoder rd) (b # bs) = (d, fs)" by force
    let ?rd = "rd\<lparr>rd_invalid := rd_invalid rd @ es, rd_decoder := d, rd_pending := fs\<rparr>"
    have "reader_next push rd (map Inr (c # cs) @ tail) = reader_next push ?rd (map Inr cs @ tail)"
      using None f c d by (simp add: reader_next.simps [of push rd])
    moreover have "oks (rd_pending rd) @ oks (snd (push (rd_decoder rd) (concat (c # cs))))
        = oks (rd_pending ?rd) @ oks (snd (push (rd_decoder ?rd) (concat cs)))"
      using None f c d snd_push_append [of "rd_decoder rd" "b # bs" "concat cs"]
      by (simp add: find_ok_oks)
    ultimately show ?thesis
      using Cons.IH [of ?rd] Cons.prems by simp
  next
    case (Some p)
    with f Cons.prems show ?thesis
      by (cases p) (auto simp: reader_next.simps [of push rd] find_ok_oks
          intro!: exI [where x = "c # cs"])
  qed
qed

lemma drain_step:
  assumes "tail = [] \<or> tail = [Inl io]"
    and "p = push" and "src = map Inr cs @ tail" and "\<forall>c \<in> set cs. c \<noteq> []"
  shows "drain p rd src =
    (oks (rd_pending rd) @ oks (snd (push (rd_decoder rd) (concat cs))),
     if tail = [] then None else Some io)"
  using assms(2-4)
proof (induction p rd src arbitrary: cs rule: drain.induct)
  case (1 p rd src)
  from reader_next_stream [OF 1(4) assms(1), of rd] show ?case
  proof (elim disjE exE conjE)
    fix t rd' cs'
    assume nxt: "reader_next push rd (map Inr cs @ tail) = (Inr (Some t), rd', map Inr cs' @ tail)"
      and ok: "\<forall>c \<in> set cs'. c \<noteq> []"
      and eq: "oks (rd_pending rd) @ oks (snd (push (rd_decoder rd) (concat cs))) =
        t # oks (rd_pending rd') @ oks (snd (push (rd_decoder rd') (concat cs')))"
    have step: "(Inr (Some t), rd', map Inr cs' @ tail) = reader_next p rd src"
      using nxt 1(2,3) by simp
    have "drain p rd' (map Inr cs' @ tail) =
        (oks (rd_pending rd') @ oks (snd (push (rd_decoder rd') (concat cs'))),
         if tail = [] then None else Some io)"
      by (rule 1(1) [OF step refl refl refl 1(2) refl ok])
    with nxt eq 1(2,3) show ?thesis
      by (simp add: drain.simps [of push rd])
  next
    fix rd' src'
    assume "reader_next push rd (map Inr cs @ tail) =
        (if tail = [] then Inr None else Inl io, rd', src')"
      and "oks (rd_pending rd) @ oks (snd (push (rd_decoder rd) (concat cs))) = []"
    with 1(2,3) show ?thesis by (simp add: drain.simps [of push rd])
  qed
qed

text \<open>
  The reader delivers every valid frame of the byte stream, in order, before end of file or a
  transport error, for every way of cutting the stream into non-empty reads.
\<close>

lemma drain_frames:
  assumes "\<forall>c \<in> set cs. c \<noteq> []" and "tail = [] \<or> tail = [Inl io]"
  shows "drain push rd (map Inr cs @ tail) =
    (oks (rd_pending rd) @ oks (snd (push (rd_decoder rd) (concat cs))),
     if tail = [] then None else Some io)"
  by (rule drain_step [OF assms(2) refl refl assms(1)])

end

end
