(* ===== verification/SonyProtocol.thy ===== *)
theory SonyProtocol
  imports Framing
begin

text \<open>
  \<open>src/sony/protocol.rs\<close>: the Headphones Connect frame and the noise-cancelling /
  ambient-sound (NC/ASM) payloads.
\<close>

subsection \<open>Frames\<close>

definition SONY_START :: u8 where "SONY_START = 0x3e"
definition SONY_END :: u8 where "SONY_END = 0x3c"
definition SONY_ESCAPE :: u8 where "SONY_ESCAPE = 0x3d"
definition SONY_ESCAPE_MASK :: u8 where "SONY_ESCAPE_MASK = 0xef"
definition SONY_ACK :: u8 where "SONY_ACK = 0x01"
definition SONY_COMMAND :: u8 where "SONY_COMMAND = 0x0c"
definition SONY_COMMAND_2 :: u8 where "SONY_COMMAND_2 = 0x0e"
definition INIT_REQUEST :: bytes where "INIT_REQUEST = [0x00, 0x00]"
definition INIT_REPLY :: u8 where "INIT_REPLY = 0x01"
definition NC_ASM_GET :: u8 where "NC_ASM_GET = 0x66"
definition NC_ASM_RET :: u8 where "NC_ASM_RET = 0x67"
definition NC_ASM_SET :: u8 where "NC_ASM_SET = 0x68"
definition NC_ASM_NOTIFY :: u8 where "NC_ASM_NOTIFY = 0x69"
definition NC_ASM_TYPES :: bytes where "NC_ASM_TYPES = [0x15, 0x17]"
definition SONY_MODES :: "string list" where
  "SONY_MODES = [''transparent'', ''off'', ''noise-cancelling'']"

lemmas sony_consts = SONY_START_def SONY_END_def SONY_ESCAPE_def SONY_ESCAPE_MASK_def

datatype sony_error =
    PayloadTooLarge | BadEscaping | EmptyFrame | HeaderTruncated | LengthMismatch
  | ChecksumMismatch | ReportLength nat | UnsupportedType u8 | InvalidReport | UnsupportedMode string

record sony_frame =
  sf_kind :: u8
  sf_sequence :: u8
  sf_payload :: bytes

definition checksum :: "bytes \<Rightarrow> u8" where
  "checksum bs = foldl (\<lambda>sum byte. sum + byte) 0 bs"

definition sony_header :: "u8 \<Rightarrow> u8 \<Rightarrow> bytes \<Rightarrow> bytes" where
  "sony_header kind sequence payload =
     [kind, sequence] @ be32_bytes (word_of_nat (length payload)) @ payload"

definition sony_escape_byte :: "u8 \<Rightarrow> u8" where
  "sony_escape_byte byte = byte AND SONY_ESCAPE_MASK"

definition sony_unescape_byte :: "u8 \<Rightarrow> u8" where
  "sony_unescape_byte byte = byte OR NOT SONY_ESCAPE_MASK"

definition sony_encode :: "u8 \<Rightarrow> u8 \<Rightarrow> bytes \<Rightarrow> sony_error + bytes" where
  "sony_encode kind sequence payload =
     (case (word_try_from (length payload) :: u32 option) of
        None \<Rightarrow> Inl PayloadTooLarge
      | Some _ \<Rightarrow>
          (let body = sony_header kind sequence payload in
           Inr (escape (body @ [checksum body]) (SONY_START, SONY_END) SONY_ESCAPE
                  sony_escape_byte)))"

definition sony_decode :: "bytes \<Rightarrow> sony_error + sony_frame" where
  "sony_decode escaped =
     (case unescape escaped SONY_ESCAPE sony_unescape_byte of
        Inl _ \<Rightarrow> Inl BadEscaping
      | Inr bs \<Rightarrow>
          (if bs = [] then Inl EmptyFrame
           else let received = last bs; body = butlast bs in
             (case body of
                kind # sequence # a # b # c # d # payload \<Rightarrow>
                  (if unat (be32 a b c d) \<noteq> length payload then Inl LengthMismatch
                   else if checksum body \<noteq> received then Inl ChecksumMismatch
                   else Inr \<lparr>sf_kind = kind, sf_sequence = sequence, sf_payload = payload\<rparr>)
              | _ \<Rightarrow> Inl HeaderTruncated)))"

definition sony_push :: "delimited \<Rightarrow> bytes \<Rightarrow> delimited \<times> (sony_error frame_error + sony_frame) list" where
  "sony_push = df_push (SONY_START, SONY_END) sony_decode"

interpretation sony: byte_stuffing SONY_START SONY_END SONY_ESCAPE sony_escape_byte sony_unescape_byte
  by unfold_locales
    (auto simp: sony_consts sony_escape_byte_def sony_unescape_byte_def)

interpretation sony_stream: chunk_decoder sony_push
  by unfold_locales (simp_all add: sony_push_def df_push_append)

lemma checksum_append [simp]: "checksum (xs @ ys) = checksum xs + checksum ys"
  and checksum_Cons [simp]: "checksum (x # xs) = x + checksum xs"
  and checksum_Nil [simp]: "checksum [] = 0"
proof -
  have acc: "foldl (\<lambda>sum byte. sum + byte) a zs = a + sum_list zs" for a :: u8 and zs
    by (induction zs arbitrary: a) (simp_all add: add.assoc)
  show "checksum (xs @ ys) = checksum xs + checksum ys" "checksum (x # xs) = x + checksum xs"
      "checksum [] = 0"
    by (simp_all add: checksum_def acc)
qed

lemma length_sony_header [simp]: "length (sony_header k s p) = length p + 6"
  by (simp add: sony_header_def)

text \<open>The unescaped image of a frame, which decoding accepts and nothing else.\<close>

definition sony_image :: "sony_frame \<Rightarrow> bytes" where
  "sony_image f = (let h = sony_header (sf_kind f) (sf_sequence f) (sf_payload f) in h @ [checksum h])"

lemma sony_decode_image:
  assumes "unescape e SONY_ESCAPE sony_unescape_byte = Inr (sony_image f)"
    and "length (sf_payload f) < 2 ^ 32"
  shows "sony_decode e = Inr f"
proof -
  have "unat (word_of_nat (length (sf_payload f)) :: u32) = length (sf_payload f)"
    using assms(2) by (simp add: unat_of_nat take_bit_nat_eq_self)
  with assms(1) show ?thesis
    by (simp add: sony_decode_def sony_image_def sony_header_def be32_bytes_def byte_order Let_def)
qed

lemma sony_decode_sound:
  assumes "sony_decode e = Inr f"
  shows "unescape e SONY_ESCAPE sony_unescape_byte = Inr (sony_image f)
    \<and> length (sf_payload f) < 2 ^ 32"
proof -
  obtain bs where bs: "unescape e SONY_ESCAPE sony_unescape_byte = Inr bs" "bs \<noteq> []"
    using assms by (auto simp: sony_decode_def split: sum.splits if_splits)
  then obtain k s a b c d p where body: "butlast bs = k # s # a # b # c # d # p"
    using assms by (auto simp: sony_decode_def Let_def split: list.splits if_splits)
  have len: "unat (be32 a b c d) = length p" and sum: "checksum (butlast bs) = last bs"
    and f: "f = \<lparr>sf_kind = k, sf_sequence = s, sf_payload = p\<rparr>"
    using assms bs body by (auto simp: sony_decode_def Let_def split: if_splits)
  have "word_of_nat (length p) = be32 a b c d"
    by (simp flip: len)
  then have "be32_bytes (word_of_nat (length p)) = [a, b, c, d]"
    by (simp add: be32_bytes_be32)
  then have "butlast bs = sony_header k s p"
    using body by (simp add: sony_header_def)
  moreover have "bs = butlast bs @ [last bs]" using bs(2) by simp
  ultimately have "bs = sony_image f"
    using sum f by (simp add: sony_image_def Let_def)
  moreover have "length p < 2 ^ 32"
    using len unat_less_width [of "be32 a b c d"] by simp
  ultimately show ?thesis using bs(1) f by simp
qed

text \<open>Encoding, stuffing, splitting and decoding give the frame back.\<close>

lemma sony_round_trip:
  assumes "sony_encode kind sequence payload = Inr wire" and "df_inv s" and "\<not> df_open s"
    and "length wire \<le> MAX_FRAME + 1"
  shows "sony_push s wire = (\<lparr>df_body = [], df_open = False\<rparr>,
    [Inr \<lparr>sf_kind = kind, sf_sequence = sequence, sf_payload = payload\<rparr>])"
proof -
  let ?f = "\<lparr>sf_kind = kind, sf_sequence = sequence, sf_payload = payload\<rparr>"
  let ?st = "stuff (SONY_START, SONY_END) SONY_ESCAPE sony_escape_byte (sony_image ?f)"
  have wire: "wire = escape (sony_image ?f) (SONY_START, SONY_END) SONY_ESCAPE sony_escape_byte"
    and len: "length payload < 2 ^ 32"
    using assms(1) by (auto simp: sony_encode_def sony_image_def Let_def word_try_from_def
        split: if_splits option.splits)
  have ne: "SONY_START \<noteq> SONY_END" by (simp add: sony_consts)
  have "length ?st < MAX_FRAME" using assms(4) wire by (simp add: escape_def)
  moreover have "sony_decode ?st = Inr ?f"
    by (rule sony_decode_image) (use len in \<open>simp_all add: sony.unescape_stuff\<close>)
  ultimately show ?thesis
    using assms(2,3) wire ne by (simp add: sony_push_def sony.push_escape)
qed

text \<open>A sequence of frames on the wire, each as long as the splitter accepts.\<close>

definition sony_on_wire :: "sony_frame \<Rightarrow> bytes \<Rightarrow> bool" where
  "sony_on_wire f wire \<longleftrightarrow> sony_encode (sf_kind f) (sf_sequence f) (sf_payload f) = Inr wire
     \<and> length wire \<le> MAX_FRAME + 1"

lemma sony_push_frames:
  assumes "list_all2 sony_on_wire fs wires"
  shows "sony_push \<lparr>df_body = [], df_open = False\<rparr> (concat wires)
    = (\<lparr>df_body = [], df_open = False\<rparr>, map Inr fs)"
  using assms
proof (induction rule: list_all2_induct)
  case Nil
  show ?case by (simp add: sony_stream.push_nil)
next
  case (Cons f fs wire wires)
  have "sony_push \<lparr>df_body = [], df_open = False\<rparr> wire = (\<lparr>df_body = [], df_open = False\<rparr>, [Inr f])"
    using Cons(1) by (subst sony_round_trip) (auto simp: sony_on_wire_def df_inv_def MAX_FRAME_def)
  with Cons show ?case by (simp add: sony_stream.push_append)
qed

subsection \<open>Noise cancelling and ambient sound\<close>

record nc_asm =
  na_inquired :: u8
  na_enabled :: bool
  na_ambient :: bool
  na_wind :: "u8 option"
  na_focus_on_voice :: bool
  na_level :: u8

definition sony_active_mode :: "nc_asm \<Rightarrow> string option" where
  "sony_active_mode s =
     (if \<not> na_enabled s then Some ''off''
      else if na_wind s = Some 3 \<or> na_wind s = Some 5 then None
      else if na_ambient s then Some ''transparent''
      else Some ''noise-cancelling'')"

definition sony_queries :: "bytes list" where
  "sony_queries = map (\<lambda>inquired. [NC_ASM_GET, inquired]) NC_ASM_TYPES"

definition nc_asm_fields ::
  "u8 \<Rightarrow> u8 \<Rightarrow> u8 \<Rightarrow> u8 option \<Rightarrow> u8 \<Rightarrow> u8 \<Rightarrow> sony_error + nc_asm" where
  "nc_asm_fields inquired enabled ambient wind voice level =
     (if inquired \<notin> set NC_ASM_TYPES then Inl (UnsupportedType inquired)
      else if \<not> (enabled \<le> 1 \<and> ambient \<le> 1 \<and> voice \<le> 1 \<and> level \<le> 20) then Inl InvalidReport
      else Inr \<lparr>na_inquired = inquired, na_enabled = (enabled = 1), na_ambient = (ambient = 1),
                na_wind = wind, na_focus_on_voice = (voice = 1), na_level = level\<rparr>)"

definition decode_nc_asm :: "bytes \<Rightarrow> sony_error + nc_asm" where
  "decode_nc_asm payload =
     (case payload of
        [_, inquired, _, enabled, ambient, voice, level] \<Rightarrow>
          nc_asm_fields inquired enabled ambient None voice level
      | [_, inquired, _, enabled, ambient, wind, voice, level] \<Rightarrow>
          nc_asm_fields inquired enabled ambient (Some wind) voice level
      | _ \<Rightarrow> Inl (ReportLength (length payload)))"

definition nc_asm_payload :: "nc_asm \<Rightarrow> string \<Rightarrow> sony_error + bytes" where
  "nc_asm_payload s mode =
     (let build = (\<lambda>enabled ambient.
            Inr ([NC_ASM_SET, na_inquired s, 0x01, enabled, ambient]
                 @ (if na_wind s \<noteq> None then [0x02] else [])
                 @ [of_bool (na_focus_on_voice s), na_level s]))
      in if mode = ''noise-cancelling'' then build 1 0
         else if mode = ''transparent'' then build 1 1
         else if mode = ''off'' then build 0 0
         else Inl (UnsupportedMode mode))"

definition nc_asm_ok :: "nc_asm \<Rightarrow> bool" where
  "nc_asm_ok s \<longleftrightarrow> na_inquired s \<in> set NC_ASM_TYPES \<and> na_level s \<le> 20"

lemma decode_nc_asm_ok: "decode_nc_asm p = Inr s \<Longrightarrow> nc_asm_ok s"
  by (auto simp: decode_nc_asm_def nc_asm_fields_def nc_asm_ok_def split: list.splits if_splits)

lemma decode_nc_asm_length: "decode_nc_asm p = Inr s \<Longrightarrow> length p \<in> {7, 8}"
  by (auto simp: decode_nc_asm_def split: list.splits if_splits)

text \<open>
  The headphones' confirmation of a change (the SET payload echoed as a notification) decodes
  to the requested mode, with the inquired type, voice focus and ambient level untouched.
\<close>

lemma nc_asm_payload_decoded:
  assumes "nc_asm_ok s" and "nc_asm_payload s mode = Inr p"
  shows "decode_nc_asm (NC_ASM_NOTIFY # tl p) =
    Inr (s\<lparr>na_enabled := (mode \<noteq> ''off''), na_ambient := (mode = ''transparent''),
           na_wind := map_option (\<lambda>_. 2) (na_wind s)\<rparr>)"
  using assms
  by (cases s; cases "na_wind s"; cases "na_focus_on_voice s")
    (auto simp: nc_asm_payload_def decode_nc_asm_def nc_asm_fields_def nc_asm_ok_def Let_def
      split: if_splits)

lemma nc_asm_payload_active:
  assumes "nc_asm_payload s mode = Inr p"
  shows "sony_active_mode (s\<lparr>na_enabled := (mode \<noteq> ''off''), na_ambient := (mode = ''transparent''),
    na_wind := map_option (\<lambda>_. 2) (na_wind s)\<rparr>) = Some mode"
  using assms
  by (auto simp: nc_asm_payload_def sony_active_mode_def Let_def split: if_splits)

lemma nc_asm_payload_modes: "res_ok (nc_asm_payload s mode) \<longleftrightarrow> mode \<in> set SONY_MODES"
  by (auto simp: nc_asm_payload_def SONY_MODES_def Let_def)

subsection \<open>Properties\<close>

text \<open>
  Every change of one byte of a frame's body, in its header, payload or checksum, is rejected by
  \<open>sony_decode\<close>, however the two bodies are escaped.
\<close>

theorem sony_single_byte_corruption:
  assumes "sony_decode e = Inr f"
    and "unescape e SONY_ESCAPE sony_unescape_byte = Inr (xs @ [x] @ ys)"
    and "unescape e' SONY_ESCAPE sony_unescape_byte = Inr (xs @ [y] @ ys)"
    and "x \<noteq> y"
  shows "\<exists>err. sony_decode e' = Inl err"
proof (rule ccontr)
  assume "\<not> ?thesis"
  then obtain g where g: "sony_decode e' = Inr g" by (cases "sony_decode e'") auto
  from sony_decode_sound [OF assms(1)] assms(2) have 1: "xs @ [x] @ ys = sony_image f" by simp
  from sony_decode_sound [OF g] assms(3) have 2: "xs @ [y] @ ys = sony_image g" by simp
  show False
  proof (cases ys rule: rev_cases)
    case Nil
    with 1 2 have "xs = sony_header (sf_kind f) (sf_sequence f) (sf_payload f)" "x = checksum xs"
        "xs = sony_header (sf_kind g) (sf_sequence g) (sf_payload g)" "y = checksum xs"
      by (auto simp: sony_image_def Let_def)
    with assms(4) show False by simp
  next
    case (snoc zs z)
    with 1 have "xs @ [x] @ zs = sony_header (sf_kind f) (sf_sequence f) (sf_payload f)"
        and zf: "z = checksum (sony_header (sf_kind f) (sf_sequence f) (sf_payload f))"
      by (auto simp: sony_image_def Let_def simp flip: append_assoc append_Cons)
    moreover from snoc 2
    have "xs @ [y] @ zs = sony_header (sf_kind g) (sf_sequence g) (sf_payload g)"
        and zg: "z = checksum (sony_header (sf_kind g) (sf_sequence g) (sf_payload g))"
      by (auto simp: sony_image_def Let_def simp flip: append_assoc append_Cons)
    ultimately have "checksum (xs @ [x] @ zs) = checksum (xs @ [y] @ zs)" by simp
    with assms(4) show False by simp
  qed
qed

theorem sony_single_byte_corruption_witness:
  "\<exists>err. sony_decode [1, 0, 0, 0, 0, 1, 9, 10] = Inl err"
  by (rule sony_single_byte_corruption [where e = "[1, 0, 0, 0, 0, 1, 8, 10]" and xs = "[1, 0, 0, 0, 0, 1]"
        and x = 8 and y = 9 and ys = "[10]" and f = "\<lparr>sf_kind = 1, sf_sequence = 0, sf_payload = [8]\<rparr>"])
     (simp_all add: sony_decode_def sony_consts be32_def)

end
