(* ===== verification/SonySession.thy ===== *)
theory SonySession
  imports SonyProtocol
begin

text \<open>
  \<open>src/sony.rs\<close>: one control session with a headset. The writer sends one command at a time
  and waits for its acknowledgement, answering the headphones' own messages meanwhile; the
  reader turns frames into acknowledgements, queries and the stored noise-control state.

  The bounded channels between reader and writer are lists with the code's capacities; a
  \<open>try_send\<close> on a full one drops the message. Each \<open>select!\<close> is \<open>biased\<close>, so the step taken is
  a function of what is ready; when messages arrive and when the deadline fires is not
  determined and is left to the step relation.
\<close>

subsection \<open>The writer\<close>

text \<open>\<open>cm_done\<close> names the waiting caller, \<open>None\<close> for a background command.\<close>

record command =
  cm_payload :: bytes
  cm_done :: "nat option"

datatype phase =
    Idle
  | Waiting command
  | Ended "command option"  \<comment> \<open>with the command that was in flight\<close>

record writer =
  w_sequence :: u8
  w_phase :: phase
  w_commands :: "command list"
  w_acks :: bytes
  w_acked :: bytes
  w_wire :: bytes
  w_results :: "(command \<times> bool) list"

definition writer_init :: "command list \<Rightarrow> writer" where
  "writer_init cs = \<lparr>w_sequence = 0, w_phase = Idle, w_commands = cs, w_acks = [], w_acked = [],
     w_wire = [], w_results = []\<rparr>"

definition in_flight :: "writer \<Rightarrow> command option" where
  "in_flight w = (case w_phase w of Idle \<Rightarrow> None | Waiting c \<Rightarrow> Some c | Ended c \<Rightarrow> c)"

text \<open>\<open>send_ack\<close>: acknowledgements carry the opposite sequence bit.\<close>

definition send_ack :: "writer \<Rightarrow> u8 \<Rightarrow> writer" where
  "send_ack w received =
     (case sony_encode SONY_ACK (received XOR 1) [] of
        Inl _ \<Rightarrow> w\<lparr>w_phase := Ended (in_flight w)\<rparr>
      | Inr frame \<Rightarrow> w\<lparr>w_wire := w_wire w @ frame\<rparr>)"

definition send_command :: "writer \<Rightarrow> command \<Rightarrow> writer" where
  "send_command w c =
     (let w' = w\<lparr>w_acked := []\<rparr> in
      case sony_encode SONY_COMMAND (w_sequence w') (cm_payload c) of
        Inl _ \<Rightarrow> w'\<lparr>w_phase := Ended None\<rparr>
      | Inr frame \<Rightarrow> w'\<lparr>w_wire := w_wire w' @ frame, w_phase := Waiting c\<rparr>)"

definition finish :: "writer \<Rightarrow> command \<Rightarrow> bool \<Rightarrow> writer" where
  "finish w c result = w\<lparr>w_results := w_results w @ [(c, result)], w_phase := Idle\<rparr>"

text \<open>One poll of \<open>write_session\<close> with the channels as they are; \<open>None\<close> is pending.\<close>

fun writer_poll :: "writer \<Rightarrow> writer option" where
  "writer_poll w =
     (case w_phase w of
        Ended _ \<Rightarrow> None
      | Idle \<Rightarrow>
          (case w_acks w of
             a # as \<Rightarrow> Some (send_ack (w\<lparr>w_acks := as\<rparr>) a)
           | [] \<Rightarrow>
               (case w_commands w of
                  c # cs \<Rightarrow> Some (send_command (w\<lparr>w_commands := cs\<rparr>) c)
                | [] \<Rightarrow> None))
      | Waiting c \<Rightarrow>
          (case w_acks w of
             a # as \<Rightarrow> Some (send_ack (w\<lparr>w_acks := as\<rparr>) a)
           | [] \<Rightarrow>
               (case w_acked w of
                  s # ss \<Rightarrow> Some (finish (w\<lparr>w_acked := ss, w_sequence := s\<rparr>) c True)
                | [] \<Rightarrow> None)))"

text \<open>The acknowledgement deadline, polled last: it only fires when nothing else is ready.\<close>

definition writer_deadline :: "writer \<Rightarrow> writer option" where
  "writer_deadline w =
     (case w_phase w of
        Waiting c \<Rightarrow> if w_acks w = [] \<and> w_acked w = [] then Some (finish w c False) else None
      | _ \<Rightarrow> None)"

inductive writer_step :: "writer \<Rightarrow> writer \<Rightarrow> bool" where
  poll: "writer_poll w = Some w' \<Longrightarrow> writer_step w w'"
| deadline: "writer_deadline w = Some w' \<Longrightarrow> writer_step w w'"
| submit: "length (w_commands w) < 8 \<Longrightarrow> length (cm_payload c) \<le> 2000 \<Longrightarrow>
    writer_step w (w\<lparr>w_commands := w_commands w @ [c]\<rparr>)"
| received: "length (w_acks w) < 16 \<Longrightarrow> writer_step w (w\<lparr>w_acks := w_acks w @ [a]\<rparr>)"
| acknowledged: "length (w_acked w) < 4 \<Longrightarrow> writer_step w (w\<lparr>w_acked := w_acked w @ [s]\<rparr>)"
| transport_lost: "(\<forall>x. w_phase w \<noteq> Ended x) \<Longrightarrow> writer_step w (w\<lparr>w_phase := Ended (in_flight w)\<rparr>)"

inductive writer_reachable :: "writer \<Rightarrow> bool" where
  start: "writer_reachable (writer_init [\<lparr>cm_payload = INIT_REQUEST, cm_done = None\<rparr>])"
| step: "writer_reachable w \<Longrightarrow> writer_step w w' \<Longrightarrow> writer_reachable w'"

text \<open>The frames the headset decodes from the bytes written so far.\<close>

definition wire_frames :: "writer \<Rightarrow> sony_frame list" where
  "wire_frames w = oks (snd (sony_push df_default (w_wire w)))"

definition commands_of :: "sony_frame list \<Rightarrow> bytes list" where
  "commands_of fs = map sf_payload (filter (\<lambda>f. sf_kind f = SONY_COMMAND) fs)"

definition writer_inv :: "writer \<Rightarrow> bool" where
  "writer_inv w \<longleftrightarrow>
     fst (sony_push df_default (w_wire w)) = df_default
   \<and> (\<forall>c \<in> set (w_commands w). length (cm_payload c) \<le> 2000)
   \<and> commands_of (wire_frames w)
     = map (cm_payload \<circ> fst) (w_results w) @ map cm_payload (case in_flight w of None \<Rightarrow> [] | Some c \<Rightarrow> [c])"

lemma sony_encode_small:
  assumes "length payload \<le> 2000"
  shows "\<exists>wire. sony_encode kind sequence payload = Inr wire \<and> length wire \<le> MAX_FRAME + 1"
proof -
  let ?h = "sony_header kind sequence payload"
  have "length (stuff (SONY_START, SONY_END) SONY_ESCAPE sony_escape_byte (?h @ [checksum ?h]))
      \<le> 2 * length (?h @ [checksum ?h])"
    by (rule length_stuff)
  with assms show ?thesis
    by (simp add: sony_encode_def word_try_from_def Let_def escape_def MAX_FRAME_def)
qed

lemma wire_append:
  assumes "fst (sony_push df_default wire) = df_default"
    and "sony_encode kind sequence payload = Inr frame" and "length frame \<le> MAX_FRAME + 1"
  shows "fst (sony_push df_default (wire @ frame)) = df_default"
    and "oks (snd (sony_push df_default (wire @ frame))) = oks (snd (sony_push df_default wire))
      @ [\<lparr>sf_kind = kind, sf_sequence = sequence, sf_payload = payload\<rparr>]"
proof -
  have "sony_push df_default frame = (df_default,
      [Inr \<lparr>sf_kind = kind, sf_sequence = sequence, sf_payload = payload\<rparr>])"
    using sony_round_trip [OF assms(2) df_inv_default _ assms(3)] by (simp add: df_default_def)
  then show "fst (sony_push df_default (wire @ frame)) = df_default"
    and "oks (snd (sony_push df_default (wire @ frame))) = oks (snd (sony_push df_default wire))
      @ [\<lparr>sf_kind = kind, sf_sequence = sequence, sf_payload = payload\<rparr>]"
    using assms(1) by (simp_all add: sony_stream.push_append case_prod_beta Let_def)
qed

lemma writer_inv_init: "writer_inv (writer_init [\<lparr>cm_payload = INIT_REQUEST, cm_done = None\<rparr>])"
  by (simp add: writer_inv_def writer_init_def wire_frames_def commands_of_def in_flight_def
      INIT_REQUEST_def sony_push_def)

lemma send_ack_inv:
  assumes "writer_inv w"
  shows "writer_inv (send_ack w a)"
proof -
  obtain frame where f: "sony_encode SONY_ACK (a XOR 1) [] = Inr frame" "length frame \<le> MAX_FRAME + 1"
    using sony_encode_small [of "[]"] by auto
  from assms have "fst (sony_push df_default (w_wire w)) = df_default" by (simp add: writer_inv_def)
  note wire_append [OF this f]
  with assms f show ?thesis
    by (simp add: send_ack_def writer_inv_def wire_frames_def commands_of_def in_flight_def
        SONY_ACK_def SONY_COMMAND_def)
qed

lemma send_command_inv:
  assumes "writer_inv w" and "w_phase w = Idle" and "length (cm_payload c) \<le> 2000"
  shows "writer_inv (send_command w c)"
proof -
  obtain frame where f: "sony_encode SONY_COMMAND (w_sequence w) (cm_payload c) = Inr frame"
      "length frame \<le> MAX_FRAME + 1"
    using sony_encode_small [OF assms(3)] by blast
  from assms have "fst (sony_push df_default (w_wire w)) = df_default" by (simp add: writer_inv_def)
  note wire_append [OF this f]
  with assms f show ?thesis
    by (simp add: send_command_def writer_inv_def wire_frames_def commands_of_def in_flight_def Let_def)
qed

lemma finish_inv:
  assumes "writer_inv w" and "w_phase w = Waiting c"
  shows "writer_inv (finish w c r)"
  using assms by (simp add: finish_def writer_inv_def wire_frames_def in_flight_def)

lemma writer_inv_queues:
  "writer_inv w \<Longrightarrow> writer_inv (w\<lparr>w_acks := as\<rparr>)"
  "writer_inv w \<Longrightarrow> writer_inv (w\<lparr>w_acked := ss\<rparr>)"
  "writer_inv w \<Longrightarrow> writer_inv (w\<lparr>w_acked := ss, w_sequence := s\<rparr>)"
  "writer_inv w \<Longrightarrow> \<forall>c \<in> set cs. length (cm_payload c) \<le> 2000 \<Longrightarrow> writer_inv (w\<lparr>w_commands := cs\<rparr>)"
  by (simp_all add: writer_inv_def wire_frames_def in_flight_def)

lemma writer_poll_inv:
  assumes "writer_inv w" and "writer_poll w = Some w'"
  shows "writer_inv w'"
proof -
  have cs: "\<forall>c \<in> set (w_commands w). length (cm_payload c) \<le> 2000"
    using assms(1) by (simp add: writer_inv_def)
  show ?thesis
    using assms cs
    by (auto split: phase.splits list.splits
        intro!: send_ack_inv send_command_inv finish_inv writer_inv_queues)
qed

lemma writer_step_inv: "writer_step w w' \<Longrightarrow> writer_inv w \<Longrightarrow> writer_inv w'"
proof (induction rule: writer_step.induct)
  case (poll w w')
  then show ?case by (blast intro: writer_poll_inv)
next
  case (deadline w w')
  then show ?case
    by (auto simp: writer_deadline_def split: phase.splits if_splits intro: finish_inv)
next
  case (transport_lost w)
  then show ?case by (auto simp: writer_inv_def wire_frames_def in_flight_def split: phase.splits)
qed (auto simp: writer_inv_def wire_frames_def in_flight_def)

lemma writer_reachable_inv: "writer_reachable w \<Longrightarrow> writer_inv w"
  by (induction rule: writer_reachable.induct) (auto intro: writer_inv_init writer_step_inv)

subsection \<open>The reader and the stored state\<close>

text \<open>
  One address of the provider: the channel's state as other tasks see it (the command queue is
  the writer's), and the number of change notifications sent so far.
\<close>

record session =
  se_writer :: writer
  se_noise :: "nc_asm option"
  se_changes :: nat

definition session_init :: session where
  "session_init = \<lparr>se_writer = writer_init [\<lparr>cm_payload = INIT_REQUEST, cm_done = None\<rparr>],
     se_noise = None, se_changes = 0\<rparr>"

definition store_noise_control :: "session \<Rightarrow> nc_asm \<Rightarrow> session" where
  "store_noise_control s state =
     (if se_noise s = Some state then s
      else s\<lparr>se_noise := Some state, se_changes := Suc (se_changes s)\<rparr>)"

text \<open>\<open>commands.try_send\<close>: a full queue of eight drops the query.\<close>

definition try_command :: "session \<Rightarrow> bytes \<Rightarrow> session" where
  "try_command s payload =
     (if length (w_commands (se_writer s)) < 8
      then s\<lparr>se_writer := (se_writer s)\<lparr>w_commands :=
             w_commands (se_writer s) @ [\<lparr>cm_payload = payload, cm_done = None\<rparr>]\<rparr>\<rparr>
      else s)"

definition apply_command :: "session \<Rightarrow> bytes \<Rightarrow> session" where
  "apply_command s payload =
     (case payload of
        [] \<Rightarrow> s
      | code # _ \<Rightarrow>
          (if code = INIT_REPLY then foldl try_command s sony_queries
           else if code = NC_ASM_RET \<or> code = NC_ASM_NOTIFY then
             (case decode_nc_asm payload of
                Inr state \<Rightarrow> store_noise_control s state
              | Inl _ \<Rightarrow> s)
           else s))"

text \<open>
  \<open>apply_frame\<close>. \<open>acks.send\<close> waits for room in its queue of sixteen: \<open>None\<close> is still waiting.
\<close>

definition apply_frame :: "session \<Rightarrow> sony_frame \<Rightarrow> session option" where
  "apply_frame s frame =
     (if sf_kind frame = SONY_ACK then
        Some (if length (w_acked (se_writer s)) < 4
              then s\<lparr>se_writer := (se_writer s)\<lparr>w_acked := w_acked (se_writer s) @ [sf_sequence frame]\<rparr>\<rparr>
              else s)
      else if sf_kind frame = SONY_COMMAND \<or> sf_kind frame = SONY_COMMAND_2 then
        (if length (w_acks (se_writer s)) < 16
         then let s' = s\<lparr>se_writer := (se_writer s)\<lparr>w_acks := w_acks (se_writer s) @ [sf_sequence frame]\<rparr>\<rparr>
              in Some (if sf_kind frame = SONY_COMMAND then apply_command s' (sf_payload frame) else s')
         else None)
      else Some s)"

record noise_control =
  nz_source :: string
  nz_available :: "string list"
  nz_settable :: "string list"
  nz_active :: "string option"

definition sony_noise_control :: "session \<Rightarrow> noise_control option" where
  "sony_noise_control s = map_option (\<lambda>state.
     \<lparr>nz_source = ''sony-headphones-control'', nz_available = SONY_MODES,
      nz_settable = SONY_MODES, nz_active = sony_active_mode state\<rparr>) (se_noise s)"

datatype sony_set_error = NotConnected | NotReported | BadMode sony_error

text \<open>The request half of \<open>set_noise_control\<close>: the command handed to the writer's queue.\<close>

definition sony_set_request :: "session option \<Rightarrow> string \<Rightarrow> nat \<Rightarrow> sony_set_error + command" where
  "sony_set_request channel mode caller =
     (case channel of None \<Rightarrow> Inl NotConnected
      | Some s \<Rightarrow>
          (case se_noise s of None \<Rightarrow> Inl NotReported
           | Some state \<Rightarrow>
               (case nc_asm_payload state mode of
                  Inl e \<Rightarrow> Inl (BadMode e)
                | Inr payload \<Rightarrow> Inr \<lparr>cm_payload = payload, cm_done = Some caller\<rparr>)))"

text \<open>Only decoded reports are stored, so a stored state is always well-formed.\<close>

definition session_ok :: "session \<Rightarrow> bool" where
  "session_ok s \<longleftrightarrow> (\<forall>state. se_noise s = Some state \<longrightarrow> nc_asm_ok state)"

lemma store_noise_control_simps [simp]:
  "se_noise (store_noise_control s x) = Some x"
  "se_writer (store_noise_control s x) = se_writer s"
  by (auto simp: store_noise_control_def)

lemma try_command_noise [simp]: "se_noise (foldl try_command s ps) = se_noise s"
  by (induction ps arbitrary: s) (auto simp: try_command_def)

lemma apply_command_ok: "session_ok s \<Longrightarrow> session_ok (apply_command s p)"
  by (auto simp: session_ok_def apply_command_def store_noise_control_def
      split: list.splits sum.splits dest: decode_nc_asm_ok)

lemma apply_frame_ok: "session_ok s \<Longrightarrow> apply_frame s f = Some s' \<Longrightarrow> session_ok s'"
  by (auto simp: apply_frame_def Let_def session_ok_def split: if_splits
      intro: apply_command_ok [unfolded session_ok_def, rule_format, rotated])

lemma sony_set_request_small:
  "sony_set_request ch mode caller = Inr c \<Longrightarrow> length (cm_payload c) \<le> 8"
  by (auto simp: sony_set_request_def nc_asm_payload_def Let_def
      split: option.splits sum.splits if_splits)

subsection \<open>Properties\<close>


definition demo_writer :: writer where
  "demo_writer = the (writer_poll (writer_init [\<lparr>cm_payload = INIT_REQUEST, cm_done = None\<rparr>]))"

lemma demo_writer_reachable: "writer_reachable demo_writer"
  by (rule writer_reachable.step [OF writer_reachable.start writer_step.poll])
     (simp add: demo_writer_def writer_init_def)


text \<open>
  A requested noise-control mode is confirmed: when the headphones echo the requested payload as a
  notification, in one frame on the wire, the session's active mode becomes the requested one and the
  notification is queued for acknowledgement.
\<close>

theorem sony_requested_mode_confirmed:
  assumes "session_ok s" and "sony_set_request (Some s) mode caller = Inr c"
    and "sony_encode SONY_COMMAND sequence (NC_ASM_NOTIFY # tl (cm_payload c)) = Inr wire"
    and "length (w_acks (se_writer s)) < 16"
  shows "\<exists>frame s'. sony_push df_default wire = (df_default, [Inr frame])
    \<and> apply_frame s frame = Some s'
    \<and> map_option nz_active (sony_noise_control s') = Some (Some mode)
    \<and> w_acks (se_writer s') = w_acks (se_writer s) @ [sequence]"
proof -
  obtain state p where state: "se_noise s = Some state" and p: "nc_asm_payload state mode = Inr p"
    and c: "cm_payload c = p"
    using assms(2) by (auto simp: sony_set_request_def split: option.splits sum.splits)
  have ok: "nc_asm_ok state" using assms(1) state by (simp add: session_ok_def)
  let ?payload = "NC_ASM_NOTIFY # tl p"
  let ?frame = "\<lparr>sf_kind = SONY_COMMAND, sf_sequence = sequence, sf_payload = ?payload\<rparr>"
  have "length ?payload \<le> 2000"
    using sony_set_request_small [OF assms(2)] c by simp
  from sony_encode_small [OF this, of SONY_COMMAND sequence] assms(3) c
  have wire: "sony_push df_default wire = (df_default, [Inr ?frame])"
    using sony_round_trip [OF assms(3) df_inv_default] by (simp add: df_default_def)
  note decoded = nc_asm_payload_decoded [OF ok p]
  note active = nc_asm_payload_active [OF p]
  let ?new = "state\<lparr>na_enabled := (mode \<noteq> ''off''), na_ambient := (mode = ''transparent''),
    na_wind := map_option (\<lambda>_. 2) (na_wind state)\<rparr>"
  have "apply_frame s ?frame = Some (store_noise_control
      (s\<lparr>se_writer := (se_writer s)\<lparr>w_acks := w_acks (se_writer s) @ [sequence]\<rparr>\<rparr>) ?new)"
    using assms(4) decoded
    by (simp add: apply_frame_def Let_def apply_command_def SONY_ACK_def SONY_COMMAND_def
        INIT_REPLY_def NC_ASM_RET_def NC_ASM_NOTIFY_def)
  moreover have "map_option nz_active (sony_noise_control (store_noise_control
      (s\<lparr>se_writer := (se_writer s)\<lparr>w_acks := w_acks (se_writer s) @ [sequence]\<rparr>\<rparr>) ?new))
    = Some (Some mode)"
    using active by (simp add: sony_noise_control_def)
  moreover have "w_acks (se_writer (store_noise_control
      (s\<lparr>se_writer := (se_writer s)\<lparr>w_acks := w_acks (se_writer s) @ [sequence]\<rparr>\<rparr>) ?new))
    = w_acks (se_writer s) @ [sequence]"
    by simp
  ultimately show ?thesis using wire by blast
qed

definition demo_session :: session where
  "demo_session = session_init\<lparr>se_noise := Some \<lparr>na_inquired = 0x17, na_enabled = True, na_ambient = False,
     na_wind = None, na_focus_on_voice = False, na_level = 10\<rparr>\<rparr>"

theorem sony_requested_mode_confirmed_witness:
  "\<exists>c wire frame s'. sony_set_request (Some demo_session) ''transparent'' 7 = Inr c
    \<and> sony_push df_default wire = (df_default, [Inr frame])
    \<and> apply_frame demo_session frame = Some s'
    \<and> map_option nz_active (sony_noise_control s') = Some (Some ''transparent'')"
proof -
  have ok: "session_ok demo_session" by (simp add: session_ok_def demo_session_def nc_asm_ok_def NC_ASM_TYPES_def)
  obtain c where c: "sony_set_request (Some demo_session) ''transparent'' 7 = Inr c"
    by (simp add: sony_set_request_def demo_session_def nc_asm_payload_def)
  have "length (NC_ASM_NOTIFY # tl (cm_payload c)) \<le> 2000" using sony_set_request_small [OF c] by simp
  then obtain wire where "sony_encode SONY_COMMAND 0 (NC_ASM_NOTIFY # tl (cm_payload c)) = Inr wire"
    using sony_encode_small by blast
  moreover have "length (w_acks (se_writer demo_session)) < 16"
    by (simp add: demo_session_def session_init_def writer_init_def)
  ultimately show ?thesis using sony_requested_mode_confirmed [OF ok c] c by blast
qed

end
