(* ===== verification/Snapshot.thy ===== *)
theory Snapshot
  imports DeviceOps Identity FastPairProvider SonySession "HOL-Library.Signed_Division"
begin

text \<open>
  \<open>src/bluez/snapshot.rs\<close> and \<open>src/bluez/snapshot/assembly.rs\<close>: how a snapshot of adapters and devices is put
  together from what BlueZ, the vendor channels and the caches report, and the snapshot types of
  \<open>src/model.rs\<close>.

  What BlueZ answers to each property read is data (\<open>evidence\<close>); an answer may be an error. Tasks of the
  unordered streams are taken in the order in which they complete.
\<close>

subsection \<open>The snapshot\<close>

record adapter_info =
  da_key :: string
  da_name :: string
  da_alias :: string
  da_address :: string
  da_address_type :: string
  da_powered :: bool
  da_discovering :: bool
  da_discoverable :: bool
  da_pairable :: bool
  da_discoverable_timeout :: u32
  da_pairable_timeout :: u32
  da_modalias :: "string option"

record device_names =
  dn_name :: string
  dn_alias :: string
  dn_remote_name :: "string option"
  dn_device_type :: string
  dn_address :: string
  dn_address_type :: string
  dn_icon :: "string option"
  dn_modalias :: "string option"

record device_state =
  ds_paired :: bool
  ds_bonded :: "bool option"
  ds_connected :: bool
  ds_trusted :: bool
  ds_blocked :: bool
  ds_wake_allowed :: "bool option"
  ds_legacy_pairing :: bool
  ds_last_disconnect :: "device_disconnect option"

record device_services =
  sv_resolved :: bool
  sv_uuids :: "string list"
  sv_services :: "service list"

record device_presentation =
  vi_icon_id :: string
  vi_battery :: "battery list"
  vi_battery_live :: bool
  vi_battery_last_known :: bool
  vi_components :: "string list"
  vi_model_id :: "string option"
  vi_fast_pair :: "fp_features option"
  vi_noise_control :: "noise_control option"
  vi_rssi :: "int option"
  vi_rssi_kind :: "rssi_kind option"
  vi_signal_strength :: "u8 option"
  vi_signal_level :: "u8 option"
  vi_signal_live :: bool
  vi_present :: bool
  vi_last_seen_ms :: "u64 option"

record capabilities =
  can_pair :: bool
  can_connect :: bool
  can_disconnect :: bool
  can_remove :: bool
  can_trust :: bool
  can_block :: bool
  can_wake :: bool
  can_rename :: bool
  can_send_file :: bool
  can_provision_fast_pair :: bool
  can_set_multipoint :: bool
  can_set_noise_control :: bool
  unsupported :: "(string, string) hmap"

record device =
  de_key :: string
  de_adapter_key :: string
  de_names :: device_names
  de_state :: device_state
  de_services :: device_services
  de_view :: device_presentation
  de_policy :: device_policy
  de_capabilities :: capabilities

record snapshot =
  sh_radio :: radio_state
  sh_management :: policy
  sh_adapters :: "adapter_info list"
  sh_devices :: "device list"

text \<open>\<open>RuntimeState::from\<close>: what is remembered of a snapshot.\<close>

definition runtime_of :: "snapshot \<Rightarrow> runtime_state" where
  "runtime_of s =
     \<lparr>ru_adapter_power = foldl (\<lambda>m a. hm_insert (da_key a) (da_powered a) m) [] (sh_adapters s),
      ru_connected_device_keys = map de_key (filter (\<lambda>d. ds_connected (de_state d)) (sh_devices s))\<rparr>"

subsection \<open>Signals\<close>

definition signal_strength :: "int \<Rightarrow> u8" where
  "signal_strength rssi = word_of_int (max 0 (min 100 (((rssi + 100) * 100) sdiv 60)))"

definition signal_level :: "int \<Rightarrow> rssi_kind option \<Rightarrow> u8" where
  "signal_level rssi kind =
     (if kind = Some BrEdrRelative then (if 0 \<le> rssi then 3 else if - 10 \<le> rssi then 2 else 1)
      else if 67 \<le> signal_strength rssi then 3 else if 34 \<le> signal_strength rssi then 2 else 1)"

record cached_device =
  cd_device :: device
  cd_observed_at_ms :: u64

text \<open>The order of \<open>Option\<close>: nothing before something.\<close>

definition opt_le :: "u64 option \<Rightarrow> u64 option \<Rightarrow> bool" where
  "opt_le a b = (case a of None \<Rightarrow> True | Some x \<Rightarrow> (case b of None \<Rightarrow> False | Some y \<Rightarrow> x \<le> y))"

record signal =
  sn_rssi :: "int option"
  sn_kind :: "rssi_kind option"
  sn_last_seen_ms :: "u64 option"
  sn_live :: bool
  sn_present :: bool

definition or_else :: "'a option \<Rightarrow> 'a option \<Rightarrow> 'a option" where
  "or_else a b = (case a of None \<Rightarrow> b | Some x \<Rightarrow> Some x)"

definition measured :: "observation option \<Rightarrow> cached_device option \<Rightarrow> bool \<Rightarrow> observation option" where
  "measured observed cached live =
     (case observed of None \<Rightarrow> None
      | Some seen \<Rightarrow>
          if ob_rssi seen \<noteq> None
             \<and> (live \<or> (case cached of None \<Rightarrow> True
                 | Some c \<Rightarrow> vi_rssi (de_view (cd_device c)) = None
                     \<or> opt_le (vi_last_seen_ms (de_view (cd_device c))) (Some (ob_last_seen_ms seen))))
          then Some seen else None)"

definition resolve :: "observation option \<Rightarrow> cached_device option \<Rightarrow> bool \<Rightarrow> signal" where
  "resolve observed cached live =
     (let m = measured observed cached live; view = map_option (\<lambda>c. de_view (cd_device c)) cached in
      \<lparr>sn_rssi = or_else (Option.bind m ob_rssi) (Option.bind view vi_rssi),
       sn_kind = or_else (map_option (\<lambda>_. Dbm) m) (Option.bind view vi_rssi_kind),
       sn_last_seen_ms = or_else (or_else (map_option ob_last_seen_ms m) (Option.bind view vi_last_seen_ms))
         (map_option ob_last_seen_ms observed),
       sn_live = (live \<and> m \<noteq> None), sn_present = live\<rparr>)"

definition with_link :: "reading option \<Rightarrow> signal \<Rightarrow> signal" where
  "with_link link s =
     (case link of None \<Rightarrow> s
      | Some l \<Rightarrow>
          if rd_live l \<or> (\<not> sn_live s \<and> (sn_rssi s = None \<or> opt_le (sn_last_seen_ms s) (Some (rd_last_seen_ms l))))
          then s\<lparr>sn_rssi := Some (rd_rssi l), sn_kind := Some (rd_kind l),
                 sn_last_seen_ms := Some (rd_last_seen_ms l), sn_live := rd_live l\<rparr>
          else s)"

subsection \<open>Services and capabilities\<close>

definition FAST_PAIR_SERVICE_UUID :: string where
  "FAST_PAIR_SERVICE_UUID = ''0000fe2c-0000-1000-8000-00805f9b34fb''"

definition MESSAGE_STREAM_UUID :: string where
  "MESSAGE_STREAM_UUID = ''df21fe2c-2515-4fdb-8886-f12c4d67927c''"

definition has_fast_pair_service :: "string list \<Rightarrow> bool" where
  "has_fast_pair_service uuids \<longleftrightarrow>
     (\<exists>uuid \<in> set uuids. eq_ignore_case uuid FAST_PAIR_SERVICE_UUID \<or> eq_ignore_case uuid MESSAGE_STREAM_UUID)"

definition SERVICE_LABELS :: "(string \<times> string) list" where
  "SERVICE_LABELS =
     [(''1105'', ''Object Push''), (''1108'', ''Headset''), (''110a'', ''Audio Source''), (''110b'', ''Audio Sink''),
      (''110c'', ''A/V Remote Control Target''), (''110d'', ''Advanced Audio Distribution''),
      (''110e'', ''A/V Remote Control''), (''1115'', ''Personal Area Network''), (''1116'', ''Network Access Point''),
      (''1117'', ''Group Network''), (''111e'', ''Handsfree''), (''1124'', ''Human Interface Device''),
      (''1200'', ''Device Information''), (''180f'', ''Battery Service''), (''1844'', ''Volume Control''),
      (''1846'', ''Coordinated Set Identification''), (''184e'', ''Audio Stream Control''),
      (''184f'', ''Broadcast Audio Scan''), (''1850'', ''Published Audio Capabilities''), (''1853'', ''Common Audio''),
      (''fdf0'', ''Audio Streaming for Hearing Aids'')]"

definition strip_prefix :: "string \<Rightarrow> string \<Rightarrow> string option" where
  "strip_prefix p s = (if starts_with p s then Some (drop (length p) s) else None)"

definition strip_suffix :: "string \<Rightarrow> string \<Rightarrow> string option" where
  "strip_suffix p s = map_option rev (strip_prefix (rev p) (rev s))"

definition service_label :: "string \<Rightarrow> string" where
  "service_label uuid =
     (if eq_ignore_case uuid MESSAGE_STREAM_UUID then ''Fast Pair Message Stream''
      else if eq_ignore_case uuid FAST_PAIR_SERVICE_UUID then ''Fast Pair Service''
      else
        let assigned = Option.bind (strip_prefix ''0000'' (to_lower uuid)) (strip_suffix ''-0000-1000-8000-00805f9b34fb'') in
        case find (\<lambda>(i, _). Some i = assigned) SERVICE_LABELS of
          None \<Rightarrow> ''Bluetooth service'' | Some (_, label) \<Rightarrow> label)"

definition fast_pair_capabilities :: "bool \<Rightarrow> bool \<Rightarrow> bool \<Rightarrow> fp_features option \<Rightarrow> bool \<times> bool \<times> bool" where
  "fast_pair_capabilities paired connected has_fast_pair feats =
     (case (if paired \<and> connected \<and> has_fast_pair then feats else None) of
        None \<Rightarrow> (False, False, False)
      | Some f \<Rightarrow>
          (ff_provisioning_available f,
           ff_authenticated_controls f
             \<and> (case ff_multipoint f of None \<Rightarrow> False | Some m \<Rightarrow> mu_supported m \<and> mu_configurable m),
           ff_controls_available f
             \<and> (case ff_noise_control f of None \<Rightarrow> False
                | Some n \<Rightarrow> (fn_version n = 1 \<or> fn_version n = 2) \<and> fn_settable n \<noteq> [])))"

definition unsupported_reasons :: "bool \<Rightarrow> bool \<Rightarrow> bool option \<Rightarrow> bool \<Rightarrow> bool \<Rightarrow> bool \<Rightarrow> (string, string) hmap" where
  "unsupported_reasons paired connected wake_allowed provision multipoint noise =
     map snd (filter fst
       [(paired, ''pair'', ''Device is already paired''),
        (connected, ''connect'', ''Device is already connected''),
        (\<not> connected, ''disconnect'', ''Device is not connected''),
        (wake_allowed = None, ''wake'', ''BlueZ does not expose wake control for this device''),
        (\<not> paired, ''send_file'', ''Pair the device before sending files''),
        (\<not> provision, ''provision_fast_pair'',
         ''Fast Pair provisioning requires recent-pairing model metadata from a connected device''),
        (\<not> multipoint, ''set_multipoint'', ''Authenticated configurable Fast Pair multipoint is unavailable''),
        (\<not> noise, ''set_noise_control'', ''Noise control is unavailable or disabled'')])"

definition device_capabilities ::
    "bool \<Rightarrow> bool \<Rightarrow> bool \<Rightarrow> bool option \<Rightarrow> bool \<Rightarrow> fp_features option \<Rightarrow> noise_control option \<Rightarrow> capabilities" where
  "device_capabilities paired connected blocked wake_allowed has_fast_pair fast_pair vendor =
     (case fast_pair_capabilities paired connected has_fast_pair fast_pair of
        (provision, multipoint, fp_noise) \<Rightarrow>
          let noise = fp_noise \<or> (paired \<and> connected
                \<and> (case vendor of None \<Rightarrow> False | Some n \<Rightarrow> nz_settable n \<noteq> [])) in
          \<lparr>can_pair = (\<not> paired \<and> \<not> blocked), can_connect = (\<not> connected \<and> \<not> blocked), can_disconnect = connected,
           can_remove = paired, can_trust = paired, can_block = True, can_wake = (wake_allowed \<noteq> None),
           can_rename = True, can_send_file = (paired \<and> \<not> blocked),
           can_provision_fast_pair = (provision \<and> \<not> blocked), can_set_multipoint = (multipoint \<and> \<not> blocked),
           can_set_noise_control = (noise \<and> \<not> blocked),
           unsupported = unsupported_reasons paired connected wake_allowed provision multipoint noise\<rparr>)"

subsection \<open>Reading\<close>

record adapter_reads =
  ar_alias :: "DeviceOps.bluer_error + string"
  ar_address_type :: "DeviceOps.bluer_error + string"
  ar_powered :: "DeviceOps.bluer_error + bool"
  ar_discovering :: "DeviceOps.bluer_error + bool"
  ar_discoverable :: "DeviceOps.bluer_error + bool"
  ar_pairable :: "DeviceOps.bluer_error + bool"
  ar_discoverable_timeout :: "DeviceOps.bluer_error + u32"
  ar_pairable_timeout :: "DeviceOps.bluer_error + u32"
  ar_modalias :: "DeviceOps.bluer_error + (string \<times> u16 \<times> u16 \<times> u16) option"

definition hex_digit_upper :: "nat \<Rightarrow> char" where
  "hex_digit_upper n = ''0123456789ABCDEF'' ! n"

definition hex4 :: "u16 \<Rightarrow> string" where
  "hex4 v = map (\<lambda>k. hex_digit_upper (unat v div 16 ^ k mod 16)) [3, 2, 1, 0]"

definition modalias_string :: "string \<times> u16 \<times> u16 \<times> u16 \<Rightarrow> string" where
  "modalias_string m = (case m of (source, vendor, product, device) \<Rightarrow>
     source @ '':v'' @ hex4 vendor @ ''p'' @ hex4 product @ ''d'' @ hex4 device)"

definition adapter_snapshot :: "string \<Rightarrow> adapter_reads \<Rightarrow> string \<Rightarrow> string \<Rightarrow> failure + adapter_info" where
  "adapter_snapshot adapter r key addr =
     res_bind (bluez_result (ar_alias r) ''read adapter alias'') (\<lambda>alias.
     res_bind (bluez_result (ar_address_type r) ''read adapter address type'') (\<lambda>address_type.
     res_bind (bluez_result (ar_powered r) ''read adapter power'') (\<lambda>powered.
     res_bind (bluez_result (ar_discovering r) ''read adapter discovery state'') (\<lambda>discovering.
     res_bind (bluez_result (ar_discoverable r) ''read adapter discoverable state'') (\<lambda>discoverable.
     res_bind (bluez_result (ar_pairable r) ''read adapter pairable state'') (\<lambda>pairable.
     res_bind (bluez_result (ar_discoverable_timeout r) ''read adapter discoverable timeout'') (\<lambda>discoverable_timeout.
     res_bind (bluez_result (ar_pairable_timeout r) ''read adapter pairable timeout'') (\<lambda>pairable_timeout.
     res_bind (bluez_result (ar_modalias r) ''read adapter modalias'') (\<lambda>modalias.
     Inr \<lparr>da_key = key, da_name = adapter, da_alias = alias, da_address = addr, da_address_type = address_type,
          da_powered = powered, da_discovering = discovering, da_discoverable = discoverable, da_pairable = pairable,
          da_discoverable_timeout = discoverable_timeout, da_pairable_timeout = pairable_timeout,
          da_modalias = map_option modalias_string modalias\<rparr>)))))))))"

record device_reads =
  re_paired :: "DeviceOps.bluer_error + bool"
  re_connected :: "DeviceOps.bluer_error + bool"
  re_trusted :: "DeviceOps.bluer_error + bool"
  re_blocked :: "DeviceOps.bluer_error + bool"
  re_wake_allowed :: "DeviceOps.bluer_error + bool option"
  re_uuids :: "DeviceOps.bluer_error + string list option"
  re_alias :: "DeviceOps.bluer_error + string"
  re_remote_name :: "DeviceOps.bluer_error + string option"
  re_address_type :: "DeviceOps.bluer_error + string"
  re_icon :: "DeviceOps.bluer_error + string option"
  re_services_resolved :: "DeviceOps.bluer_error + bool"
  re_legacy_pairing :: "DeviceOps.bluer_error + bool"
  re_modalias :: "DeviceOps.bluer_error + (string \<times> u16 \<times> u16 \<times> u16) option"

record bluez_state =
  bz_paired :: bool
  bz_connected :: bool
  bz_trusted :: bool
  bz_blocked :: bool
  bz_wake_allowed :: "bool option"

definition read_state :: "device_reads \<Rightarrow> failure + bluez_state" where
  "read_state r =
     res_bind (bluez_result (re_paired r) ''read device paired state'') (\<lambda>paired.
     res_bind (bluez_result (re_connected r) ''read device connected state'') (\<lambda>connected.
     res_bind (bluez_result (re_trusted r) ''read device trusted state'') (\<lambda>trusted.
     res_bind (bluez_result (re_blocked r) ''read device blocked state'') (\<lambda>blocked.
     res_bind (bluez_result (re_wake_allowed r) ''read device wake permission'') (\<lambda>wake_allowed.
     Inr \<lparr>bz_paired = paired, bz_connected = connected, bz_trusted = trusted, bz_blocked = blocked,
          bz_wake_allowed = wake_allowed\<rparr>)))))"

record metadata =
  me_alias :: string
  me_remote_name :: "string option"
  me_address_type :: string
  me_icon :: "string option"
  me_services_resolved :: bool
  me_legacy_pairing :: bool
  me_modalias :: "string option"
  me_uuids :: "string list"

definition read_metadata :: "device_reads \<Rightarrow> failure + metadata" where
  "read_metadata r =
     res_bind (bluez_result (re_uuids r) ''read device UUIDs'') (\<lambda>uuids.
     res_bind (bluez_result (re_alias r) ''read device alias'') (\<lambda>alias.
     res_bind (bluez_result (re_remote_name r) ''read remote device name'') (\<lambda>remote_name.
     res_bind (bluez_result (re_address_type r) ''read device address type'') (\<lambda>address_type.
     res_bind (bluez_result (re_icon r) ''read device icon'') (\<lambda>icon.
     res_bind (bluez_result (re_services_resolved r) ''read device services state'') (\<lambda>services_resolved.
     res_bind (bluez_result (re_legacy_pairing r) ''read device legacy-pairing state'') (\<lambda>legacy_pairing.
     res_bind (bluez_result (re_modalias r) ''read device modalias'') (\<lambda>modalias.
     Inr \<lparr>me_alias = alias, me_remote_name = remote_name, me_address_type = address_type, me_icon = icon,
          me_services_resolved = services_resolved, me_legacy_pairing = legacy_pairing,
          me_modalias = map_option modalias_string modalias,
          me_uuids = sort (case uuids of None \<Rightarrow> [] | Some us \<Rightarrow> us)\<rparr>))))))))"

subsection \<open>Batteries and presentation\<close>

fun supplement_components :: "battery list \<Rightarrow> battery list \<Rightarrow> battery list" where
  "supplement_components readings [] = readings"
| "supplement_components readings (b # vendor) =
     supplement_components
       (if \<exists>r \<in> set readings. b_component r = b_component b then readings else readings @ [b]) vendor"

definition device_batteries ::
    "bool \<Rightarrow> battery list option \<Rightarrow> battery list option \<Rightarrow> DeviceOps.bluer_error + u8 option \<Rightarrow> failure + battery list" where
  "device_batteries connected fast_pair maestro percentage =
     (let component = (case fast_pair of Some bs \<Rightarrow> if connected then bs else [] | None \<Rightarrow> []);
          component' = (case maestro of Some bs \<Rightarrow> if connected then supplement_components component bs else component
             | None \<Rightarrow> component) in
      if component' \<noteq> [] then Inr component'
      else res_bind (bluez_result percentage ''read device battery'') (\<lambda>p.
        Inr (case p of None \<Rightarrow> [] | Some v \<Rightarrow> [bluez_aggregate v])))"

record resolved =
  rs_icon :: "string option"
  rs_device_type :: string
  rs_model_id :: "string option"
  rs_components :: "string list"
  rs_battery :: "battery list"
  rs_battery_live :: bool
  rs_battery_last_known :: bool

definition presentation ::
    "string \<Rightarrow> bool \<Rightarrow> bool \<Rightarrow> string option \<Rightarrow> string option \<Rightarrow> battery list \<Rightarrow> identities \<Rightarrow> identities \<times> resolved" where
  "presentation key paired connected icon model_id battery ids =
     (let (ids', r) = (if paired then remember_presentation key icon model_id battery ids
             else (forget_presentation key ids,
               \<lparr>rv_icon = icon, rv_device_type = presentation_type icon battery, rv_model_id = model_id,
                rv_components = presentation_components battery, rv_battery = []\<rparr>));
          restored = (\<not> connected \<and> battery = [] \<and> rv_battery r \<noteq> []);
          shown = (if restored then rv_battery r else battery)
      in (ids', \<lparr>rs_icon = rv_icon r, rs_device_type = rv_device_type r, rs_model_id = rv_model_id r,
           rs_components = rv_components r, rs_battery = shown, rs_battery_live = (connected \<and> shown \<noteq> []),
           rs_battery_last_known = (\<not> connected \<and> shown \<noteq> [])\<rparr>))"

subsection \<open>Assembly\<close>

record assembly_context =
  cx_key :: string
  cx_adapter_key :: string
  cx_address :: string
  cx_policy :: device_policy

record device_reading =
  dg_state :: bluez_state
  dg_metadata :: metadata
  dg_bonded :: "bool option"
  dg_features :: "fp_features option"
  dg_vendor_noise :: "noise_control option"
  dg_last_disconnect :: "device_disconnect option"

definition from_fast_pair :: "fp_noise_control \<Rightarrow> noise_control" where
  "from_fast_pair n = \<lparr>nz_source = ''google-fast-pair-message-stream'', nz_available = fn_available n,
     nz_settable = fn_settable n, nz_active = fn_active n\<rparr>"

definition labelled :: "string list \<Rightarrow> service list" where
  "labelled uuids = map (\<lambda>u. \<lparr>sv_uuid = u, sv_label = service_label u\<rparr>) uuids"

definition assembly_build :: "assembly_context \<Rightarrow> device_reading \<Rightarrow> resolved \<Rightarrow> signal \<Rightarrow> device" where
  "assembly_build c g p s =
     (let st = dg_state g; m = dg_metadata g in
      \<lparr>de_key = cx_key c, de_adapter_key = cx_adapter_key c,
       de_names = \<lparr>dn_name = me_alias m, dn_alias = me_alias m, dn_remote_name = me_remote_name m,
          dn_device_type = rs_device_type p, dn_address = cx_address c, dn_address_type = me_address_type m,
          dn_icon = rs_icon p, dn_modalias = me_modalias m\<rparr>,
       de_state = \<lparr>ds_paired = bz_paired st, ds_bonded = dg_bonded g, ds_connected = bz_connected st,
          ds_trusted = bz_trusted st, ds_blocked = bz_blocked st, ds_wake_allowed = bz_wake_allowed st,
          ds_legacy_pairing = me_legacy_pairing m, ds_last_disconnect = dg_last_disconnect g\<rparr>,
       de_services = \<lparr>sv_resolved = me_services_resolved m, sv_uuids = me_uuids m, sv_services = labelled (me_uuids m)\<rparr>,
       de_view = \<lparr>vi_icon_id = icon_id (rs_device_type p) (rs_icon p) (rs_battery p) (labelled (me_uuids m)),
          vi_battery = rs_battery p, vi_battery_live = rs_battery_live p, vi_battery_last_known = rs_battery_last_known p,
          vi_components = rs_components p, vi_model_id = rs_model_id p, vi_fast_pair = dg_features g,
          vi_noise_control = or_else (dg_vendor_noise g)
            (map_option from_fast_pair (Option.bind (dg_features g) ff_noise_control)),
          vi_rssi = sn_rssi s, vi_rssi_kind = sn_kind s,
          vi_signal_strength = (if sn_kind s = Some BrEdrRelative then None else map_option signal_strength (sn_rssi s)),
          vi_signal_level = map_option (\<lambda>r. signal_level r (sn_kind s)) (sn_rssi s),
          vi_signal_live = sn_live s, vi_present = (bz_connected st \<or> sn_present s), vi_last_seen_ms = sn_last_seen_ms s\<rparr>,
       de_policy = cx_policy c,
       de_capabilities = device_capabilities (bz_paired st) (bz_connected st) (bz_blocked st) (bz_wake_allowed st)
          (has_fast_pair_service (me_uuids m)) (dg_features g) (dg_vendor_noise g)\<rparr>)"

lemma sort_key_nonempty: "sort_key f xs = [] \<longleftrightarrow> xs = []"
  by (metis length_sort length_0_conv)

lemma assembly_build_adapter_key: "de_adapter_key (assembly_build c g p s) = cx_adapter_key c"
  by (simp add: assembly_build_def Let_def)

lemma assembly_build_key: "de_key (assembly_build c g p s) = cx_key c"
  by (simp add: assembly_build_def Let_def)

definition cache_entry :: "device \<Rightarrow> u64 \<Rightarrow> cached_device option" where
  "cache_entry d now_ms =
     (if vi_present (de_view d)
      then Some \<lparr>cd_device = d,
        cd_observed_at_ms = (if ds_connected (de_state d) then now_ms
          else case vi_last_seen_ms (de_view d) of None \<Rightarrow> now_ms | Some t \<Rightarrow> t)\<rparr>
      else None)"

subsection \<open>The device cache\<close>

definition CACHE_TTL_MS :: u64 where "CACHE_TTL_MS = 300000"

definition saturating_sub :: "u64 \<Rightarrow> u64 \<Rightarrow> u64" where
  "saturating_sub a b = (if a < b then 0 else a - b)"

definition cache_entry_is_fresh :: "u64 \<Rightarrow> u64 \<Rightarrow> bool" where
  "cache_entry_is_fresh observed_at_ms now_ms \<longleftrightarrow> saturating_sub now_ms observed_at_ms \<le> CACHE_TTL_MS"

definition should_include_device :: "bool \<Rightarrow> bool \<Rightarrow> bool \<Rightarrow> bool" where
  "should_include_device paired present cached \<longleftrightarrow> paired \<or> present \<or> cached"

definition cached_device_view :: "cached_device \<Rightarrow> device" where
  "cached_device_view c =
     (let d = cd_device c; v = de_view d; st = de_state d;
          v1 = v\<lparr>vi_present := False, vi_signal_live := False\<rparr>;
          v2 = (if vi_battery v \<noteq> [] then v1\<lparr>vi_battery_live := False, vi_battery_last_known := True\<rparr> else v1)
      in d\<lparr>de_state := st\<lparr>ds_connected := False, ds_last_disconnect := None\<rparr>,
           de_view := v2\<lparr>vi_noise_control := None\<rparr>,
           de_capabilities := device_capabilities (ds_paired st) False (ds_blocked st) (ds_wake_allowed st)
             (has_fast_pair_service (sv_uuids (de_services d))) (vi_fast_pair v) None\<rparr>)"

definition extend_cached_devices :: "device list \<Rightarrow> cached_device list \<Rightarrow> string \<Rightarrow> u64 \<Rightarrow> device list" where
  "extend_cached_devices devices cached adapter_key now_ms =
     devices @ map cached_device_view (filter (\<lambda>c. de_adapter_key (cd_device c) = adapter_key
         \<and> de_key (cd_device c) \<notin> de_key ` set devices
         \<and> cache_entry_is_fresh (cd_observed_at_ms c) now_ms) cached)"

subsection \<open>One device\<close>

record evidence =
  ev_open :: "DeviceOps.bluer_error + unit"
  ev_reads :: device_reads
  ev_discovering :: "DeviceOps.bluer_error + bool"
  ev_battery :: "DeviceOps.bluer_error + u8 option"
  ev_fast_pair :: "battery list option"  \<comment> \<open>the provider's readings, if the provider runs\<close>
  ev_features :: "bool \<Rightarrow> fp_features option"
  ev_maestro :: "battery list option"
  ev_sony :: "noise_control option"
  ev_bonded :: "bool option"
  ev_fresh_key :: string

record surroundings =
  su_now :: instant
  su_now_ms :: u64
  su_fmt :: "address \<Rightarrow> string"
  su_sha :: "string \<Rightarrow> bytes"
  su_observations :: observations
  su_signals :: signals
  su_history :: history
  su_policy :: "string \<Rightarrow> device_policy"

record snap_state =
  ss_identities :: identities
  ss_cache :: "(string, cached_device) hmap"

definition hex_digit_lower :: "nat \<Rightarrow> char" where
  "hex_digit_lower n = ''0123456789abcdef'' ! n"

definition hex_encode :: "bytes \<Rightarrow> string" where
  "hex_encode bs = concat (map (\<lambda>b. [hex_digit_lower (unat b div 16), hex_digit_lower (unat b mod 16)]) bs)"

definition opaque_key :: "(string \<Rightarrow> bytes) \<Rightarrow> string \<Rightarrow> string \<Rightarrow> string" where
  "opaque_key sha kind ident = kind @ ''-'' @ hex_encode (take 12 (sha ident))"

definition key_of :: "surroundings \<Rightarrow> string \<Rightarrow> bool \<Rightarrow> string \<Rightarrow> address \<Rightarrow> identities \<Rightarrow> identities \<times> string" where
  "key_of su fresh paired adapter a ids =
     (if paired then promote_device (su_fmt su) (su_now su) fresh adapter a ids
      else device_key (su_fmt su) (su_now su) fresh adapter a ids)"

definition fresh_cached :: "surroundings \<Rightarrow> (string, cached_device) hmap \<Rightarrow> string \<Rightarrow> cached_device option" where
  "fresh_cached su cache key =
     (case hm_get cache key of None \<Rightarrow> None
      | Some c \<Rightarrow> if cache_entry_is_fresh (cd_observed_at_ms c) (su_now_ms su) then Some c else None)"

definition describe_device ::
    "surroundings \<Rightarrow> evidence \<Rightarrow> string \<Rightarrow> string \<Rightarrow> address \<Rightarrow> string \<Rightarrow> bluez_state \<Rightarrow> signal \<Rightarrow> snap_state
      \<Rightarrow> snap_state \<times> (failure + device option)" where
  "describe_device su ev adapter adapter_key a key st s state =
     (case read_metadata (ev_reads ev) of
        Inl e \<Rightarrow> (state, Inl e)
      | Inr m \<Rightarrow>
          (case device_batteries (bz_connected st) (ev_fast_pair ev) (ev_maestro ev) (ev_battery ev) of
             Inl e \<Rightarrow> (state, Inl e)
           | Inr battery \<Rightarrow>
               let feats = (if ev_fast_pair ev = None then None else ev_features ev (bz_connected st));
                   noise = (if bz_connected st then ev_sony ev else None);
                   (ids, shown) = presentation key (bz_paired st) (bz_connected st) (me_icon m)
                     (map_option hex_encode (Option.bind feats ff_model_id)) battery (ss_identities state);
                   d = assembly_build
                     \<lparr>cx_key = key, cx_adapter_key = adapter_key, cx_address = su_fmt su a, cx_policy = su_policy su key\<rparr>
                     \<lparr>dg_state = st, dg_metadata = m, dg_bonded = ev_bonded ev, dg_features = feats, dg_vendor_noise = noise,
                      dg_last_disconnect = hm_get (su_history su) (adapter, a)\<rparr> shown s;
                   cache = (case cache_entry d (su_now_ms su) of None \<Rightarrow> ss_cache state
                     | Some c \<Rightarrow> hm_insert key c (ss_cache state))
               in (\<lparr>ss_identities = ids, ss_cache = cache\<rparr>, Inr (Some d))))"

definition device_snapshot ::
    "surroundings \<Rightarrow> evidence \<Rightarrow> string \<Rightarrow> string \<Rightarrow> address \<Rightarrow> snap_state \<Rightarrow> snap_state \<times> (failure + device option)" where
  "device_snapshot su ev adapter adapter_key a state =
     (case read_state (ev_reads ev) of
        Inl e \<Rightarrow> (state, Inl e)
      | Inr st \<Rightarrow>
          let seen = observation_get (su_now su) adapter a (su_observations su) in
          (case bluez_result (ev_discovering ev) ''read discovery freshness'' of
             Inl e \<Rightarrow> (state, Inl e)
           | Inr discovering \<Rightarrow>
               let live = (case seen of None \<Rightarrow> False | Some ob \<Rightarrow> observation_live (su_now su) discovering ob);
                   (ids, key) = key_of su (ev_fresh_key ev) (bz_paired st) adapter a (ss_identities state);
                   cached = fresh_cached su (ss_cache state) key;
                   s = with_link (signals_get (su_now su) adapter a (bz_connected st) (su_signals su)) (resolve seen cached live);
                   state1 = state\<lparr>ss_identities := ids\<rparr>
               in if \<not> should_include_device (bz_paired st) (bz_connected st \<or> live) (cached \<noteq> None)
                  then (state1, Inr None)
                  else describe_device su ev adapter adapter_key a key st s state1))"

subsection \<open>All adapters\<close>

record adapter_evidence =
  ax_name :: string
  ax_address :: "DeviceOps.bluer_error + string"
  ax_reads :: adapter_reads
  ax_devices :: "DeviceOps.bluer_error + (address \<times> evidence) list"

fun live_devices ::
    "surroundings \<Rightarrow> string \<Rightarrow> string \<Rightarrow> (address \<times> evidence) list \<Rightarrow> snap_state \<Rightarrow> snap_state \<times> (failure + device list)" where
  "live_devices su adapter adapter_key [] state = (state, Inr [])"
| "live_devices su adapter adapter_key ((a, ev) # rest) state =
     (case bluez_result (ev_open ev) ''open BlueZ device'' of
        Inl e \<Rightarrow> (state, Inl e)
      | Inr _ \<Rightarrow>
          (case device_snapshot su ev adapter adapter_key a state of
             (state1, Inl e) \<Rightarrow> (state1, Inl e)
           | (state1, Inr found) \<Rightarrow>
               (case live_devices su adapter adapter_key rest state1 of
                  (state2, Inl e) \<Rightarrow> (state2, Inl e)
                | (state2, Inr ds) \<Rightarrow> (state2, Inr ((case found of None \<Rightarrow> [] | Some d \<Rightarrow> [d]) @ ds)))))"

definition adapter_devices ::
    "surroundings \<Rightarrow> adapter_evidence \<Rightarrow> string \<Rightarrow> snap_state \<Rightarrow> snap_state \<times> (failure + device list)" where
  "adapter_devices su ax adapter_key state =
     (case bluez_result (ax_devices ax) ''list adapter devices'' of
        Inl e \<Rightarrow> (state, Inl e)
      | Inr found \<Rightarrow>
          (case live_devices su (ax_name ax) adapter_key found state of
             (state1, Inl e) \<Rightarrow> (state1, Inl e)
           | (state1, Inr ds) \<Rightarrow>
               (state1, Inr (extend_cached_devices ds (map snd (ss_cache state1)) adapter_key (su_now_ms su)))))"

fun adapter_entries ::
    "surroundings \<Rightarrow> adapter_evidence list \<Rightarrow> snap_state \<Rightarrow> snap_state \<times> (failure + (adapter_info \<times> device list) list)" where
  "adapter_entries su [] state = (state, Inr [])"
| "adapter_entries su (ax # axs) state =
     (case bluez_result (ax_address ax) ''read stable adapter identity'' of
        Inl e \<Rightarrow> (state, Inl e)
      | Inr addr \<Rightarrow>
          let state1 = state\<lparr>ss_identities := register_adapter (ax_name ax) addr (ss_identities state)\<rparr>;
              key = opaque_key (su_sha su) ''adapter'' addr in
          (case adapter_snapshot (ax_name ax) (ax_reads ax) key addr of
             Inl e \<Rightarrow> (state1, Inl e)
           | Inr info \<Rightarrow>
               (case adapter_devices su ax key state1 of
                  (state2, Inl e) \<Rightarrow> (state2, Inl e)
                | (state2, Inr ds) \<Rightarrow>
                    (case adapter_entries su axs state2 of
                       (state3, Inl e) \<Rightarrow> (state3, Inl e)
                     | (state3, Inr es) \<Rightarrow> (state3, Inr ((info, ds) # es))))))"

definition device_order :: "(string \<Rightarrow> string) \<Rightarrow> device \<Rightarrow> bool \<times> bool \<times> string" where
  "device_order lc d = (\<not> ds_connected (de_state d), \<not> ds_paired (de_state d), lc (dn_name (de_names d)))"

definition build_snapshot ::
    "surroundings \<Rightarrow> (string \<Rightarrow> string) \<Rightarrow> bool + rfkill_entry list \<Rightarrow> policy \<Rightarrow> failure + adapter_evidence list
      \<Rightarrow> snap_state \<Rightarrow> snap_state \<times> (failure + snapshot)" where
  "build_snapshot su lc rfkill pol adapters state =
     (let state1 = state\<lparr>ss_cache := hm_retain (\<lambda>_ c. cache_entry_is_fresh (cd_observed_at_ms c) (su_now_ms su)) (ss_cache state)\<rparr> in
      case adapters of
        Inl e \<Rightarrow> (state1, Inl e)
      | Inr axs \<Rightarrow>
          (case adapter_entries su axs state1 of
             (state2, Inl e) \<Rightarrow> (state2, Inl e)
           | (state2, Inr es) \<Rightarrow>
               let infos = sort_key da_key (map fst es);
                   ds = sort_key (device_order lc) (concat (map snd es)) in
               (state2, Inr \<lparr>sh_radio = radio_state rfkill (length infos) (\<exists>i \<in> set infos. da_powered i),
                  sh_management = pol, sh_adapters = infos, sh_devices = ds\<rparr>)))"

subsection \<open>The reading shown\<close>

type_synonym shown_reading = "int \<times> rssi_kind option \<times> u64 option"

definition candidates :: "reading option \<Rightarrow> observation option \<Rightarrow> cached_device option \<Rightarrow> shown_reading list" where
  "candidates link observed cached =
     (case observed of None \<Rightarrow> []
      | Some ob \<Rightarrow> (case ob_rssi ob of None \<Rightarrow> [] | Some r \<Rightarrow> [(r, Some Dbm, Some (ob_last_seen_ms ob))]))
     @ (case cached of None \<Rightarrow> []
        | Some c \<Rightarrow> let v = de_view (cd_device c) in
            (case vi_rssi v of None \<Rightarrow> [] | Some r \<Rightarrow> [(r, vi_rssi_kind v, vi_last_seen_ms v)]))
     @ (case link of None \<Rightarrow> [] | Some l \<Rightarrow> [(rd_rssi l, Some (rd_kind l), Some (rd_last_seen_ms l))])"

definition cached_signal_ok :: "device_presentation \<Rightarrow> bool" where
  "cached_signal_ok v \<longleftrightarrow> (vi_rssi v = None \<longleftrightarrow> vi_rssi_kind v = None) \<and> (vi_rssi v \<noteq> None \<longrightarrow> vi_last_seen_ms v \<noteq> None)"

lemma opt_le_simps [simp]:
  "opt_le None b" "opt_le (Some x) (Some y) \<longleftrightarrow> x \<le> y" "\<not> opt_le (Some x) None"
  by (simp_all add: opt_le_def)

lemma or_else_simps [simp]: "or_else None b = b" "or_else (Some x) b = Some x"
  by (simp_all add: or_else_def)

lemma opt_le_refl [simp]: "opt_le a a" by (cases a) simp_all

lemma or_else_None [simp]: "or_else a None = a" by (cases a) simp_all

lemma opt_le_trans: "opt_le a b \<Longrightarrow> opt_le b c \<Longrightarrow> opt_le a c"
  by (cases a; cases b; cases c) simp_all

lemma opt_le_total: "\<not> opt_le a b \<Longrightarrow> opt_le b a"
  by (cases a; cases b) auto

lemma opt_le_cases: "\<not> opt_le a b \<Longrightarrow> \<exists>x. a = Some x \<and> (b = None \<or> (\<exists>y. b = Some y \<and> y < x))"
  by (cases a; cases b) (auto simp: opt_le_def)

text \<open>
  C29. The signal shown is the best evidence there is. A live reading of the link wins; without one, a live
  observation that carries a strength; and otherwise the reading shown is one of those that exist - of the link,
  of discovery, of the cache - none of which is newer. Nothing is shown only if there is no reading at all.
\<close>
theorem best_reading_is_shown:
  assumes "\<And>c. cached = Some c \<Longrightarrow> cached_signal_ok (de_view (cd_device c))"
    and "s = with_link link (resolve observed cached live)"
  shows "(\<forall>l. link = Some l \<and> rd_live l \<longrightarrow>
            sn_live s \<and> (sn_rssi s, sn_kind s, sn_last_seen_ms s) = (Some (rd_rssi l), Some (rd_kind l), Some (rd_last_seen_ms l)))
    \<and> (\<forall>ob r. live \<and> observed = Some ob \<and> ob_rssi ob = Some r \<and> \<not> (\<exists>l. link = Some l \<and> rd_live l) \<longrightarrow>
            sn_live s \<and> (sn_rssi s, sn_kind s, sn_last_seen_ms s) = (Some r, Some Dbm, Some (ob_last_seen_ms ob)))
    \<and> (\<not> sn_live s \<longrightarrow>
            (if candidates link observed cached = [] then sn_rssi s = None
             else \<exists>r. sn_rssi s = Some r \<and> (r, sn_kind s, sn_last_seen_ms s) \<in> set (candidates link observed cached)
               \<and> (\<forall>(_, _, t) \<in> set (candidates link observed cached). opt_le t (sn_last_seen_ms s))))"
proof (intro conjI)
  note defs = assms(2) with_link_def resolve_def measured_def Let_def
  show "\<forall>l. link = Some l \<and> rd_live l \<longrightarrow>
            sn_live s \<and> (sn_rssi s, sn_kind s, sn_last_seen_ms s) = (Some (rd_rssi l), Some (rd_kind l), Some (rd_last_seen_ms l))"
    by (auto simp: defs)
  show "\<forall>ob r. live \<and> observed = Some ob \<and> ob_rssi ob = Some r \<and> \<not> (\<exists>l. link = Some l \<and> rd_live l) \<longrightarrow>
            sn_live s \<and> (sn_rssi s, sn_kind s, sn_last_seen_ms s) = (Some r, Some Dbm, Some (ob_last_seen_ms ob))"
    by (auto simp: defs split: option.split)
  show "\<not> sn_live s \<longrightarrow>
            (if candidates link observed cached = [] then sn_rssi s = None
             else \<exists>r. sn_rssi s = Some r \<and> (r, sn_kind s, sn_last_seen_ms s) \<in> set (candidates link observed cached)
               \<and> (\<forall>(_, _, t) \<in> set (candidates link observed cached). opt_le t (sn_last_seen_ms s)))"
  proof
    assume quiet: "\<not> sn_live s"
    let ?s0 = "resolve observed cached live"
    have ok: "cached = Some c \<Longrightarrow> vi_rssi (de_view (cd_device c)) = Some r \<Longrightarrow> or_else (vi_last_seen_ms (de_view (cd_device c))) b = vi_last_seen_ms (de_view (cd_device c))" for c r b
      using assms(1) [of c] by (auto simp: cached_signal_ok_def)
    have quiet0: "\<not> sn_live ?s0"
      using quiet by (auto simp: assms(2) with_link_def split: option.splits if_splits)
    have base: "if candidates None observed cached = [] then sn_rssi ?s0 = None
        else \<exists>r. sn_rssi ?s0 = Some r \<and> (r, sn_kind ?s0, sn_last_seen_ms ?s0) \<in> set (candidates None observed cached)
          \<and> (\<forall>(_, _, t) \<in> set (candidates None observed cached). opt_le t (sn_last_seen_ms ?s0))"
      using quiet0 ok
      by (cases observed; cases cached)
        (auto simp: candidates_def resolve_def measured_def Let_def split: option.splits if_splits dest!: opt_le_cases)
    show "if candidates link observed cached = [] then sn_rssi s = None
        else \<exists>r. sn_rssi s = Some r \<and> (r, sn_kind s, sn_last_seen_ms s) \<in> set (candidates link observed cached)
          \<and> (\<forall>(_, _, t) \<in> set (candidates link observed cached). opt_le t (sn_last_seen_ms s))"
    proof (cases link)
      case None
      then show ?thesis using base by (simp add: assms(2) with_link_def)
    next
      case (Some l)
      have cands: "candidates link observed cached = candidates None observed cached
          @ [(rd_rssi l, Some (rd_kind l), Some (rd_last_seen_ms l))]"
        using Some by (simp add: candidates_def)
      have dead: "\<not> rd_live l" using quiet Some by (auto simp: assms(2) with_link_def)
      show ?thesis
      proof (cases "sn_rssi ?s0 = None \<or> opt_le (sn_last_seen_ms ?s0) (Some (rd_last_seen_ms l))")
        case True
        then have s: "sn_rssi s = Some (rd_rssi l)" "sn_kind s = Some (rd_kind l)" "sn_last_seen_ms s = Some (rd_last_seen_ms l)"
          using quiet0 Some by (auto simp: assms(2) with_link_def)
        have "opt_le t (sn_last_seen_ms s)" if "(r, k, t) \<in> set (candidates None observed cached)" for r k t
          using that base True s(3) by (auto split: if_splits intro: opt_le_trans)
        then show ?thesis using s unfolding cands by auto
      next
        case False
        then have "s = ?s0" using dead Some by (auto simp: assms(2) with_link_def)
        moreover have "opt_le (Some (rd_last_seen_ms l)) (sn_last_seen_ms ?s0)" using False opt_le_total by blast
        ultimately show ?thesis using base False unfolding cands by (auto split: if_splits)
      qed
    qed
  qed
qed

lemma best_reading_is_shown_witness:
  "sn_rssi (with_link (Some \<lparr>rd_rssi = - 60, rd_kind = Dbm, rd_last_seen_ms = 5, rd_live = False\<rparr>)
     (resolve (Some \<lparr>ob_rssi = Some (- 70), ob_last_seen_ms = 7, ob_observed = 0\<rparr>) None False)) = Some (- 70)"
  (is "sn_rssi ?s = _")
proof -
  have "\<not> sn_live ?s" by (simp add: with_link_def resolve_def measured_def)
  moreover note best_reading_is_shown [of None ?s "Some \<lparr>rd_rssi = - 60, rd_kind = Dbm, rd_last_seen_ms = 5, rd_live = False\<rparr>"
      "Some \<lparr>ob_rssi = Some (- 70), ob_last_seen_ms = 7, ob_observed = 0\<rparr>" False, OF _ refl]
  ultimately obtain r where "sn_rssi ?s = Some r"
      "(r, sn_kind ?s, sn_last_seen_ms ?s) \<in> {(- 70, Some Dbm, Some 7), (- 60, Some Dbm, Some (5 :: u64))}"
      "opt_le (Some 7) (sn_last_seen_ms ?s)"
    by (auto simp: candidates_def)
  then show ?thesis by (auto simp: opt_le_def)
qed

subsection \<open>Coherence\<close>

definition view_ok :: "bool \<Rightarrow> device_presentation \<Rightarrow> bool" where
  "view_ok connected v \<longleftrightarrow>
     cached_signal_ok v \<and> (vi_signal_live v \<longrightarrow> vi_rssi v \<noteq> None \<and> vi_present v) \<and> (connected \<longrightarrow> vi_present v)
     \<and> (vi_signal_level v = None \<longleftrightarrow> vi_rssi v = None) \<and> (\<forall>l \<in> set_option (vi_signal_level v). 1 \<le> l \<and> l \<le> 3)
     \<and> (\<forall>p \<in> set_option (vi_signal_strength v). p \<le> 100 \<and> vi_rssi_kind v \<noteq> Some BrEdrRelative)
     \<and> (vi_battery_live v \<longleftrightarrow> connected \<and> vi_battery v \<noteq> [])
     \<and> (vi_battery_last_known v \<longleftrightarrow> \<not> connected \<and> vi_battery v \<noteq> [])"

definition capabilities_ok :: "device_state \<Rightarrow> capabilities \<Rightarrow> bool" where
  "capabilities_ok st c \<longleftrightarrow>
     can_pair c = (\<not> ds_paired st \<and> \<not> ds_blocked st) \<and> can_connect c = (\<not> ds_connected st \<and> \<not> ds_blocked st)
     \<and> can_disconnect c = ds_connected st \<and> can_remove c = ds_paired st \<and> can_send_file c = (ds_paired st \<and> \<not> ds_blocked st)
     \<and> (can_provision_fast_pair c \<or> can_set_multipoint c \<or> can_set_noise_control c
          \<longrightarrow> ds_paired st \<and> ds_connected st \<and> \<not> ds_blocked st)"

definition coherent :: "device \<Rightarrow> bool" where
  "coherent d \<longleftrightarrow> view_ok (ds_connected (de_state d)) (de_view d) \<and> capabilities_ok (de_state d) (de_capabilities d)"

definition cache_ok :: "(string, cached_device) hmap \<Rightarrow> bool" where
  "cache_ok m \<longleftrightarrow> hm_ok m \<and> (\<forall>(k, c) \<in> set m. coherent (cd_device c) \<and> de_key (cd_device c) = k)"

lemma signal_strength_bounded: "signal_strength rssi \<le> 100"
proof -
  let ?n = "max 0 (min 100 (((rssi + 100) * 100) sdiv 60))"
  have "0 \<le> ?n" "?n \<le> 100" by simp_all
  then have "uint (signal_strength rssi) \<le> 100"
    by (simp add: signal_strength_def uint_word_of_int_eq take_bit_int_eq_self)
  then show ?thesis by (simp add: word_le_def)
qed

lemma signal_level_bounds: "1 \<le> signal_level rssi kind \<and> signal_level rssi kind \<le> 3"
  by (simp add: signal_level_def)

lemma resolve_ok:
  assumes "\<And>c. cached = Some c \<Longrightarrow> cached_signal_ok (de_view (cd_device c))"
  shows "(sn_rssi (resolve observed cached live) = None \<longleftrightarrow> sn_kind (resolve observed cached live) = None)
    \<and> (sn_rssi (resolve observed cached live) \<noteq> None \<longrightarrow> sn_last_seen_ms (resolve observed cached live) \<noteq> None)
    \<and> (sn_live (resolve observed cached live) \<longrightarrow> sn_rssi (resolve observed cached live) \<noteq> None \<and> live)"
  using assms
  by (cases observed; cases cached)
    (auto simp: resolve_def measured_def cached_signal_ok_def Let_def or_else_def split: option.splits if_splits)

lemma with_link_ok:
  assumes "sn_rssi s = None \<longleftrightarrow> sn_kind s = None" and "sn_rssi s \<noteq> None \<longrightarrow> sn_last_seen_ms s \<noteq> None"
    and "sn_live s \<longrightarrow> sn_rssi s \<noteq> None \<and> sn_present s" and "\<And>l. link = Some l \<Longrightarrow> rd_live l \<Longrightarrow> connected"
  shows "(sn_rssi (with_link link s) = None \<longleftrightarrow> sn_kind (with_link link s) = None)
    \<and> (sn_rssi (with_link link s) \<noteq> None \<longrightarrow> sn_last_seen_ms (with_link link s) \<noteq> None)
    \<and> (sn_live (with_link link s) \<longrightarrow> sn_rssi (with_link link s) \<noteq> None \<and> (connected \<or> sn_present (with_link link s)))"
  using assms by (cases link) (auto simp: with_link_def)

lemma capabilities_of_build:
  "capabilities_ok st (device_capabilities (ds_paired st) (ds_connected st) (ds_blocked st) w h f v)"
  by (auto simp: capabilities_ok_def device_capabilities_def fast_pair_capabilities_def Let_def split: option.splits if_splits)

lemma presentation_flags:
  assumes "presentation key paired connected icon model_id battery ids = (ids', r)"
  shows "rs_battery_live r = (connected \<and> rs_battery r \<noteq> [])" "rs_battery_last_known r = (\<not> connected \<and> rs_battery r \<noteq> [])"
  using assms by (auto simp: presentation_def Let_def split: prod.splits if_splits)

lemma assembled_device_coherent:
  assumes "sn_rssi s = None \<longleftrightarrow> sn_kind s = None" and "sn_rssi s \<noteq> None \<longrightarrow> sn_last_seen_ms s \<noteq> None"
    and "sn_live s \<longrightarrow> sn_rssi s \<noteq> None \<and> (bz_connected (dg_state g) \<or> sn_present s)"
    and "rs_battery_live p = (bz_connected (dg_state g) \<and> rs_battery p \<noteq> [])"
    and "rs_battery_last_known p = (\<not> bz_connected (dg_state g) \<and> rs_battery p \<noteq> [])"
  shows "coherent (assembly_build c g p s)"
proof -
  have "capabilities_ok (de_state (assembly_build c g p s)) (de_capabilities (assembly_build c g p s))"
    using capabilities_of_build [of "de_state (assembly_build c g p s)"] by (simp add: assembly_build_def Let_def)
  moreover have "view_ok (ds_connected (de_state (assembly_build c g p s))) (de_view (assembly_build c g p s))"
    using assms signal_level_bounds signal_strength_bounded
    by (auto simp: view_ok_def assembly_build_def Let_def cached_signal_ok_def)
  ultimately show ?thesis by (simp add: coherent_def)
qed

lemma cached_view_coherent: "coherent (cd_device c) \<Longrightarrow> coherent (cached_device_view c)"
proof -
  assume c: "coherent (cd_device c)"
  let ?st = "(de_state (cd_device c))\<lparr>ds_connected := False, ds_last_disconnect := None\<rparr>"
  have "capabilities_ok (de_state (cached_device_view c)) (de_capabilities (cached_device_view c))"
    using capabilities_of_build [of ?st] by (simp add: cached_device_view_def Let_def)
  moreover have "view_ok False (de_view (cached_device_view c))"
    using c by (auto simp: coherent_def view_ok_def cached_device_view_def Let_def cached_signal_ok_def)
  ultimately show ?thesis by (simp add: coherent_def cached_device_view_def Let_def)
qed

lemma cache_ok_alt:
  "cache_ok m \<longleftrightarrow> hm_ok m \<and> (\<forall>k c. hm_get m k = Some c \<longrightarrow> coherent (cd_device c) \<and> de_key (cd_device c) = k)"
proof (cases "hm_ok m")
  case True
  have "(\<forall>(k, c) \<in> set m. coherent (cd_device c) \<and> de_key (cd_device c) = k)
      = (\<forall>k c. (k, c) \<in> set m \<longrightarrow> coherent (cd_device c) \<and> de_key (cd_device c) = k)" by blast
  then show ?thesis using True by (simp only: cache_ok_def hm_in_set [OF True])
next
  case False
  then show ?thesis by (simp add: cache_ok_def)
qed

lemma cache_ok_get: "cache_ok m \<Longrightarrow> hm_get m k = Some c \<Longrightarrow> coherent (cd_device c) \<and> de_key (cd_device c) = k"
  by (simp add: cache_ok_alt)

lemma cache_ok_insert: "cache_ok m \<Longrightarrow> coherent (cd_device c) \<Longrightarrow> de_key (cd_device c) = k \<Longrightarrow> cache_ok (hm_insert k c m)"
  by (auto simp: cache_ok_alt)

lemma cache_ok_retain: "cache_ok m \<Longrightarrow> cache_ok (hm_retain p m)"
  by (auto simp: cache_ok_def hm_defs distinct_map_filter)

lemma cached_signal_of_coherent: "coherent d \<Longrightarrow> cached_signal_ok (de_view d)"
  by (simp add: coherent_def view_ok_def)

lemma cache_entry_device: "cache_entry d now_ms = Some c \<Longrightarrow> cd_device c = d"
  by (auto simp: cache_entry_def split: if_splits)

lemma described_device_coherent:
  assumes "describe_device su ev adapter adapter_key a key st s state = (state', r)" and "cache_ok (ss_cache state)"
    and "sn_rssi s = None \<longleftrightarrow> sn_kind s = None" and "sn_rssi s \<noteq> None \<longrightarrow> sn_last_seen_ms s \<noteq> None"
    and "sn_live s \<longrightarrow> sn_rssi s \<noteq> None \<and> (bz_connected st \<or> sn_present s)"
  shows "cache_ok (ss_cache state') \<and> (\<forall>d. r = Inr (Some d) \<longrightarrow> coherent d \<and> de_key d = key \<and> de_adapter_key d = adapter_key)"
proof (cases "read_metadata (ev_reads ev)")
  case (Inl e)
  then show ?thesis using assms(1,2) by (auto simp: describe_device_def)
next
  case m: (Inr m)
  show ?thesis
  proof (cases "device_batteries (bz_connected st) (ev_fast_pair ev) (ev_maestro ev) (ev_battery ev)")
    case (Inl e)
    then show ?thesis using assms(1,2) m by (auto simp: describe_device_def)
  next
    case b: (Inr battery)
    let ?feats = "if ev_fast_pair ev = None then None else ev_features ev (bz_connected st)"
    obtain ids shown where pr: "presentation key (bz_paired st) (bz_connected st) (me_icon m)
        (map_option hex_encode (Option.bind ?feats ff_model_id)) battery (ss_identities state) = (ids, shown)"
      by fastforce
    define d where "d = assembly_build
        \<lparr>cx_key = key, cx_adapter_key = adapter_key, cx_address = su_fmt su a, cx_policy = su_policy su key\<rparr>
        \<lparr>dg_state = st, dg_metadata = m, dg_bonded = ev_bonded ev, dg_features = ?feats,
         dg_vendor_noise = (if bz_connected st then ev_sony ev else None),
         dg_last_disconnect = hm_get (su_history su) (adapter, a)\<rparr> shown s"
    have "describe_device su ev adapter adapter_key a key st s state =
        (\<lparr>ss_identities = ids, ss_cache = (case cache_entry d (su_now_ms su) of None \<Rightarrow> ss_cache state
          | Some c \<Rightarrow> hm_insert key c (ss_cache state))\<rparr>, Inr (Some d))"
      unfolding describe_device_def m b Let_def sum.case pr prod.case d_def by (rule refl)
    then have run: "ss_cache state' = (case cache_entry d (su_now_ms su) of None \<Rightarrow> ss_cache state
          | Some c \<Rightarrow> hm_insert key c (ss_cache state))" "r = Inr (Some d)"
      using assms(1) by auto
    have ok: "coherent d"
      unfolding d_def using assms(3-5) presentation_flags [OF pr] by (intro assembled_device_coherent) simp_all
    have keys: "de_key d = key" "de_adapter_key d = adapter_key" by (simp_all add: d_def assembly_build_def Let_def)
    have "cache_ok (ss_cache state')"
    proof (cases "cache_entry d (su_now_ms su)")
      case None
      then show ?thesis using run(1) assms(2) by simp
    next
      case (Some c)
      then show ?thesis using run(1) cache_ok_insert [OF assms(2), of c key] ok keys cache_entry_device [OF Some] by simp
    qed
    then show ?thesis using run(2) ok keys by simp
  qed
qed

lemma device_snapshot_coherent:
  assumes "device_snapshot su ev adapter adapter_key a state = (state', r)" and "cache_ok (ss_cache state)"
  shows "cache_ok (ss_cache state') \<and> (\<forall>d. r = Inr (Some d) \<longrightarrow> coherent d \<and> de_adapter_key d = adapter_key)"
proof (cases "read_state (ev_reads ev)")
  case (Inl e)
  then show ?thesis using assms by (auto simp: device_snapshot_def)
next
  case st: (Inr st)
  show ?thesis
  proof (cases "bluez_result (ev_discovering ev) ''read discovery freshness''")
    case (Inl e)
    then show ?thesis using assms st by (auto simp: device_snapshot_def Let_def)
  next
    case disc: (Inr discovering)
    define live where "live = (case observation_get (su_now su) adapter a (su_observations su) of
        None \<Rightarrow> False | Some ob \<Rightarrow> observation_live (su_now su) discovering ob)"
    obtain ids key where key: "key_of su (ev_fresh_key ev) (bz_paired st) adapter a (ss_identities state) = (ids, key)" by fastforce
    define cached where "cached = fresh_cached su (ss_cache state) key"
    define link where "link = signals_get (su_now su) adapter a (bz_connected st) (su_signals su)"
    define s0 where "s0 = resolve (observation_get (su_now su) adapter a (su_observations su)) cached live"
    have cached: "cached_signal_ok (de_view (cd_device c))" if "cached = Some c" for c
      using that cache_ok_get [OF assms(2), of key]
      by (auto simp: cached_def fresh_cached_def cached_signal_of_coherent split: option.splits if_splits)
    have link: "bz_connected st" if "link = Some l" "rd_live l" for l
      using that by (auto simp: link_def signals_get_def split: option.splits if_splits)
    have present: "sn_present s0 = live" by (simp add: s0_def resolve_def Let_def)
    have "(sn_rssi s0 = None \<longleftrightarrow> sn_kind s0 = None) \<and> (sn_rssi s0 \<noteq> None \<longrightarrow> sn_last_seen_ms s0 \<noteq> None)
        \<and> (sn_live s0 \<longrightarrow> sn_rssi s0 \<noteq> None \<and> live)"
      unfolding s0_def by (rule resolve_ok) (rule cached)
    then have s0: "sn_rssi s0 = None \<longleftrightarrow> sn_kind s0 = None" "sn_rssi s0 \<noteq> None \<longrightarrow> sn_last_seen_ms s0 \<noteq> None"
        "sn_live s0 \<longrightarrow> sn_rssi s0 \<noteq> None \<and> sn_present s0"
      unfolding present by - (elim conjE, assumption)+
    note s = with_link_ok [OF s0 link]
    have run: "device_snapshot su ev adapter adapter_key a state =
        (if \<not> should_include_device (bz_paired st) (bz_connected st \<or> live) (cached \<noteq> None)
         then (state\<lparr>ss_identities := ids\<rparr>, Inr None)
         else describe_device su ev adapter adapter_key a key st (with_link link s0) (state\<lparr>ss_identities := ids\<rparr>))"
      by (simp add: device_snapshot_def st disc key Let_def live_def cached_def link_def s0_def)
    show ?thesis
    proof (cases "should_include_device (bz_paired st) (bz_connected st \<or> live) (cached \<noteq> None)")
      case False
      then show ?thesis using run assms by simp
    next
      case True
      then have d: "describe_device su ev adapter adapter_key a key st (with_link link s0) (state\<lparr>ss_identities := ids\<rparr>) = (state', r)"
        using run assms(1) by simp
      have "cache_ok (ss_cache (state\<lparr>ss_identities := ids\<rparr>))" using assms(2) by simp
      note described_device_coherent [OF d this conjunct1 [OF s] conjunct1 [OF conjunct2 [OF s]] conjunct2 [OF conjunct2 [OF s]]]
      then show ?thesis by simp
    qed
  qed
qed

lemma live_devices_coherent:
  assumes "live_devices su adapter adapter_key found state = (state', r)" and "cache_ok (ss_cache state)"
  shows "cache_ok (ss_cache state') \<and> (\<forall>ds. r = Inr ds \<longrightarrow> (\<forall>d \<in> set ds. coherent d \<and> de_adapter_key d = adapter_key))"
  using assms
proof (induction su adapter adapter_key found state arbitrary: state' r rule: live_devices.induct)
  case (2 su adapter adapter_key a ev rest state)
  show ?case
  proof (cases "bluez_result (ev_open ev) ''open BlueZ device''")
    case (Inl e)
    then show ?thesis using "2.prems" by auto
  next
    case op: (Inr u)
    obtain state1 r1 where d: "device_snapshot su ev adapter adapter_key a state = (state1, r1)" by fastforce
    note ok = device_snapshot_coherent [OF d "2.prems"(2)]
    show ?thesis
    proof (cases r1)
      case (Inl e)
      then show ?thesis using "2.prems" op d ok by auto
    next
      case (Inr found)
      obtain state2 r2 where rest: "live_devices su adapter adapter_key rest state1 = (state2, r2)" by fastforce
      have "cache_ok (ss_cache state2) \<and> (\<forall>ds. r2 = Inr ds \<longrightarrow> (\<forall>d \<in> set ds. coherent d \<and> de_adapter_key d = adapter_key))"
        using "2.IH" [OF op d [symmetric] Inr rest] ok by blast
      then show ?thesis using "2.prems" op d Inr rest ok by (auto split: sum.splits option.splits)
    qed
  qed
qed simp

lemma extended_coherent:
  assumes "cache_ok m" and "\<forall>d \<in> set ds. coherent d"
  shows "\<forall>d \<in> set (extend_cached_devices ds (map snd m) adapter_key now_ms). coherent d"
  using assms cached_view_coherent by (auto simp: extend_cached_devices_def cache_ok_def)

lemma adapter_devices_coherent:
  assumes "adapter_devices su ax adapter_key state = (state', r)" and "cache_ok (ss_cache state)"
  shows "cache_ok (ss_cache state') \<and> (\<forall>ds. r = Inr ds \<longrightarrow> (\<forall>d \<in> set ds. coherent d))"
proof (cases "bluez_result (ax_devices ax) ''list adapter devices''")
  case (Inl e)
  then show ?thesis using assms by (auto simp: adapter_devices_def)
next
  case found: (Inr found)
  obtain state1 r1 where live: "live_devices su (ax_name ax) adapter_key found state = (state1, r1)" by fastforce
  note ok = live_devices_coherent [OF live assms(2)]
  show ?thesis
  proof (cases r1)
    case (Inl e)
    then show ?thesis using assms found live ok by (auto simp: adapter_devices_def)
  next
    case (Inr ds)
    then show ?thesis using assms(1) found live ok extended_coherent [of "ss_cache state1" ds]
      by (auto simp: adapter_devices_def)
  qed
qed

lemma adapter_entries_coherent:
  assumes "adapter_entries su axs state = (state', r)" and "cache_ok (ss_cache state)"
  shows "cache_ok (ss_cache state') \<and> (\<forall>es. r = Inr es \<longrightarrow> (\<forall>p \<in> set es. \<forall>d \<in> set (snd p). coherent d))"
  using assms
proof (induction axs arbitrary: state state' r)
  case (Cons ax axs)
  show ?case
  proof (cases "bluez_result (ax_address ax) ''read stable adapter identity''")
    case (Inl e)
    then show ?thesis using Cons.prems by auto
  next
    case addr: (Inr addr)
    define state1 where "state1 = state\<lparr>ss_identities := register_adapter (ax_name ax) addr (ss_identities state)\<rparr>"
    define key where "key = opaque_key (su_sha su) ''adapter'' addr"
    have c1: "cache_ok (ss_cache state1)" using Cons.prems(2) by (simp add: state1_def)
    show ?thesis
    proof (cases "adapter_snapshot (ax_name ax) (ax_reads ax) key addr")
      case (Inl e)
      then show ?thesis using Cons.prems addr c1 by (auto simp: Let_def state1_def key_def)
    next
      case info: (Inr info)
      obtain state2 r2 where ds: "adapter_devices su ax key state1 = (state2, r2)" by fastforce
      note ok = adapter_devices_coherent [OF ds c1]
      show ?thesis
      proof (cases r2)
        case (Inl e)
        then show ?thesis using Cons.prems addr info ds ok by (auto simp: Let_def state1_def key_def)
      next
        case (Inr found)
        obtain state3 r3 where rest: "adapter_entries su axs state2 = (state3, r3)" by fastforce
        have "cache_ok (ss_cache state3) \<and> (\<forall>es. r3 = Inr es \<longrightarrow> (\<forall>p \<in> set es. \<forall>d \<in> set (snd p). coherent d))"
          using Cons.IH [OF rest] ok by blast
        then show ?thesis using Cons.prems(1) addr info ds ok Inr rest
          by (auto simp: Let_def state1_def key_def split: sum.splits)
      qed
    qed
  qed
qed simp

text \<open>
  C4. Every device of every snapshot is coherent, whatever BlueZ and the vendor channels answered and in whatever
  order the reads completed, and so is every device the cache keeps: a live signal has a reading and belongs to a
  device that is present; a strength in percent is never derived from a relative reading; a battery is called live
  exactly on a connected device and last known exactly on a disconnected one; no action is offered that the
  connection, the bond or the block forbids. A failed snapshot leaves the cache intact as well.
\<close>
theorem snapshots_are_coherent:
  assumes "build_snapshot su lc rfkill pol adapters state = (state', r)" and "cache_ok (ss_cache state)"
  shows "cache_ok (ss_cache state') \<and> (\<forall>snap. r = Inr snap \<longrightarrow> (\<forall>d \<in> set (sh_devices snap). coherent d))"
proof -
  define state1 where "state1 = state\<lparr>ss_cache :=
      hm_retain (\<lambda>_ c. cache_entry_is_fresh (cd_observed_at_ms c) (su_now_ms su)) (ss_cache state)\<rparr>"
  have c1: "cache_ok (ss_cache state1)" using assms(2) by (simp add: state1_def cache_ok_retain)
  show ?thesis
  proof (cases adapters)
    case (Inl e)
    then show ?thesis using assms(1) c1 by (auto simp: build_snapshot_def state1_def)
  next
    case (Inr axs)
    obtain state2 r2 where es: "adapter_entries su axs state1 = (state2, r2)" by fastforce
    note ok = adapter_entries_coherent [OF es c1]
    show ?thesis
    proof (cases r2)
      case (Inl e)
      then show ?thesis using assms(1) Inr es ok by (auto simp: build_snapshot_def state1_def)
    next
      case found: (Inr found)
      then have "state' = state2" "\<And>snap. r = Inr snap \<Longrightarrow> set (sh_devices snap) = set (concat (map snd found))"
        using assms(1) Inr es by (auto simp: build_snapshot_def state1_def Let_def)
      then show ?thesis using ok found by fastforce
    qed
  qed
qed

subsection \<open>The cached view\<close>

definition at_rest :: "device_reading \<Rightarrow> device_reading" where
  "at_rest g = g\<lparr>dg_state := (dg_state g)\<lparr>bz_connected := False\<rparr>, dg_vendor_noise := None, dg_last_disconnect := None\<rparr>"

definition last_known :: "resolved \<Rightarrow> resolved" where
  "last_known p = p\<lparr>rs_battery_live := False, rs_battery_last_known := (rs_battery p \<noteq> [])\<rparr>"


subsection \<open>Devices only in the cache\<close>

lemma cached_view_key: "de_key (cached_device_view c) = de_key (cd_device c)"
  by (simp add: cached_device_view_def Let_def)

lemma cached_keys:
  "\<forall>(k, c) \<in> set m. de_key (cd_device c) = k \<Longrightarrow>
     map de_key (map cached_device_view (filter P (map snd m))) = map fst (filter (\<lambda>kc. P (snd kc)) m)"
  by (induction m) (auto simp: cached_view_key)

lemma cached_view_rest:
  "coherent (cd_device c) \<Longrightarrow> \<not> ds_connected (de_state (cached_device_view c)) \<and> \<not> vi_present (de_view (cached_device_view c))
     \<and> \<not> vi_signal_live (de_view (cached_device_view c)) \<and> \<not> vi_battery_live (de_view (cached_device_view c))
     \<and> vi_noise_control (de_view (cached_device_view c)) = None"
  by (auto simp: cached_device_view_def Let_def coherent_def view_ok_def)

text \<open>
  The cache fills in exactly what discovery no longer reports: the devices found live come first and
  unchanged; they are followed by every device of the adapter that was seen within the last five minutes and is
  not among them, each once, and none of these is shown as connected, present or with a live signal.
\<close>
theorem cache_fills_the_gaps:
  assumes "cache_ok m"
  shows "\<exists>gone. extend_cached_devices ds (map snd m) adapter_key now_ms = ds @ gone
    \<and> distinct (map de_key gone) \<and> de_key ` set gone \<inter> de_key ` set ds = {}
    \<and> de_key ` set gone = {k. \<exists>c. hm_get m k = Some c \<and> de_adapter_key (cd_device c) = adapter_key
         \<and> k \<notin> de_key ` set ds \<and> cache_entry_is_fresh (cd_observed_at_ms c) now_ms}
    \<and> (\<forall>d \<in> set gone. \<not> ds_connected (de_state d) \<and> \<not> vi_present (de_view d) \<and> \<not> vi_signal_live (de_view d)
         \<and> \<not> vi_battery_live (de_view d) \<and> vi_noise_control (de_view d) = None)"
proof -
  define P where "P c \<longleftrightarrow> de_adapter_key (cd_device c) = adapter_key \<and> de_key (cd_device c) \<notin> de_key ` set ds
      \<and> cache_entry_is_fresh (cd_observed_at_ms c) now_ms" for c :: cached_device
  define gone where "gone = map cached_device_view (filter P (map snd m))"
  have ok: "hm_ok m" "\<forall>(k, c) \<in> set m. de_key (cd_device c) = k" using assms by (auto simp: cache_ok_def)
  have keys: "map de_key gone = map fst (filter (\<lambda>kc. P (snd kc)) m)" unfolding gone_def by (rule cached_keys [OF ok(2)])
  have dist: "distinct (map de_key gone)" unfolding keys using ok(1) by (simp add: hm_ok_def distinct_map_filter)
  have "de_key ` set gone = fst ` {kc \<in> set m. P (snd kc)}" using arg_cong [OF keys, of set] by simp
  also have "\<dots> = {k. \<exists>c. hm_get m k = Some c \<and> P c}" unfolding hm_in_set [OF ok(1), symmetric] by force
  also have "\<dots> = {k. \<exists>c. hm_get m k = Some c \<and> de_adapter_key (cd_device c) = adapter_key
         \<and> k \<notin> de_key ` set ds \<and> cache_entry_is_fresh (cd_observed_at_ms c) now_ms}"
    using assms by (auto simp: cache_ok_alt P_def)
  finally have set: "de_key ` set gone = \<dots>" .
  have rest: "\<forall>d \<in> set gone. \<not> ds_connected (de_state d) \<and> \<not> vi_present (de_view d) \<and> \<not> vi_signal_live (de_view d)
      \<and> \<not> vi_battery_live (de_view d) \<and> vi_noise_control (de_view d) = None"
  proof
    fix d
    assume "d \<in> set gone"
    then obtain k c where c: "(k, c) \<in> set m" "d = cached_device_view c" by (auto simp: gone_def)
    then have "coherent (cd_device c)" using assms by (auto simp: cache_ok_def)
    then show "\<not> ds_connected (de_state d) \<and> \<not> vi_present (de_view d) \<and> \<not> vi_signal_live (de_view d)
      \<and> \<not> vi_battery_live (de_view d) \<and> vi_noise_control (de_view d) = None"
      unfolding c(2) by (rule cached_view_rest)
  qed
  have run: "extend_cached_devices ds (map snd m) adapter_key now_ms = ds @ gone"
    by (simp add: extend_cached_devices_def gone_def P_def [abs_def])
  have "de_key ` set gone \<inter> de_key ` set ds = {}" unfolding set by blast
  with run dist set rest show ?thesis by (intro exI [of _ gone] conjI)
qed

subsection \<open>Where a battery reading comes from\<close>

text \<open>
  A connected device shows the reading just taken and nothing older; a disconnected one that reports nothing
  shows what was last reported while it was paired, marked as such; and a device that is not paired leaves
  nothing behind in the registry.
\<close>
theorem battery_provenance:
  assumes "presentation key paired connected icon model_id battery ids = (ids', r)"
  shows "(connected \<or> battery \<noteq> [] \<or> \<not> paired \<longrightarrow> rs_battery r = battery)
    \<and> (paired \<and> \<not> connected \<and> battery = [] \<longrightarrow>
         rs_battery r = (case hm_get (rg_presentations (id_state ids)) key of None \<Rightarrow> [] | Some old \<Rightarrow> rm_battery old))
    \<and> rs_battery_live r = (connected \<and> rs_battery r \<noteq> []) \<and> rs_battery_last_known r = (\<not> connected \<and> rs_battery r \<noteq> [])
    \<and> (if paired then \<exists>kept. hm_get (rg_presentations (id_state ids')) key = Some kept
         \<and> (battery \<noteq> [] \<longrightarrow> rm_battery kept = battery)
       else hm_get (rg_presentations (id_state ids')) key = None)"
proof -
  define v where "v = (if paired then snd (remember_presentation key icon model_id battery ids)
      else \<lparr>rv_icon = icon, rv_device_type = presentation_type icon battery, rv_model_id = model_id,
            rv_components = presentation_components battery, rv_battery = []\<rparr>)"
  have ids': "ids' = (if paired then fst (remember_presentation key icon model_id battery ids) else forget_presentation key ids)"
    and r: "rs_battery r = (if \<not> connected \<and> battery = [] \<and> rv_battery v \<noteq> [] then rv_battery v else battery)"
    using assms by (auto simp: presentation_def v_def Let_def split: prod.splits)
  define old where "old = (case hm_get (rg_presentations (id_state ids)) key of None \<Rightarrow> remembered_default | Some r \<Rightarrow> r)"
  obtain new changed where new: "remembered_update icon model_id battery old = (new, changed)" by fastforce
  have kept: "rm_battery new = (if battery = [] then rm_battery old else battery)"
    using new by (rule remembered_update_fields) (auto simp: update_battery_def)
  have persist: "id_state (persist_if b s) = id_state s" for b s by (simp add: persist_if_def persist_def)
  have stored: "hm_get (rg_presentations (id_state (fst (remember_presentation key icon model_id battery ids)))) key = Some new"
      "rv_battery (snd (remember_presentation key icon model_id battery ids)) = rm_battery new"
    using new by (simp_all add: remember_presentation_def old_def [symmetric] Let_def persist values_of_def)
  have gone: "hm_get (rg_presentations (id_state (forget_presentation key ids))) key = None"
    by (simp add: forget_presentation_def persist)
  have old: "rm_battery old = (case hm_get (rg_presentations (id_state ids)) key of None \<Rightarrow> [] | Some old \<Rightarrow> rm_battery old)"
    by (simp add: old_def remembered_default_def split: option.split)
  have "rv_battery v = (if paired then rm_battery new else [])" using stored(2) by (simp add: v_def)
  then have shown: "rs_battery r = (if connected \<or> battery \<noteq> [] \<or> \<not> paired then battery else rm_battery old)"
    using r kept by auto
  have registry: "hm_get (rg_presentations (id_state ids')) key = (if paired then Some new else None)"
    using stored(1) gone by (simp add: ids')
  show ?thesis
    using presentation_flags [OF assms] registry kept by (simp add: shown old)
qed

subsection \<open>What is offered, and why not\<close>

definition reasons_of :: "(bool \<times> string \<times> string) list \<Rightarrow> (string, string) hmap" where
  "reasons_of xs = map snd (filter fst xs)"

lemma reasons_of_get:
  "hm_get (reasons_of []) k = None"
  "hm_get (reasons_of ((b, n, t) # xs)) k = (if b \<and> n = k then Some t else hm_get (reasons_of xs) k)"
  by (simp_all add: reasons_of_def hm_get_def)

lemma reasons_get:
  fixes paired connected w p mu n
  defines "rs \<equiv> unsupported_reasons paired connected w p mu n"
  shows "hm_get rs ''pair'' = None \<longleftrightarrow> \<not> paired" "hm_get rs ''connect'' = None \<longleftrightarrow> \<not> connected"
    "hm_get rs ''disconnect'' = None \<longleftrightarrow> connected" "hm_get rs ''wake'' = None \<longleftrightarrow> w \<noteq> None"
    "hm_get rs ''send_file'' = None \<longleftrightarrow> paired" "hm_get rs ''provision_fast_pair'' = None \<longleftrightarrow> p"
    "hm_get rs ''set_multipoint'' = None \<longleftrightarrow> mu" "hm_get rs ''set_noise_control'' = None \<longleftrightarrow> n"
  unfolding rs_def unsupported_reasons_def reasons_of_def [symmetric] by (simp_all add: reasons_of_get)

text \<open>
  For a device that is not blocked, each of the eight operations that the reasons speak of is offered exactly
  when no reason is given against it.
\<close>
theorem reasons_match_capabilities:
  assumes "c = device_capabilities paired connected False wake_allowed has_fast_pair fast_pair vendor"
  shows "(can_pair c \<longleftrightarrow> hm_get (unsupported c) ''pair'' = None) \<and> (can_connect c \<longleftrightarrow> hm_get (unsupported c) ''connect'' = None)
    \<and> (can_disconnect c \<longleftrightarrow> hm_get (unsupported c) ''disconnect'' = None) \<and> (can_wake c \<longleftrightarrow> hm_get (unsupported c) ''wake'' = None)
    \<and> (can_send_file c \<longleftrightarrow> hm_get (unsupported c) ''send_file'' = None)
    \<and> (can_provision_fast_pair c \<longleftrightarrow> hm_get (unsupported c) ''provision_fast_pair'' = None)
    \<and> (can_set_multipoint c \<longleftrightarrow> hm_get (unsupported c) ''set_multipoint'' = None)
    \<and> (can_set_noise_control c \<longleftrightarrow> hm_get (unsupported c) ''set_noise_control'' = None)"
proof -
  obtain p mu n where fp: "fast_pair_capabilities paired connected has_fast_pair fast_pair = (p, mu, n)"
    by (cases "fast_pair_capabilities paired connected has_fast_pair fast_pair")
  then show ?thesis by (simp add: assms device_capabilities_def Let_def reasons_get)
qed

text \<open>
  A blocked device may be neither paired nor connected, and no reason is given for it: \<open>DeviceCapabilities\<close>
  promises reasons for unavailable operations.
\<close>
theorem blocked_device_has_no_reason:
  "\<exists>c. c = device_capabilities False False True None False None None \<and> \<not> can_pair c \<and> \<not> can_connect c
     \<and> hm_get (unsupported c) ''pair'' = None \<and> hm_get (unsupported c) ''connect'' = None"
  by (simp add: device_capabilities_def fast_pair_capabilities_def reasons_get)

subsection \<open>Vendor batteries\<close>

text \<open>
  A second vendor channel only fills in components the first left unknown: the first channel's readings stay
  in front and unchanged, every added reading is one of the second channel's for a component not there before,
  and no component of either is missing.
\<close>
theorem vendor_fills_missing_components:
  "\<exists>added. supplement_components readings vendor = readings @ added \<and> set added \<subseteq> set vendor
     \<and> b_component ` set added = b_component ` set vendor - b_component ` set readings \<and> distinct (map b_component added)"
proof (induction vendor arbitrary: readings)
  case (Cons b vendor)
  show ?case
  proof (cases "\<exists>r \<in> set readings. b_component r = b_component b")
    case True
    then obtain added where "supplement_components readings (b # vendor) = readings @ added" "set added \<subseteq> set vendor"
        "b_component ` set added = b_component ` set vendor - b_component ` set readings" "distinct (map b_component added)"
      using Cons.IH [of readings] by auto
    moreover have "b_component b \<in> b_component ` set readings" using True by (metis imageI)
    ultimately show ?thesis by (intro exI [of _ added]) auto
  next
    case False
    then obtain added where "supplement_components readings (b # vendor) = readings @ b # added" "set added \<subseteq> set vendor"
        "b_component ` set added = b_component ` set vendor - b_component ` set (readings @ [b])" "distinct (map b_component added)"
      using Cons.IH [of "readings @ [b]"] by auto
    moreover have "b_component b \<notin> b_component ` set readings" using False by force
    ultimately show ?thesis by (intro exI [of _ "b # added"]) auto
  qed
qed simp

subsection \<open>A headset in range\<close>

definition demo_reads :: device_reads where
  "demo_reads = \<lparr>re_paired = Inr True, re_connected = Inr True, re_trusted = Inr True, re_blocked = Inr False,
     re_wake_allowed = Inr None, re_uuids = Inr (Some [''0000110b-0000-1000-8000-00805f9b34fb'']), re_alias = Inr ''Buds'',
     re_remote_name = Inr None, re_address_type = Inr ''public'', re_icon = Inr (Some ''audio-headset''),
     re_services_resolved = Inr True, re_legacy_pairing = Inr False, re_modalias = Inr (Some (''usb'', 0x1ab, 2, 3))\<rparr>"

definition demo_evidence :: evidence where
  "demo_evidence = \<lparr>ev_open = Inr (), ev_reads = demo_reads, ev_discovering = Inr True, ev_battery = Inr (Some 80),
     ev_fast_pair = None, ev_features = (\<lambda>_. None), ev_maestro = None, ev_sony = None, ev_bonded = Some True,
     ev_fresh_key = ''k''\<rparr>"

definition demo_adapter :: adapter_evidence where
  "demo_adapter = \<lparr>ax_name = ''hci0'', ax_address = Inr ''AA'',
     ax_reads = \<lparr>ar_alias = Inr ''pc'', ar_address_type = Inr ''public'', ar_powered = Inr True, ar_discovering = Inr True,
       ar_discoverable = Inr False, ar_pairable = Inr True, ar_discoverable_timeout = Inr 0, ar_pairable_timeout = Inr 0,
       ar_modalias = Inr None\<rparr>,
     ax_devices = Inr [([1], demo_evidence)]\<rparr>"

definition demo_surroundings :: surroundings where
  "demo_surroundings = \<lparr>su_now = 0, su_now_ms = 1000, su_fmt = (\<lambda>_. ''BB''), su_sha = (\<lambda>_. [1, 2]),
     su_observations = [((''hci0'', [1]), \<lparr>ob_rssi = Some (- 50), ob_last_seen_ms = 990, ob_observed = 0\<rparr>)],
     su_signals = signals_default, su_history = [], su_policy = (\<lambda>_. effective overrides_default policy_default)\<rparr>"

definition demo_snapshot :: "snap_state \<times> (failure + snapshot)" where
  "demo_snapshot = build_snapshot demo_surroundings (\<lambda>s. s) (Inl True) policy_default (Inr [demo_adapter])
     \<lparr>ss_identities = \<lparr>id_state = registry_default, id_scheduled = []\<rparr>, ss_cache = []\<rparr>"

lemma demo_device_found:
  "\<exists>state' d. device_snapshot demo_surroundings demo_evidence ''hci0'' adapter_key [1] state = (state', Inr (Some d))
     \<and> de_adapter_key d = adapter_key"
  by (simp add: demo_evidence_def demo_reads_def bluez_result_def device_snapshot_def read_state_def
      should_include_device_def describe_device_def read_metadata_def device_batteries_def case_prod_unfold Let_def
      assembly_build_adapter_key)

lemma demo_devices: "\<exists>snap. snd demo_snapshot = Inr snap \<and> sh_devices snap \<noteq> []"
proof -
  obtain state' d where d: "device_snapshot demo_surroundings demo_evidence ''hci0'' (opaque_key (su_sha demo_surroundings) ''adapter'' ''AA'') [1]
      \<lparr>ss_identities = register_adapter ''hci0'' ''AA'' \<lparr>id_state = registry_default, id_scheduled = []\<rparr>, ss_cache = []\<rparr> = (state', Inr (Some d))"
    using demo_device_found by blast
  have "bluez_result (ev_open demo_evidence) ''open BlueZ device'' = Inr ()" by (simp add: demo_evidence_def bluez_result_def)
  then show ?thesis
    using d by (simp add: demo_snapshot_def build_snapshot_def demo_adapter_def bluez_result_def adapter_snapshot_def
        adapter_devices_def Let_def hm_retain_def extend_cached_devices_def sort_key_nonempty)
qed

lemma snapshots_are_coherent_witness:
  "\<exists>snap. snd demo_snapshot = Inr snap \<and> sh_devices snap \<noteq> [] \<and> (\<forall>d \<in> set (sh_devices snap). coherent d)"
proof -
  obtain snap where snap: "snd demo_snapshot = Inr snap" "sh_devices snap \<noteq> []" using demo_devices by blast
  have "demo_snapshot = (fst demo_snapshot, snd demo_snapshot)" by simp
  note run = this [unfolded demo_snapshot_def]
  have "cache_ok (ss_cache \<lparr>ss_identities = \<lparr>id_state = registry_default, id_scheduled = []\<rparr>, ss_cache = []\<rparr>)"
    by (simp add: cache_ok_def)
  note snapshots_are_coherent [OF run this]
  from this [folded demo_snapshot_def] show ?thesis using snap by blast
qed

definition demo_device :: device where
  "demo_device = assembly_build
     \<lparr>cx_key = ''k'', cx_adapter_key = ''adapter-0102'', cx_address = ''BB'', cx_policy = effective overrides_default policy_default\<rparr>
     \<lparr>dg_state = \<lparr>bz_paired = True, bz_connected = True, bz_trusted = True, bz_blocked = False, bz_wake_allowed = None\<rparr>,
      dg_metadata = \<lparr>me_alias = ''Buds'', me_remote_name = None, me_address_type = ''public'', me_icon = None,
        me_services_resolved = True, me_legacy_pairing = False, me_modalias = None, me_uuids = []\<rparr>,
      dg_bonded = None, dg_features = None,
      dg_vendor_noise = Some \<lparr>nz_source = ''sony'', nz_available = [''off''], nz_settable = [''off''], nz_active = None\<rparr>,
      dg_last_disconnect = None\<rparr>
     \<lparr>rs_icon = None, rs_device_type = ''Headphones'', rs_model_id = None, rs_components = [],
      rs_battery = [bluez_aggregate 80], rs_battery_live = True, rs_battery_last_known = False\<rparr>
     \<lparr>sn_rssi = Some (- 50), sn_kind = Some Dbm, sn_last_seen_ms = Some 990, sn_live = True, sn_present = True\<rparr>"


lemma cache_fills_the_gaps_witness:
  "\<exists>gone. extend_cached_devices [] (map snd [(''k'', \<lparr>cd_device = demo_device, cd_observed_at_ms = 1000\<rparr>)]) ''adapter-0102'' 2000 = gone
     \<and> de_key ` set gone = {''k''}"
proof -
  let ?c = "\<lparr>cd_device = demo_device, cd_observed_at_ms = 1000 :: u64\<rparr>"
  have d: "de_key demo_device = ''k''" "de_adapter_key demo_device = ''adapter-0102''"
    by (simp_all add: demo_device_def assembly_build_def Let_def)
  have "coherent demo_device" unfolding demo_device_def by (rule assembled_device_coherent) simp_all
  then have "cache_ok [(''k'', ?c)]" using d by (simp add: cache_ok_def hm_ok_def)
  from cache_fills_the_gaps [OF this, of "[]" "''adapter-0102''" 2000] d show ?thesis
    by (auto simp: hm_get_def cache_entry_is_fresh_def saturating_sub_def CACHE_TTL_MS_def)
qed

lemma battery_provenance_witness:
  "rs_battery (snd (presentation ''k'' True False None None []
     \<lparr>id_state = registry_default\<lparr>rg_presentations := [(''k'', remembered_default\<lparr>rm_battery := [bluez_aggregate 40]\<rparr>)]\<rparr>,
      id_scheduled = []\<rparr>)) = [bluez_aggregate 40]"
  (is "rs_battery (snd ?p) = _")
proof -
  obtain ids' r where run: "?p = (ids', r)" by fastforce
  from battery_provenance [OF this] run show ?thesis by (simp add: hm_get_def)
qed

lemma reasons_match_capabilities_witness:
  "hm_get (unsupported (device_capabilities True False False None False None None)) ''connect'' = None"
  using reasons_match_capabilities [OF refl, of True False None False None None]
  by (simp add: device_capabilities_def fast_pair_capabilities_def)

end
