(* ===== verification/Monitor.thy ===== *)
theory Monitor
  imports DeviceOps Identity
begin

text \<open>
  \<open>src/bluez/monitor.rs\<close>, with the polling of \<open>src/bluez/link_signal.rs\<close> and the signal path of
  \<open>src/bluez/disconnect.rs\<close>: the subscriptions to BlueZ objects and what each event does to the caches.

  A subscription is a running stream with its own abort handle; aborting it takes it out of the set that is
  polled, so that its end is not reported. BlueZ's answers come from a world \<open>'w\<close>.
\<close>

subsection \<open>Subscriptions\<close>

record watches =
  wt_handles :: "(string, nat) hmap"
  wt_streams :: "(nat \<times> string) list"
  wt_next :: nat

definition no_watches :: watches where
  "no_watches = \<lparr>wt_handles = [], wt_streams = [], wt_next = 0\<rparr>"

definition watched :: "string \<Rightarrow> watches \<Rightarrow> bool" where
  "watched key w \<longleftrightarrow> hm_get (wt_handles w) key \<noteq> None"

definition watch_insert :: "string \<Rightarrow> watches \<Rightarrow> watches" where
  "watch_insert key w =
     (if watched key w then w
      else w\<lparr>wt_handles := hm_insert key (wt_next w) (wt_handles w),
             wt_streams := wt_streams w @ [(wt_next w, key)], wt_next := Suc (wt_next w)\<rparr>)"

definition watch_remove :: "string \<Rightarrow> watches \<Rightarrow> watches" where
  "watch_remove key w =
     (case hm_get (wt_handles w) key of None \<Rightarrow> w
      | Some handle \<Rightarrow> w\<lparr>wt_handles := hm_remove key (wt_handles w),
          wt_streams := filter (\<lambda>s. fst s \<noteq> handle) (wt_streams w)\<rparr>)"

definition of_adapter :: "string \<Rightarrow> string \<Rightarrow> bool" where
  "of_adapter name key \<longleftrightarrow> key = name \<or> starts_with (name @ ''/'') key"

definition watch_remove_adapter :: "string \<Rightarrow> watches \<Rightarrow> watches" where
  "watch_remove_adapter name w = foldl (\<lambda>w key. watch_remove key w) w (filter (of_adapter name) (map fst (wt_handles w)))"

subsection \<open>The monitor\<close>

datatype device_property = RssiChanged int | PairedChanged bool | ConnectedChanged bool | ServicesResolvedChanged bool
  | OtherProperty

datatype monitor_event =
    AdapterAdded string
  | AdapterRemoved string
  | DeviceAdded string address
  | DeviceRemoved string address
  | PropertyChanged string address device_property
  | Disconnected "failure + string \<times> address \<times> device_disconnect"
  | StreamEnded string
  | OtherEvent

record 'w monitor_io =
  mi_watch_adapter :: "string \<Rightarrow> 'w \<Rightarrow> 'w \<times> (failure + unit)"
  mi_addresses :: "string \<Rightarrow> 'w \<Rightarrow> 'w \<times> (failure + address list)"
  mi_watch_device :: "string \<Rightarrow> address \<Rightarrow> 'w \<Rightarrow> 'w \<times> (failure + unit)"
  mi_discovering :: "string \<Rightarrow> 'w \<Rightarrow> 'w \<times> bool"
  mi_rssi :: "string \<Rightarrow> address \<Rightarrow> 'w \<Rightarrow> 'w \<times> int option"
  mi_fast_pair :: bool
  mi_note_pairing :: "string \<Rightarrow> address \<Rightarrow> bool \<Rightarrow> 'w \<Rightarrow> 'w"
  mi_note_connection :: "address \<Rightarrow> bool \<Rightarrow> 'w \<Rightarrow> 'w"
  mi_fmt :: "address \<Rightarrow> string"
  mi_fresh_key :: "'w \<Rightarrow> 'w \<times> string"

record 'w monitor =
  mo_watches :: watches
  mo_observations :: observations
  mo_signals :: signals
  mo_history :: history
  mo_identities :: identities
  mo_world :: 'w

definition device_watch :: "'w monitor_io \<Rightarrow> string \<Rightarrow> address \<Rightarrow> string" where
  "device_watch io adapter a = adapter @ ''/'' @ mi_fmt io a"

definition watch_device :: "'w monitor_io \<Rightarrow> string \<Rightarrow> address \<Rightarrow> 'w monitor \<Rightarrow> 'w monitor \<times> (failure + unit)" where
  "watch_device io adapter a m =
     (if watched (device_watch io adapter a) (mo_watches m) then (m, Inr ())
      else case mi_watch_device io adapter a (mo_world m) of
        (w, Inl e) \<Rightarrow> (m\<lparr>mo_world := w\<rparr>, Inl e)
      | (w, Inr _) \<Rightarrow> (m\<lparr>mo_world := w, mo_watches := watch_insert (device_watch io adapter a) (mo_watches m)\<rparr>, Inr ()))"

text \<open>A device that cannot be watched any more is skipped.\<close>

definition watch_devices :: "'w monitor_io \<Rightarrow> string \<Rightarrow> address list \<Rightarrow> 'w monitor \<Rightarrow> 'w monitor" where
  "watch_devices io adapter addresses m = foldl (\<lambda>m a. fst (watch_device io adapter a m)) m addresses"

definition watch_adapter :: "'w monitor_io \<Rightarrow> string \<Rightarrow> 'w monitor \<Rightarrow> 'w monitor \<times> (failure + unit)" where
  "watch_adapter io name m =
     (if watched name (mo_watches m) then (m, Inr ())
      else case mi_watch_adapter io name (mo_world m) of
        (w, Inl e) \<Rightarrow> (m\<lparr>mo_world := w\<rparr>, Inl e)
      | (w, Inr _) \<Rightarrow>
          let m1 = m\<lparr>mo_world := w, mo_watches := watch_insert name (mo_watches m)\<rparr> in
          (case mi_addresses io name (mo_world m1) of
             (w1, Inl e) \<Rightarrow> (m1\<lparr>mo_world := w1\<rparr>, Inl e)
           | (w1, Inr addresses) \<Rightarrow> (watch_devices io name addresses (m1\<lparr>mo_world := w1\<rparr>), Inr ())))"

definition record_discovered_device ::
    "'w monitor_io \<Rightarrow> instant \<Rightarrow> u64 \<Rightarrow> string \<Rightarrow> address \<Rightarrow> 'w monitor \<Rightarrow> 'w monitor" where
  "record_discovered_device io now now_ms name a m =
     (case mi_discovering io name (mo_world m) of
        (w, False) \<Rightarrow> m\<lparr>mo_world := w\<rparr>
      | (w, True) \<Rightarrow>
          (case mi_rssi io name a w of (w1, rssi) \<Rightarrow>
             m\<lparr>mo_world := w1, mo_observations := record_observation now now_ms name a rssi (mo_observations m)\<rparr>))"

definition handle_property ::
    "'w monitor_io \<Rightarrow> instant \<Rightarrow> u64 \<Rightarrow> string \<Rightarrow> address \<Rightarrow> device_property \<Rightarrow> 'w monitor \<Rightarrow> 'w monitor" where
  "handle_property io now now_ms adapter a property m =
     (case property of
        RssiChanged rssi \<Rightarrow> m\<lparr>mo_observations := record_observation now now_ms adapter a (Some rssi) (mo_observations m)\<rparr>
      | PairedChanged paired \<Rightarrow>
          let m1 = (if paired then m else m\<lparr>mo_history := history_remove adapter (Some a) (mo_history m)\<rparr>) in
          (if mi_fast_pair io then m1\<lparr>mo_world := mi_note_pairing io adapter a paired (mo_world m1)\<rparr> else m1)
      | ConnectedChanged connected \<Rightarrow>
          let m1 = m\<lparr>mo_signals := invalidate now adapter (Some a) (mo_signals m)\<rparr> in
          (if mi_fast_pair io then m1\<lparr>mo_world := mi_note_connection io a connected (mo_world m1)\<rparr> else m1)
      | ServicesResolvedChanged _ \<Rightarrow> m
      | OtherProperty \<Rightarrow> m)"

definition handle_event ::
    "'w monitor_io \<Rightarrow> instant \<Rightarrow> u64 \<Rightarrow> monitor_event \<Rightarrow> 'w monitor \<Rightarrow> 'w monitor \<times> (failure + unit)" where
  "handle_event io now now_ms event m =
     (case event of
        AdapterAdded name \<Rightarrow> watch_adapter io name m
      | AdapterRemoved name \<Rightarrow>
          (m\<lparr>mo_history := history_remove name None (mo_history m), mo_signals := invalidate now name None (mo_signals m),
             mo_watches := watch_remove_adapter name (mo_watches m)\<rparr>, Inr ())
      | DeviceAdded name a \<Rightarrow> (fst (watch_device io name a (record_discovered_device io now now_ms name a m)), Inr ())
      | DeviceRemoved name a \<Rightarrow>
          (m\<lparr>mo_history := history_remove name (Some a) (mo_history m), mo_signals := invalidate now name (Some a) (mo_signals m),
             mo_watches := watch_remove (device_watch io name a) (mo_watches m)\<rparr>, Inr ())
      | PropertyChanged adapter a property \<Rightarrow> (handle_property io now now_ms adapter a property m, Inr ())
      | Disconnected (Inl e) \<Rightarrow> (m, Inl e)
      | Disconnected (Inr (adapter, a, report)) \<Rightarrow>
          if watched (device_watch io adapter a) (mo_watches m)
          then case mi_fresh_key io (mo_world m) of (w, fresh) \<Rightarrow>
            (m\<lparr>mo_world := w, mo_identities := fst (device_key (mi_fmt io) now fresh adapter a (mo_identities m)),
               mo_history := history_record adapter a report (mo_history m)\<rparr>, Inr ())
          else (m, Inr ())
      | StreamEnded key \<Rightarrow>
          (m\<lparr>mo_watches := watch_remove key (mo_watches m)\<rparr>, Inl [Context (''BlueZ subscription ended: '' @ key)])
      | OtherEvent \<Rightarrow> (m, Inr ()))"

fun watch_adapters :: "'w monitor_io \<Rightarrow> string list \<Rightarrow> 'w monitor \<Rightarrow> 'w monitor \<times> (failure + unit)" where
  "watch_adapters io [] m = (m, Inr ())"
| "watch_adapters io (name # names) m =
     (case watch_adapter io name m of
        (m1, Inl e) \<Rightarrow> (m1, Inl e)
      | (m1, Inr _) \<Rightarrow> watch_adapters io names m1)"

text \<open>\<open>run\<close> up to its loop; the subscriptions of a run that failed are dropped with it.\<close>

definition monitor_start :: "'w monitor_io \<Rightarrow> string list \<Rightarrow> 'w monitor \<Rightarrow> 'w monitor \<times> (failure + unit)" where
  "monitor_start io names m =
     watch_adapters io names (m\<lparr>mo_watches := watch_insert ''session'' (watch_insert ''disconnects'' no_watches)\<rparr>)"

text \<open>One turn of the loop: an event, or an observation that has aged. Each is followed by a change notification.\<close>

datatype turn = Event instant instant u64 monitor_event | Expired instant

definition monitor_turn :: "'w monitor_io \<Rightarrow> turn \<Rightarrow> 'w monitor \<Rightarrow> 'w monitor \<times> (failure + unit)" where
  "monitor_turn io t m =
     (case t of
        Event begun now now_ms event \<Rightarrow>
          handle_event io now now_ms event (m\<lparr>mo_observations := fst (next_expiry begun (mo_observations m))\<rparr>)
      | Expired begun \<Rightarrow> (m\<lparr>mo_observations := fst (next_expiry begun (mo_observations m))\<rparr>, Inr ()))"

fun monitor_turns :: "'w monitor_io \<Rightarrow> turn list \<Rightarrow> 'w monitor \<Rightarrow> 'w monitor \<times> (failure + unit)" where
  "monitor_turns io [] m = (m, Inr ())"
| "monitor_turns io (t # ts) m =
     (case monitor_turn io t m of
        (m1, Inl e) \<Rightarrow> (m1, Inl e)
      | (m1, Inr _) \<Rightarrow> monitor_turns io ts m1)"

subsection \<open>Polling the links\<close>

definition adapter_index :: "string \<Rightarrow> u16 option" where
  "adapter_index name = (if starts_with ''hci'' name then parse_unsigned (drop 3 name) else None)"

record 'w link_io =
  li_adapter_names :: "'w \<Rightarrow> 'w \<times> string list option"
  li_addresses :: "string \<Rightarrow> 'w \<Rightarrow> 'w \<times> address list option"
  li_connected :: "string \<Rightarrow> address \<Rightarrow> 'w \<Rightarrow> 'w \<times> bool"

fun connected_devices :: "'w link_io \<Rightarrow> instant \<Rightarrow> string \<Rightarrow> u16 \<Rightarrow> address list \<Rightarrow> signals \<Rightarrow> 'w \<Rightarrow> 'w \<times> (sig_key \<times> u16) list" where
  "connected_devices io now name index [] s w = (w, [])"
| "connected_devices io now name index (a # as) s w =
     (case li_connected io name a w of (w1, connected) \<Rightarrow>
        (case connected_devices io now name index as s w1 of (w2, peers) \<Rightarrow>
           (w2, (if connected \<and> due now (name, a) s then [((name, a), index)] else []) @ peers)))"

fun adapter_peers :: "'w link_io \<Rightarrow> instant \<Rightarrow> string list \<Rightarrow> signals \<Rightarrow> 'w \<Rightarrow> 'w \<times> (sig_key \<times> u16) list" where
  "adapter_peers io now [] s w = (w, [])"
| "adapter_peers io now (name # names) s w =
     (case adapter_index name of
        None \<Rightarrow> adapter_peers io now names s w
      | Some index \<Rightarrow>
          (case li_addresses io name w of
             (w1, None) \<Rightarrow> adapter_peers io now names s w1
           | (w1, Some addresses) \<Rightarrow>
               (case connected_devices io now name index addresses s w1 of (w2, peers) \<Rightarrow>
                  (case adapter_peers io now names s w2 of (w3, more_peers) \<Rightarrow> (w3, peers @ more_peers)))))"

definition connected_peers :: "'w link_io \<Rightarrow> instant \<Rightarrow> signals \<Rightarrow> 'w \<Rightarrow> 'w \<times> (sig_key \<times> u16) list" where
  "connected_peers io now s w =
     (case li_adapter_names io w of
        (w1, None) \<Rightarrow> (w1, [])
      | (w1, Some names) \<Rightarrow> adapter_peers io now names s w1)"

text \<open>What happens to the cache while the helper is asked is a list of its events.\<close>

definition poll_peer ::
    "instant \<Rightarrow> u64 \<Rightarrow> u64 \<Rightarrow> sig_key \<Rightarrow> sig_event list \<Rightarrow> 'e + rssi_reply \<times> bool \<Rightarrow> signals \<Rightarrow> signals" where
  "poll_peer now now_ms epoch key meanwhile answer s =
     (if \<not> sig_current key epoch s then s
      else sig_accept now now_ms key epoch (reading_of answer) (fold sig_step meanwhile s))"

fun poll_all ::
    "u64 \<Rightarrow> (sig_key \<times> instant \<times> u64 \<times> sig_event list \<times> ('e + rssi_reply \<times> bool)) list \<Rightarrow> signals \<Rightarrow> signals" where
  "poll_all epoch [] s = s"
| "poll_all epoch ((key, now, now_ms, meanwhile, answer) # ps) s =
     poll_all epoch ps (poll_peer now now_ms epoch key meanwhile answer s)"

text \<open>\<open>None\<close>: listing the peers took more than four seconds.\<close>

definition poll ::
    "(sig_key \<times> instant \<times> u64 \<times> sig_event list \<times> ('e + rssi_reply \<times> bool)) list option \<Rightarrow> signals \<Rightarrow> signals" where
  "poll peers s =
     (case begin_poll s of (s1, epoch) \<Rightarrow> (case peers of None \<Rightarrow> s1 | Some ps \<Rightarrow> poll_all epoch ps s1))"

text \<open>A tick of \<open>run\<close>, and whether it publishes a change.\<close>

definition link_tick ::
    "bool \<Rightarrow> instant \<Rightarrow> (sig_key \<times> instant \<times> u64 \<times> sig_event list \<times> ('e + rssi_reply \<times> bool)) list option \<Rightarrow> signals \<Rightarrow> signals \<times> bool" where
  "link_tick sleeping now peers s =
     (if sleeping then (s, False)
      else let s' = poll peers (sweep now s) in (s', sg_entries s \<noteq> [] \<or> sg_entries s' \<noteq> []))"

subsection \<open>Object paths\<close>

fun split_on :: "char \<Rightarrow> string \<Rightarrow> string list" where
  "split_on d [] = [[]]"
| "split_on d (c # cs) =
     (if c = d then [] # split_on d cs
      else case split_on d cs of [] \<Rightarrow> [[c]] | w # ws \<Rightarrow> (c # w) # ws)"

fun split_once :: "char \<Rightarrow> string \<Rightarrow> (string \<times> string) option" where
  "split_once d [] = None"
| "split_once d (c # cs) =
     (if c = d then Some ([], cs) else map_option (\<lambda>(a, b). (c # a, b)) (split_once d cs))"

definition is_hexdigit :: "char \<Rightarrow> bool" where
  "is_hexdigit c \<longleftrightarrow> is_digit c \<or> (let n = of_char c :: nat in (65 \<le> n \<and> n \<le> 70) \<or> (97 \<le> n \<and> n \<le> 102))"

definition replace_char :: "char \<Rightarrow> char \<Rightarrow> string \<Rightarrow> string" where
  "replace_char c d = map (\<lambda>x. if x = c then d else x)"

definition without_prefix :: "string \<Rightarrow> string \<Rightarrow> string option" where
  "without_prefix p s = (if starts_with p s then Some (drop (length p) s) else None)"

definition device_path :: "(string \<Rightarrow> address option) \<Rightarrow> string \<Rightarrow> (string \<times> address) option" where
  "device_path parse path =
     Option.bind (without_prefix ''/org/bluez/'' path) (\<lambda>rest.
     Option.bind (split_once (CHR ''/'') rest) (\<lambda>(adapter, peer).
     Option.bind (without_prefix ''hci'' adapter) (\<lambda>index.
       if index = [] \<or> \<not> list_all is_digit index then None
       else Option.bind (without_prefix ''dev_'' peer) (\<lambda>peer.
         let groups = split_on (CHR ''_'') peer in
         if length groups \<noteq> 6 \<or> (\<exists>g \<in> set groups. length g \<noteq> 2 \<or> \<not> list_all is_hexdigit g) then None
         else map_option (\<lambda>a. (adapter, a)) (parse (replace_char (CHR ''_'') (CHR '':'') peer))))))"

text \<open>The path that \<open>bonded_property\<close> asks for.\<close>

definition bonded_path :: "(address \<Rightarrow> string) \<Rightarrow> string \<Rightarrow> address \<Rightarrow> string" where
  "bonded_path fmt adapter a = ''/org/bluez/'' @ adapter @ ''/dev_'' @ replace_char (CHR '':'') (CHR ''_'') (fmt a)"

subsection \<open>One subscription per object\<close>

definition watches_ok :: "watches \<Rightarrow> bool" where
  "watches_ok w \<longleftrightarrow> hm_ok (wt_handles w) \<and> distinct (map fst (wt_streams w)) \<and> distinct (map snd (wt_streams w))
     \<and> (\<forall>h k. (h, k) \<in> set (wt_streams w) \<longleftrightarrow> hm_get (wt_handles w) k = Some h)
     \<and> (\<forall>h k. (h, k) \<in> set (wt_streams w) \<longrightarrow> h < wt_next w)"

lemma watches_ok_none [simp]: "watches_ok no_watches"
  by (simp add: watches_ok_def no_watches_def)

lemma watches_okI:
  assumes "hm_ok (wt_handles w)" and "distinct (map fst (wt_streams w))" and "distinct (map snd (wt_streams w))"
    and "\<And>h k. (h, k) \<in> set (wt_streams w) \<longleftrightarrow> hm_get (wt_handles w) k = Some h"
    and "\<And>h k. (h, k) \<in> set (wt_streams w) \<Longrightarrow> h < wt_next w"
  shows "watches_ok w"
  using assms by (simp add: watches_ok_def)

lemma watches_okD:
  assumes "watches_ok w"
  shows "hm_ok (wt_handles w)" "distinct (map fst (wt_streams w))" "distinct (map snd (wt_streams w))"
    "(h, k) \<in> set (wt_streams w) \<longleftrightarrow> hm_get (wt_handles w) k = Some h" "(h, k) \<in> set (wt_streams w) \<Longrightarrow> h < wt_next w"
  using assms unfolding watches_ok_def by blast+

lemma watches_ok_insert:
  assumes "watches_ok w"
  shows "watches_ok (watch_insert key w)"
proof (cases "watched key w")
  case False
  note ok = watches_okD [OF assms]
  have new: "hm_get (wt_handles w) key = None" using False by (simp add: watched_def)
  then have "key \<notin> set (map snd (wt_streams w))" by (auto simp: ok(4))
  moreover have "wt_next w \<notin> set (map fst (wt_streams w))" using ok(5) by fastforce
  moreover have "hm_get (wt_handles w) k = Some h \<Longrightarrow> h < Suc (wt_next w)" for h k
    using ok(4,5) [of h k] by simp
  ultimately show ?thesis
    unfolding watch_insert_def if_not_P [OF False] using ok(1-4) new by (intro watches_okI) (auto split: if_splits)
qed (use assms in \<open>simp add: watch_insert_def\<close>)

lemma watches_ok_remove:
  assumes "watches_ok w"
  shows "watches_ok (watch_remove key w)"
proof (cases "hm_get (wt_handles w) key")
  case (Some h)
  note ok = watches_okD [OF assms]
  have "(h, key) \<in> set (wt_streams w)" using Some ok(4) by simp
  then have same: "h' = h \<longleftrightarrow> k = key" if "(h', k) \<in> set (wt_streams w)" for h' k
    using that Some ok(2,4) by (metis eq_key_imp_eq_value option.inject)
  have streams: "(h', k) \<in> set (filter (\<lambda>s. fst s \<noteq> h) (wt_streams w)) \<longleftrightarrow> k \<noteq> key \<and> hm_get (wt_handles w) k = Some h'" for h' k
    using same [of h' k] ok(4) [of h' k] by auto
  have "distinct (map fst (filter (\<lambda>s. fst s \<noteq> h) (wt_streams w)))" "distinct (map snd (filter (\<lambda>s. fst s \<noteq> h) (wt_streams w)))"
    using ok(2,3) by (blast intro: distinct_map_filter)+
  moreover have "h' < wt_next w" if "hm_get (wt_handles w) k = Some h'" for h' k
    using that ok(4,5) [of h' k] by simp
  ultimately show ?thesis
    unfolding watch_remove_def Some option.case using ok(1) streams by (intro watches_okI) (auto split: if_splits)
qed (use assms in \<open>simp add: watch_remove_def\<close>)

lemma watch_remove_get: "hm_get (wt_handles (watch_remove key w)) k = (if k = key then None else hm_get (wt_handles w) k)"
  by (auto simp: watch_remove_def split: option.split)

lemma watches_removed:
  "hm_get (wt_handles (foldl (\<lambda>w key. watch_remove key w) w keys)) k = (if k \<in> set keys then None else hm_get (wt_handles w) k)"
  by (induction keys arbitrary: w) (auto simp: watch_remove_get)

lemma watches_ok_removes: "watches_ok w \<Longrightarrow> watches_ok (foldl (\<lambda>w key. watch_remove key w) w keys)"
  by (induction keys arbitrary: w) (simp_all add: watches_ok_remove)

lemma watch_remove_adapter_get:
  assumes "watches_ok w"
  shows "hm_get (wt_handles (watch_remove_adapter name w)) k = (if of_adapter name k then None else hm_get (wt_handles w) k)"
proof -
  have "k \<notin> fst ` set (wt_handles w) \<Longrightarrow> hm_get (wt_handles w) k = None" by (simp add: hm_get_None_notin)
  then show ?thesis unfolding watch_remove_adapter_def watches_removed by auto
qed

lemma watch_device_ok: "watches_ok (mo_watches m) \<Longrightarrow> watches_ok (mo_watches (fst (watch_device io adapter a m)))"
  by (auto simp: watch_device_def watches_ok_insert split: prod.split sum.split)

lemma watch_devices_ok: "watches_ok (mo_watches m) \<Longrightarrow> watches_ok (mo_watches (watch_devices io adapter as m))"
  unfolding watch_devices_def by (induction as arbitrary: m) (simp_all add: watch_device_ok)

lemma watch_adapter_ok: "watches_ok (mo_watches m) \<Longrightarrow> watches_ok (mo_watches (fst (watch_adapter io name m)))"
  by (auto simp: watch_adapter_def Let_def watches_ok_insert watch_devices_ok split: prod.split sum.split)

lemma watch_adapters_ok: "watches_ok (mo_watches m) \<Longrightarrow> watches_ok (mo_watches (fst (watch_adapters io names m)))"
proof (induction names arbitrary: m)
  case (Cons name names)
  obtain m1 r where w: "watch_adapter io name m = (m1, r)" by force
  then have "watches_ok (mo_watches m1)" using watch_adapter_ok [OF Cons.prems, of io name] by simp
  then show ?case using w Cons.IH by (cases r) simp_all
qed simp

lemma handle_property_watches [simp]: "mo_watches (handle_property io now now_ms adapter a p m) = mo_watches m"
  by (auto simp: handle_property_def Let_def split: device_property.split)

lemma record_discovered_watches [simp]: "mo_watches (record_discovered_device io now now_ms name a m) = mo_watches m"
  by (auto simp: record_discovered_device_def split: prod.split bool.split)

lemma handle_event_ok: "watches_ok (mo_watches m) \<Longrightarrow> watches_ok (mo_watches (fst (handle_event io now now_ms event m)))"
  by (cases event) (auto simp: handle_event_def watch_adapter_ok watch_device_ok watches_ok_remove watches_ok_removes
      watch_remove_adapter_def split: sum.split prod.split)

lemma monitor_turns_ok: "watches_ok (mo_watches m) \<Longrightarrow> watches_ok (mo_watches (fst (monitor_turns io ts m)))"
proof (induction ts arbitrary: m)
  case (Cons t ts)
  have "watches_ok (mo_watches (fst (monitor_turn io t m)))"
    using Cons.prems by (auto simp: monitor_turn_def handle_event_ok split: turn.split)
  then show ?case using Cons.IH by (auto split: prod.split sum.split)
qed simp

text \<open>
  C30. However BlueZ's objects come and go, each of them is subscribed to at most once: after any run of events the
  running streams are exactly those with a handle, one for each watched object, so that no event of an object is
  handled twice and none of a forgotten subscription is handled at all.
\<close>
theorem one_subscription_per_object:
  assumes "monitor_start io names m0 = (m, start)" and "monitor_turns io ts m = (m', r)"
  shows "distinct (map snd (wt_streams (mo_watches m')))
    \<and> (\<forall>handle key. (handle, key) \<in> set (wt_streams (mo_watches m')) \<longleftrightarrow> hm_get (wt_handles (mo_watches m')) key = Some handle)"
proof -
  have "watches_ok (mo_watches (fst (monitor_start io names m0)))"
    unfolding monitor_start_def by (intro watch_adapters_ok) (simp add: watches_ok_insert)
  then have "watches_ok (mo_watches m')" using assms monitor_turns_ok [of m io ts] by simp
  then show ?thesis using watches_okD(3,4) by blast
qed


definition demo_monitor_io :: "nat monitor_io" where
  "demo_monitor_io = \<lparr>mi_watch_adapter = (\<lambda>_ w. (Suc w, Inr ())), mi_addresses = (\<lambda>_ w. (w, Inr [[1]])),
     mi_watch_device = (\<lambda>_ _ w. (Suc w, Inr ())), mi_discovering = (\<lambda>_ w. (w, False)), mi_rssi = (\<lambda>_ _ w. (w, None)),
     mi_fast_pair = False, mi_note_pairing = (\<lambda>_ _ _ w. w), mi_note_connection = (\<lambda>_ _ w. w),
     mi_fmt = (\<lambda>a. if a = [1] then ''A'' else ''B''), mi_fresh_key = (\<lambda>w. (w, ''k''))\<rparr>"

definition demo_monitor :: "nat monitor" where
  "demo_monitor = \<lparr>mo_watches = no_watches, mo_observations = [], mo_signals = signals_default, mo_history = [],
     mo_identities = \<lparr>id_state = registry_default, id_scheduled = []\<rparr>, mo_world = 0\<rparr>"

text \<open>Two adapters whose names begin alike; the first is unplugged.\<close>

definition demo_run :: "nat monitor \<times> (failure + unit)" where
  "demo_run = monitor_turns demo_monitor_io [Event 0 0 0 (DeviceAdded ''hci1'' [1]), Event 0 0 0 (DeviceAdded ''hci1'' [2]),
       Event 0 0 0 (AdapterRemoved ''hci1'')]
     (fst (monitor_start demo_monitor_io [''hci1'', ''hci10''] demo_monitor))"

lemma one_subscription_per_object_witness:
  "distinct (map snd (wt_streams (mo_watches (fst demo_run))))"
proof -
  obtain m start where start: "monitor_start demo_monitor_io [''hci1'', ''hci10''] demo_monitor = (m, start)" by fastforce
  obtain m' r where run: "monitor_turns demo_monitor_io [Event 0 0 0 (DeviceAdded ''hci1'' [1]), Event 0 0 0 (DeviceAdded ''hci1'' [2]),
       Event 0 0 0 (AdapterRemoved ''hci1'')] m = (m', r)" by fastforce
  have "fst demo_run = m'" unfolding demo_run_def start fst_conv run by (rule refl)
  then show ?thesis using one_subscription_per_object [OF start run] by simp
qed


subsection \<open>Which object paths name a device\<close>

lemma without_prefix_Some: "without_prefix p s = Some r \<longleftrightarrow> s = p @ r"
  by (auto simp: without_prefix_def starts_with_append)

lemma split_once_Some: "split_once d s = Some (a, b) \<longleftrightarrow> s = a @ d # b \<and> d \<notin> set a"
proof (induction s arbitrary: a)
  case (Cons c s)
  then show ?case by (cases a) auto
qed simp

lemma split_on_nonempty: "split_on d s \<noteq> []"
  by (induction s) (auto split: list.split)

lemma join_Cons: "ws \<noteq> [] \<Longrightarrow> join sep (w # ws) = w @ sep @ join sep ws"
  by (cases ws) simp_all

lemma join_split_on: "join [d] (split_on d s) = s"
proof (induction s)
  case (Cons c s)
  then show ?case using split_on_nonempty [of d s]
    by (cases "split_on d s"; cases "tl (split_on d s)") (auto simp: join_Cons)
qed simp

lemma split_on_plain: "d \<notin> set w \<Longrightarrow> split_on d w = [w]"
  by (induction w) auto

lemma split_on_append: "d \<notin> set w \<Longrightarrow> split_on d (w @ d # s) = w # split_on d s"
  by (induction w) auto

lemma split_on_join: "ws \<noteq> [] \<Longrightarrow> \<forall>w \<in> set ws. d \<notin> set w \<Longrightarrow> split_on d (join [d] ws) = ws"
proof (induction ws)
  case (Cons w ws)
  then show ?case by (cases "ws = []") (simp_all add: join_Cons split_on_plain split_on_append)
qed simp

lemma replace_join: "\<forall>w \<in> set ws. c \<notin> set w \<Longrightarrow> replace_char c d (join [c] ws) = join [d] ws"
proof (induction ws)
  case (Cons w ws)
  have "replace_char c d w = w" using Cons.prems by (auto simp: replace_char_def intro!: map_idI)
  then show ?case using Cons by (cases "ws = []") (auto simp: join_Cons replace_char_def)
qed (simp add: replace_char_def)

lemma hexdigit_plain: "list_all is_hexdigit w \<Longrightarrow> CHR ''_'' \<notin> set w"
  by (auto simp: list_all_iff is_hexdigit_def is_digit_def Let_def)

lemma digits_plain: "list_all is_digit w \<Longrightarrow> CHR ''/'' \<notin> set w"
  by (auto simp: list_all_iff is_digit_def)

definition address_groups :: "string list \<Rightarrow> bool" where
  "address_groups gs \<longleftrightarrow> length gs = 6 \<and> (\<forall>g \<in> set gs. length g = 2 \<and> list_all is_hexdigit g)"

text \<open>
  A disconnect signal is attributed to a device exactly when its object path is that of one: an adapter called
  \<open>hci\<close> and a number, and under it \<open>dev_\<close> and six groups of two hexadecimal digits. The adapter and the address
  are then those the path was built from; every other path - a deeper object, a vendor's adapter name, a missing
  digit - is ignored.
\<close>
theorem device_path_exact:
  "device_path parse path = Some (adapter, a) \<longleftrightarrow>
     (\<exists>index gs. adapter = ''hci'' @ index \<and> index \<noteq> [] \<and> list_all is_digit index \<and> address_groups gs
        \<and> parse (join '':'' gs) = Some a \<and> path = ''/org/bluez/'' @ adapter @ ''/dev_'' @ join ''_'' gs)"
  (is "?lhs = ?rhs")
proof
  assume ?lhs
  then obtain rest peer index tail where 1: "path = ''/org/bluez/'' @ rest" "rest = adapter @ CHR ''/'' # peer"
      "adapter = ''hci'' @ index" "index \<noteq> []" "list_all is_digit index" "peer = ''dev_'' @ tail"
    and gs: "address_groups (split_on (CHR ''_'') tail)" "parse (replace_char (CHR ''_'') (CHR '':'') tail) = Some a"
    unfolding device_path_def address_groups_def
    by (auto simp: bind_eq_Some_conv without_prefix_Some split_once_Some Let_def split: if_splits)
  have "\<forall>g \<in> set (split_on (CHR ''_'') tail). CHR ''_'' \<notin> set g"
    using gs(1) by (auto simp: address_groups_def dest: hexdigit_plain)
  from replace_join [OF this] have "replace_char (CHR ''_'') (CHR '':'') tail = join '':'' (split_on (CHR ''_'') tail)"
    by (simp add: join_split_on)
  then show ?rhs using 1 gs join_split_on [of "CHR ''_''" tail]
    by (intro exI [of _ index] exI [of _ "split_on (CHR ''_'') tail"]) simp
next
  assume ?rhs
  then obtain index gs where 1: "adapter = ''hci'' @ index" "index \<noteq> []" "list_all is_digit index" "address_groups gs"
      "parse (join '':'' gs) = Some a" "path = ''/org/bluez/'' @ adapter @ ''/dev_'' @ join ''_'' gs"
    by blast
  have plain: "\<forall>g \<in> set gs. CHR ''_'' \<notin> set g" using 1(4) by (auto simp: address_groups_def dest: hexdigit_plain)
  have split: "split_on (CHR ''_'') (join ''_'' gs) = gs"
    using 1(4) plain by (intro split_on_join) (auto simp: address_groups_def)
  have rep: "replace_char (CHR ''_'') (CHR '':'') (join ''_'' gs) = join '':'' gs" by (rule replace_join [OF plain])
  have "without_prefix ''/org/bluez/'' path = Some (adapter @ CHR ''/'' # (''dev_'' @ join ''_'' gs))"
    using 1(6) by (simp add: without_prefix_Some)
  moreover have "split_once (CHR ''/'') (adapter @ CHR ''/'' # (''dev_'' @ join ''_'' gs)) = Some (adapter, ''dev_'' @ join ''_'' gs)"
    using 1(1,3) digits_plain by (simp add: split_once_Some)
  moreover have "without_prefix ''hci'' adapter = Some index" using 1(1) by (simp add: without_prefix_Some)
  moreover have "without_prefix ''dev_'' (''dev_'' @ join ''_'' gs) = Some (join ''_'' gs)" by (simp only: without_prefix_Some)
  moreover have "\<not> (length gs \<noteq> 6 \<or> (\<exists>g \<in> set gs. length g \<noteq> 2 \<or> \<not> list_all is_hexdigit g))"
    using 1(4) by (auto simp: address_groups_def)
  ultimately show ?lhs
    using 1(2,3,5) by (simp add: device_path_def split rep del: append_Cons append_Nil)
qed

end
