(* ===== verification/BluezSession.thy ===== *)
theory BluezSession
  imports DeviceOps
begin

text \<open>
  The adapter side of \<open>src/bluez.rs\<close>: discovery tasks, power, the startup policy and reconnection after sleep, and
  the checks on peers of object transfers. BlueZ, rfkill, the stores and the clock act on a world \<open>'w\<close>; a running
  discovery is a handle \<open>'h\<close> whose task ends when the world says so.
\<close>

record ('w, 'h) bluez_session =
  bs_tasks :: "(string, 'h) hmap"
  bs_world :: 'w

record ('w, 'h) session_io =
  si_adapter_names :: "'w \<Rightarrow> 'w \<times> (DeviceOps.bluer_error + string list)"
  si_open_adapter :: "string \<Rightarrow> 'w \<Rightarrow> 'w \<times> (DeviceOps.bluer_error + unit)"
  si_address :: "string \<Rightarrow> 'w \<Rightarrow> 'w \<times> (DeviceOps.bluer_error + address)"
  si_fmt :: "address \<Rightarrow> string"
  si_powered :: "string \<Rightarrow> 'w \<Rightarrow> 'w \<times> (DeviceOps.bluer_error + bool)"
  si_set_powered :: "string \<Rightarrow> bool \<Rightarrow> 'w \<Rightarrow> 'w \<times> (DeviceOps.bluer_error + unit)"
  si_discover :: "string \<Rightarrow> 'w \<Rightarrow> 'w \<times> (DeviceOps.bluer_error + 'h)"
  si_finished :: "'w \<Rightarrow> 'h \<Rightarrow> bool"
  si_abort :: "'h \<Rightarrow> 'w \<Rightarrow> 'w"
  si_schedule_expiry :: "'w \<Rightarrow> 'w"
  si_radio :: "('w, radio_state) act"
  si_rfkill :: "bool \<Rightarrow> ('w, unit) act"
  si_digest :: "string \<Rightarrow> string"

definition on_world :: "('w, 'a) act \<Rightarrow> (('w, 'h) bluez_session, 'a) act" where
  "on_world m s = (case m (bs_world s) of (w, r) \<Rightarrow> (s\<lparr>bs_world := w\<rparr>, r))"

definition bluez_call :: "string \<Rightarrow> ('w \<Rightarrow> 'w \<times> (DeviceOps.bluer_error + 'a)) \<Rightarrow> (('w, 'h) bluez_session, 'a) act" where
  "bluez_call operation io = on_world (with_operation operation io)"

subsection \<open>Adapters\<close>

fun open_adapters :: "('w, 'h) session_io \<Rightarrow> string list \<Rightarrow> (('w, 'h) bluez_session, string list) act" where
  "open_adapters io [] = act_return []"
| "open_adapters io (name # names) =
     act_bind (bluez_call (''open adapter '' @ name) (si_open_adapter io name)) (\<lambda>_.
     act_bind (open_adapters io names) (\<lambda>rest. act_return (name # rest)))"

definition adapters :: "('w, 'h) session_io \<Rightarrow> (('w, 'h) bluez_session, string list) act" where
  "adapters io = act_bind (bluez_call ''list BlueZ adapters'' (si_adapter_names io)) (open_adapters io)"

definition unavailable :: "string \<Rightarrow> failure" where "unavailable message = [Classified KDeviceUnavailable message]"

definition adapter_key :: "('w, 'h) session_io \<Rightarrow> string \<Rightarrow> (('w, 'h) bluez_session, string) act" where
  "adapter_key io name =
     act_bind (bluez_call ''read adapter identity'' (si_address io name)) (\<lambda>a. act_return (''adapter-'' @ si_digest io (si_fmt io a)))"

fun find_adapter_in :: "('w, 'h) session_io \<Rightarrow> string \<Rightarrow> string list \<Rightarrow> (('w, 'h) bluez_session, string) act" where
  "find_adapter_in io key [] = act_fail (unavailable ''Bluetooth adapter is no longer available'')"
| "find_adapter_in io key (name # names) =
     act_bind (adapter_key io name) (\<lambda>k. if k = key then act_return name else find_adapter_in io key names)"

definition find_adapter :: "('w, 'h) session_io \<Rightarrow> string \<Rightarrow> (('w, 'h) bluez_session, string) act" where
  "find_adapter io key = act_bind (adapters io) (find_adapter_in io key)"

subsection \<open>Discovery\<close>

definition discovering :: "('w, 'h) session_io \<Rightarrow> string \<Rightarrow> ('w, 'h) bluez_session \<Rightarrow> bool" where
  "discovering io name s = (case hm_get (bs_tasks s) name of None \<Rightarrow> False | Some h \<Rightarrow> \<not> si_finished io (bs_world s) h)"

definition start_discovery :: "('w, 'h) session_io \<Rightarrow> string \<Rightarrow> (('w, 'h) bluez_session, bool) act" where
  "start_discovery io name s =
     (if discovering io name s then (s, Inr False)
      else case bluez_call (''start discovery on '' @ name) (si_discover io name) s of
        (s1, Inl e) \<Rightarrow> (s1, Inl e)
      | (s1, Inr h) \<Rightarrow> (s1\<lparr>bs_tasks := hm_insert name h (bs_tasks s1)\<rparr>, Inr True))"

definition stop_discovery :: "('w, 'h) session_io \<Rightarrow> string option \<Rightarrow> ('w, 'h) bluez_session \<Rightarrow> ('w, 'h) bluez_session" where
  "stop_discovery io adapter s =
     (let (s1, stopped) =
        (case adapter of
           Some name \<Rightarrow>
             (case hm_get (bs_tasks s) name of
                None \<Rightarrow> (s, False)
              | Some h \<Rightarrow> (s\<lparr>bs_tasks := hm_remove name (bs_tasks s), bs_world := si_abort io h (bs_world s)\<rparr>, True))
         | None \<Rightarrow>
             (s\<lparr>bs_tasks := [], bs_world := foldl (\<lambda>w h. si_abort io h w) (bs_world s) (map snd (bs_tasks s))\<rparr>,
              bs_tasks s \<noteq> []))
      in if stopped then s1\<lparr>bs_world := si_schedule_expiry io (bs_world s1)\<rparr> else s1)"

definition set_adapter_scanning :: "('w, 'h) session_io \<Rightarrow> string \<Rightarrow> bool \<Rightarrow> (('w, 'h) bluez_session, unit) act" where
  "set_adapter_scanning io name enabled =
     (if enabled
      then act_bind (bluez_call ''read adapter power'' (si_powered io name)) (\<lambda>powered.
        if \<not> powered then act_fail (rejected_by ''Bluetooth discovery requires a powered adapter'')
        else act_bind (start_discovery io name) (\<lambda>_. act_return ()))
      else act_do (stop_discovery io (Some name)))"

text \<open>The adapters started are known to the caller even if a later step fails.\<close>

fun discover_powered :: "('w, 'h) session_io \<Rightarrow> string list \<Rightarrow> bool \<Rightarrow> string list \<Rightarrow> ('w, 'h) bluez_session
    \<Rightarrow> ('w, 'h) bluez_session \<times> string list \<times> (failure + unit)" where
  "discover_powered io [] eligible started s =
     (s, started, if eligible then Inr () else Inl (rejected_by ''Bluetooth discovery requires at least one powered adapter''))"
| "discover_powered io (name # names) eligible started s =
     (case bluez_call ''read adapter power'' (si_powered io name) s of
        (s1, Inl e) \<Rightarrow> (s1, started, Inl e)
      | (s1, Inr powered) \<Rightarrow>
          if \<not> powered then discover_powered io names eligible started s1
          else case start_discovery io name s1 of
            (s2, Inl e) \<Rightarrow> (s2, started, Inl e)
          | (s2, Inr new) \<Rightarrow> discover_powered io names True (if new then started @ [name] else started) s2)"

definition discover_powered_adapters ::
    "('w, 'h) session_io \<Rightarrow> ('w, 'h) bluez_session \<Rightarrow> ('w, 'h) bluez_session \<times> string list \<times> (failure + unit)" where
  "discover_powered_adapters io s =
     (case adapters io s of (s1, Inl e) \<Rightarrow> (s1, [], Inl e) | (s1, Inr names) \<Rightarrow> discover_powered io names False [] s1)"

definition rollback_discovery :: "('w, 'h) session_io \<Rightarrow> string list \<Rightarrow> ('w, 'h) bluez_session \<Rightarrow> ('w, 'h) bluez_session" where
  "rollback_discovery io names s = foldl (\<lambda>s name. stop_discovery io (Some name) s) s names"

definition start_global_discovery :: "('w, 'h) session_io \<Rightarrow> (('w, 'h) bluez_session, unit) act" where
  "start_global_discovery io s =
     (case discover_powered_adapters io s of
        (s1, started, Inl e) \<Rightarrow> (rollback_discovery io started s1, Inl e)
      | (s1, started, Inr _) \<Rightarrow> (s1, Inr ()))"

definition set_scanning :: "('w, 'h) session_io \<Rightarrow> string option \<Rightarrow> bool \<Rightarrow> (('w, 'h) bluez_session, unit) act" where
  "set_scanning io adapter enabled =
     (case adapter of
        Some key \<Rightarrow> act_bind (find_adapter io key) (\<lambda>name. set_adapter_scanning io name enabled)
      | None \<Rightarrow> if enabled then start_global_discovery io else act_do (stop_discovery io None))"

subsection \<open>Power\<close>

definition unblock_radio :: "('w, 'h) session_io \<Rightarrow> radio_state \<Rightarrow> bool \<Rightarrow> ('w, unit) act" where
  "unblock_radio io radio no_adapters w =
     (if \<not> ra_rfkill_present radio \<or> \<not> ra_soft_blocked radio then (w, Inr ())
      else case si_rfkill io False w of
        (w1, Inr _) \<Rightarrow> (w1, Inr ())
      | (w1, Inl e) \<Rightarrow>
          (w1, if no_adapters then Inl (rejected_by (''could not unblock Bluetooth through rfkill: '' @ error_chain e))
               else Inr ()))"

definition set_one_adapter_power :: "('w, 'h) session_io \<Rightarrow> string \<Rightarrow> bool \<Rightarrow> (('w, 'h) bluez_session, unit) act" where
  "set_one_adapter_power io key powered =
     act_bind (find_adapter io key) (\<lambda>name.
     act_then (bluez_call ''set adapter power'' (si_set_powered io name powered))
       (act_when (\<not> powered) (act_do (stop_discovery io (Some name)))))"

fun set_adapters_power :: "('w, 'h) session_io \<Rightarrow> string list \<Rightarrow> bool \<Rightarrow> (('w, 'h) bluez_session, unit) act" where
  "set_adapters_power io [] powered = act_return ()"
| "set_adapters_power io (name # names) powered =
     act_then (bluez_call (if powered then ''enable adapter power'' else ''disable adapter power'') (si_set_powered io name powered))
       (set_adapters_power io names powered)"

definition update_rfkill :: "('w, 'h) session_io \<Rightarrow> radio_state \<Rightarrow> bool \<Rightarrow> 'w \<Rightarrow> 'w" where
  "update_rfkill io radio powered w =
     (if powered \<or> \<not> ra_rfkill_present radio \<or> ra_soft_blocked radio then w else fst (si_rfkill io True w))"

definition set_all_adapter_power :: "('w, 'h) session_io \<Rightarrow> bool \<Rightarrow> (('w, 'h) bluez_session, unit) act" where
  "set_all_adapter_power io powered =
     act_bind (on_world (si_radio io)) (\<lambda>radio.
       if powered \<and> ra_hard_blocked radio then act_fail (rejected_by ''Bluetooth is disabled by a hardware radio switch'')
       else act_bind (adapters io) (\<lambda>names.
         act_then (act_when powered (on_world (unblock_radio io radio (names = []))))
        (act_then (set_adapters_power io names powered)
        (act_then (act_do (\<lambda>s. s\<lparr>bs_world := update_rfkill io radio powered (bs_world s)\<rparr>))
          (act_when (\<not> powered) (act_do (stop_discovery io None)))))))"

definition set_power :: "('w, 'h) session_io \<Rightarrow> string option \<Rightarrow> bool \<Rightarrow> (('w, 'h) bluez_session, unit) act" where
  "set_power io adapter powered =
     (case adapter of Some key \<Rightarrow> set_one_adapter_power io key powered | None \<Rightarrow> set_all_adapter_power io powered)"

subsection \<open>Startup and sleep\<close>

record 'w runtime_io =
  ri_launch_state :: "'w \<Rightarrow> string"
  ri_runtime :: "'w \<Rightarrow> runtime_state"
  ri_reconnects :: "string \<Rightarrow> 'w \<Rightarrow> bool"
  ri_spawn_reconnect :: "string \<Rightarrow> 'w \<Rightarrow> 'w"

fun restore_adapters :: "('w, 'h) session_io \<Rightarrow> (string, bool) hmap \<Rightarrow> string list \<Rightarrow> (('w, 'h) bluez_session, unit) act" where
  "restore_adapters io saved [] = act_return ()"
| "restore_adapters io saved (name # names) =
     act_bind (bluez_call ''read adapter identity during restore'' (si_address io name)) (\<lambda>a.
     act_then (case hm_get saved (''adapter-'' @ si_digest io (si_fmt io a)) of
         None \<Rightarrow> act_return ()
       | Some powered \<Rightarrow> bluez_call ''restore adapter power'' (si_set_powered io name powered))
       (restore_adapters io saved names))"

definition restore_adapter_power :: "('w, 'h) session_io \<Rightarrow> (string, bool) hmap \<Rightarrow> (('w, 'h) bluez_session, unit) act" where
  "restore_adapter_power io saved = act_bind (adapters io) (restore_adapters io saved)"

definition restore_runtime_state ::
    "('w, 'h) session_io \<Rightarrow> 'w runtime_io \<Rightarrow> (('w, 'h) bluez_session, unit) act" where
  "restore_runtime_state io rt s =
     (let runtime = ri_runtime rt (bs_world s) in
      act_then (restore_adapter_power io (ru_adapter_power runtime))
        (act_do (\<lambda>s. s\<lparr>bs_world := foldl (\<lambda>w key. if ri_reconnects rt key w then ri_spawn_reconnect rt key w else w)
            (bs_world s) (ru_connected_device_keys runtime)\<rparr>)) s)"

text \<open>A failure is logged; the snapshot taken after a change of power is left out.\<close>

definition apply_startup_policy ::
    "('w, 'h) session_io \<Rightarrow> 'w runtime_io \<Rightarrow> ('w, 'h) bluez_session \<Rightarrow> ('w, 'h) bluez_session" where
  "apply_startup_policy io rt s =
     fst ((let launch = ri_launch_state rt (bs_world s) in
       if launch = ''enable'' then set_power io None True
       else if launch = ''disable'' then set_power io None False
       else restore_runtime_state io rt) s)"

text \<open>\<open>reconnect_while_awake\<close>: what it asks of the device found by its key; \<open>sleep\<close> takes seconds.\<close>

record 'w reconnect_io =
  rw_sleep :: "nat \<Rightarrow> 'w \<Rightarrow> 'w"
  rw_allowed :: "'w \<Rightarrow> bool"
  rw_find :: "'w \<Rightarrow> 'w \<times> bool"
  rw_paired :: "('w, bool) act"
  rw_blocked :: "('w, bool) act"
  rw_connect :: "json \<Rightarrow> ('w, unit) act"

definition reconnect_params :: json where "reconnect_params = JObject [(''power_on'', JBool False)]"

definition may_reconnect :: "'w reconnect_io \<Rightarrow> ('w, bool) act" where
  "may_reconnect rc w =
     (if \<not> rw_allowed rc w then (w, Inr False)
      else case rw_find rc w of
        (w1, False) \<Rightarrow> (w1, Inr False)
      | (w1, True) \<Rightarrow>
          act_bind (rw_paired rc) (\<lambda>paired. if \<not> paired then act_return False
            else act_bind (rw_blocked rc) (\<lambda>blocked. act_return (\<not> blocked))) w1)"

fun reconnect_attempts :: "'w reconnect_io \<Rightarrow> nat list \<Rightarrow> ('w, unit) act" where
  "reconnect_attempts rc [] w = (w, Inr ())"
| "reconnect_attempts rc (k # rest) w =
     (case may_reconnect rc (rw_sleep rc (2 ^ k) w) of
        (w1, Inl e) \<Rightarrow> (w1, Inl e)
      | (w1, Inr False) \<Rightarrow> (w1, Inr ())
      | (w1, Inr True) \<Rightarrow>
          (case rw_connect rc reconnect_params w1 of
             (w2, Inr _) \<Rightarrow> (w2, Inr ())
           | (w2, Inl e) \<Rightarrow> if k < 2 then reconnect_attempts rc rest w2 else (w2, Inl e)))"

definition reconnect_while_awake :: "'w reconnect_io \<Rightarrow> ('w, unit) act" where
  "reconnect_while_awake rc = reconnect_attempts rc [0, 1, 2]"

subsection \<open>Adapter settings and peers of transfers\<close>

record 'w adapter_io =
  ai_set_alias :: "string \<Rightarrow> string \<Rightarrow> 'w \<Rightarrow> 'w \<times> (DeviceOps.bluer_error + unit)"
  ai_set_discoverable :: "string \<Rightarrow> bool \<Rightarrow> 'w \<Rightarrow> 'w \<times> (DeviceOps.bluer_error + unit)"
  ai_set_pairable :: "string \<Rightarrow> bool \<Rightarrow> 'w \<Rightarrow> 'w \<times> (DeviceOps.bluer_error + unit)"
  ai_set_discoverable_timeout :: "string \<Rightarrow> u32 \<Rightarrow> 'w \<Rightarrow> 'w \<times> (DeviceOps.bluer_error + unit)"
  ai_set_pairable_timeout :: "string \<Rightarrow> u32 \<Rightarrow> 'w \<Rightarrow> 'w \<times> (DeviceOps.bluer_error + unit)"

definition adapter_operation ::
    "('w, 'h) session_io \<Rightarrow> 'w adapter_io \<Rightarrow> string \<Rightarrow> adapter_operation \<Rightarrow> json \<Rightarrow> (('w, 'h) bluez_session, unit) act" where
  "adapter_operation io ai key operation params =
     act_bind (find_adapter io key) (\<lambda>name.
       let label = op_as_str adapter_operations operation @ '' on adapter '' @ key in
       case operation of
         ASetAlias \<Rightarrow> act_bind (param (require_string params ''alias'')) (\<lambda>v. bluez_call label (ai_set_alias ai name v))
       | ASetDiscoverable \<Rightarrow>
           act_bind (param (require_bool params ''discoverable'')) (\<lambda>v. bluez_call label (ai_set_discoverable ai name v))
       | ASetPairable \<Rightarrow> act_bind (param (require_bool params ''pairable'')) (\<lambda>v. bluez_call label (ai_set_pairable ai name v))
       | ASetDiscoverableTimeout \<Rightarrow>
           act_bind (param (require_u32 params ''timeout'')) (\<lambda>v. bluez_call label (ai_set_discoverable_timeout ai name v))
       | ASetPairableTimeout \<Rightarrow>
           act_bind (param (require_u32 params ''timeout'')) (\<lambda>v. bluez_call label (ai_set_pairable_timeout ai name v)))"

record 'w peer_io =
  pe_addresses :: "string \<Rightarrow> 'w \<Rightarrow> 'w \<times> (DeviceOps.bluer_error + address list)"
  pe_open :: "string \<Rightarrow> address \<Rightarrow> 'w \<Rightarrow> 'w \<times> (DeviceOps.bluer_error + unit)"
  pe_device_key :: "string \<Rightarrow> address \<Rightarrow> 'w \<Rightarrow> 'w \<times> string"
  pe_paired :: "string \<Rightarrow> address \<Rightarrow> 'w \<Rightarrow> 'w \<times> (DeviceOps.bluer_error + bool)"
  pe_blocked :: "string \<Rightarrow> address \<Rightarrow> 'w \<Rightarrow> 'w \<times> (DeviceOps.bluer_error + bool)"
  pe_alias :: "string \<Rightarrow> address \<Rightarrow> 'w \<Rightarrow> 'w \<times> (DeviceOps.bluer_error + string)"
  pe_parse :: "string \<Rightarrow> string + address"

fun find_among :: "'w peer_io \<Rightarrow> string \<Rightarrow> string \<Rightarrow> address list \<Rightarrow> (('w, 'h) bluez_session, address option) act" where
  "find_among pe key name [] = act_return None"
| "find_among pe key name (a # as) =
     act_bind (bluez_call ''open BlueZ device'' (pe_open pe name a)) (\<lambda>_.
     act_bind (on_world (\<lambda>w. case pe_device_key pe name a w of (w1, k) \<Rightarrow> (w1, Inr k))) (\<lambda>k.
       if k = key then act_return (Some a) else find_among pe key name as))"

fun find_device_in :: "'w peer_io \<Rightarrow> string \<Rightarrow> string list \<Rightarrow> (('w, 'h) bluez_session, string \<times> address) act" where
  "find_device_in pe key [] = act_fail (unavailable ''Bluetooth device is no longer available'')"
| "find_device_in pe key (name # names) =
     act_bind (bluez_call ''list adapter devices'' (pe_addresses pe name)) (\<lambda>addresses.
     act_bind (find_among pe key name addresses) (\<lambda>found.
       case found of Some a \<Rightarrow> act_return (name, a) | None \<Rightarrow> find_device_in pe key names))"

definition find_bluez_device ::
    "('w, 'h) session_io \<Rightarrow> 'w peer_io \<Rightarrow> string \<Rightarrow> (('w, 'h) bluez_session, string \<times> address) act" where
  "find_bluez_device io pe key = act_bind (adapters io) (find_device_in pe key)"

definition validate_obex_send_state :: "bool \<Rightarrow> bool \<Rightarrow> failure + unit" where
  "validate_obex_send_state paired blocked =
     (if \<not> paired then Inl (rejected_by ''outgoing transfers require a paired Bluetooth device'')
      else if blocked then Inl (rejected_by ''outgoing transfers are disabled for blocked Bluetooth devices'')
      else Inr ())"

text \<open>The source and destination addresses of an outgoing transfer.\<close>

definition obex_target ::
    "('w, 'h) session_io \<Rightarrow> 'w peer_io \<Rightarrow> string \<Rightarrow> (('w, 'h) bluez_session, string \<times> string) act" where
  "obex_target io pe key =
     act_bind (find_bluez_device io pe key) (\<lambda>(name, a).
     act_bind (bluez_call ''read outgoing OBEX paired state'' (pe_paired pe name a)) (\<lambda>paired.
     act_bind (bluez_call ''read outgoing OBEX blocked state'' (pe_blocked pe name a)) (\<lambda>blocked.
     act_then (act_of (validate_obex_send_state paired blocked))
       (act_bind (bluez_call ''read OBEX source address'' (si_address io name)) (\<lambda>source. act_return (si_fmt io source, si_fmt io a))))))"

definition parse_obex_address :: "'w peer_io \<Rightarrow> string \<Rightarrow> string \<Rightarrow> failure + address" where
  "parse_obex_address pe v role =
     (case pe_parse pe v of
        Inr a \<Rightarrow> Inr a
      | Inl e \<Rightarrow> Inl [Classified KInvalidInput (''parse incoming OBEX '' @ role @ '' address: '' @ e)])"

fun find_adapter_address :: "('w, 'h) session_io \<Rightarrow> address \<Rightarrow> string list \<Rightarrow> (('w, 'h) bluez_session, string) act" where
  "find_adapter_address io a [] = act_fail (unavailable ''incoming OBEX adapter is unavailable'')"
| "find_adapter_address io a (name # names) =
     act_bind (bluez_call ''read adapter address'' (si_address io name)) (\<lambda>found.
       if found = a then act_return name else find_adapter_address io a names)"

text \<open>The device key and the name of the sender of an incoming transfer.\<close>

definition validated_obex_remote ::
    "'w peer_io \<Rightarrow> string \<Rightarrow> address \<Rightarrow> (('w, 'h) bluez_session, string \<times> string) act" where
  "validated_obex_remote pe name a =
     act_then (bluez_call ''open incoming OBEX device'' (pe_open pe name a))
     (act_bind (bluez_call ''read device paired state'' (pe_paired pe name a)) (\<lambda>paired.
      act_bind (bluez_call ''read device blocked state'' (pe_blocked pe name a)) (\<lambda>blocked.
        if \<not> paired \<or> blocked
        then act_fail (rejected_by (if blocked then ''incoming transfers are disabled for blocked Bluetooth devices''
           else ''incoming transfers require a paired Bluetooth device''))
        else act_bind (on_world (\<lambda>w. case pe_device_key pe name a w of (w1, k) \<Rightarrow> (w1, Inr k))) (\<lambda>key.
          act_bind (bluez_call ''read device alias'' (pe_alias pe name a)) (\<lambda>alias. act_return (key, alias))))))"

definition obex_remote ::
    "('w, 'h) session_io \<Rightarrow> 'w peer_io \<Rightarrow> string \<Rightarrow> string \<Rightarrow> (('w, 'h) bluez_session, string \<times> string) act" where
  "obex_remote io pe source destination =
     act_bind (act_of (parse_obex_address pe source ''adapter'')) (\<lambda>source_address.
     act_bind (act_of (parse_obex_address pe destination ''device'')) (\<lambda>a.
     act_bind (adapters io) (\<lambda>names.
     act_bind (find_adapter_address io source_address names) (\<lambda>name. validated_obex_remote pe name a))))"

subsection \<open>Starting discovery everywhere or not at all\<close>

text \<open>A task that has ended stays ended, whatever BlueZ is asked.\<close>

definition stays_finished :: "('w, 'h) session_io \<Rightarrow> bool" where
  "stays_finished io \<longleftrightarrow>
     (\<forall>w h. si_finished io w h \<longrightarrow>
        si_finished io (fst (si_adapter_names io w)) h \<and> si_finished io (si_schedule_expiry io w) h
        \<and> (\<forall>name. si_finished io (fst (si_open_adapter io name w)) h \<and> si_finished io (fst (si_powered io name w)) h
             \<and> si_finished io (fst (si_discover io name w)) h)
        \<and> (\<forall>h'. si_finished io (si_abort io h' w) h))"

lemma bluez_call_tasks: "bluez_call operation io s = (s', r) \<Longrightarrow> bs_tasks s' = bs_tasks s \<and> bs_world s' = fst (io (bs_world s))"
  by (auto simp: bluez_call_def on_world_def with_operation_def split: prod.splits)

lemma open_adapters_tasks:
  "open_adapters io names s = (s', r) \<Longrightarrow> stays_finished io \<Longrightarrow>
     bs_tasks s' = bs_tasks s \<and> (\<forall>h. si_finished io (bs_world s) h \<longrightarrow> si_finished io (bs_world s') h)"
proof (induction names arbitrary: s s' r)
  case (Cons name names)
  obtain s1 r1 where o: "bluez_call (''open adapter '' @ name) (si_open_adapter io name) s = (s1, r1)" by fastforce
  note step = bluez_call_tasks [OF o]
  obtain s2 r2 where rest: "open_adapters io names s1 = (s2, r2)" by fastforce
  have "s' = (case r1 of Inl _ \<Rightarrow> s1 | Inr _ \<Rightarrow> s2)"
    using Cons.prems(1) o rest by (auto simp: act_simps split: sum.splits)
  then show ?case
    using step Cons.IH [OF rest Cons.prems(2)] Cons.prems(2) by (auto simp: stays_finished_def split: sum.splits)
qed (simp add: act_return_def)

lemma adapters_tasks:
  assumes "adapters io s = (s', r)" and "stays_finished io"
  shows "bs_tasks s' = bs_tasks s \<and> (\<forall>h. si_finished io (bs_world s) h \<longrightarrow> si_finished io (bs_world s') h)"
proof -
  obtain s1 r1 where l: "bluez_call ''list BlueZ adapters'' (si_adapter_names io) s = (s1, r1)" by fastforce
  note step = bluez_call_tasks [OF l]
  show ?thesis
  proof (cases r1)
    case (Inl e)
    then show ?thesis using assms l step by (auto simp: adapters_def act_simps stays_finished_def)
  next
    case (Inr names)
    then have "open_adapters io names s1 = (s', r)" using assms(1) l by (simp add: adapters_def act_simps)
    from open_adapters_tasks [OF this assms(2)] step assms(2) show ?thesis by (auto simp: stays_finished_def)
  qed
qed

definition started_from :: "('w, 'h) session_io \<Rightarrow> ('w, 'h) bluez_session \<Rightarrow> string list \<Rightarrow> ('w, 'h) bluez_session \<Rightarrow> bool" where
  "started_from io s0 started s \<longleftrightarrow>
     (\<forall>name. name \<notin> set started \<longrightarrow> hm_get (bs_tasks s) name = hm_get (bs_tasks s0) name)
     \<and> (\<forall>name \<in> set started. \<forall>h. hm_get (bs_tasks s0) name = Some h \<longrightarrow> si_finished io (bs_world s) h)"

lemma started_from_world:
  "started_from io s0 started s \<Longrightarrow> bs_tasks s' = bs_tasks s \<Longrightarrow> (\<And>h. si_finished io (bs_world s) h \<Longrightarrow> si_finished io (bs_world s') h) \<Longrightarrow>
     started_from io s0 started s'"
  by (auto simp: started_from_def)

lemma start_discovery_started:
  assumes "start_discovery io name s = (s', r)" and "stays_finished io" and "started_from io s0 started s"
  shows "started_from io s0 (if r = Inr True then started @ [name] else started) s'"
proof (cases "discovering io name s")
  case True
  then show ?thesis using assms by (auto simp: start_discovery_def)
next
  case False
  obtain s1 r1 where c: "bluez_call (''start discovery on '' @ name) (si_discover io name) s = (s1, r1)" by fastforce
  note step = bluez_call_tasks [OF c]
  have s1: "started_from io s0 started s1"
    using assms(2) step by (intro started_from_world [OF assms(3)]) (auto simp: stays_finished_def)
  show ?thesis
  proof (cases r1)
    case (Inl e)
    then show ?thesis using assms(1) False c s1 by (auto simp: start_discovery_def)
  next
    case (Inr h)
    then have r: "r = Inr True" "s' = s1\<lparr>bs_tasks := hm_insert name h (bs_tasks s1)\<rparr>"
      using assms(1) False c by (auto simp: start_discovery_def)
    have "si_finished io (bs_world s1) h0" if "hm_get (bs_tasks s) name = Some h0" for h0
      using that False step assms(2) by (auto simp: discovering_def stays_finished_def)
    then show ?thesis using s1 assms(3) r step by (auto simp: started_from_def)
  qed
qed

lemma discover_powered_started:
  assumes "discover_powered io names eligible started s = (s', started', r)" and "stays_finished io"
    and "started_from io s0 started s"
  shows "started_from io s0 started' s'"
  using assms
proof (induction names arbitrary: eligible started s)
  case (Cons name names)
  obtain s1 r1 where p: "bluez_call ''read adapter power'' (si_powered io name) s = (s1, r1)" by fastforce
  note step = bluez_call_tasks [OF p]
  have s1: "started_from io s0 started s1"
    using Cons.prems(2) step by (intro started_from_world [OF Cons.prems(3)]) (auto simp: stays_finished_def)
  show ?case
  proof (cases r1)
    case (Inl e)
    then show ?thesis using Cons.prems(1) p s1 by auto
  next
    case (Inr powered)
    show ?thesis
    proof (cases powered)
      case False
      then show ?thesis using Cons.prems p Inr Cons.IH s1 by auto
    next
      case True
      obtain s2 r2 where d: "start_discovery io name s1 = (s2, r2)" by fastforce
      note s2 = start_discovery_started [OF d Cons.prems(2) s1]
      show ?thesis
      proof (cases r2)
        case (Inl e)
        then show ?thesis using Cons.prems(1) p Inr True d s2 by auto
      next
        case new: (Inr new)
        have "discover_powered io names True (if new then started @ [name] else started) s2 = (s', started', r)"
          using Cons.prems(1) p Inr True d new by simp
        moreover have "started_from io s0 (if new then started @ [name] else started) s2" using s2 new by simp
        ultimately show ?thesis using Cons.IH Cons.prems(2) by blast
      qed
    qed
  qed
qed simp

lemma stop_discovery_get:
  "hm_get (bs_tasks (stop_discovery io (Some name) s)) k = (if k = name then None else hm_get (bs_tasks s) k)"
  by (auto simp: stop_discovery_def Let_def split: option.split)

lemma stop_discovery_finished:
  "stays_finished io \<Longrightarrow> si_finished io (bs_world s) h \<Longrightarrow> si_finished io (bs_world (stop_discovery io (Some name) s)) h"
  by (auto simp: stop_discovery_def stays_finished_def Let_def split: option.split)

lemma rollback_get: "hm_get (bs_tasks (rollback_discovery io names s)) k = (if k \<in> set names then None else hm_get (bs_tasks s) k)"
  unfolding rollback_discovery_def by (induction names arbitrary: s) (auto simp: stop_discovery_get)

lemma rollback_finished:
  "stays_finished io \<Longrightarrow> si_finished io (bs_world s) h \<Longrightarrow> si_finished io (bs_world (rollback_discovery io names s)) h"
  unfolding rollback_discovery_def by (induction names arbitrary: s) (auto simp: stop_discovery_finished)


subsection \<open>Power\<close>

text \<open>
  Switching Bluetooth off ends every discovery, and switching it on is refused while a hardware switch holds the
  radio, before any adapter is touched.
\<close>
theorem power_and_discovery:
  "(\<forall>s'. set_power io None False s = (s', Inr ()) \<longrightarrow> bs_tasks s' = [])
   \<and> (\<forall>w radio. si_radio io (bs_world s) = (w, Inr radio) \<and> ra_hard_blocked radio \<longrightarrow>
        set_power io None True s = (s\<lparr>bs_world := w\<rparr>, Inl (rejected_by ''Bluetooth is disabled by a hardware radio switch'')))"
proof (intro conjI allI impI)
  fix s'
  assume "set_power io None False s = (s', Inr ())"
  then show "bs_tasks s' = []"
    by (auto simp: set_power_def set_all_adapter_power_def act_simps stop_discovery_def Let_def split: prod.splits sum.splits)
next
  fix w radio
  assume "si_radio io (bs_world s) = (w, Inr radio) \<and> ra_hard_blocked radio"
  then show "set_power io None True s = (s\<lparr>bs_world := w\<rparr>, Inl (rejected_by ''Bluetooth is disabled by a hardware radio switch''))"
    by (simp add: set_power_def set_all_adapter_power_def act_simps on_world_def)
qed

subsection \<open>Reconnection after sleep\<close>


text \<open>
  Reconnecting after sleep never switches an adapter on: the connection it asks for is carried out in the same
  way, to the same result, whatever powering the adapter or unblocking the radio would do.
\<close>
theorem reconnection_never_powers_on:
  "device_operation b (io\<lparr>io_power_adapter := f, io_unblock := g, io_radio := h\<rparr>) key Connect reconnect_params
   = device_operation b io key Connect reconnect_params"
proof -
  let ?io = "io\<lparr>io_power_adapter := f, io_unblock := g, io_radio := h\<rparr>"
  have wait: "wait_for_services ?io n = wait_for_services io n" for n
    by (induction n) (simp_all add: fun_eq_iff split: prod.split sum.split bool.split)
  have "audio_attempts ?io q n w = audio_attempts io q n w" for q n w
    by (induction n arbitrary: w) (simp_all add: audio_attempts.simps split: prod.split sum.split)
  then have audio: "audio_attempts ?io q n = audio_attempts io q n" for q n by (rule ext)
  have dev: "connect_device ?io = connect_device io" by (intro ext) (simp add: connect_device_def)
  have trust: "trust_before_connecting ?io = trust_before_connecting io"
    by (simp add: trust_before_connecting_def progress_to_def cong: if_cong)
  have resolve: "resolve_services ?io = resolve_services io" by (simp add: resolve_services_def progress_to_def wait)
  have connect: "run_effect ?io reconnect_params policy Connect = run_effect io reconnect_params policy Connect" for policy
    by (intro ext) (simp add: run_effect_def run_device_operation_def connect_workflow_def progress_to_def dev trust resolve)
  have power_on: "pl_operation plan = Connect \<and> pl_power_on plan = Some False" if "plan_new Connect reconnect_params policy = Inr plan" for plan policy
    using that by (auto simp: plan_new_def reconnect_params_def optional_bool_def checked_def unwrap_or_def)
  have ensure: "ensure_operation_adapter_powered ?io False = ensure_operation_adapter_powered io False"
    by (simp add: ensure_operation_adapter_powered_def)
  have route: "route_audio ?io key policy = route_audio io key policy" for policy
    by (simp add: route_audio_def progress_to_def audio_request_def audio)
  have exec: "execute_plan (device_effects ?io key reconnect_params policy) plan = execute_plan (device_effects io key reconnect_params policy) plan"
    if "plan_new Connect reconnect_params policy = Inr plan" for policy plan
    using power_on [OF that] by (simp add: execute_plan_def device_effects_def connect ensure route act_when_def)
  have body: "act_bind (act_of (plan_new Connect reconnect_params policy)) (\<lambda>plan. act_then (execute_plan (device_effects ?io key reconnect_params policy) plan) rest)
      = act_bind (act_of (plan_new Connect reconnect_params policy)) (\<lambda>plan. act_then (execute_plan (device_effects io key reconnect_params policy) plan) rest)"
    for policy and rest :: "('a, 'b) act"
    by (cases "plan_new Connect reconnect_params policy") (simp_all add: fun_eq_iff act_bind_def act_of_def exec)
  show ?thesis
    by (intro ext) (simp add: device_operation_def Let_def body check_control_policy_def)
qed

subsection \<open>Peers of transfers\<close>

lemma bluez_call_Inr: "bluez_call operation io s = (s', Inr v) \<Longrightarrow> \<exists>w. io (bs_world s) = (w, Inr v)"
  by (auto simp: bluez_call_def on_world_def with_operation_def bluez_result_def split: prod.splits sum.splits)

lemma act_bind_Inr: "act_bind m f w = (w', Inr b) \<Longrightarrow> \<exists>w1 a. m w = (w1, Inr a) \<and> f a w1 = (w', Inr b)"
  by (auto simp: act_bind_def split: prod.splits sum.splits)

text \<open>
  A file is exchanged only with a paired peer that is not blocked: a target for sending, and a sender that is
  accepted, were both read from BlueZ as paired and then as not blocked.
\<close>
theorem transfers_need_a_bond:
  fixes s s' :: "('w, 'h) bluez_session"
  shows "(obex_target io pe key s = (s', Inr target) \<longrightarrow>
      (\<exists>name a w0 w1 w2 w3. pe_paired pe name a w0 = (w1, Inr True) \<and> pe_blocked pe name a w2 = (w3, Inr False)))
   \<and> (obex_remote io pe source destination s = (s', Inr remote) \<longrightarrow>
      (\<exists>name a w0 w1 w2 w3. pe_parse pe destination = Inr a \<and> pe_paired pe name a w0 = (w1, Inr True)
         \<and> pe_blocked pe name a w2 = (w3, Inr False)))"
proof (intro conjI impI)
  assume "obex_target io pe key s = (s', Inr target)"
  from act_bind_Inr [OF this [unfolded obex_target_def]] obtain s1 name a where
    "(act_bind (bluez_call ''read outgoing OBEX paired state'' (pe_paired pe name a)) (\<lambda>paired.
     act_bind (bluez_call ''read outgoing OBEX blocked state'' (pe_blocked pe name a)) (\<lambda>blocked.
     act_then (act_of (validate_obex_send_state paired blocked))
       (act_bind (bluez_call ''read OBEX source address'' (si_address io name)) (\<lambda>source. act_return (si_fmt io source, si_fmt io a)))))) s1
      = (s', Inr target)" by auto
  from act_bind_Inr [OF this] obtain s2 paired where p: "bluez_call ''read outgoing OBEX paired state'' (pe_paired pe name a) s1 = (s2, Inr paired)"
    and rest: "act_bind (bluez_call ''read outgoing OBEX blocked state'' (pe_blocked pe name a)) (\<lambda>blocked.
     act_then (act_of (validate_obex_send_state paired blocked))
       (act_bind (bluez_call ''read OBEX source address'' (si_address io name)) (\<lambda>source. act_return (si_fmt io source, si_fmt io a)))) s2
      = (s', Inr target)" by blast
  from act_bind_Inr [OF rest] obtain s3 blocked where b: "bluez_call ''read outgoing OBEX blocked state'' (pe_blocked pe name a) s2 = (s3, Inr blocked)"
    and v: "act_then (act_of (validate_obex_send_state paired blocked))
       (act_bind (bluez_call ''read OBEX source address'' (si_address io name)) (\<lambda>source. act_return (si_fmt io source, si_fmt io a))) s3
      = (s', Inr target)" by blast
  from act_bind_Inr [OF v [unfolded act_then_def]] have "paired \<and> \<not> blocked"
    by (auto simp: act_of_def validate_obex_send_state_def split: if_splits)
  with bluez_call_Inr [OF p] bluez_call_Inr [OF b]
  show "\<exists>name a w0 w1 w2 w3. pe_paired pe name a w0 = (w1, Inr True) \<and> pe_blocked pe name a w2 = (w3, Inr False)" by metis
next
  assume "obex_remote io pe source destination s = (s', Inr remote)"
  then obtain s1 name a where a: "pe_parse pe destination = Inr a" and r: "validated_obex_remote pe name a s1 = (s', Inr remote)"
    by (auto simp: obex_remote_def act_of_def parse_obex_address_def dest!: act_bind_Inr split: sum.splits)
  from r obtain s2 s3 s4 :: "('w, 'h) bluez_session" where "bluez_call ''read device paired state'' (pe_paired pe name a) s2 = (s3, Inr True)"
      "bluez_call ''read device blocked state'' (pe_blocked pe name a) s3 = (s4, Inr False)"
    by (auto simp: validated_obex_remote_def act_then_def act_fail_def dest!: act_bind_Inr split: if_splits)
  with a bluez_call_Inr
  show "\<exists>name a w0 w1 w2 w3. pe_parse pe destination = Inr a \<and> pe_paired pe name a w0 = (w1, Inr True)
      \<and> pe_blocked pe name a w2 = (w3, Inr False)" by metis
qed

subsection \<open>Two adapters, one of which refuses\<close>

definition demo_session_io :: "(string list, string) session_io" where
  "demo_session_io =
     \<lparr>si_adapter_names = (\<lambda>w. (w, Inr [''hci0'', ''hci1''])), si_open_adapter = (\<lambda>_ w. (w, Inr ())), si_address = (\<lambda>_ w. (w, Inr [1])),
      si_fmt = (\<lambda>_. ''AA''), si_powered = (\<lambda>_ w. (w, Inr True)), si_set_powered = (\<lambda>_ _ w. (w, Inr ())),
      si_discover = (\<lambda>name w. if name = ''hci1'' then (w, Inl (NotReady, ''busy'')) else (w, Inr name)),
      si_finished = (\<lambda>w h. h \<in> set w), si_abort = (\<lambda>h w. h # w), si_schedule_expiry = (\<lambda>w. w),
      si_radio = (\<lambda>w. (w, Inr \<lparr>ra_available = True, ra_adapter_count = 1, ra_powered = False, ra_operational = False,
         ra_rfkill_present = True, ra_soft_blocked = False, ra_hard_blocked = True\<rparr>)),
      si_rfkill = (\<lambda>_ w. (w, Inr ())), si_digest = (\<lambda>s. s)\<rparr>"


lemma power_and_discovery_witness:
  "snd (set_power demo_session_io None True \<lparr>bs_tasks = [], bs_world = []\<rparr>)
     = Inl (rejected_by ''Bluetooth is disabled by a hardware radio switch'')"
proof -
  let ?s = "\<lparr>bs_tasks = [], bs_world = []\<rparr> :: (string list, string) bluez_session"
  obtain radio where "si_radio demo_session_io (bs_world ?s) = ([], Inr radio) \<and> ra_hard_blocked radio"
    by (simp add: demo_session_io_def)
  then show ?thesis using power_and_discovery [of demo_session_io ?s] by simp
qed

definition demo_reconnect :: "(nat \<times> nat) reconnect_io" where
  "demo_reconnect = \<lparr>rw_sleep = (\<lambda>n w. (fst w + n, snd w)), rw_allowed = (\<lambda>_. True), rw_find = (\<lambda>w. (w, True)),
     rw_paired = (\<lambda>w. (w, Inr True)), rw_blocked = (\<lambda>w. (w, Inr False)),
     rw_connect = (\<lambda>_ w. ((fst w, Suc (snd w)), Inl [Context ''no answer'']))\<rparr>"


definition demo_peer :: "string list peer_io" where
  "demo_peer = \<lparr>pe_addresses = (\<lambda>_ w. (w, Inr [[2]])), pe_open = (\<lambda>_ _ w. (w, Inr ())), pe_device_key = (\<lambda>_ _ w. (w, ''k'')),
     pe_paired = (\<lambda>_ _ w. (w, Inr True)), pe_blocked = (\<lambda>_ _ w. (w, Inr False)), pe_alias = (\<lambda>_ _ w. (w, Inr ''phone'')),
     pe_parse = (\<lambda>v. if v = ''AA'' then Inr [1] else Inr [2])\<rparr>"

lemma transfers_need_a_bond_witness:
  "\<exists>name a w0 w1 w2 w3. pe_parse demo_peer ''BB'' = Inr a \<and> pe_paired demo_peer name a w0 = (w1, Inr True)
     \<and> pe_blocked demo_peer name a w2 = (w3, Inr False)"
proof -
  let ?s = "\<lparr>bs_tasks = [], bs_world = []\<rparr> :: (string list, string) bluez_session"
  have "obex_remote demo_session_io demo_peer ''AA'' ''BB'' ?s = (?s, Inr (''k'', ''phone''))"
    by (simp add: obex_remote_def demo_peer_def demo_session_io_def parse_obex_address_def adapters_def bluez_call_def
        on_world_def with_operation_def bluez_result_def act_simps validated_obex_remote_def)
  then show ?thesis using transfers_need_a_bond [of demo_session_io demo_peer] by metis
qed

end
