(* ===== verification/IdentityWriter.thy ===== *)
theory IdentityWriter
  imports Prelude
begin

text \<open>
  \<open>src/identity/persistence.rs\<close>: the thread that writes the identity registry. Callers leave the
  latest state in a slot and wake the thread through a channel that holds one message; the thread
  collects waiting flushes, takes the slot and writes it. What the file system answers is an argument.
\<close>

datatype message = Changed | Flush nat  \<comment> \<open>with the waiting caller\<close>

datatype phase = Receiving | Collecting "nat list"

record 'f wstate =
  wr_pending :: "'f option"
  wr_queue :: "message list"
  wr_open :: bool
  wr_phase :: phase
  wr_last_error :: "string option"
  wr_disk :: "'f option"
  wr_replies :: "(nat \<times> (string + unit)) list"
  wr_scheduled :: "'f list"  \<comment> \<open>every scheduled state, for the specification\<close>

definition writer_new :: "'f option \<Rightarrow> 'f wstate" where
  "writer_new disk = \<lparr>wr_pending = None, wr_queue = [], wr_open = True, wr_phase = Receiving,
     wr_last_error = None, wr_disk = disk, wr_replies = [], wr_scheduled = []\<rparr>"

definition CAPACITY :: nat where "CAPACITY = 1"

definition schedule :: "'f \<Rightarrow> 'f wstate \<Rightarrow> 'f wstate" where
  "schedule state w =
     (let w' = w\<lparr>wr_pending := Some state, wr_scheduled := wr_scheduled w @ [state]\<rparr> in
      if wr_open w \<and> length (wr_queue w) < CAPACITY then w'\<lparr>wr_queue := wr_queue w @ [Changed]\<rparr> else w')"

text \<open>The request half of \<open>flush\<close>: \<open>send\<close> blocks while the channel is full, which is \<open>None\<close>.\<close>

definition flush_request :: "nat \<Rightarrow> 'f wstate \<Rightarrow> 'f wstate option" where
  "flush_request caller w =
     (if wr_open w \<and> length (wr_queue w) < CAPACITY then Some (w\<lparr>wr_queue := wr_queue w @ [Flush caller]\<rparr>)
      else None)"

text \<open>\<open>messages.recv()\<close> and the first message of \<open>collect_barriers\<close>, which sleeps on a change.\<close>

fun barrier_of :: "message \<Rightarrow> nat list" where
  "barrier_of Changed = []"
| "barrier_of (Flush caller) = [caller]"

definition receive :: "'f wstate \<Rightarrow> 'f wstate option" where
  "receive w =
     (case (wr_phase w, wr_queue w) of
        (Receiving, m # q) \<Rightarrow> Some (w\<lparr>wr_queue := q, wr_phase := Collecting (barrier_of m)\<rparr>)
      | _ \<Rightarrow> None)"

text \<open>One turn of \<open>messages.try_iter()\<close>.\<close>

definition collect :: "'f wstate \<Rightarrow> 'f wstate option" where
  "collect w =
     (case (wr_phase w, wr_queue w) of
        (Collecting bs, m # q) \<Rightarrow> Some (w\<lparr>wr_queue := q, wr_phase := Collecting (bs @ barrier_of m)\<rparr>)
      | _ \<Rightarrow> None)"

text \<open>The rest of the round: take the slot, write it, answer the flushes.\<close>

definition write_latest :: "(string + unit) \<Rightarrow> 'f wstate \<Rightarrow> 'f wstate option" where
  "write_latest saved w =
     (case wr_phase w of
        Receiving \<Rightarrow> None
      | Collecting bs \<Rightarrow>
          (let w1 = (case wr_pending w of
                None \<Rightarrow> w
              | Some state \<Rightarrow>
                  (case saved of
                     Inl e \<Rightarrow> w\<lparr>wr_pending := None, wr_last_error := Some e\<rparr>
                   | Inr _ \<Rightarrow> w\<lparr>wr_pending := None, wr_last_error := None, wr_disk := Some state\<rparr>));
               answer = (case wr_last_error w1 of None \<Rightarrow> Inr () | Some e \<Rightarrow> Inl e)
           in Some (w1\<lparr>wr_phase := Receiving, wr_replies := wr_replies w1 @ map (\<lambda>b. (b, answer)) bs\<rparr>)))"

text \<open>\<open>drop\<close> closes the channel; the thread goes on until it is empty.\<close>

definition close :: "'f wstate \<Rightarrow> 'f wstate" where
  "close w = w\<lparr>wr_open := False\<rparr>"

inductive writer_step :: "'f wstate \<Rightarrow> 'f wstate \<Rightarrow> bool" where
  schedule: "wr_open w \<Longrightarrow> writer_step w (schedule state w)"
| flush: "flush_request caller w = Some w' \<Longrightarrow> writer_step w w'"
| receive: "receive w = Some w' \<Longrightarrow> writer_step w w'"
| collect: "collect w = Some w' \<Longrightarrow> writer_step w w'"
| save: "write_latest saved w = Some w' \<Longrightarrow> writer_step w w'"
| close: "writer_step w (close w)"

inductive writer_reachable :: "'f option \<Rightarrow> 'f wstate \<Rightarrow> bool" for disk where
  start: "writer_reachable disk (writer_new disk)"
| step: "writer_reachable disk w \<Longrightarrow> writer_step w w' \<Longrightarrow> writer_reachable disk w'"

definition current_on_disk :: "'f wstate \<Rightarrow> bool" where
  "current_on_disk w \<longleftrightarrow> wr_scheduled w = [] \<or> wr_disk w = Some (last (wr_scheduled w))"

definition writer_inv :: "'f wstate \<Rightarrow> bool" where
  "writer_inv w \<longleftrightarrow>
     (case wr_pending w of
        None \<Rightarrow> wr_last_error w = None \<longrightarrow> current_on_disk w
      | Some state \<Rightarrow> wr_scheduled w \<noteq> [] \<and> last (wr_scheduled w) = state
          \<and> (wr_queue w \<noteq> [] \<or> wr_phase w \<noteq> Receiving))"

lemma writer_inv_step: "writer_step w w' \<Longrightarrow> writer_inv w \<Longrightarrow> writer_inv w'"
proof (induction rule: writer_step.induct)
  case (schedule w state)
  then show ?case by (auto simp: schedule_def writer_inv_def CAPACITY_def Let_def)
next
  case (flush caller w w')
  then show ?case
    by (auto simp: flush_request_def writer_inv_def current_on_disk_def split: if_splits option.splits)
next
  case (receive w w')
  then show ?case
    by (auto simp: receive_def writer_inv_def current_on_disk_def split: phase.splits list.splits option.splits)
next
  case (collect w w')
  then show ?case
    by (auto simp: collect_def writer_inv_def current_on_disk_def split: phase.splits list.splits option.splits)
next
  case (save saved w w')
  then show ?case
    by (auto simp: write_latest_def writer_inv_def current_on_disk_def Let_def
        split: phase.splits option.splits sum.splits)
next
  case (close w)
  then show ?case by (auto simp: close_def writer_inv_def current_on_disk_def split: option.splits)
qed

lemma writer_inv_reachable: "writer_reachable disk w \<Longrightarrow> writer_inv w"
proof (induction rule: writer_reachable.induct)
  case start
  show ?case by (simp add: writer_new_def writer_inv_def current_on_disk_def)
next
  case (step w w')
  then show ?case by (blast intro: writer_inv_step)
qed


definition demo_queued :: "nat wstate" where
  "demo_queued = schedule 7 (writer_new None)"

definition demo_collecting :: "nat wstate" where
  "demo_collecting = the (collect (the (flush_request 3 (the (receive demo_queued)))))"

lemma demo_collecting_reachable: "writer_reachable None demo_collecting"
proof -
  have 1: "writer_reachable None demo_queued"
    unfolding demo_queued_def
    by (rule writer_reachable.step [OF writer_reachable.start writer_step.schedule]) (simp add: writer_new_def)
  then have 2: "writer_reachable None (the (receive demo_queued))"
    by (rule writer_reachable.step [OF _ writer_step.receive])
       (simp add: receive_def demo_queued_def schedule_def writer_new_def CAPACITY_def)
  then have 3: "writer_reachable None (the (flush_request 3 (the (receive demo_queued))))"
    by (rule writer_reachable.step [OF _ writer_step.flush [where caller = 3]])
       (simp add: receive_def flush_request_def demo_queued_def schedule_def writer_new_def CAPACITY_def)
  then show ?thesis
    unfolding demo_collecting_def
    by (rule writer_reachable.step [OF _ writer_step.collect])
       (simp add: receive_def collect_def flush_request_def demo_queued_def schedule_def writer_new_def CAPACITY_def)
qed


end
