(* ===== verification/MaestroProtocol.thy ===== *)
theory MaestroProtocol
  imports Framing
begin

text \<open>
  \<open>src/maestro/protocol.rs\<close>: protobuf varints and fields, the pw_rpc packet, the HDLC frame
  with its CRC-32, and the runtime-info battery fields.
\<close>

datatype maestro_error =
    FieldTruncated | VarintOverflow | KeyTooLarge | FieldNumberZero | UnsupportedWire u32
  | PacketFieldTooLarge | BadLevel u64 | MBadEscaping | FrameTruncated | MChecksumMismatch
  | AddressUnterminated | NoControlByte | UnsupportedControl u8

subsection \<open>Varints\<close>

function put_varint :: "u64 \<Rightarrow> bytes" where
  "put_varint val =
     (if 0x80 \<le> val then (ucast val OR 0x80) # put_varint (drop_bit 7 val)
      else [ucast val])"
  by pat_completeness auto
termination
proof (relation "measure unat")
  fix val :: u64
  assume "0x80 \<le> val"
  then have "unat (0x80 :: u64) \<le> unat val" by (simp add: word_le_nat_alt)
  then show "(drop_bit 7 val, val) \<in> measure unat"
    by (simp add: unat_drop_bit_div)
qed simp

declare put_varint.simps [simp del]

text \<open>The nine seven-bit groups of the loop, then the last byte, which may only hold bit 63.\<close>

fun read_groups :: "nat list \<Rightarrow> u64 \<Rightarrow> bytes \<Rightarrow> maestro_error + u64 \<times> bytes" where
  "read_groups [] val bs =
     (case bs of [] \<Rightarrow> Inl FieldTruncated
      | final # rest \<Rightarrow>
          (if final \<le> 1 then Inr (val OR push_bit 63 (ucast final), rest)
           else Inl VarintOverflow))"
| "read_groups (shift # shifts) val bs =
     (case bs of [] \<Rightarrow> Inl FieldTruncated
      | byte # rest \<Rightarrow>
          (let val' = val OR push_bit shift (ucast (byte AND 0x7f)) in
           if byte AND 0x80 = 0 then Inr (val', rest) else read_groups shifts val' rest))"

definition read_varint :: "bytes \<Rightarrow> maestro_error + u64 \<times> bytes" where
  "read_varint bs = read_groups (map (\<lambda>i. 7 * i) [0..<9]) 0 bs"

lemma read_groups_shorter: "read_groups shs v bs = Inr (w, rest) \<Longrightarrow> length rest < length bs"
  by (induction shs v bs rule: read_groups.induct)
    (fastforce simp: Let_def split: list.splits if_splits)+

lemma read_varint_shorter: "read_varint bs = Inr (w, rest) \<Longrightarrow> length rest < length bs"
  unfolding read_varint_def by (rule read_groups_shorter)

lemma varint_byte:
  "(ucast (v :: u64) OR 0x80 :: u8) AND 0x80 \<noteq> 0"
  "(ucast (v :: u64) OR 0x80 :: u8) AND 0x7f = ucast v AND 0x7f"
proof -
  have "bit ((ucast v OR 0x80 :: u8) AND 0x80) 7" by (simp add: bit_simps)
  then show "(ucast v OR 0x80 :: u8) AND 0x80 \<noteq> 0" by auto
  show "(ucast v OR 0x80 :: u8) AND 0x7f = ucast v AND 0x7f"
    by (simp add: bit.conj_disj_distrib2)
qed

lemma varint_split:
  fixes v acc :: u64
  shows "(acc OR push_bit n (ucast (ucast v AND (0x7f :: u8)))) OR push_bit (n + 7) (drop_bit 7 v)
    = acc OR push_bit n v"
proof (rule bit_word_eqI)
  fix k
  assume "k < LENGTH(64)"
  have m: "(0x7f :: u8) = mask 7" by (simp add: mask_eq_decr_exp)
  show "bit ((acc OR push_bit n (ucast (ucast v AND (0x7f :: u8)))) OR push_bit (n + 7) (drop_bit 7 v)) k
      = bit (acc OR push_bit n v) k"
  proof -
    consider "k < n" | "n \<le> k" "k < n + 7" | j where "k = n + 7 + j"
      by (metis le_add_diff_inverse not_le)
    then show ?thesis
      unfolding m using \<open>k < LENGTH(64)\<close> by cases (auto simp: bit_simps)
  qed
qed

lemma varint_small_byte:
  assumes "unat (v :: u64) < 128"
  shows "ucast (ucast v AND (0x7f :: u8)) = v" and "ucast v AND (0x80 :: u8) = 0"
proof -
  have small: "bit v k \<Longrightarrow> k < 7" for k
    using bit_less_exp [of v 7 k] assms by simp
  have m: "(0x7f :: u8) = mask 7" and h: "(128 :: int) = push_bit 7 1"
    by (simp_all add: mask_eq_decr_exp)
  have h': "bit (128 :: int) k \<longleftrightarrow> k = 7" for k
    unfolding h bit_simps by auto
  show "ucast (ucast v AND (0x7f :: u8)) = v"
    unfolding m by (rule bit_word_eqI) (auto simp: bit_simps dest: small)
  show "ucast v AND (0x80 :: u8) = 0"
    by (rule bit_word_eqI) (auto simp: bit_and_iff bit_unsigned_iff h' dest: small)
qed

lemma put_varint_bit: "put_varint 0 = [0]" "put_varint 1 = [1]"
  by (subst put_varint.simps, simp add: word_le_nat_alt)+

lemma read_groups_put:
  assumes "i \<le> 9" and "unat v < 2 ^ (64 - 7 * i)"
  shows "read_groups (map (\<lambda>i. 7 * i) [i..<9]) acc (put_varint v @ rest)
    = Inr (acc OR push_bit (7 * i) v, rest)"
  using assms
proof (induction "9 - i" arbitrary: i v acc)
  case 0
  then have i: "i = 9" and v: "unat v < 2" by auto
  then consider "v = 0" | "v = 1"
    using unat_less_2_cases by blast
  then show ?case
    by cases (simp_all add: i put_varint_bit)
next
  case (Suc d)
  then have i: "i < 9" and up: "[i..<9] = i # [Suc i..<9]"
    by (simp_all add: upt_conv_Cons)
  show ?case
  proof (cases "0x80 \<le> v")
    case True
    define n where "n = 64 - 7 * Suc i"
    have n: "64 - 7 * i = n + 7" unfolding n_def using i by simp
    have "unat v < 2 ^ n * 2 ^ 7"
      using Suc.prems(2) unfolding n power_add .
    then have "unat (drop_bit 7 v) < 2 ^ n"
      unfolding unat_drop_bit_div by (rule less_mult_imp_div_less)
    moreover have "d = 9 - Suc i" "Suc i \<le> 9" using Suc.hyps(2) i by simp_all
    ultimately have IH: "read_groups (map (\<lambda>i. 7 * i) [Suc i..<9]) a (put_varint (drop_bit 7 v) @ rest)
      = Inr (a OR push_bit (7 * Suc i) (drop_bit 7 v), rest)" for a
      unfolding n_def by (intro Suc.hyps(1))
    have eq: "put_varint v = (ucast v OR 0x80) # put_varint (drop_bit 7 v)"
      using True by (subst put_varint.simps) (simp only: if_True)
    have s: "7 * Suc i = 7 * i + 7" by simp
    show ?thesis
      unfolding eq up
      by (simp only: list.map append_Cons read_groups.simps list.case Let_def varint_byte if_False
          IH) (simp only: s varint_split)
  next
    case False
    then have "v < 0x80" by simp
    then have small: "unat v < 128" by (simp add: word_less_nat_alt)
    have eq: "put_varint v = [ucast v]"
      using False by (subst put_varint.simps) (simp only: if_False)
    show ?thesis
      unfolding eq up
      by (simp only: list.map append_Cons append_Nil read_groups.simps list.case Let_def
          varint_small_byte [OF small] if_True simp_thms)
  qed
qed

text \<open>A varint reads back as written, whatever follows it.\<close>

lemma read_put_varint [simp]: "read_varint (put_varint v @ rest) = Inr (v, rest)"
  using read_groups_put [of 0 v 0 rest] unat_less_width [of v] by (simp add: read_varint_def)

lemma put_varint_nonempty [simp]: "put_varint v \<noteq> []"
  by (simp add: put_varint.simps [of v])

subsection \<open>Protobuf fields\<close>

datatype field_value = Varint u64 | Fixed32 u32 | BytesV bytes

definition take_bytes :: "bytes \<Rightarrow> nat \<Rightarrow> maestro_error + bytes \<times> bytes" where
  "take_bytes bs n = (if n \<le> length bs then Inr (take n bs, drop n bs) else Inl FieldTruncated)"

definition read_value :: "u32 \<Rightarrow> bytes \<Rightarrow> maestro_error + field_value option \<times> bytes" where
  "read_value wire bs =
     (if wire = 0 then res_bind (read_varint bs) (\<lambda>(v, rest). Inr (Some (Varint v), rest))
      else if wire = 1 then res_bind (take_bytes bs 8) (\<lambda>(_, rest). Inr (None, rest))
      else if wire = 2 then
        res_bind (read_varint bs) (\<lambda>(n, rest).
          res_bind (take_bytes rest (unat n)) (\<lambda>(v, rest'). Inr (Some (BytesV v), rest')))
      else if wire = 5 then
        res_bind (take_bytes bs 4) (\<lambda>(v, rest).
          Inr (Some (Fixed32 (le32 (v ! 0) (v ! 1) (v ! 2) (v ! 3))), rest))
      else Inl (UnsupportedWire wire))"

text \<open>One round of the loop: \<open>None\<close> is the skipped fixed64 field.\<close>

definition read_field :: "bytes \<Rightarrow> maestro_error + (u32 \<times> field_value) option \<times> bytes" where
  "read_field bs =
     res_bind (read_varint bs) (\<lambda>(key64, rest).
       res_bind (option_err KeyTooLarge (word_try_from (unat key64) :: u32 option)) (\<lambda>key.
         let field = drop_bit 3 key in
         if field = 0 then Inl FieldNumberZero
         else res_bind (read_value (key AND 0x07) rest) (\<lambda>(v, rest').
           Inr (map_option (\<lambda>v. (field, v)) v, rest'))))"

lemma read_value_shorter: "read_value w bs = Inr (v, rest) \<Longrightarrow> length rest \<le> length bs"
  by (fastforce simp: read_value_def take_bytes_def dest!: read_varint_shorter split: if_splits)

lemma read_field_shorter: "read_field bs = Inr (f, rest) \<Longrightarrow> length rest < length bs"
  by (fastforce simp: read_field_def Let_def dest!: read_varint_shorter read_value_shorter
      split: if_splits)

function pb_fields :: "bytes \<Rightarrow> maestro_error + (u32 \<times> field_value) list" where
  "pb_fields bs =
     (if bs = [] then Inr []
      else case read_field bs of
        Inl e \<Rightarrow> Inl e
      | Inr (f, rest) \<Rightarrow>
          res_bind (pb_fields rest) (\<lambda>fs. Inr (case f of None \<Rightarrow> fs | Some f \<Rightarrow> f # fs)))"
  by pat_completeness auto
termination
  by (relation "measure length") (auto dest: read_field_shorter)

declare pb_fields.simps [simp del]

lemma fields_Nil [simp]: "pb_fields [] = Inr []"
  by (simp add: pb_fields.simps)

lemma fields_read:
  assumes "read_field bs = Inr (Some f, rest)" and "bs \<noteq> []"
  shows "pb_fields bs = res_bind (pb_fields rest) (\<lambda>fs. Inr (f # fs))"
  using assms by (simp add: pb_fields.simps [of bs])

subsection \<open>pw_rpc packets\<close>

record packet =
  pk_kind :: u32
  pk_channel :: u32
  pk_service :: u32
  pk_method :: u32
  pk_payload :: bytes
  pk_status :: u32
  pk_call :: u32

definition packet_default :: packet where
  "packet_default = \<lparr>pk_kind = 0, pk_channel = 0, pk_service = 0, pk_method = 0,
     pk_payload = [], pk_status = 0, pk_call = 0\<rparr>"

text \<open>Zero and empty fields are omitted, as in protobuf3.\<close>

definition enc_varint :: "u64 \<Rightarrow> u32 \<Rightarrow> bytes" where
  "enc_varint field v = (if v \<noteq> 0 then put_varint (push_bit 3 field) @ put_varint (ucast v) else [])"

definition enc_fixed32 :: "u64 \<Rightarrow> u32 \<Rightarrow> bytes" where
  "enc_fixed32 field v = (if v \<noteq> 0 then put_varint (push_bit 3 field OR 5) @ le32_bytes v else [])"

definition enc_bytes :: "u64 \<Rightarrow> bytes \<Rightarrow> bytes" where
  "enc_bytes field v =
     (if v \<noteq> [] then put_varint (push_bit 3 field OR 2) @ put_varint (word_of_nat (length v)) @ v
      else [])"

definition encode_packet :: "packet \<Rightarrow> bytes" where
  "encode_packet p =
     enc_varint 1 (pk_kind p) @ enc_varint 2 (pk_channel p) @ enc_fixed32 3 (pk_service p)
     @ enc_fixed32 4 (pk_method p) @ enc_bytes 5 (pk_payload p)
     @ enc_varint 6 (pk_status p) @ enc_varint 7 (pk_call p)"

fun set_field :: "packet \<Rightarrow> u32 \<times> field_value \<Rightarrow> maestro_error + packet" where
  "set_field p (field, v) =
     (let narrow = (\<lambda>upd. case v of
            Varint w \<Rightarrow> res_bind (option_err PacketFieldTooLarge (word_try_from (unat w) :: u32 option)) (\<lambda>n. Inr (upd n))
          | _ \<Rightarrow> Inr p);
          fixed = (\<lambda>upd. case v of Fixed32 w \<Rightarrow> Inr (upd w) | _ \<Rightarrow> Inr p)
      in if field = 1 then narrow (\<lambda>n. p\<lparr>pk_kind := n\<rparr>)
         else if field = 2 then narrow (\<lambda>n. p\<lparr>pk_channel := n\<rparr>)
         else if field = 3 then fixed (\<lambda>n. p\<lparr>pk_service := n\<rparr>)
         else if field = 4 then fixed (\<lambda>n. p\<lparr>pk_method := n\<rparr>)
         else if field = 5 then (case v of BytesV b \<Rightarrow> Inr (p\<lparr>pk_payload := b\<rparr>) | _ \<Rightarrow> Inr p)
         else if field = 6 then narrow (\<lambda>n. p\<lparr>pk_status := n\<rparr>)
         else if field = 7 then narrow (\<lambda>n. p\<lparr>pk_call := n\<rparr>)
         else Inr p)"

fun set_fields :: "packet \<Rightarrow> (u32 \<times> field_value) list \<Rightarrow> maestro_error + packet" where
  "set_fields p [] = Inr p"
| "set_fields p (f # fs) = res_bind (set_field p f) (\<lambda>p'. set_fields p' fs)"

definition decode_packet :: "bytes \<Rightarrow> maestro_error + packet" where
  "decode_packet bs = res_bind (pb_fields bs) (set_fields packet_default)"

text \<open>Reading back one encoded field, for the field numbers below sixteen.\<close>

lemma read_field_key:
  assumes "unat key < 2 ^ 32"
  shows "read_field (put_varint key @ rest) =
    (let k = ucast key :: u32; field = drop_bit 3 k in
     if field = 0 then Inl FieldNumberZero
     else res_bind (read_value (k AND 7) rest) (\<lambda>(v, rest'). Inr (map_option (\<lambda>v. (field, v)) v, rest')))"
proof -
  have "word_of_nat (unat key) = (ucast key :: u32)"
    by (metis of_nat_unat)
  with assms show ?thesis
    by (simp add: read_field_def word_try_from_def Let_def)
qed

lemma fields_enc_varint:
  assumes "field \<in> {1, 2, 6, 7}"
  shows "pb_fields (enc_varint field v @ rest) =
    res_bind (pb_fields rest) (\<lambda>fs. Inr ((if v = 0 then [] else [(ucast field, Varint (ucast v))]) @ fs))"
proof (cases "v = 0")
  case True
  then show ?thesis by (cases "pb_fields rest") (simp_all add: enc_varint_def)
next
  case False
  have "read_field (put_varint (push_bit 3 field) @ put_varint (ucast v) @ rest) =
      Inr (Some (ucast field, Varint (ucast v)), rest)"
    using assms by (auto simp: read_field_key read_value_def Let_def)
  with False show ?thesis by (simp add: enc_varint_def fields_read)
qed

lemma fields_enc_fixed32:
  assumes "field \<in> {3, 4}"
  shows "pb_fields (enc_fixed32 field v @ rest) =
    res_bind (pb_fields rest) (\<lambda>fs. Inr ((if v = 0 then [] else [(ucast field, Fixed32 v)]) @ fs))"
proof (cases "v = 0")
  case True
  then show ?thesis by (cases "pb_fields rest") (simp_all add: enc_fixed32_def)
next
  case False
  have "read_field (put_varint (push_bit 3 field OR 5) @ le32_bytes v @ rest) =
      Inr (Some (ucast field, Fixed32 v), rest)"
    using assms
    by (auto simp: read_field_key read_value_def Let_def take_bytes_def le32_bytes_def byte_order)
  with False show ?thesis by (simp add: enc_fixed32_def fields_read)
qed

lemma fields_enc_bytes:
  assumes "field = 5" and "length v < 2 ^ 64"
  shows "pb_fields (enc_bytes field v @ rest) =
    res_bind (pb_fields rest) (\<lambda>fs. Inr ((if v = [] then [] else [(5, BytesV v)]) @ fs))"
proof (cases "v = []")
  case True
  then show ?thesis by (cases "pb_fields rest") (simp_all add: enc_bytes_def)
next
  case False
  have "unat (word_of_nat (length v) :: u64) = length v"
    using assms(2) by (simp add: unat_of_nat take_bit_nat_eq_self)
  then have "read_field (put_varint (push_bit 3 field OR 2) @ put_varint (word_of_nat (length v)) @ v @ rest) =
      Inr (Some (5, BytesV v), rest)"
    using assms(1) by (simp add: read_field_key read_value_def Let_def take_bytes_def)
  with False show ?thesis by (simp add: enc_bytes_def fields_read)
qed

lemma fields_encode_packet:
  assumes "length (pk_payload p) < 2 ^ 64"
  shows "pb_fields (encode_packet p) = Inr (
     (if pk_kind p = 0 then [] else [(1, Varint (ucast (pk_kind p)))])
   @ (if pk_channel p = 0 then [] else [(2, Varint (ucast (pk_channel p)))])
   @ (if pk_service p = 0 then [] else [(3, Fixed32 (pk_service p))])
   @ (if pk_method p = 0 then [] else [(4, Fixed32 (pk_method p))])
   @ (if pk_payload p = [] then [] else [(5, BytesV (pk_payload p))])
   @ (if pk_status p = 0 then [] else [(6, Varint (ucast (pk_status p)))])
   @ (if pk_call p = 0 then [] else [(7, Varint (ucast (pk_call p)))]))"
proof -
  have last: "pb_fields (enc_varint 7 v) = Inr (if v = 0 then [] else [(7, Varint (ucast v))])" for v
    using fields_enc_varint [of 7 v "[]"] by simp
  show ?thesis
    unfolding encode_packet_def
    using fields_enc_varint [of 1] fields_enc_varint [of 2] fields_enc_varint [of 6]
      fields_enc_fixed32 [of 3] fields_enc_fixed32 [of 4] fields_enc_bytes [OF refl assms]
    by (simp add: last)
qed

lemma set_field_varint32:
  "word_try_from (unat (ucast (v :: u32) :: u64)) = Some v"
proof -
  have "unat v < 2 ^ 32" using unat_less_width [of v] by simp
  then have "unat (ucast v :: u64) = unat v"
    by (simp add: unsigned_ucast_eq take_bit_nat_eq_self)
  then show ?thesis
    using unat_less_width [of v] by (simp add: word_try_from_def)
qed

lemma decode_encode_packet:
  assumes "length (pk_payload p) < 2 ^ 64"
  shows "decode_packet (encode_packet p) = Inr p"
  unfolding decode_packet_def fields_encode_packet [OF assms]
  by (cases p) (simp add: packet_default_def Let_def set_field_varint32)

subsection \<open>CRC-32\<close>

definition crc_bit :: "u32 \<Rightarrow> u32" where
  "crc_bit crc = (if crc AND 1 = 0 then drop_bit 1 crc else drop_bit 1 crc XOR 0xedb88320)"

definition crc_byte :: "u32 \<Rightarrow> u8 \<Rightarrow> u32" where
  "crc_byte crc byte = (crc_bit ^^ 8) (crc XOR ucast byte)"

definition crc32 :: "bytes \<Rightarrow> u32" where
  "crc32 bs = NOT (foldl crc_byte (NOT 0) bs)"

text \<open>
  One round is injective: the polynomial's top bit records the bit that was shifted out. So a
  corrupted byte always changes the checksum.
\<close>

lemma xor_right_inj: "(a :: ('w::len) word) XOR b = a XOR c \<Longrightarrow> b = c"
  by (metis xor.left_commute xor.right_neutral xor_self_eq bit.xor_left_self)

lemma xor_left_inj: "(b :: ('w::len) word) XOR a = c XOR a \<Longrightarrow> b = c"
  by (metis xor.commute xor_right_inj)

lemma crc_bit_top: "bit (crc_bit c) 31 \<longleftrightarrow> bit c 0"
proof -
  have 1: "c AND 1 = 0 \<longleftrightarrow> \<not> bit c 0"
    by (metis and_one_eq bit_0 even_iff_mod_2_eq_zero)
  have "bit (0xedb88320 :: u32) 31" by simp
  then show ?thesis
    by (auto simp: crc_bit_def 1 bit_drop_bit_eq bit_xor_iff dest: bit_imp_le_length)
qed

lemma crc_bit_inj: "inj crc_bit"
proof (rule injI)
  fix c d :: u32
  assume eq: "crc_bit c = crc_bit d"
  then have 0: "bit c 0 = bit d 0" by (metis crc_bit_top)
  have 1: "x AND 1 = 0 \<longleftrightarrow> \<not> bit x 0" for x :: u32
    by (metis and_one_eq bit_0 even_iff_mod_2_eq_zero)
  have "drop_bit 1 c = drop_bit 1 d"
    using eq 0 by (auto simp: crc_bit_def 1 split: if_splits dest: xor_left_inj)
  then have "bit (drop_bit 1 c) n = bit (drop_bit 1 d) n" for n by simp
  then have S: "bit c (Suc n) = bit d (Suc n)" for n by (simp add: bit_drop_bit_eq)
  show "c = d"
  proof (rule bit_word_eqI)
    fix n
    show "bit c n = bit d n" using 0 S by (cases n) simp_all
  qed
qed

lemma crc_byte_inj: "crc_byte c x = crc_byte d y \<Longrightarrow> c XOR ucast x = d XOR ucast y"
  unfolding crc_byte_def using inj_fn [OF crc_bit_inj, of 8] by (auto dest: injD)

lemma ucast_u8_inj: "(ucast (x :: u8) :: u32) = ucast y \<Longrightarrow> x = y"
proof (rule bit_word_eqI)
  fix n
  assume "(ucast x :: u32) = ucast y" and "n < LENGTH(8)"
  then have "bit (ucast x :: u32) n = bit (ucast y :: u32) n" by simp
  with \<open>n < LENGTH(8)\<close> show "bit x n = bit y n" by (simp add: bit_simps)
qed

lemma foldl_crc_inj: "foldl crc_byte c bs = foldl crc_byte d bs \<Longrightarrow> c = d"
proof (induction bs arbitrary: c d)
  case (Cons b bs)
  then have "crc_byte c b = crc_byte d b" by simp
  then have "ucast b XOR c = ucast b XOR d" by (metis crc_byte_inj xor.commute)
  then show ?case by (rule xor_right_inj)
qed simp

lemma crc32_one_byte:
  assumes "crc32 (xs @ [x] @ ys) = crc32 (xs @ [y] @ ys)"
  shows "x = y"
proof -
  from assms have "foldl crc_byte (crc_byte (foldl crc_byte (NOT 0) xs) x) ys
      = foldl crc_byte (crc_byte (foldl crc_byte (NOT 0) xs) y) ys"
    by (simp add: crc32_def)
  then have "crc_byte (foldl crc_byte (NOT 0) xs) x = crc_byte (foldl crc_byte (NOT 0) xs) y"
    by (rule foldl_crc_inj)
  then show ?thesis
    by (metis crc_byte_inj xor_right_inj ucast_u8_inj)
qed

subsection \<open>HDLC frames\<close>

definition MAESTRO_FLAG :: u8 where "MAESTRO_FLAG = 0x7e"
definition MAESTRO_ESCAPE :: u8 where "MAESTRO_ESCAPE = 0x7d"
definition MAESTRO_ESCAPE_MASK :: u8 where "MAESTRO_ESCAPE_MASK = 0x20"
definition UNNUMBERED_INFORMATION :: u8 where "UNNUMBERED_INFORMATION = 0x03"

lemmas maestro_consts = MAESTRO_FLAG_def MAESTRO_ESCAPE_def MAESTRO_ESCAPE_MASK_def

function put_address :: "u32 \<Rightarrow> bytes" where
  "put_address address =
     (if drop_bit 7 address \<noteq> 0
      then push_bit 1 (ucast (address AND 0x7f)) # put_address (drop_bit 7 address)
      else [push_bit 1 (ucast address) OR 1])"
  by pat_completeness auto
termination
proof (relation "measure unat")
  fix address :: u32
  assume "drop_bit 7 address \<noteq> 0"
  then have "unat address div 2 ^ 7 \<noteq> 0" by (metis unat_drop_bit_div unat_eq_zero)
  then show "(drop_bit 7 address, address) \<in> measure unat" by (simp add: unat_drop_bit_div)
qed simp

declare put_address.simps [simp del]

definition maestro_xor :: "u8 \<Rightarrow> u8" where
  "maestro_xor byte = byte XOR MAESTRO_ESCAPE_MASK"

definition frame_content :: "u32 \<Rightarrow> bytes \<Rightarrow> bytes" where
  "frame_content address payload = put_address address @ [UNNUMBERED_INFORMATION] @ payload"

definition encode_frame :: "u32 \<Rightarrow> bytes \<Rightarrow> bytes" where
  "encode_frame address payload =
     (let content = frame_content address payload in
      escape (content @ le32_bytes (crc32 content)) (MAESTRO_FLAG, MAESTRO_FLAG) MAESTRO_ESCAPE
        maestro_xor)"

definition decode_frame :: "bytes \<Rightarrow> maestro_error + packet" where
  "decode_frame escaped =
     (case unescape escaped MAESTRO_ESCAPE maestro_xor of
        Inl _ \<Rightarrow> Inl MBadEscaping
      | Inr body \<Rightarrow>
          (if length body < 6 then Inl FrameTruncated
           else let content = take (length body - 4) body;
                    received = drop (length body - 4) body in
             if crc32 content \<noteq> le32 (received ! 0) (received ! 1) (received ! 2) (received ! 3)
             then Inl MChecksumMismatch
             else (case dropWhile (\<lambda>b. b AND 1 \<noteq> 1) content of
                     [] \<Rightarrow> Inl AddressUnterminated
                   | _ # rest \<Rightarrow>
                       (case rest of
                          [] \<Rightarrow> Inl NoControlByte
                        | control # packet \<Rightarrow>
                            if control \<noteq> UNNUMBERED_INFORMATION then Inl (UnsupportedControl control)
                            else decode_packet packet))))"

definition maestro_push :: "delimited \<Rightarrow> bytes \<Rightarrow> delimited \<times> (maestro_error frame_error + packet) list" where
  "maestro_push = df_push (MAESTRO_FLAG, MAESTRO_FLAG) decode_frame"

interpretation maestro: byte_stuffing MAESTRO_FLAG MAESTRO_FLAG MAESTRO_ESCAPE maestro_xor maestro_xor
  by unfold_locales (auto simp: maestro_consts maestro_xor_def)

interpretation maestro_stream: chunk_decoder maestro_push
  by unfold_locales (simp_all add: maestro_push_def df_push_append)

lemma put_address_last:
  "\<exists>xs x. put_address a = xs @ [x] \<and> (\<forall>y \<in> set xs. y AND 1 \<noteq> 1) \<and> x AND 1 = 1"
proof (induction a rule: put_address.induct)
  case (1 a)
  show ?case
  proof (cases "drop_bit 7 a = 0")
    case True
    have "(push_bit 1 (ucast a) OR 1 :: u8) AND 1 = 1"
      by (rule bit_word_eqI) (auto simp: bit_simps)
    with True show ?thesis
      by (intro exI [of _ "[]"]) (simp add: put_address.simps [of a])
  next
    case False
    with 1 obtain xs x where IH: "put_address (drop_bit 7 a) = xs @ [x]"
        "\<forall>y \<in> set xs. y AND 1 \<noteq> 1" "x AND 1 = 1"
      by blast
    have "(push_bit 1 (ucast (a AND 0x7f)) :: u8) AND 1 = 0"
      by (simp add: and_one_eq mod_2_eq_odd)
    with False IH show ?thesis
      by (intro exI [of _ "push_bit 1 (ucast (a AND 0x7f)) # xs"] exI [of _ x])
        (simp add: put_address.simps [of a])
  qed
qed

lemma decode_frame_content:
  assumes "unescape e MAESTRO_ESCAPE maestro_xor
      = Inr (frame_content a payload @ le32_bytes (crc32 (frame_content a payload)))"
  shows "decode_frame e = decode_packet payload"
proof -
  obtain xs x where a: "put_address a = xs @ [x]" "\<forall>y \<in> set xs. y AND 1 \<noteq> 1" "x AND 1 = 1"
    using put_address_last by blast
  have "dropWhile (\<lambda>b. b AND 1 \<noteq> 1) (frame_content a payload) = x # UNNUMBERED_INFORMATION # payload"
    using a by (simp add: frame_content_def dropWhile_append2)
  moreover have "2 \<le> length (frame_content a payload)" by (simp add: frame_content_def a)
  ultimately show ?thesis
    using assms by (simp add: decode_frame_def Let_def le32_bytes_def byte_order)
qed

text \<open>
  A frame is delivered from every decoder state and after any garbage: its opening flag
  resynchronises the splitter.
\<close>

lemma maestro_resync:
  assumes "df_inv s" and "length (pk_payload p) < 2 ^ 64"
    and "length (encode_frame a (encode_packet p)) \<le> MAX_FRAME + 1"
  shows "\<exists>fs. maestro_push s (garbage @ encode_frame a (encode_packet p)) =
    (\<lparr>df_body = [], df_open = True\<rparr>, fs @ [Inr p])"
proof -
  let ?c = "frame_content a (encode_packet p)"
  let ?st = "stuff (MAESTRO_FLAG, MAESTRO_FLAG) MAESTRO_ESCAPE maestro_xor
      (?c @ le32_bytes (crc32 ?c))"
  have wire: "encode_frame a (encode_packet p) = [MAESTRO_FLAG] @ ?st @ [MAESTRO_FLAG]"
    by (simp add: encode_frame_def Let_def escape_def)
  have "length (?c @ le32_bytes (crc32 ?c)) \<le> length ?st" by (rule length_stuff)
  then have "?st \<noteq> []" by auto
  moreover have "length ?st < MAX_FRAME" using assms(3) wire by simp
  moreover have "decode_frame ?st = Inr p"
    using decode_frame_content [OF maestro.unescape_stuff] decode_encode_packet [OF assms(2)]
    by simp
  ultimately show ?thesis
    using df_push_hdlc_resync [OF assms(1) maestro.stuff_no_markers(1), of _ decode_frame garbage]
    unfolding wire maestro_push_def by (metis lift_frame.simps(2))
qed

subsection \<open>Maestro requests and reports\<close>

text \<open>pw\_rpc's 65599 hash: the loop state is the hash and the running coefficient.\<close>

definition id_hash :: "bytes \<Rightarrow> u32" where
  "id_hash bs = fst (foldl (\<lambda>(hash, coefficient) b.
       (hash + coefficient * ucast b, coefficient * 65599)) (word_of_nat (length bs), 65599) bs)"

definition name_bytes :: "string \<Rightarrow> bytes" where
  "name_bytes s = map (\<lambda>c. word_of_nat (of_char c)) s"

definition RPC_REQUEST :: u32 where "RPC_REQUEST = 0"
definition RPC_RESPONSE :: u32 where "RPC_RESPONSE = 1"
definition RPC_SERVER_ERROR :: u32 where "RPC_SERVER_ERROR = 5"
definition RPC_SERVER_STREAM :: u32 where "RPC_SERVER_STREAM = 7"
definition MAESTRO_SERVICE :: u32 where
  "MAESTRO_SERVICE = id_hash (name_bytes ''maestro_pw.Maestro'')"
definition GET_SOFTWARE_INFO :: u32 where
  "GET_SOFTWARE_INFO = id_hash (name_bytes ''GetSoftwareInfo'')"
definition SUBSCRIBE_RUNTIME_INFO :: u32 where
  "SUBSCRIBE_RUNTIME_INFO = id_hash (name_bytes ''SubscribeRuntimeInfo'')"
definition SUBSCRIBE_CALL :: u32 where "SUBSCRIBE_CALL = 0"

definition MAESTRO_CASE :: u32 where "MAESTRO_CASE = 2"
definition LEFT_BT_CORE :: u32 where "LEFT_BT_CORE = 3"
definition RIGHT_BT_CORE :: u32 where "RIGHT_BT_CORE = 4"
definition MAESTRO_A :: u32 where "MAESTRO_A = 10"
definition MAESTRO_B :: u32 where "MAESTRO_B = 13"

definition CHANNELS :: "(u32 \<times> u32 \<times> u32) list" where
  "CHANNELS = [(18, MAESTRO_A, MAESTRO_CASE), (19, MAESTRO_A, LEFT_BT_CORE),
     (21, MAESTRO_A, RIGHT_BT_CORE), (23, MAESTRO_B, MAESTRO_CASE),
     (24, MAESTRO_B, LEFT_BT_CORE), (26, MAESTRO_B, RIGHT_BT_CORE)]"

record channel =
  ch_id :: u32
  ch_address :: u32

record reading =
  rd_level :: u8
  rd_charging :: "bool option"

record batteries =
  bt_left :: "reading option"
  bt_right :: "reading option"
  bt_case :: "reading option"

definition batteries_default :: batteries where
  "batteries_default = \<lparr>bt_left = None, bt_right = None, bt_case = None\<rparr>"

datatype update = UBatteries batteries | UEnded u32 | UIgnored

definition announced_channel :: "packet \<Rightarrow> channel option" where
  "announced_channel p =
     (if (pk_kind p, pk_service p, pk_method p) \<noteq> (RPC_RESPONSE, MAESTRO_SERVICE, GET_SOFTWARE_INFO)
      then None
      else map_option (\<lambda>(i, local, remote).
             \<lparr>ch_id = i, ch_address = push_bit 6 local OR push_bit 10 remote\<rparr>)
           (find (\<lambda>(i, _, _). i = pk_channel p) CHANNELS))"

definition subscribe_packet :: "channel \<Rightarrow> packet" where
  "subscribe_packet c = packet_default\<lparr>pk_kind := RPC_REQUEST, pk_channel := ch_id c,
     pk_service := MAESTRO_SERVICE, pk_method := SUBSCRIBE_RUNTIME_INFO,
     pk_call := SUBSCRIBE_CALL\<rparr>"

definition subscribe_runtime_info :: "channel \<Rightarrow> bytes" where
  "subscribe_runtime_info c = encode_frame (ch_address c) (encode_packet (subscribe_packet c))"

fun reading_step :: "u64 \<times> u64 \<Rightarrow> u32 \<times> field_value \<Rightarrow> u64 \<times> u64" where
  "reading_step (level, state) (field, Varint v) =
     (if field = 1 then (v, state) else if field = 2 then (level, v) else (level, state))"
| "reading_step (level, state) _ = (level, state)"

definition decode_reading :: "bytes \<Rightarrow> maestro_error + reading" where
  "decode_reading bs =
     res_bind (pb_fields bs) (\<lambda>fs.
       case foldl reading_step (0, 0) fs of (level, state) \<Rightarrow>
         (case (word_try_from (unat level) :: u8 option) of
            None \<Rightarrow> Inl (BadLevel level)
          | Some l \<Rightarrow>
              (if l \<le> 100 then
                 Inr \<lparr>rd_level = l,
                      rd_charging = (if state = 1 then Some False
                                     else if state = 2 then Some True else None)\<rparr>
               else Inl (BadLevel level))))"

fun battery_fields :: "batteries \<Rightarrow> (u32 \<times> field_value) list \<Rightarrow> maestro_error + batteries" where
  "battery_fields b [] = Inr b"
| "battery_fields b ((field, BytesV r) # fs) =
     (if field = 1 then res_bind (decode_reading r) (\<lambda>x. battery_fields (b\<lparr>bt_case := Some x\<rparr>) fs)
      else if field = 2 then res_bind (decode_reading r) (\<lambda>x. battery_fields (b\<lparr>bt_left := Some x\<rparr>) fs)
      else if field = 3 then res_bind (decode_reading r) (\<lambda>x. battery_fields (b\<lparr>bt_right := Some x\<rparr>) fs)
      else battery_fields b fs)"
| "battery_fields b (_ # fs) = battery_fields b fs"

fun battery_info :: "(u32 \<times> field_value) list \<Rightarrow> bytes option" where
  "battery_info [] = None"
| "battery_info ((field, BytesV info) # fs) = (if field = 6 then Some info else battery_info fs)"
| "battery_info (_ # fs) = battery_info fs"

definition runtime_batteries :: "bytes \<Rightarrow> maestro_error + batteries option" where
  "runtime_batteries payload =
     res_bind (pb_fields payload) (\<lambda>fs.
       case battery_info fs of
         None \<Rightarrow> Inr None
       | Some info \<Rightarrow>
           res_bind (pb_fields info) (\<lambda>gs.
             res_bind (battery_fields batteries_default gs) (\<lambda>b. Inr (Some b))))"

definition subscription_update :: "packet \<Rightarrow> channel \<Rightarrow> maestro_error + update" where
  "subscription_update p c =
     (if (pk_channel p, pk_service p, pk_method p, pk_call p)
         \<noteq> (ch_id c, MAESTRO_SERVICE, SUBSCRIBE_RUNTIME_INFO, SUBSCRIBE_CALL) then Inr UIgnored
      else if pk_kind p = RPC_SERVER_STREAM then
        res_bind (runtime_batteries (pk_payload p)) (\<lambda>b.
          Inr (case b of None \<Rightarrow> UIgnored | Some b \<Rightarrow> UBatteries b))
      else if pk_kind p = RPC_RESPONSE \<or> pk_kind p = RPC_SERVER_ERROR then Inr (UEnded (pk_status p))
      else Inr UIgnored)"

text \<open>Every reading that reaches the daemon is a percentage.\<close>

definition readings :: "batteries \<Rightarrow> reading set" where
  "readings b = set_option (bt_left b) \<union> set_option (bt_right b) \<union> set_option (bt_case b)"

lemma decode_reading_level: "decode_reading bs = Inr r \<Longrightarrow> rd_level r \<le> 100"
proof -
  assume "decode_reading bs = Inr r"
  then obtain fs where "(case foldl reading_step (0, 0) fs of (level, state) \<Rightarrow>
         (case (word_try_from (unat level) :: u8 option) of
            None \<Rightarrow> Inl (BadLevel level)
          | Some l \<Rightarrow>
              (if l \<le> 100 then
                 Inr \<lparr>rd_level = l,
                      rd_charging = (if state = 1 then Some False
                                     else if state = 2 then Some True else None)\<rparr>
               else Inl (BadLevel level)))) = Inr r"
    unfolding decode_reading_def res_bind_Inr by blast
  then show ?thesis by (auto split: prod.splits option.splits if_splits)
qed

lemma battery_fields_levels:
  assumes "battery_fields b fs = Inr b'" and "\<forall>r \<in> readings b. rd_level r \<le> 100"
  shows "\<forall>r \<in> readings b'. rd_level r \<le> 100"
  using assms
proof (induction b fs rule: battery_fields.induct)
  case (2 b field r fs)
  then show ?case
    by (auto simp: readings_def dest!: decode_reading_level split: if_splits)
qed (simp_all)

lemma runtime_batteries_levels:
  assumes "runtime_batteries payload = Inr (Some b)" and "r \<in> readings b"
  shows "rd_level r \<le> 100"
  using assms battery_fields_levels [of batteries_default _ b]
  by (auto simp: runtime_batteries_def readings_def batteries_default_def split: option.splits)

lemma announced_channel_known:
  assumes "announced_channel p = Some c"
  shows "ch_id c = pk_channel p \<and> (\<exists>l r. (ch_id c, l, r) \<in> set CHANNELS
    \<and> ch_address c = push_bit 6 l OR push_bit 10 r)"
  using assms by (auto simp: announced_channel_def find_Some_iff split: if_splits dest!: nth_mem) blast+

subsection \<open>Properties\<close>

lemma le32_inj: "le32 a b c d = le32 a' b' c' d' \<longleftrightarrow> a = a' \<and> b = b' \<and> c = c' \<and> d = d'"
proof
  assume "le32 a b c d = le32 a' b' c' d'"
  then have "be32_bytes (be32 d c b a) = be32_bytes (be32 d' c' b' a')" by (simp only: le32_def)
  then show "a = a' \<and> b = b' \<and> c = c' \<and> d = d'" unfolding be32_bytes_be32 by blast
qed blast

definition received_crc :: "bytes \<Rightarrow> u32" where
  "received_crc crc = le32 (crc ! 0) (crc ! 1) (crc ! 2) (crc ! 3)"

lemma received_crc_inj:
  assumes "received_crc xs = received_crc ys" and "length xs = 4" and "length ys = 4"
  shows "xs = ys"
proof (rule nth_equalityI)
  fix i assume "i < length xs"
  then have "i = 0 \<or> i = 1 \<or> i = 2 \<or> i = 3" using assms(2) by auto
  then show "xs ! i = ys ! i" using assms(1) by (auto simp: received_crc_def le32_inj)
qed (simp add: assms)

lemma decode_frame_checked:
  assumes "unescape e MAESTRO_ESCAPE maestro_xor = Inr (content @ crc)" and "length crc = 4"
    and "2 \<le> length content"
  shows "crc32 content = received_crc crc \<or> decode_frame e = Inl MChecksumMismatch"
  using assms by (simp add: decode_frame_def Let_def received_crc_def)

lemma decode_frame_accepted:
  assumes "decode_frame e = Inr p"
  obtains content crc where "unescape e MAESTRO_ESCAPE maestro_xor = Inr (content @ crc)" and "length crc = 4"
    and "2 \<le> length content" and "crc32 content = received_crc crc"
proof -
  obtain body where body: "unescape e MAESTRO_ESCAPE maestro_xor = Inr body" "6 \<le> length body"
    using assms by (auto simp: decode_frame_def split: sum.splits if_splits)
  let ?content = "take (length body - 4) body" and ?crc = "drop (length body - 4) body"
  have "unescape e MAESTRO_ESCAPE maestro_xor = Inr (?content @ ?crc)" "length ?crc = 4" "2 \<le> length ?content"
    using body by simp_all
  moreover from this decode_frame_checked assms have "crc32 ?content = received_crc ?crc" by fastforce
  ultimately show ?thesis by (rule that)
qed

text \<open>
  Every change of one byte of an accepted Maestro frame, in its address, control byte, packet or
  checksum, is rejected as a checksum mismatch.
\<close>

theorem maestro_single_byte_corruption:
  assumes "decode_frame e = Inr p"
    and "unescape e MAESTRO_ESCAPE maestro_xor = Inr (xs @ [x] @ ys)"
    and "unescape e' MAESTRO_ESCAPE maestro_xor = Inr (xs @ [y] @ ys)"
    and "x \<noteq> y"
  shows "decode_frame e' = Inl MChecksumMismatch"
proof -
  obtain content crc where ok: "xs @ [x] @ ys = content @ crc" "length crc = 4" "2 \<le> length content"
      "crc32 content = received_crc crc"
    using decode_frame_accepted [OF assms(1)] assms(2) by auto
  show ?thesis
  proof (cases "length ys < 4")
    case True
    then obtain zs where "xs = content @ zs" "crc = zs @ [x] @ ys"
      using ok(1,2) by (auto simp: append_eq_append_conv2 Cons_eq_append_conv)
    then show ?thesis
      using decode_frame_checked [of e' content "zs @ [y] @ ys"] ok assms(3,4)
        received_crc_inj [of "zs @ [x] @ ys" "zs @ [y] @ ys"]
      by auto
  next
    case False
    then obtain zs where "ys = zs @ crc" "content = xs @ [x] @ zs"
      using ok(1,2) by (auto simp: append_eq_append_conv2 Cons_eq_append_conv)
    then show ?thesis
      using decode_frame_checked [of e' "xs @ [y] @ zs" crc] ok assms(3,4) crc32_one_byte [of xs x zs y]
      by auto
  qed
qed

theorem maestro_single_byte_corruption_witness:
  "decode_frame [1, 3, 4, 0x72, 0xca, 0xc1] = Inl MChecksumMismatch"
proof (rule maestro_single_byte_corruption)
  show "decode_frame [1, 3, 4, 0x72, 0xcb, 0xc1] = Inr packet_default" by code_simp
  show "unescape [1, 3, 4, 0x72, 0xcb, 0xc1] MAESTRO_ESCAPE maestro_xor = Inr ([1, 3, 4, 0x72] @ [0xcb] @ [0xc1])"
    by code_simp
  show "unescape [1, 3, 4, 0x72, 0xca, 0xc1] MAESTRO_ESCAPE maestro_xor = Inr ([1, 3, 4, 0x72] @ [0xca] @ [0xc1])"
    by code_simp
qed simp

end
