(* ===== verification/MaestroSession.thy ===== *)
theory MaestroSession
  imports MaestroProtocol Model
begin

text \<open>
  \<open>src/maestro.rs\<close>: the report kept for each pair of buds, and the subscription session that
  feeds it.
\<close>

subsection \<open>Reports\<close>

record report =
  rp_batteries :: batteries
  rp_case_live :: bool

definition report_default :: report where
  "report_default = \<lparr>rp_batteries = batteries_default, rp_case_live = False\<rparr>"

definition report_update :: "report \<Rightarrow> batteries \<Rightarrow> report" where
  "report_update r reported =
     (if bt_case reported \<noteq> None then \<lparr>rp_batteries = reported, rp_case_live = True\<rparr>
      else \<lparr>rp_batteries = reported\<lparr>bt_case :=
              map_option (\<lambda>c. c\<lparr>rd_charging := None\<rparr>) (bt_case (rp_batteries r))\<rparr>,
            rp_case_live = False\<rparr>)"

definition report_battery ::
  "string \<Rightarrow> string \<Rightarrow> string \<Rightarrow> reading option \<Rightarrow> bool \<Rightarrow> battery list" where
  "report_battery ident label component reading live =
     (case reading of None \<Rightarrow> []
      | Some r \<Rightarrow>
          [\<lparr>b_id = ident, b_label = label, b_component = component, b_percentage = rd_level r,
            b_charging = rd_charging r, b_source = ''google-maestro'',
            b_confidence = (if live then ''high'' else ''last-known'')\<rparr>])"

definition report_batteries :: "report \<Rightarrow> battery list" where
  "report_batteries r =
     report_battery ''maestro-left'' ''Left'' ''left'' (bt_left (rp_batteries r)) True
   @ report_battery ''maestro-right'' ''Right'' ''right'' (bt_right (rp_batteries r)) True
   @ report_battery ''maestro-case'' ''Case'' ''case'' (bt_case (rp_batteries r)) (rp_case_live r)"

subsection \<open>The provider\<close>

record maestro_provider =
  mp_reports :: "(address, report) hmap"
  mp_changes :: nat

definition maestro_store :: "maestro_provider \<Rightarrow> address \<Rightarrow> batteries \<Rightarrow> maestro_provider" where
  "maestro_store p address reported =
     (let previous = hm_get (mp_reports p) address;
          report = report_update (case previous of None \<Rightarrow> report_default | Some r \<Rightarrow> r) reported
      in if previous = Some report then p
         else p\<lparr>mp_reports := hm_insert address report (mp_reports p),
                mp_changes := Suc (mp_changes p)\<rparr>)"

definition maestro_ended :: "maestro_provider \<Rightarrow> address \<Rightarrow> maestro_provider" where
  "maestro_ended p address =
     (if hm_get (mp_reports p) address \<noteq> None
      then p\<lparr>mp_reports := hm_remove address (mp_reports p), mp_changes := Suc (mp_changes p)\<rparr>
      else p)"

definition maestro_batteries :: "maestro_provider \<Rightarrow> address \<Rightarrow> battery list" where
  "maestro_batteries p address =
     (case hm_get (mp_reports p) address of None \<Rightarrow> [] | Some r \<Rightarrow> report_batteries r)"

subsection \<open>The subscription session\<close>

text \<open>
  What the session sees: packets from the reader, the announcement deadline, the end of the
  stream or a transport error. Its effects: the bytes written and the reports stored.
\<close>

datatype session_input = Packet packet | AnnounceTimeout | StreamEnd | ReadError

datatype session_result =
    Running | Closed | FailedAnnounce | NoAnnouncement | ReadFailed | StreamEnded u32

fun await_channel :: "session_input list \<Rightarrow> session_result + channel \<times> session_input list" where
  "await_channel [] = Inl Running"
| "await_channel (Packet p # ins) =
     (case announced_channel p of Some c \<Rightarrow> Inr (c, ins) | None \<Rightarrow> await_channel ins)"
| "await_channel (AnnounceTimeout # ins) = Inl FailedAnnounce"
| "await_channel (StreamEnd # ins) = Inl NoAnnouncement"
| "await_channel (ReadError # ins) = Inl ReadFailed"

fun follow :: "channel \<Rightarrow> session_input list \<Rightarrow> batteries list \<times> session_result" where
  "follow c [] = ([], Running)"
| "follow c (Packet p # ins) =
     (case subscription_update p c of
        Inr (UBatteries b) \<Rightarrow> (let (bs, r) = follow c ins in (b # bs, r))
      | Inr (UEnded status) \<Rightarrow> ([], StreamEnded status)
      | Inr UIgnored \<Rightarrow> follow c ins
      | Inl _ \<Rightarrow> follow c ins)"
| "follow c (StreamEnd # ins) = ([], Closed)"
| "follow c (ReadError # ins) = ([], ReadFailed)"
| "follow c (AnnounceTimeout # ins) = follow c ins"

text \<open>\<open>subscribe\<close>: the bytes written, the reports stored in order, and how the session ended.\<close>

definition subscribe :: "session_input list \<Rightarrow> bytes \<times> batteries list \<times> session_result" where
  "subscribe ins =
     (case await_channel ins of
        Inl r \<Rightarrow> ([], [], r)
      | Inr (c, rest) \<Rightarrow> (let (bs, r) = follow c rest in (subscribe_runtime_info c, bs, r)))"

definition run_maestro :: "maestro_provider \<Rightarrow> address \<Rightarrow> session_input list \<Rightarrow> maestro_provider" where
  "run_maestro p address ins =
     foldl (\<lambda>p b. maestro_store p address b) p (fst (snd (subscribe ins)))"

text \<open>
  The abstract view of a session: the last report, with the case reading of the last report
  that carried one, live only if that was the last.
\<close>

fun last_case :: "batteries list \<Rightarrow> reading option" where
  "last_case [] = None"
| "last_case (b # bs) = (if last_case bs \<noteq> None then last_case bs else bt_case b)"

definition session_report :: "batteries list \<Rightarrow> report" where
  "session_report bs =
     (let b = last bs in
      if bt_case b \<noteq> None then \<lparr>rp_batteries = b, rp_case_live = True\<rparr>
      else \<lparr>rp_batteries = b\<lparr>bt_case := map_option (\<lambda>c. c\<lparr>rd_charging := None\<rparr>) (last_case bs)\<rparr>,
            rp_case_live = False\<rparr>)"

lemma last_case_snoc [simp]:
  "last_case (bs @ [b]) = (if bt_case b \<noteq> None then bt_case b else last_case bs)"
  by (induction bs) auto

lemma last_case_bt_case:
  "bs \<noteq> [] \<Longrightarrow> bt_case (last bs) \<noteq> None \<Longrightarrow> last_case bs = bt_case (last bs)"
  by (induction bs rule: rev_induct) auto

lemma report_update_session:
  assumes "bs \<noteq> []"
  shows "report_update (session_report bs) b = session_report (bs @ [b])"
proof (cases "bt_case b = None")
  case True
  then show ?thesis
    using last_case_bt_case [OF assms]
    by (cases "bt_case (last bs) = None")
      (auto simp: report_update_def session_report_def Let_def option.map_comp comp_def)
next
  case False
  then show ?thesis by (simp add: report_update_def session_report_def)
qed

lemma report_update_default: "report_update report_default b = session_report [b]"
  by (auto simp: report_update_def report_default_def session_report_def batteries_default_def)

lemma maestro_store_get [simp]:
  "hm_get (mp_reports (maestro_store p a b)) a' =
    (if a' = a then Some (report_update (case hm_get (mp_reports p) a of None \<Rightarrow> report_default | Some r \<Rightarrow> r) b)
     else hm_get (mp_reports p) a')"
  by (auto simp: maestro_store_def Let_def)

lemma run_store:
  assumes "hm_get (mp_reports p) a = None" and "bs \<noteq> []"
  shows "hm_get (mp_reports (foldl (\<lambda>p b. maestro_store p a b) p bs)) a = Some (session_report bs)"
  using assms(2)
proof (induction bs rule: rev_induct)
  case (snoc b bs)
  then show ?case
    using assms(1)
    by (cases "bs = []") (simp_all add: report_update_default report_update_session)
qed simp

lemma run_store_other:
  "a' \<noteq> a \<Longrightarrow> hm_get (mp_reports (foldl (\<lambda>p b. maestro_store p a b) p bs)) a' = hm_get (mp_reports p) a'"
  by (induction bs rule: rev_induct) simp_all

lemma subscription_update_levels:
  assumes "subscription_update p c = Inr (UBatteries b)" and "r \<in> readings b"
  shows "rd_level r \<le> 100"
proof -
  have "runtime_batteries (pk_payload p) = Inr (Some b)"
    using assms(1) unfolding subscription_update_def
    by (simp split: if_splits) (auto split: option.splits)
  then show ?thesis using assms(2) by (rule runtime_batteries_levels)
qed

lemma follow_levels:
  "b \<in> set (fst (follow c ins)) \<Longrightarrow> r \<in> readings b \<Longrightarrow> rd_level r \<le> 100"
proof (induction c ins rule: follow.induct)
  case (2 c p ins)
  show ?case
  proof (cases "subscription_update p c")
    case (Inl e)
    with 2 show ?thesis by simp
  next
    case (Inr u)
    with 2 show ?thesis
      by (cases u) (auto simp: case_prod_beta Let_def dest: subscription_update_levels)
  qed
qed (simp_all add: case_prod_beta Let_def)

subsection \<open>Properties\<close>

lemma last_case_in: "last_case bs = Some c \<Longrightarrow> \<exists>b \<in> set bs. bt_case b = Some c"
  by (induction bs) (auto split: if_splits)

lemma session_report_levels:
  assumes "bs \<noteq> []" and "\<forall>b \<in> set bs. \<forall>r \<in> readings b. rd_level r \<le> 100"
  shows "\<forall>r \<in> readings (rp_batteries (session_report bs)). rd_level r \<le> 100"
proof -
  have lb: "\<forall>r \<in> readings (last bs). rd_level r \<le> 100" using assms last_in_set by blast
  moreover have "rd_level c \<le> 100" if "last_case bs = Some c" for c
    using last_case_in [OF that] assms(2) by (auto simp: readings_def)
  ultimately show ?thesis by (auto simp: session_report_def readings_def Let_def)
qed

lemma report_batteries_levels:
  assumes "\<forall>r \<in> readings (rp_batteries rp). rd_level r \<le> 100" and "b \<in> set (report_batteries rp)"
  shows "b_percentage b \<le> 100"
  using assms by (auto simp: report_batteries_def report_battery_def readings_def split: option.splits)

text \<open>C39.
  A Maestro session publishes what the buds last reported: after any input the peer's report is the
  last one received, with the case reading of the last report that carried one (marked as last known,
  its charging state unknown, when later reports left it out); every level shown is a percentage; and
  no other peer's report is touched.
\<close>

theorem maestro_report_follows_session:
  assumes "hm_get (mp_reports p) a = None" and "fst (snd (subscribe ins)) \<noteq> []"
  shows "hm_get (mp_reports (run_maestro p a ins)) a = Some (session_report (fst (snd (subscribe ins))))
    \<and> (\<forall>b \<in> set (maestro_batteries (run_maestro p a ins) a). b_percentage b \<le> 100)
    \<and> (\<forall>a'. a' \<noteq> a \<longrightarrow> hm_get (mp_reports (run_maestro p a ins)) a' = hm_get (mp_reports p) a')"
proof -
  let ?bs = "fst (snd (subscribe ins))"
  have levels: "\<forall>b \<in> set ?bs. \<forall>r \<in> readings b. rd_level r \<le> 100"
    by (auto simp: subscribe_def case_prod_beta Let_def split: sum.splits dest: follow_levels)
  have got: "hm_get (mp_reports (run_maestro p a ins)) a = Some (session_report ?bs)"
    unfolding run_maestro_def by (rule run_store [OF assms])
  then have "\<forall>b \<in> set (maestro_batteries (run_maestro p a ins) a). b_percentage b \<le> 100"
    using report_batteries_levels [OF session_report_levels [OF assms(2) levels]]
    by (auto simp: maestro_batteries_def)
  with got show ?thesis using run_store_other [of _ a p ?bs] by (auto simp: run_maestro_def)
qed

definition demo_announcement :: packet where
  "demo_announcement = packet_default\<lparr>pk_kind := RPC_RESPONSE, pk_channel := fst (hd CHANNELS),
     pk_service := MAESTRO_SERVICE, pk_method := GET_SOFTWARE_INFO\<rparr>"

definition demo_update :: packet where
  "demo_update = packet_default\<lparr>pk_kind := RPC_SERVER_STREAM, pk_channel := fst (hd CHANNELS),
     pk_service := MAESTRO_SERVICE, pk_method := SUBSCRIBE_RUNTIME_INFO, pk_call := SUBSCRIBE_CALL,
     pk_payload := [0x32, 4, 0x12, 2, 8, 50]\<rparr>"

lemma demo_session_reports:
  "fst (snd (subscribe [Packet demo_announcement, Packet demo_update]))
    = [batteries_default\<lparr>bt_left := Some \<lparr>rd_level = 50, rd_charging = None\<rparr>\<rparr>]"
proof -
  have v: "read_varint [0x32, 4, 0x12, 2, 8, 50] = Inr (0x32, [4, 0x12, 2, 8, 50])"
      "read_varint [4, 0x12, 2, 8, 50] = Inr (4, [0x12, 2, 8, 50])"
      "read_varint [0x12, 2, 8, 50] = Inr (0x12, [2, 8, 50])" "read_varint [2, 8, 50] = Inr (2, [8, 50])"
      "read_varint [8, 50] = Inr (8, [50])" "read_varint [50] = Inr (50, [])"
    by code_simp+
  have k: "drop_bit 3 (0x32 :: u32) = 6" "(0x32 :: u32) AND 7 = 2" "drop_bit 3 (0x12 :: u32) = 2"
      "(0x12 :: u32) AND 7 = 2" "drop_bit 3 (8 :: u32) = 1" "(8 :: u32) AND 7 = 0"
    by code_simp+
  have f: "pb_fields [0x32, 4, 0x12, 2, 8, 50] = Inr [(6, BytesV [0x12, 2, 8, 50])]"
      "pb_fields [0x12, 2, 8, 50] = Inr [(2, BytesV [8, 50])]" "pb_fields [8, 50] = Inr [(1, Varint 50)]"
    by (simp_all add: pb_fields.simps [of "_ # _"] read_field_def read_value_def take_bytes_def
        word_try_from_def v k Let_def)
  have r: "runtime_batteries [0x32, 4, 0x12, 2, 8, 50]
      = Inr (Some (batteries_default\<lparr>bt_left := Some \<lparr>rd_level = 50, rd_charging = None\<rparr>\<rparr>))"
    by (simp add: runtime_batteries_def f decode_reading_def word_try_from_def)
  show ?thesis
    by (simp add: subscribe_def demo_announcement_def demo_update_def announced_channel_def CHANNELS_def
        subscription_update_def r case_prod_beta Let_def)
qed

theorem maestro_report_follows_session_witness:
  "hm_get (mp_reports (run_maestro \<lparr>mp_reports = [], mp_changes = 0\<rparr> [1] [Packet demo_announcement, Packet demo_update]))
     [1] = Some (session_report [batteries_default\<lparr>bt_left := Some \<lparr>rd_level = 50, rd_charging = None\<rparr>\<rparr>])"
  using maestro_report_follows_session [of "\<lparr>mp_reports = [], mp_changes = 0\<rparr>" "[1]"
      "[Packet demo_announcement, Packet demo_update]"]
  by (simp add: demo_session_reports hm_defs)

end
