(* ===== verification/Spec2Isabelle.thy ===== *)
theory Spec2Isabelle
  imports Recovery StateFiles Catalog Operations Routing OwnerWatch DaemonAudio Protocol Subscription DeviceOps Snapshot Monitor BluezSession
    Scan Stores Daemon Identity IdentityWriter Pairing ObexIncoming Telemetry RssiHelper
    FastPairLinks FastPairCommands FastPairProvider MaestroSession SonySession
begin

text \<open>
  A verification development for \<open>bt-daemon\<close>, the Bluetooth daemon of a desktop shell. The daemon
  serves frontends over a Unix socket, drives BlueZ over D-Bus, and speaks three vendor protocols to
  headphones over RFCOMM or L2CAP streams: Sony control, Google Maestro and Google Fast Pair. A small
  privileged helper reads the signal strength of connections from the kernel.

  \<^bold>\<open>Parts and theories.\<close> Each theory follows one part of the source, its records and operations in the
  order of the code, and states the part's own properties; the properties here span several parts.

  \<^item> \<open>Prelude\<close>: byte and word types, big- and little-endian bytes, results (\<open>error + 'a\<close>, with \<open>res_bind\<close>
    for \<open>?\<close>), hash maps as association lists with distinct keys (\<open>hm_get\<close>, \<open>hm_insert\<close>, \<open>hm_remove\<close>), and
    instants as natural numbers of nanoseconds. Its locale \<open>step_system\<close> is what a component whose tasks interleave
    shows of its invariant; it is interpreted for \<open>OwnerWatch\<close>, \<open>Recovery\<close> and \<open>ObexIncoming\<close>.
  \<^item> \<open>Framing\<close> (\<open>src/framing.rs\<close>): byte stuffing, the delimiter-driven splitter, the buffered reader. Its
    locales \<open>byte_stuffing\<close> and \<open>chunk_decoder\<close> are what a vendor's codec has to provide; they are
    interpreted for Sony and Maestro.
  \<^item> \<open>SonyProtocol\<close>, \<open>SonySession\<close> (\<open>src/sony/protocol.rs\<close>, \<open>src/sony.rs\<close>): frames and payloads; the writer
    task as a step relation, the reader, the stored noise-control state.
  \<^item> \<open>MaestroProtocol\<close>, \<open>MaestroSession\<close> (\<open>src/maestro/protocol.rs\<close>, \<open>src/maestro.rs\<close>): varints, protobuf
    fields, pw_rpc packets, CRC-32 and HDLC; the subscription session and the report per peer.
  \<^item> \<open>Model\<close> (\<open>src/model.rs\<close>, \<open>src/model/icons.rs\<close>): batteries, text from remote devices, presentation.
  \<^item> \<open>VendorLinks\<close> (\<open>src/vendor_channel.rs\<close>): attempts, retries and accepted channels per peer. Its locale
    \<open>attempt_fence\<close> states how numbered attempts fence late reports; it is interpreted here and for
    \<open>FastPairLinks\<close> (\<open>src/fast_pair/retry.rs\<close>, \<open>ConnectionState\<close> of \<open>src/fast_pair.rs\<close>).
  \<^item> \<open>FastPairWire\<close>, \<open>FastPairCommands\<close>, \<open>FastPairProvider\<close> (\<open>src/fast_pair.rs\<close> and its submodules): message
    formats, the frame decoder, advertisements; pending commands with generations; the provider's
    state, how it applies frames, its controls, features and pairing windows.
  \<^item> \<open>RssiHelper\<close> (\<open>src/rssi_helper.rs\<close>, \<open>mgmt.rs\<close>, \<open>client.rs\<close>): the privileged helper.
  \<^item> \<open>Telemetry\<close> (\<open>src/bluez/link_signal.rs\<close>, \<open>observations.rs\<close>, \<open>disconnect.rs\<close>, \<open>src/rfkill.rs\<close>): signal
    readings with epochs, observations, the disconnect history, the radio switches.
  \<^item> \<open>Backend\<close> (\<open>src/backend.rs\<close>): parameters, error kinds and operation names.
  \<^item> \<open>Scan\<close> (\<open>src/daemon/scan.rs\<close>): scans as leases on adapters.
  \<^item> \<open>Stores\<close> (\<open>src/fast_pair/keys.rs\<close>, \<open>src/management.rs\<close>): account keys and policies with their files; the
    locale \<open>durable_store\<close> states that memory follows the disk and is interpreted for both.
  \<^item> \<open>Daemon\<close> (\<open>src/daemon/operation.rs\<close>, \<open>src/daemon/published.rs\<close>, \<open>src/bluez/recovery/owner.rs\<close>): the life
    of a device operation, watermarked publication, replacement of the backend.
  \<^item> \<open>Api\<close> (\<open>src/api.rs\<close>, \<open>src/api/adapter.rs\<close>, \<open>src/task.rs\<close>): validation and dispatch of requests to a
    backend, which is a record of operations on a world; submitted adapter patches; the gates per object.
  \<^item> \<open>Operations\<close> (\<open>src/daemon/operation.rs\<close>): the coordinator of device operations over the core crate's table;
    each operation of it runs through the life that \<open>Daemon\<close> describes.
  \<^item> \<open>Protocol\<close>, \<open>Subscription\<close>, \<open>Routing\<close>, \<open>OwnerWatch\<close> (\<open>src/protocol.rs\<close>, \<open>src/daemon/subscription.rs\<close>,
    \<open>src/daemon.rs\<close>): the registry of methods, streams and errors; the shared snapshot and what subscriptions
    forward; how calls, cancellations and refreshes reach the parts; the watch that cancels the requests of a
    client that left the bus, as a step relation of its tasks.
  \<^item> \<open>Identity\<close>, \<open>IdentityWriter\<close> (\<open>src/identity.rs\<close>, \<open>src/identity/persistence.rs\<close>): opaque keys of adapters and
    devices, the migration of old entries, the remembered presentation; the thread that writes them to disk.
  \<^item> \<open>Pairing\<close> (\<open>src/pairing.rs\<close>): prompts and displays of the pairing agent, their answers and deadlines.
  \<^item> \<open>Obex\<close>, \<open>ObexIncoming\<close> (\<open>src/obex.rs\<close>, \<open>src/obex/authorization.rs\<close>, \<open>src/daemon/obex.rs\<close>): names and
    reserved destinations, the loop that follows a transfer, the consent to incoming files, outgoing transfers.
  \<^item> \<open>Audio\<close>, \<open>AudioChange\<close>, \<open>DaemonAudio\<close> (\<open>src/audio.rs\<close>, \<open>src/audio/\<close>, \<open>src/daemon/audio.rs\<close>,
    \<open>src/model/audio_wire.rs\<close>): what a probe of PipeWire collects and how it is ordered; the two confirmed changes
    and the change monitor as folds over callbacks; the clients' audio requests.
  \<^item> \<open>DeviceOps\<close>, \<open>BluezSession\<close> (\<open>src/bluez.rs\<close>, \<open>src/bluez/operations.rs\<close>): the plan and the steps of each
    device operation; discovery, power, the startup policy and reconnection after sleep. Effects are functions
    of a world \<open>'w\<close> to a new world and an answer, which may be an error with its chain of causes.
  \<^item> \<open>Recovery\<close> (\<open>src/bluez/recovery.rs\<close>): the generations of the backend with their workers and agents, as a step
    relation over the points at which the replacing future waits.
  \<^item> \<open>StateFiles\<close>, \<open>Catalog\<close> (\<open>src/management.rs\<close>, \<open>src/fast_pair/keys.rs\<close>, \<open>src/fast_pair/metadata.rs\<close>): what is
    written to the state files and read back at a start; the trusted catalog of models.
  \<^item> \<open>Snapshot\<close> (\<open>src/bluez/snapshot.rs\<close>, \<open>src/bluez/snapshot/assembly.rs\<close>, the snapshot types of
    \<open>src/model.rs\<close>): the assembly of adapters and devices from evidence, and the cache of absent devices.
  \<^item> \<open>Monitor\<close> (\<open>src/bluez/monitor.rs\<close>, the sweep of \<open>src/bluez/link_signal.rs\<close>): subscriptions to BlueZ objects
    and what their events do to the caches.


  \<^bold>\<open>How code becomes definitions.\<close> A method on \<open>&mut self\<close> is a function from the record of its state to
  the new record and its result; the time it reads (\<open>Instant::now\<close>), random bytes and the answers of
  BlueZ, of the kernel or of a file system are arguments. Errors are values of sum types, with one
  constructor for each message that code distinguishes. Critical sections under one lock are one
  step; what tasks do between locks is a list of events, or a step relation where several tasks
  interleave. Machine integers keep their width: attempt, generation and epoch counters are \<open>u64\<close>
  words with the wrapping or checked increment of the source.

  \<^bold>\<open>What the theorems show.\<close> Round trips and resynchronisation of the three wire formats under every
  chunking; detection of corrupted frames; one command in flight per Sony session; that late reports
  of retired attempts, polls and reservations change nothing; that privileged reads, control frames,
  incoming files and offered features are guarded by exactly the required state or consent; that stores
  keep memory and disk equal when saves fail and that a flush is answered after the write; leases,
  ordering and single terminal events of scans, prompts, transfers and operations; that failed
  discoveries and removals leave what they must; that two generations of the backend never run at once and
  recovery resumes; that a restart finds the policies and keys it left; that snapshots are coherent and what the cache shows of
  an absent device is its own reassembly; that a departed client, adapter or device leaves nothing behind.

  \<^bold>\<open>Bounds and termination.\<close> All functions are total; loops are structural or have a measure. Loops that
  wait for the outside (readers, select loops, the cleanup retry of a scan) take the finite list of
  what they receive. Theorems about wrapping counters assume fewer than \<open>2 ^ 64\<close> calls; checked counters
  need no assumption. Sony commands are bounded by 2000 bytes, far above the eight bytes the daemon
  ever sends, because larger frames are dropped by the peer's 4096-byte splitter.

  \<^bold>\<open>Not modelled.\<close> D-Bus, socket, file and process I/O; task spawning and cancellation by drop beyond the
  steps above; AES, SHA-256 and elliptic curves, which are parameters; GATT provisioning; registration of
  profiles and agents with BlueZ; the daemon framework's envelopes, channels and admission, which are
  crates outside this repository; start-up, the command line and logging. Parts left out as a whole are
  listed with their reasons in the project's manifest.
\<close>

section \<open>Properties that span components\<close>



text \<open>C14.
  A Maestro session recovers from garbage: after any bytes, cut into any reads, the next well-formed
  frame on the wire is handed to the session as the packet that was encoded.
\<close>

theorem maestro_reader_recovers:
  assumes "length (pk_payload p) < 2 ^ 64"
    and "length (encode_frame address (encode_packet p)) \<le> MAX_FRAME + 1"
    and "concat chunks = garbage @ encode_frame address (encode_packet p)"
    and "\<forall>c \<in> set chunks. c \<noteq> []"
  shows "\<exists>ps. Framing.drain maestro_push (reader_new df_default) (map Inr chunks) = (ps @ [p], None :: unit option)"
proof -
  obtain fs where "maestro_push df_default (garbage @ encode_frame address (encode_packet p))
      = (\<lparr>df_body = [], df_open = True\<rparr>, fs @ [Inr p])"
    using maestro_resync [OF df_inv_default assms(1,2)] by blast
  then show ?thesis
    using maestro_stream.drain_frames [OF assms(4), of "[]" "()" "reader_new df_default"] assms(3)
    by (simp add: reader_new_def)
qed

theorem maestro_reader_recovers_witness:
  "\<exists>ps. Framing.drain maestro_push (reader_new df_default) (map Inr [[7, 9], encode_frame 0 (encode_packet packet_default)])
    = (ps @ [packet_default], None :: unit option)"
proof (rule maestro_reader_recovers)
  let ?content = "frame_content 0 (encode_packet packet_default)"
  have "length ?content = 2" by code_simp
  then have "length (encode_frame 0 (encode_packet packet_default)) \<le> 14"
    using length_stuff_le [of "(MAESTRO_FLAG, MAESTRO_FLAG)" MAESTRO_ESCAPE maestro_xor "?content @ le32_bytes (crc32 ?content)"]
    by (simp add: encode_frame_def Let_def escape_def le32_bytes_def)
  then show "length (encode_frame 0 (encode_packet packet_default)) \<le> MAX_FRAME + 1" by (simp add: MAX_FRAME_def)
qed (simp_all add: packet_default_def encode_frame_def escape_def Let_def)

end
